(* ===== verification/Prelude.thy ===== *)
theory Prelude
  imports Main "HOL-Library.Word" "HOL-Library.Multiset"
begin

text \<open>
  Shared ground of the development: the machine integers of the server, the ways in
  which a C++ operation can leave the defined behaviour of the language, the random
  draws, the single-precision multiplications, and the list lemmas that several
  components use.
\<close>

section \<open>Integers\<close>

type_synonym u8 = "8 word"
type_synonym u16 = "16 word"
type_synonym u32 = "32 word"
type_synonym u64 = "64 word"

text \<open>
  \<open>int\<close>, \<open>int32_t\<close> are two's complement 32-bit values.  The game arithmetic is written on
  \<^typ>\<open>int\<close> with the wrap-around of every sum, difference and product made explicit by
  \<open>i32\<close> (signed overflow is undefined in the language; the only compiler of the project,
  MSVC, wraps).
\<close>

definition INT_MAX :: int where "INT_MAX = 2147483647"
definition INT_MIN :: int where "INT_MIN = - 2147483648"

definition i32 :: "int \<Rightarrow> int" where
  "i32 x = (x + 2147483648) mod 4294967296 - 2147483648"

definition in_i32 :: "int \<Rightarrow> bool" where
  "in_i32 x \<longleftrightarrow> INT_MIN \<le> x \<and> x \<le> INT_MAX"

lemma i32_id: "INT_MIN \<le> x \<Longrightarrow> x \<le> INT_MAX \<Longrightarrow> i32 x = x"
  by (simp add: i32_def INT_MIN_def INT_MAX_def)

lemma i32_upper: "i32 x \<le> INT_MAX"
proof -
  have "(x + 2147483648) mod 4294967296 < 4294967296" by simp
  then show ?thesis unfolding i32_def INT_MAX_def by linarith
qed

lemma i32_lower: "INT_MIN \<le> i32 x"
proof -
  have "0 \<le> (x + 2147483648) mod 4294967296" by simp
  then show ?thesis unfolding i32_def INT_MIN_def by linarith
qed

lemma in_i32_i32 [simp]: "in_i32 (i32 x)"
  by (simp add: in_i32_def i32_lower i32_upper)

lemma i32_in: "in_i32 x \<Longrightarrow> i32 x = x"
  by (simp add: in_i32_def i32_id)

lemma i32_i32 [simp]: "i32 (i32 x) = i32 x"
  by (rule i32_in) simp

text \<open>Division of the language: it truncates towards zero, and traps on zero.\<close>

definition c_div :: "int \<Rightarrow> int \<Rightarrow> int" where
  "c_div a b = sgn a * sgn b * (\<bar>a\<bar> div \<bar>b\<bar>)"

lemma c_div_nonneg: "0 \<le> a \<Longrightarrow> 0 < b \<Longrightarrow> c_div a b = a div b"
  by (cases "a = 0") (auto simp: c_div_def)

section \<open>Leaving the defined behaviour\<close>

text \<open>
  What a C++ operation of the server can do instead of returning: index an array out of its
  bounds, follow a null pointer, divide by zero, dereference the iterator of an empty
  container, fail an \<open>assert\<close>, convert a floating-point value that does not fit.
\<close>

datatype error =
  OutOfBounds | NullDeref | DivByZero | EmptyContainer | AssertFailed | BadConversion

type_synonym 'a result = "error + 'a"

definition rbind :: "'a result \<Rightarrow> ('a \<Rightarrow> 'b result) \<Rightarrow> 'b result" where
  "rbind m f = (case m of Inl e \<Rightarrow> Inl e | Inr x \<Rightarrow> f x)"

lemma rbind_simps [simp]:
  "rbind (Inl e) f = Inl e"
  "rbind (Inr x) f = f x"
  by (simp_all add: rbind_def)

lemma rbind_Inr_iff: "rbind m f = Inr y \<longleftrightarrow> (\<exists>x. m = Inr x \<and> f x = Inr y)"
  by (cases m) auto

lemma rbind_InrE:
  assumes "rbind m f = Inr y"
  obtains x where "m = Inr x" and "f x = Inr y"
  using assms by (auto simp: rbind_Inr_iff)

text \<open>What holds of the value of a result, if it has one; the rules follow the shape of a program.\<close>

definition post :: "('a \<Rightarrow> bool) \<Rightarrow> 'a result \<Rightarrow> bool" where
  "post P m \<longleftrightarrow> (\<forall>x. m = Inr x \<longrightarrow> P x)"

named_theorems post_intros

lemma post_Inl [post_intros]: "post P (Inl e)"
  and post_Inr [post_intros]: "P x \<Longrightarrow> post P (Inr x)"
  and post_if [post_intros]: "(t \<Longrightarrow> post P m) \<Longrightarrow> (\<not> t \<Longrightarrow> post P n) \<Longrightarrow> post P (if t then m else n)"
  and post_option [post_intros]: "(z = None \<Longrightarrow> post P m) \<Longrightarrow> (\<And>a. z = Some a \<Longrightarrow> post P (f a)) \<Longrightarrow>
    post P (case z of None \<Rightarrow> m | Some a \<Rightarrow> f a)"
  and post_rbind [post_intros]: "(\<And>b. k = Inr b \<Longrightarrow> post P (g b)) \<Longrightarrow> post P (rbind k g)"
  and post_prod [post_intros]: "(\<And>c d. q = (c, d) \<Longrightarrow> post P (h c d)) \<Longrightarrow> post P (case q of (c, d) \<Rightarrow> h c d)"
  by (auto simp: post_def rbind_Inr_iff split: option.split prod.split)

lemma postD: "post P m \<Longrightarrow> m = Inr x \<Longrightarrow> P x"
  by (simp add: post_def)

definition at_idx :: "'a list \<Rightarrow> nat \<Rightarrow> 'a result" where
  "at_idx xs i = (if i < length xs then Inr (xs ! i) else Inl OutOfBounds)"

lemma at_idx_Inr [simp]: "at_idx xs i = Inr x \<longleftrightarrow> i < length xs \<and> x = xs ! i"
  by (auto simp: at_idx_def)

lemma at_idx_Inl: "at_idx xs i = Inl e \<longleftrightarrow> length xs \<le> i \<and> e = OutOfBounds"
  by (auto simp: at_idx_def)

section \<open>Random draws\<close>

text \<open>
  The engine of \<open>Random<Type>\<close> is seeded from the hardware; a run of the server is
  parameterised by the raw values it draws, a list that is read from the front (and reads as
  zeros once exhausted, so that every finite list stands for one complete behaviour).  A draw
  maps a raw value into the closed interval of the distribution, whose ends the constructor
  orders; every value of the interval is reached by some raw value.
\<close>

fun next_raw :: "nat list \<Rightarrow> nat \<times> nat list" where
  "next_raw [] = (0, [])"
| "next_raw (r # rs) = (r, rs)"

definition Random_draw :: "int \<Rightarrow> int \<Rightarrow> nat list \<Rightarrow> int \<times> nat list" where
  "Random_draw a b rs =
     (let lo = min a b; hi = max a b; raw = next_raw rs
      in (lo + int (fst raw) mod (hi - lo + 1), snd raw))"

lemma Random_draw_range:
  "a \<le> b \<Longrightarrow> a \<le> fst (Random_draw a b rs) \<and> fst (Random_draw a b rs) \<le> b"
proof -
  assume ab: "a \<le> b"
  define m where "m = int (fst (next_raw rs)) mod (b - a + 1)"
  have "0 \<le> m \<and> m < b - a + 1"
    unfolding m_def using ab by (intro conjI pos_mod_sign pos_mod_bound) auto
  then show ?thesis using ab by (simp add: Random_draw_def Let_def m_def [symmetric])
qed

lemma Random_draw_lower: "a \<le> b \<Longrightarrow> a \<le> fst (Random_draw a b rs)"
  and Random_draw_upper: "a \<le> b \<Longrightarrow> fst (Random_draw a b rs) \<le> b"
  using Random_draw_range by blast+

lemma Random_draw_surj:
  assumes "a \<le> v" and "v \<le> b"
  shows "\<exists>r. Random_draw a b (r # rs) = (v, rs)"
proof
  show "Random_draw a b (nat (v - a) # rs) = (v, rs)"
    using assms by (simp add: Random_draw_def Let_def)
qed

section \<open>Single-precision multiplication\<close>

text \<open>
  \<open>n * c\<close> for an \<open>int\<close> and a \<open>float\<close> constant converts \<open>n\<close> to the nearest float (24 bits of
  significand, ties to even), multiplies, rounds once more and truncates towards zero when the
  result is stored in an \<open>int\<close>.  The constant is given by its significand and its (negated)
  exponent: \<open>0.5f\<close> is (1, 1), \<open>0.25f\<close> is (1, 2), \<open>0.4f\<close> is (13421773, 25).
\<close>

fun bit_len :: "nat \<Rightarrow> nat" where
  "bit_len n = (if n = 0 then 0 else Suc (bit_len (n div 2)))"

declare bit_len.simps [simp del]

definition round24 :: "nat \<Rightarrow> nat" where
  "round24 n =
     (let s = bit_len n - 24; q = n div 2 ^ s; r = n mod 2 ^ s; h = 2 ^ s div 2
      in if s = 0 then n
         else if h < r \<or> (r = h \<and> odd q) then (q + 1) * 2 ^ s else q * 2 ^ s)"

definition f32_mul :: "int \<Rightarrow> nat \<Rightarrow> nat \<Rightarrow> int" where
  "f32_mul n m e = sgn n * int (round24 (round24 (nat \<bar>n\<bar>) * m) div 2 ^ e)"

lemma bit_len_0 [simp]: "bit_len 0 = 0"
  by (simp add: bit_len.simps)

lemma bit_len_less: "n < 2 ^ bit_len n"
proof (induction n rule: bit_len.induct)
  case (1 n)
  show ?case
  proof (cases "n = 0")
    case True
    then show ?thesis by (simp add: bit_len.simps)
  next
    case False
    with 1 have "n div 2 < 2 ^ bit_len (n div 2)" by simp
    then show ?thesis using False by (subst bit_len.simps) simp
  qed
qed

lemma bit_len_ge: "n \<noteq> 0 \<Longrightarrow> 2 ^ (bit_len n - 1) \<le> n"
proof (induction n rule: bit_len.induct)
  case (1 n)
  show ?case
  proof (cases "n div 2 = 0")
    case True
    with "1.prems" show ?thesis by (simp add: bit_len.simps [of n] bit_len.simps [of 0])
  next
    case False
    with 1 have "2 ^ (bit_len (n div 2) - 1) \<le> n div 2" by simp
    moreover have "0 < bit_len (n div 2)" using False by (subst bit_len.simps) simp
    ultimately have "2 ^ bit_len (n div 2) \<le> n"
      by (cases "bit_len (n div 2)") auto
    then show ?thesis using "1.prems" by (subst bit_len.simps) simp
  qed
qed

lemma bit_len_mono_bound: "n < 2 ^ k \<Longrightarrow> bit_len n \<le> k"
proof (rule ccontr)
  assume n: "n < 2 ^ k" and "\<not> bit_len n \<le> k"
  then have k: "k \<le> bit_len n - 1" and "n \<noteq> 0"
    by (arith, cases "n = 0", simp_all)
  have "(2::nat) ^ k \<le> 2 ^ (bit_len n - 1)" using k by (rule power_increasing) simp
  also have "\<dots> \<le> n" using \<open>n \<noteq> 0\<close> by (rule bit_len_ge)
  finally show False using n by simp
qed

lemma round24_exact: "n < 2 ^ 24 \<Longrightarrow> round24 n = n"
  using bit_len_mono_bound [of n 24] by (simp add: round24_def)

lemma round24_le_double: "round24 n \<le> 2 * n"
proof (cases "bit_len n - 24 = 0")
  case True
  then show ?thesis by (simp add: round24_def)
next
  case False
  define s where "s = bit_len n - 24"
  have n0: "n \<noteq> 0" using False by (cases "n = 0") simp_all
  have "2 ^ s \<le> (2::nat) ^ (bit_len n - 1)"
    by (rule power_increasing) (auto simp: s_def)
  then have s: "2 ^ s \<le> n" using bit_len_ge [OF n0] by linarith
  have q: "n div 2 ^ s * 2 ^ s \<le> n" by (rule div_times_less_eq_dividend)
  have "(n div 2 ^ s + 1) * 2 ^ s = n div 2 ^ s * 2 ^ s + 2 ^ s" by simp
  with q s have "(n div 2 ^ s + 1) * 2 ^ s \<le> 2 * n" by linarith
  then show ?thesis
    using False q
    by (auto simp: round24_def Let_def s_def [symmetric])
qed

text \<open>The product of a non-negative value with a constant below one half stays below it.\<close>

lemma f32_mul_bounds:
  assumes n: "0 \<le> n" "n < 2 ^ 24" and c: "2 * m \<le> 2 ^ e"
  shows "0 \<le> f32_mul n m e \<and> f32_mul n m e \<le> n"
proof -
  define k where "k = nat n"
  have nk: "n = int k" using n(1) by (simp add: k_def)
  have k24: "k < 2 ^ 24" using n(2) nk by simp
  have "round24 (k * m) div 2 ^ e \<le> (2 * (k * m)) div 2 ^ e"
    by (rule div_le_mono) (rule round24_le_double)
  also have "\<dots> \<le> (k * 2 ^ e) div 2 ^ e"
    using mult_le_mono2 [OF c, of k] by (intro div_le_mono) (simp add: algebra_simps)
  also have "\<dots> = k" by simp
  finally have le: "round24 (k * m) div 2 ^ e \<le> k" .
  have eq: "f32_mul n m e = sgn (int k) * int (round24 (k * m) div 2 ^ e)"
    by (simp add: f32_mul_def nk round24_exact [OF k24])
  show ?thesis
  proof (cases "k = 0")
    case True
    then show ?thesis using eq nk by simp
  next
    case False
    then have "f32_mul n m e = int (round24 (k * m) div 2 ^ e)" using eq by simp
    then show ?thesis using le nk by (simp del: of_nat_div)
  qed
qed

section \<open>Bytes and lists\<close>

lemma unat_of_nat_back: "of_nat (unat (t :: u8)) = t"
  by simp

lemma uint_unat_int: "int (unat (x :: u8)) = uint x"
  by simp

lemma map_update_same [simp]: "(map f xs)[i := f (xs ! i)] = map f xs"
  by (simp add: map_update [symmetric])

lemma list_all_update: "list_all P xs \<Longrightarrow> P x \<Longrightarrow> list_all P (xs[i := x])"
  using set_update_subset_insert [of xs i x] by (auto simp: list_all_iff)

lemma list_all_nth: "list_all P xs \<Longrightarrow> i < length xs \<Longrightarrow> P (xs ! i)"
  by (simp add: list_all_length)

end
