(* ===== verification/Server_Types.thy ===== *)
theory Server_Types
  imports Prelude
begin

text \<open>
  The constants of \<open>SettingData.h\<close>, the enumerations of \<open>ServerStruct.h\<close>, \<open>ItemBase.h\<close> and
  \<open>Room.h\<close>, and the class \<open>Item\<close> of \<open>Item.h\<close>.  An enumeration constructor that would clash
  with another one carries the first letters of its type.
\<close>

section \<open>Settings\<close>

definition MAX_ROOM_PLAYER :: nat where [simp]: "MAX_ROOM_PLAYER = 8"
definition MAX_BUF_SIZE :: nat where [simp]: "MAX_BUF_SIZE = 1300"
definition MAX_PACKET_SIZE :: nat where [simp]: "MAX_PACKET_SIZE = 1300"
definition MAX_USER :: nat where "MAX_USER = 20000"
definition MAX_USER_NAME_LENGTH :: nat where [simp]: "MAX_USER_NAME_LENGTH = 11"
definition MAX_USING_ITEM_COUNT :: nat where [simp]: "MAX_USING_ITEM_COUNT = 6"
definition MAX_UN_USING_ITEM_COUNT :: nat where [simp]: "MAX_UN_USING_ITEM_COUNT = 10"
definition CHOICE_CHARACTER_TIME :: nat where "CHOICE_CHARACTER_TIME = 60"
definition BATTLE_READY_TIME :: int where [simp]: "BATTLE_READY_TIME = 40"
definition CONNECT_CHECK_INTERVAL :: int where "CONNECT_CHECK_INTERVAL = 30"
definition MAX_ROOM_COUNT :: nat where "MAX_ROOM_COUNT = MAX_USER div MAX_ROOM_PLAYER"
definition MAX_ITEM_UPGRADE :: nat where [simp]: "MAX_ITEM_UPGRADE = 5"
definition DEFAULT_ITEM_TICKET_COUNT :: int where [simp]: "DEFAULT_ITEM_TICKET_COUNT = 0"
definition MAX_CHARACTER_MAX_HP :: int where [simp]: "MAX_CHARACTER_MAX_HP = 100"
definition MAX_AVATAR_MAX_HP :: int where [simp]: "MAX_AVATAR_MAX_HP = 100"
definition START_AVATAR_DEFENSIVE :: int where [simp]: "START_AVATAR_DEFENSIVE = 0"

section \<open>Enumerations\<close>

datatype ESocketStatus = FREE | ALLOCATED | ACTIVE

datatype EItemTicketType = Normal | Advanced | Top | Supreme

datatype EHamburgerType = Fillet | Guinness | WhiteGarlic | Rice

datatype ECreepType = Shrimp | NegativeMan | Hodd | Wakpago | ShortAnswer | Chunsik | KwonMin

datatype EItemTierType = One | Two | Three | Four | Five

datatype EItemType = Attack | Defense | Effect | Heal | ItemType_Empty

datatype ERoomStatusType =
  St_ChoiceCharacter | St_CutSceneStage | St_ReadyStage | St_BattleStage | St_CreepStage

text \<open>
  A character type is stored as the byte the client sends: the enumeration has a fixed
  underlying type, so every byte is a value of it, and the server checks none.
\<close>

type_synonym ECharacterType = u8

definition Character_Woowakgood :: ECharacterType where "Character_Woowakgood = 0"
definition Character_Empty :: ECharacterType where "Character_Empty = 7"

text \<open>The conversions between enumerators and their numbers.\<close>

fun tier_num :: "EItemTierType \<Rightarrow> nat" where
  "tier_num One = 0"
| "tier_num Two = 1"
| "tier_num Three = 2"
| "tier_num Four = 3"
| "tier_num Five = 4"

fun ticket_num :: "EItemTicketType \<Rightarrow> nat" where
  "ticket_num Normal = 0"
| "ticket_num Advanced = 1"
| "ticket_num Top = 2"
| "ticket_num Supreme = 3"

fun hamburger_num :: "EHamburgerType \<Rightarrow> nat" where
  "hamburger_num Fillet = 0"
| "hamburger_num Guinness = 1"
| "hamburger_num WhiteGarlic = 2"
| "hamburger_num Rice = 3"

definition hamburger_of :: "int \<Rightarrow> EHamburgerType" where
  "hamburger_of n =
     (if n = 0 then Fillet else if n = 1 then Guinness else if n = 2 then WhiteGarlic else Rice)"

fun creep_num :: "ECreepType \<Rightarrow> nat" where
  "creep_num Shrimp = 0"
| "creep_num NegativeMan = 1"
| "creep_num Hodd = 2"
| "creep_num Wakpago = 3"
| "creep_num ShortAnswer = 4"
| "creep_num Chunsik = 5"
| "creep_num KwonMin = 6"

definition creep_of :: "nat \<Rightarrow> ECreepType" where
  "creep_of n = [Shrimp, NegativeMan, Hodd, Wakpago, ShortAnswer, Chunsik, KwonMin] ! n"

lemma creep_of_num [simp]: "creep_of (creep_num c) = c"
  by (cases c) (simp_all add: creep_of_def)

lemma tier_num_less: "tier_num t < 5"
  by (cases t) simp_all

lemma tier_num_inj [simp]: "tier_num s = tier_num t \<longleftrightarrow> s = t"
  by (cases s; cases t) simp_all

instantiation EItemTierType :: linorder
begin

definition less_eq_EItemTierType :: "EItemTierType \<Rightarrow> EItemTierType \<Rightarrow> bool" where
  "s \<le> t \<longleftrightarrow> tier_num s \<le> tier_num t"

definition less_EItemTierType :: "EItemTierType \<Rightarrow> EItemTierType \<Rightarrow> bool" where
  "s < t \<longleftrightarrow> tier_num s < tier_num t"

instance
  by intro_classes (auto simp: less_eq_EItemTierType_def less_EItemTierType_def)

end

section \<open>Item\<close>

definition EMPTY_ITEM :: u8 where [simp]: "EMPTY_ITEM = 0"

record item =
  mType :: u8
  mActivePercent :: u8
  mUpgrade :: u8
  mSlot :: u8

text \<open>
  The constructor leaves \<open>mSlot\<close> unset; the slots of a client are set right after it, and no
  other item's slot is read.
\<close>

definition Item_new :: item where
  "Item_new = \<lparr>mType = EMPTY_ITEM, mActivePercent = 0, mUpgrade = 0, mSlot = 0\<rparr>"

definition SetEmptyItem :: "item \<Rightarrow> item" where
  "SetEmptyItem it = it\<lparr>mType := EMPTY_ITEM, mUpgrade := 0\<rparr>"

lemma SetEmptyItem_simps [simp]:
  "mType (SetEmptyItem it) = 0"
  "mUpgrade (SetEmptyItem it) = 0"
  "mActivePercent (SetEmptyItem it) = mActivePercent it"
  "mSlot (SetEmptyItem it) = mSlot it"
  by (simp_all add: SetEmptyItem_def)

text \<open>
  A well-formed item names an entry of the item table (46 of them), has one of the three
  upgrade levels, and is not upgraded when it is the empty item.
\<close>

definition item_ok :: "item \<Rightarrow> bool" where
  "item_ok it \<longleftrightarrow> unat (mType it) < 46 \<and> unat (mUpgrade it) \<le> 2 \<and> (mType it = 0 \<longrightarrow> mUpgrade it = 0)"

lemma item_ok_new [simp]: "item_ok Item_new"
  by (simp add: item_ok_def Item_new_def)

lemma item_ok_empty [simp]: "item_ok (SetEmptyItem it)"
  by (simp add: item_ok_def)

record SlotInfo =
  siIndex :: int
  siItem :: item

end
