(* ===== verification/Slot_Store.thy ===== *)
theory Slot_Store
  imports Server_Types
begin

text \<open>
  The interface through which the server reaches the items of a client: a slot number (a byte)
  is turned into a reference, which is read or written through.  The provider is the class
  \<open>Client\<close>, with its two arrays; the users are the inventory operations and the packet handlers.
  The laws describe both operations by one list of slots, and say that a write touches nothing
  else of the client.
\<close>

locale slot_store =
  fixes look :: "'c \<Rightarrow> u8 \<Rightarrow> 'i result"
    and modi :: "'c \<Rightarrow> u8 \<Rightarrow> ('i \<Rightarrow> 'i) \<Rightarrow> 'c result"
    and slots :: "'c \<Rightarrow> 'i list"
    and shape :: "'c \<Rightarrow> bool"
    and rest :: "'c \<Rightarrow> 'r"
  assumes look_slots: "shape c \<Longrightarrow> look c i = at_idx (slots c) (unat i)"
    and modi_in: "shape c \<Longrightarrow> unat i < length (slots c) \<Longrightarrow> \<exists>c'. modi c i f = Inr c'"
    and modi_out: "shape c \<Longrightarrow> length (slots c) \<le> unat i \<Longrightarrow> modi c i f = Inl OutOfBounds"
    and modi_slots: "shape c \<Longrightarrow> modi c i f = Inr c' \<Longrightarrow>
      slots c' = (slots c)[unat i := f (slots c ! unat i)]"
    and modi_shape: "shape c \<Longrightarrow> modi c i f = Inr c' \<Longrightarrow> shape c'"
    and modi_rest: "shape c \<Longrightarrow> modi c i f = Inr c' \<Longrightarrow> rest c' = rest c"
begin

lemma modi_Inr_bound: "shape c \<Longrightarrow> modi c i f = Inr c' \<Longrightarrow> unat i < length (slots c)"
  using modi_out [of c i f] by (cases "length (slots c) \<le> unat i") auto

lemma modi_defined: "shape c \<Longrightarrow> (\<exists>c'. modi c i f = Inr c') \<longleftrightarrow> unat i < length (slots c)"
  using modi_in modi_Inr_bound by blast

lemma modi_length: "shape c \<Longrightarrow> modi c i f = Inr c' \<Longrightarrow> length (slots c') = length (slots c)"
  by (simp add: modi_slots)

text \<open>A predicate of the items is kept by a write that establishes it in its slot.\<close>

lemma modi_all:
  assumes "shape c" and "modi c i f = Inr c'" and "list_all P (slots c)"
    and "\<And>x. x \<in> set (slots c) \<Longrightarrow> P x \<Longrightarrow> P (f x)"
  shows "list_all P (slots c')"
proof -
  have i: "unat i < length (slots c)" using assms(1,2) by (rule modi_Inr_bound)
  then have "P (f (slots c ! unat i))"
    using assms(3,4) nth_mem [OF i] by (auto simp: list_all_iff)
  then show ?thesis
    using assms(3) set_update_subset_insert [of "slots c" "unat i" "f (slots c ! unat i)"]
    by (auto simp: modi_slots [OF assms(1,2)] list_all_iff)
qed

text \<open>
  Two references, read first and then written crosswise: the exchange that \<open>SwapItem\<close>
  performs, also when both references are the same slot.
\<close>

definition exchange :: "('i \<Rightarrow> 'i \<Rightarrow> 'i) \<Rightarrow> 'c \<Rightarrow> u8 \<Rightarrow> u8 \<Rightarrow> 'c result" where
  "exchange g c i j =
     rbind (look c i) (\<lambda>x. rbind (look c j) (\<lambda>y.
       rbind (modi c j (g x)) (\<lambda>c1. modi c1 i (g y))))"

lemma exchange_defined:
  assumes "shape c"
  shows "(\<exists>c'. exchange g c i j = Inr c') \<longleftrightarrow> unat i < length (slots c) \<and> unat j < length (slots c)"
proof
  assume "\<exists>c'. exchange g c i j = Inr c'"
  then show "unat i < length (slots c) \<and> unat j < length (slots c)"
    using assms by (auto simp: exchange_def rbind_Inr_iff look_slots)
next
  assume ij: "unat i < length (slots c) \<and> unat j < length (slots c)"
  then obtain c1 where c1: "modi c j (g (slots c ! unat i)) = Inr c1"
    using modi_in assms by blast
  have "shape c1" and "length (slots c1) = length (slots c)"
    using modi_shape modi_length assms c1 by blast+
  then obtain c2 where "modi c1 i (g (slots c ! unat j)) = Inr c2"
    using modi_in ij by metis
  then show "\<exists>c'. exchange g c i j = Inr c'"
    using ij c1 assms by (simp add: exchange_def look_slots at_idx_def)
qed

lemma exchange_slots:
  assumes "shape c" and ex: "exchange g c i j = Inr c'"
  shows "slots c' = ((slots c)[unat j := g (slots c ! unat i) (slots c ! unat j)])
           [unat i := g (slots c ! unat j)
              (if i = j then g (slots c ! unat i) (slots c ! unat i) else slots c ! unat i)]"
    and "shape c'" and "rest c' = rest c"
proof -
  from ex obtain c1 where ij: "unat i < length (slots c)" "unat j < length (slots c)"
    and c1: "modi c j (g (slots c ! unat i)) = Inr c1"
    and c2: "modi c1 i (g (slots c ! unat j)) = Inr c'"
    using assms(1) by (auto simp: exchange_def rbind_Inr_iff look_slots)
  have sh: "shape c1" using modi_shape assms(1) c1 by blast
  show "shape c'" using modi_shape sh c2 by blast
  show "rest c' = rest c" using modi_rest assms(1) sh c1 c2 by metis
  show "slots c' = ((slots c)[unat j := g (slots c ! unat i) (slots c ! unat j)])
           [unat i := g (slots c ! unat j)
              (if i = j then g (slots c ! unat i) (slots c ! unat i) else slots c ! unat i)]"
    using ij by (auto simp: modi_slots [OF sh c2] modi_slots [OF assms(1) c1] nth_list_update
        word_unat_eq_iff)
qed

end

end
