(* ===== verification/Item_Table.thy ===== *)
theory Item_Table
  imports Server_Types
begin

text \<open>
  The item table of \<open>Items.h\<close>: for every \<open>ITEM(name, code, tier, type, ...)\<close> its code, tier and
  type, the array \<open>sItems\<close> that the item types index, and the vectors of items per tier from
  which the ticket and combination draws choose.  The effects are in theory \<open>Items\<close>.
\<close>

record ItemBase =
  ibCODE :: nat
  ibTIER_TYPE :: EItemTierType
  ibTYPE :: EItemType

definition ItemEmpty :: ItemBase where
  "ItemEmpty = \<lparr>ibCODE = 0, ibTIER_TYPE = One, ibTYPE = ItemType_Empty\<rparr>"

definition Item001 :: ItemBase where
  "Item001 = \<lparr>ibCODE = 1, ibTIER_TYPE = One, ibTYPE = Attack\<rparr>"

definition Item002 :: ItemBase where
  "Item002 = \<lparr>ibCODE = 2, ibTIER_TYPE = One, ibTYPE = Defense\<rparr>"

definition Item003 :: ItemBase where
  "Item003 = \<lparr>ibCODE = 3, ibTIER_TYPE = One, ibTYPE = Effect\<rparr>"

definition Item004 :: ItemBase where
  "Item004 = \<lparr>ibCODE = 4, ibTIER_TYPE = One, ibTYPE = Attack\<rparr>"

definition Item005 :: ItemBase where
  "Item005 = \<lparr>ibCODE = 5, ibTIER_TYPE = Four, ibTYPE = Attack\<rparr>"

definition Item006 :: ItemBase where
  "Item006 = \<lparr>ibCODE = 6, ibTIER_TYPE = Three, ibTYPE = Heal\<rparr>"

definition Item007 :: ItemBase where
  "Item007 = \<lparr>ibCODE = 7, ibTIER_TYPE = Two, ibTYPE = Effect\<rparr>"

definition Item008 :: ItemBase where
  "Item008 = \<lparr>ibCODE = 8, ibTIER_TYPE = One, ibTYPE = Effect\<rparr>"

definition Item009 :: ItemBase where
  "Item009 = \<lparr>ibCODE = 9, ibTIER_TYPE = Two, ibTYPE = Defense\<rparr>"

definition Item010 :: ItemBase where
  "Item010 = \<lparr>ibCODE = 10, ibTIER_TYPE = Two, ibTYPE = Defense\<rparr>"

definition Item011 :: ItemBase where
  "Item011 = \<lparr>ibCODE = 11, ibTIER_TYPE = Three, ibTYPE = Effect\<rparr>"

definition Item012 :: ItemBase where
  "Item012 = \<lparr>ibCODE = 12, ibTIER_TYPE = Two, ibTYPE = Heal\<rparr>"

definition Item013 :: ItemBase where
  "Item013 = \<lparr>ibCODE = 13, ibTIER_TYPE = Four, ibTYPE = Attack\<rparr>"

definition Item014 :: ItemBase where
  "Item014 = \<lparr>ibCODE = 14, ibTIER_TYPE = Two, ibTYPE = Defense\<rparr>"

definition Item015 :: ItemBase where
  "Item015 = \<lparr>ibCODE = 15, ibTIER_TYPE = Five, ibTYPE = Attack\<rparr>"

definition Item016 :: ItemBase where
  "Item016 = \<lparr>ibCODE = 16, ibTIER_TYPE = Two, ibTYPE = Effect\<rparr>"

definition Item017 :: ItemBase where
  "Item017 = \<lparr>ibCODE = 17, ibTIER_TYPE = Four, ibTYPE = Effect\<rparr>"

definition Item018 :: ItemBase where
  "Item018 = \<lparr>ibCODE = 18, ibTIER_TYPE = Four, ibTYPE = Attack\<rparr>"

definition Item019 :: ItemBase where
  "Item019 = \<lparr>ibCODE = 19, ibTIER_TYPE = Two, ibTYPE = Attack\<rparr>"

definition Item020 :: ItemBase where
  "Item020 = \<lparr>ibCODE = 20, ibTIER_TYPE = Two, ibTYPE = Effect\<rparr>"

definition Item021 :: ItemBase where
  "Item021 = \<lparr>ibCODE = 21, ibTIER_TYPE = Two, ibTYPE = Attack\<rparr>"

definition Item022 :: ItemBase where
  "Item022 = \<lparr>ibCODE = 22, ibTIER_TYPE = Two, ibTYPE = Attack\<rparr>"

definition Item023 :: ItemBase where
  "Item023 = \<lparr>ibCODE = 23, ibTIER_TYPE = Three, ibTYPE = Effect\<rparr>"

definition Item024 :: ItemBase where
  "Item024 = \<lparr>ibCODE = 24, ibTIER_TYPE = Three, ibTYPE = Attack\<rparr>"

definition Item025 :: ItemBase where
  "Item025 = \<lparr>ibCODE = 25, ibTIER_TYPE = Four, ibTYPE = Effect\<rparr>"

definition Item026 :: ItemBase where
  "Item026 = \<lparr>ibCODE = 26, ibTIER_TYPE = Two, ibTYPE = Attack\<rparr>"

definition Item027 :: ItemBase where
  "Item027 = \<lparr>ibCODE = 27, ibTIER_TYPE = Five, ibTYPE = Defense\<rparr>"

definition Item028 :: ItemBase where
  "Item028 = \<lparr>ibCODE = 28, ibTIER_TYPE = Three, ibTYPE = Attack\<rparr>"

definition Item029 :: ItemBase where
  "Item029 = \<lparr>ibCODE = 29, ibTIER_TYPE = Three, ibTYPE = Effect\<rparr>"

definition Item030 :: ItemBase where
  "Item030 = \<lparr>ibCODE = 30, ibTIER_TYPE = Two, ibTYPE = Defense\<rparr>"

definition Item031 :: ItemBase where
  "Item031 = \<lparr>ibCODE = 31, ibTIER_TYPE = Two, ibTYPE = Attack\<rparr>"

definition Item032 :: ItemBase where
  "Item032 = \<lparr>ibCODE = 32, ibTIER_TYPE = Five, ibTYPE = Heal\<rparr>"

definition Item033 :: ItemBase where
  "Item033 = \<lparr>ibCODE = 33, ibTIER_TYPE = One, ibTYPE = Heal\<rparr>"

definition Item034 :: ItemBase where
  "Item034 = \<lparr>ibCODE = 34, ibTIER_TYPE = Three, ibTYPE = Effect\<rparr>"

definition Item035 :: ItemBase where
  "Item035 = \<lparr>ibCODE = 35, ibTIER_TYPE = Three, ibTYPE = Defense\<rparr>"

definition Item036 :: ItemBase where
  "Item036 = \<lparr>ibCODE = 36, ibTIER_TYPE = Three, ibTYPE = Defense\<rparr>"

definition Item037 :: ItemBase where
  "Item037 = \<lparr>ibCODE = 37, ibTIER_TYPE = Two, ibTYPE = Effect\<rparr>"

definition Item038 :: ItemBase where
  "Item038 = \<lparr>ibCODE = 38, ibTIER_TYPE = One, ibTYPE = Attack\<rparr>"

definition Item039 :: ItemBase where
  "Item039 = \<lparr>ibCODE = 39, ibTIER_TYPE = One, ibTYPE = Attack\<rparr>"

definition Item040 :: ItemBase where
  "Item040 = \<lparr>ibCODE = 40, ibTIER_TYPE = One, ibTYPE = Attack\<rparr>"

definition Item041 :: ItemBase where
  "Item041 = \<lparr>ibCODE = 41, ibTIER_TYPE = Two, ibTYPE = Attack\<rparr>"

definition Item042 :: ItemBase where
  "Item042 = \<lparr>ibCODE = 42, ibTIER_TYPE = Two, ibTYPE = Attack\<rparr>"

definition Item043 :: ItemBase where
  "Item043 = \<lparr>ibCODE = 43, ibTIER_TYPE = Two, ibTYPE = Defense\<rparr>"

definition Item044 :: ItemBase where
  "Item044 = \<lparr>ibCODE = 44, ibTIER_TYPE = Two, ibTYPE = Attack\<rparr>"

definition Item045 :: ItemBase where
  "Item045 = \<lparr>ibCODE = 45, ibTIER_TYPE = Two, ibTYPE = Attack\<rparr>"


text \<open>The array indexed by item type.\<close>

definition sItems :: "ItemBase list" where
  "sItems = [ItemEmpty, Item001, Item002, Item003, Item004, Item005, Item006, Item007,
    Item008, Item009, Item010, Item011, Item012, Item013, Item014, Item015,
    Item016, Item017, Item018, Item019, Item020, Item021, Item022, Item023,
    Item024, Item025, Item026, Item027, Item028, Item029, Item030, Item031,
    Item032, Item033, Item034, Item035, Item036, Item037, Item038, Item039,
    Item040, Item041, Item042, Item043, Item044, Item045]"

text \<open>The vectors per tier; their leading underscore is dropped.\<close>

definition sOneTierItems :: "ItemBase list" where
  "sOneTierItems = [Item001, Item002, Item003, Item004, Item008, Item033]"

definition sTwoTierItems :: "ItemBase list" where
  "sTwoTierItems = [Item007, Item009, Item010, Item012, Item014, Item016, Item019, Item020,
    Item021, Item022, Item026, Item030, Item031, Item037]"

definition sThreeTierItems :: "ItemBase list" where
  "sThreeTierItems = [Item006, Item011, Item023, Item024, Item028, Item029, Item034, Item035,
    Item036]"

definition sFourTierItems :: "ItemBase list" where
  "sFourTierItems = [Item005, Item013, Item017, Item018, Item025]"

definition sFiveTierItems :: "ItemBase list" where
  "sFiveTierItems = [Item015, Item027, Item032]"

definition sTierItems :: "ItemBase list list" where
  "sTierItems = [sOneTierItems, sTwoTierItems, sThreeTierItems, sFourTierItems, sFiveTierItems]"

lemmas tier_lists_def =
  sTierItems_def sOneTierItems_def sTwoTierItems_def sThreeTierItems_def sFourTierItems_def
  sFiveTierItems_def

lemmas item_entries_def =
  ItemEmpty_def Item001_def Item002_def Item003_def Item004_def
  Item005_def Item006_def Item007_def Item008_def Item009_def
  Item010_def Item011_def Item012_def Item013_def Item014_def
  Item015_def Item016_def Item017_def Item018_def Item019_def
  Item020_def Item021_def Item022_def Item023_def Item024_def
  Item025_def Item026_def Item027_def Item028_def Item029_def
  Item030_def Item031_def Item032_def Item033_def Item034_def
  Item035_def Item036_def Item037_def Item038_def Item039_def
  Item040_def Item041_def Item042_def Item043_def Item044_def
  Item045_def

lemma length_sItems [simp]: "length sItems = 46"
  by (simp add: sItems_def)

lemma length_sTierItems [simp]: "length sTierItems = 5"
  by (simp add: sTierItems_def)

text \<open>The entry of an item type, with the array bound checked.\<close>

definition item_entry :: "u8 \<Rightarrow> ItemBase result" where
  "item_entry t = at_idx sItems (unat t)"

definition tier_of :: "u8 \<Rightarrow> EItemTierType" where
  "tier_of t = ibTIER_TYPE (sItems ! unat t)"

definition type_of :: "u8 \<Rightarrow> EItemType" where
  "type_of t = ibTYPE (sItems ! unat t)"

lemma item_entry_Inr [simp]: "unat t < 46 \<Longrightarrow> item_entry t = Inr (sItems ! unat t)"
  by (simp add: item_entry_def at_idx_def)

text \<open>Every entry stands at the index of its own code.\<close>

lemma map_CODE_sItems: "map ibCODE sItems = [0..<46]"
  by (simp add: sItems_def item_entries_def upt_rec)

lemma CODE_sItems: "i < 46 \<Longrightarrow> ibCODE (sItems ! i) = i"
  using arg_cong [OF map_CODE_sItems, of "\<lambda>xs. xs ! i"] by simp

text \<open>A tier vector holds exactly the obtainable items (codes 1 to 37) of its tier.\<close>

lemma tier_list_codes:
  "map (map ibCODE) sTierItems =
     [[1, 2, 3, 4, 8, 33], [7, 9, 10, 12, 14, 16, 19, 20, 21, 22, 26, 30, 31, 37],
      [6, 11, 23, 24, 28, 29, 34, 35, 36], [5, 13, 17, 18, 25], [15, 27, 32]]"
  by (simp add: tier_lists_def item_entries_def)

lemma tier_list_tiers:
  "map (map ibTIER_TYPE) sTierItems =
     [replicate 6 One, replicate 14 Two, replicate 9 Three, replicate 5 Four, replicate 3 Five]"
  by (simp add: tier_lists_def item_entries_def numeral_eq_Suc)

end
