(* ===== verification/Client.thy ===== *)
theory Client
  imports Slot_Store Item_Table
begin

text \<open>
  The class \<open>Client\<close> (\<open>Client.h\<close>, \<open>Client.cpp\<close>): the data of one connection and its inventory
  operations.  A client is an entry of the array \<open>sClients\<close>; a pointer to it is its index, and
  \<open>Server::Start\<close> gives the entry at index \<open>i\<close> the network identifier \<open>i\<close> for good.  A pointer to
  a room is the index of the room.  The mutex, the overlapped structure (apart from its receive
  buffer) and the logging are not part of the model.
\<close>

section \<open>The record\<close>

record client =
  clSocket :: "nat option"
  clNetworkID :: int
  clIoBuf :: "u8 list"
  clPrevSize :: int
  clHp :: int
  clAvatarMaxHp :: int
  clAvatarHp :: int
  clAvatarDefensive :: int
  clPacketBuf :: "u8 list"
  clIsAlive :: bool
  clStatus :: ESocketStatus
  clCharacterType :: ECharacterType
  clRoomPtr :: "nat option"
  clName :: "u16 list"
  clUsingItems :: "item list"
  clUnUsingItems :: "item list"
  clFirstAttackState :: int
  clIsChoiceCharacter :: bool
  clLastConnectCheckPacketTime :: int
  clNormalItemTicketCount :: int
  clAdvancedItemTicketCount :: int
  clTopItemTicketCount :: int
  clSupremeItemTicketCount :: int
  clBattleItems :: "item list"
  clRoomOpenCount :: nat

text \<open>The constructor: the activation percentages and the slot numbers are set here only.\<close>

definition Client_new :: "int \<Rightarrow> client" where
  "Client_new networkID =
     \<lparr>clSocket = None, clNetworkID = networkID, clIoBuf = replicate MAX_BUF_SIZE 0,
      clPrevSize = 0, clHp = MAX_CHARACTER_MAX_HP, clAvatarMaxHp = MAX_AVATAR_MAX_HP,
      clAvatarHp = MAX_AVATAR_MAX_HP, clAvatarDefensive = START_AVATAR_DEFENSIVE,
      clPacketBuf = replicate MAX_PACKET_SIZE 0, clIsAlive = False, clStatus = FREE,
      clCharacterType = Character_Empty, clRoomPtr = None,
      clName = replicate MAX_USER_NAME_LENGTH 0,
      clUsingItems = map (\<lambda>(i, p). Item_new\<lparr>mActivePercent := p, mSlot := of_nat i\<rparr>)
        (zip [0..<6] [45, 45, 33, 33, 23, 23]),
      clUnUsingItems = map (\<lambda>i. Item_new\<lparr>mSlot := of_nat (i + 6)\<rparr>) [0..<10],
      clFirstAttackState = 0, clIsChoiceCharacter = False, clLastConnectCheckPacketTime = 0,
      clNormalItemTicketCount = 0, clAdvancedItemTicketCount = 0, clTopItemTicketCount = 0,
      clSupremeItemTicketCount = 0, clBattleItems = replicate MAX_USING_ITEM_COUNT Item_new,
      clRoomOpenCount = 0\<rparr>"

text \<open>
  What \<open>Client::Init\<close> resets besides leaving the room; the call of \<open>Room::RemoveClient\<close> in the
  middle of it belongs to the world (theory \<open>World\<close>).
\<close>

definition Client_reset :: "client \<Rightarrow> client" where
  "Client_reset c = c
     \<lparr>clSocket := None, clPrevSize := 0, clPacketBuf := replicate MAX_PACKET_SIZE 0,
      clIsAlive := False, clCharacterType := Character_Empty, clName := (clName c)[0 := 0],
      clRoomPtr := None,
      clUsingItems := map SetEmptyItem (clUsingItems c),
      clUnUsingItems := map SetEmptyItem (clUnUsingItems c),
      clFirstAttackState := 0, clIsChoiceCharacter := False, clHp := MAX_CHARACTER_MAX_HP,
      clAvatarMaxHp := MAX_AVATAR_MAX_HP, clAvatarHp := MAX_AVATAR_MAX_HP,
      clAvatarDefensive := START_AVATAR_DEFENSIVE, clNormalItemTicketCount := 0,
      clAdvancedItemTicketCount := 0, clTopItemTicketCount := 0, clSupremeItemTicketCount := 0,
      clRoomOpenCount := 0, clStatus := FREE\<rparr>"

section \<open>Hit points and tickets\<close>

definition Client_ToDamage :: "client \<Rightarrow> int \<Rightarrow> client" where
  "Client_ToDamage c damage =
     (let hp = i32 (clHp c - damage) in c\<lparr>clHp := (if hp > 0 then hp else 0)\<rparr>)"

definition Client_ToDamageAvatar :: "client \<Rightarrow> int \<Rightarrow> client" where
  "Client_ToDamageAvatar c damage =
     (let hp = i32 (clAvatarHp c - damage) in c\<lparr>clAvatarHp := (if hp > 0 then hp else 0)\<rparr>)"

definition Client_ToHealAvatar :: "client \<Rightarrow> int \<Rightarrow> client" where
  "Client_ToHealAvatar c heal = c\<lparr>clAvatarHp := i32 (clAvatarHp c + heal)\<rparr>"

fun TicketCount :: "EItemTicketType \<Rightarrow> client \<Rightarrow> int" where
  "TicketCount Normal c = clNormalItemTicketCount c"
| "TicketCount Advanced c = clAdvancedItemTicketCount c"
| "TicketCount Top c = clTopItemTicketCount c"
| "TicketCount Supreme c = clSupremeItemTicketCount c"

fun SetTicketCount :: "EItemTicketType \<Rightarrow> int \<Rightarrow> client \<Rightarrow> client" where
  "SetTicketCount Normal n c = c\<lparr>clNormalItemTicketCount := n\<rparr>"
| "SetTicketCount Advanced n c = c\<lparr>clAdvancedItemTicketCount := n\<rparr>"
| "SetTicketCount Top n c = c\<lparr>clTopItemTicketCount := n\<rparr>"
| "SetTicketCount Supreme n c = c\<lparr>clSupremeItemTicketCount := n\<rparr>"

lemma TicketCount_SetTicketCount:
  "TicketCount t (SetTicketCount t' n c) = (if t = t' then n else TicketCount t c)"
  by (cases t; cases t') simp_all

lemma SetTicketCount_frame [simp]:
  "clUsingItems (SetTicketCount t n c) = clUsingItems c"
  "clUnUsingItems (SetTicketCount t n c) = clUnUsingItems c"
  "clHp (SetTicketCount t n c) = clHp c"
  "clRoomPtr (SetTicketCount t n c) = clRoomPtr c"
  "clNetworkID (SetTicketCount t n c) = clNetworkID c"
  "clSocket (SetTicketCount t n c) = clSocket c"
  "clRoomOpenCount (SetTicketCount t n c) = clRoomOpenCount c"
  "clStatus (SetTicketCount t n c) = clStatus c"
  by (cases t; simp)+

text \<open>The last check packet is \<open>CONNECT_CHECK_INTERVAL\<close> seconds (in milliseconds) old or less.\<close>

definition IsValidConnect :: "client \<Rightarrow> int \<Rightarrow> bool" where
  "IsValidConnect c now =
     (if clLastConnectCheckPacketTime c + CONNECT_CHECK_INTERVAL * 1000 < now then False else True)"

section \<open>Slots\<close>

text \<open>The reference a slot number denotes: read, and written through.\<close>

definition GetItem :: "client \<Rightarrow> u8 \<Rightarrow> item result" where
  "GetItem c index =
     (if unat index < MAX_USING_ITEM_COUNT then at_idx (clUsingItems c) (unat index)
      else at_idx (clUnUsingItems c) (unat index - MAX_USING_ITEM_COUNT))"

definition ModifyItem :: "client \<Rightarrow> u8 \<Rightarrow> (item \<Rightarrow> item) \<Rightarrow> client result" where
  "ModifyItem c index f =
     rbind (GetItem c index) (\<lambda>it. Inr
       (if unat index < MAX_USING_ITEM_COUNT
        then c\<lparr>clUsingItems := (clUsingItems c)[unat index := f it]\<rparr>
        else c\<lparr>clUnUsingItems := (clUnUsingItems c)[unat index - MAX_USING_ITEM_COUNT := f it]\<rparr>))"

text \<open>The guard lets the number of slots itself through.\<close>

definition SetItem :: "client \<Rightarrow> u8 \<Rightarrow> u8 \<Rightarrow> client result" where
  "SetItem c index type =
     (if unat index > MAX_USING_ITEM_COUNT + MAX_UN_USING_ITEM_COUNT then Inr c
      else ModifyItem c index (\<lambda>it. it\<lparr>mType := type\<rparr>))"

definition copy_kind :: "item \<Rightarrow> item \<Rightarrow> item" where
  "copy_kind src it = it\<lparr>mType := mType src, mUpgrade := mUpgrade src\<rparr>"

definition SwapItem :: "client \<Rightarrow> u8 \<Rightarrow> u8 \<Rightarrow> client result" where
  "SwapItem c index1 index2 =
     rbind (GetItem c index1) (\<lambda>item1. rbind (GetItem c index2) (\<lambda>item2.
       rbind (ModifyItem c index2 (copy_kind item1)) (\<lambda>c1.
         ModifyItem c1 index1 (copy_kind item2))))"

fun find_empty :: "item list \<Rightarrow> nat option" where
  "find_empty [] = None"
| "find_empty (it # its) =
     (if mType it = EMPTY_ITEM then Some 0 else map_option Suc (find_empty its))"

definition AddItem :: "client \<Rightarrow> u8 \<Rightarrow> client \<times> u8" where
  "AddItem c type =
     (case find_empty (clUnUsingItems c) of
        Some i \<Rightarrow>
          (c\<lparr>clUnUsingItems := (clUnUsingItems c)[i := (clUnUsingItems c ! i)\<lparr>mType := type\<rparr>]\<rparr>,
           of_nat (i + MAX_USING_ITEM_COUNT))
      | None \<Rightarrow>
          (case find_empty (clUsingItems c) of
             Some i \<Rightarrow>
               (c\<lparr>clUsingItems := (clUsingItems c)[i := (clUsingItems c ! i)\<lparr>mType := type\<rparr>]\<rparr>,
                of_nat i)
           | None \<Rightarrow> (c, of_nat (MAX_UN_USING_ITEM_COUNT + MAX_USING_ITEM_COUNT))))"

definition FindEmptyItemSlotIndex :: "client \<Rightarrow> u8" where
  "FindEmptyItemSlotIndex c =
     (case find_empty (clUnUsingItems c) of
        Some i \<Rightarrow> of_nat (i + MAX_USING_ITEM_COUNT)
      | None \<Rightarrow>
          (case find_empty (clUsingItems c) of
             Some i \<Rightarrow> of_nat i
           | None \<Rightarrow> of_nat (MAX_UN_USING_ITEM_COUNT + MAX_USING_ITEM_COUNT)))"

definition GetValidUsingItems :: "client \<Rightarrow> SlotInfo list" where
  "GetValidUsingItems c =
     map (\<lambda>(i, it). \<lparr>siIndex = int i, siItem = it\<rparr>)
       (filter (\<lambda>(i, it). mType it > EMPTY_ITEM) (enumerate 0 (clUsingItems c)))"

definition GetValidUnUsingItems :: "client \<Rightarrow> SlotInfo list" where
  "GetValidUnUsingItems c =
     map (\<lambda>(i, it). \<lparr>siIndex = int (i + MAX_USING_ITEM_COUNT), siItem = it\<rparr>)
       (filter (\<lambda>(i, it). mType it > EMPTY_ITEM) (enumerate 0 (clUnUsingItems c)))"

text \<open>
  \<open>TrySetDefaultUsingItem\<close>: when nothing is equipped, the valid items of the bag are equipped
  in order, one of each type, until the field is full.  The loop runs over the list of valid
  items taken before it; \<open>slot1\<close> counts the equipped slots.
\<close>

fun set_default_loop ::
  "SlotInfo list \<Rightarrow> u8 list \<Rightarrow> u8 \<Rightarrow> bool \<Rightarrow> client \<Rightarrow> (bool \<times> client) result" where
  "set_default_loop [] usingItemTypes slot1 isSet c = Inr (isSet, c)"
| "set_default_loop (it # its) usingItemTypes slot1 isSet c =
     (if mType (siItem it) \<in> set usingItemTypes
      then set_default_loop its usingItemTypes slot1 isSet c
      else rbind (SwapItem c slot1 (word_of_int (siIndex it))) (\<lambda>c'.
        let used = usingItemTypes @ [mType (siItem it)]
        in if length used = MAX_USING_ITEM_COUNT then Inr (True, c')
           else set_default_loop its used (slot1 + 1) True c'))"

definition TrySetDefaultUsingItem :: "client \<Rightarrow> (bool \<times> client) result" where
  "TrySetDefaultUsingItem c =
     (let validUnUsingItems = GetValidUnUsingItems c
      in if validUnUsingItems \<noteq> [] \<and> GetValidUsingItems c = []
         then set_default_loop validUnUsingItems [] 0 False c
         else Inr (False, c))"

section \<open>Random items\<close>

text \<open>The tier probabilities in percent, per round.\<close>

definition sItemProbability :: "int list list" where
  "sItemProbability =
     [[100, 0, 0, 0, 0], [75, 25, 0, 0, 0], [55, 30, 15, 0, 0], [25, 40, 30, 5, 0],
      [19, 44, 27, 9, 1], [11, 30, 40, 15, 4]]"

text \<open>The loop that subtracts the probabilities of the row until the draw is used up.\<close>

fun tier_loop :: "int \<Rightarrow> int list \<Rightarrow> nat \<Rightarrow> nat" where
  "tier_loop rand [] tier = tier"
| "tier_loop rand (p # ps) tier =
     (let rand' = rand - p in if rand' < 0 then tier else tier_loop rand' ps (tier + 1))"

text \<open>A draw from one vector of items, converted to a byte.\<close>

definition draw_item :: "ItemBase list \<Rightarrow> nat list \<Rightarrow> u8 result \<times> nat list" where
  "draw_item itemList rng =
     (let d = Random_draw 0 (int (length itemList) - 1) rng
      in (map_sum id (\<lambda>ib. of_nat (ibCODE ib)) (at_idx itemList (nat (fst d))), snd d))"

definition with_rng :: "'a result \<times> nat list \<Rightarrow> ('a \<times> nat list) result" where
  "with_rng p = map_sum id (\<lambda>x. (x, snd p)) (fst p)"

text \<open>The round is read through the room pointer, given here as the function \<open>room_round\<close>.\<close>

definition GetRandomItemTypeOfNormalItemTicket ::
  "(nat \<Rightarrow> int) \<Rightarrow> client \<Rightarrow> nat list \<Rightarrow> (u8 \<times> nat list) result" where
  "GetRandomItemTypeOfNormalItemTicket room_round c rng =
     (if clNormalItemTicketCount c = 0 then Inr (EMPTY_ITEM, rng)
      else case clRoomPtr c of
        None \<Rightarrow> Inl NullDeref
      | Some r \<Rightarrow>
          let roomRound = min (room_round r) 5; d = Random_draw 0 99 rng
          in if roomRound < 0 then Inl OutOfBounds
             else rbind (at_idx sItemProbability (nat roomRound)) (\<lambda>row.
               rbind (at_idx sTierItems (tier_loop (fst d) row 0)) (\<lambda>itemVec.
                 with_rng (draw_item itemVec (snd d)))))"

definition GetRandomItemTypeOfAdvancedItemTicket ::
  "client \<Rightarrow> nat list \<Rightarrow> (u8 \<times> nat list) result" where
  "GetRandomItemTypeOfAdvancedItemTicket c rng =
     (if clAdvancedItemTicketCount c = 0 then Inr (EMPTY_ITEM, rng)
      else let d = Random_draw 0 1 rng
        in with_rng (draw_item (if fst d = 0 then sTwoTierItems else sThreeTierItems) (snd d)))"

definition GetRandomItemTypeOfTopItemTicket ::
  "client \<Rightarrow> nat list \<Rightarrow> (u8 \<times> nat list) result" where
  "GetRandomItemTypeOfTopItemTicket c rng =
     (if clTopItemTicketCount c = 0 then Inr (EMPTY_ITEM, rng)
      else let d = Random_draw 0 1 rng
        in with_rng (draw_item (if fst d = 0 then sThreeTierItems else sFourTierItems) (snd d)))"

definition GetRandomItemTypeOfSupremeItemTicket ::
  "client \<Rightarrow> nat list \<Rightarrow> (u8 \<times> nat list) result" where
  "GetRandomItemTypeOfSupremeItemTicket c rng =
     (if clSupremeItemTicketCount c = 0 then Inr (EMPTY_ITEM, rng)
      else with_rng (draw_item sFiveTierItems rng))"

text \<open>The tiers arrive as enumerators cast from the numbers 0 to 4.\<close>

definition GetRandomItemTypeByCombination ::
  "nat \<Rightarrow> nat \<Rightarrow> nat list \<Rightarrow> (u8 \<times> nat list) result" where
  "GetRandomItemTypeByCombination minTier maxTier rng =
     (let d = Random_draw (int minTier) (int maxTier) rng
      in rbind (at_idx sTierItems (nat (fst d))) (\<lambda>itemVec. with_rng (draw_item itemVec (snd d))))"

section \<open>The activation order\<close>

text \<open>
  The slots are drawn without replacement, weighted by their percentages: the weights of the
  slots still outside are summed, and a second pass subtracts them from the draw.
\<close>

fun percent_sum :: "item list \<Rightarrow> bool list \<Rightarrow> int" where
  "percent_sum (it # its) (inc # incs) =
     (if inc = False then uint (mActivePercent it) else 0) + percent_sum its incs"
| "percent_sum _ _ = 0"

fun pick_slot :: "int \<Rightarrow> item list \<Rightarrow> bool list \<Rightarrow> nat option" where
  "pick_slot rand (it # its) (inc # incs) =
     (if inc = False
      then let rand' = rand - uint (mActivePercent it)
           in if rand' < 0 then Some 0 else map_option Suc (pick_slot rand' its incs)
      else map_option Suc (pick_slot rand its incs))"
| "pick_slot rand _ _ = None"

fun active_queue_loop ::
  "nat \<Rightarrow> item list \<Rightarrow> bool list \<Rightarrow> SlotInfo list \<Rightarrow> nat list \<Rightarrow> SlotInfo list \<times> nat list" where
  "active_queue_loop 0 its isInclude activeQueue rng = (activeQueue, rng)"
| "active_queue_loop (Suc n) its isInclude activeQueue rng =
     (let d = Random_draw 0 (percent_sum its isInclude - 1) rng
      in case pick_slot (fst d) its isInclude of
           None \<Rightarrow> active_queue_loop n its isInclude activeQueue (snd d)
         | Some j \<Rightarrow> active_queue_loop n its (isInclude[j := True])
             (activeQueue @ [\<lparr>siIndex = int j, siItem = its ! j\<rparr>]) (snd d))"

definition GetItemActiveQueue :: "client \<Rightarrow> nat list \<Rightarrow> SlotInfo list \<times> nat list" where
  "GetItemActiveQueue c rng =
     active_queue_loop MAX_USING_ITEM_COUNT (clUsingItems c)
       (replicate MAX_USING_ITEM_COUNT False) [] rng"

end
