(* ===== verification/Avatar.thy ===== *)
theory Avatar
  imports Client
begin

text \<open>
  The class \<open>BattleAvatar\<close> (\<open>BattleAvatar.h\<close>, \<open>BattleAvatar.cpp\<close>): the copy of a client that
  fights one battle.  This theory holds the record and the operations on the numbers of an
  avatar; what reaches the client or the room through a pointer of the avatar is in the theory
  \<open>Items\<close>.  The macros \<open>min\<close> and \<open>max\<close> are those of the library.
\<close>

section \<open>The record\<close>

record avatar =
  avClient :: "nat option"
  avRoom :: "nat option"
  avNetworkID :: int
  avMaxHp :: int
  avHp :: int
  avDefensive :: int
  avOffensePower :: int
  avAdditionDefensive :: int
  avWeakening :: int
  avBleeding :: int
  avReducedHealing :: int
  avUsingItem :: "item list"
  avActiveQueue :: "int list"
  avIsGhost :: bool
  avIsFinish :: bool
  avIsCounterAttack :: bool
  avCounterAttackDamage :: int
  avIsCounterHeal :: bool
  avCounterHeal :: int
  avHamburgerType :: EHamburgerType
  avIsEffectHeal :: bool
  avEffectHeal :: int
  avIsInstallBomb :: bool
  avInstallBombDamage :: int
  avEffectItemCount :: int
  avUseKeyCapCount :: int
  avCanDefendNegativeEffect :: bool
  avIsIgnoreNextDamage :: bool
  avIsCharacterDamage :: bool
  avFirstAttackState :: int

definition BattleAvatar_new :: avatar where
  "BattleAvatar_new =
     \<lparr>avClient = None, avRoom = None, avNetworkID = 0, avMaxHp = 0, avHp = 0, avDefensive = 0,
      avOffensePower = 0, avAdditionDefensive = 0, avWeakening = 0, avBleeding = 0,
      avReducedHealing = 0, avUsingItem = replicate MAX_USING_ITEM_COUNT Item_new,
      avActiveQueue = map int [0..<MAX_USING_ITEM_COUNT], avIsGhost = False, avIsFinish = False,
      avIsCounterAttack = False, avCounterAttackDamage = 0, avIsCounterHeal = False,
      avCounterHeal = 0, avHamburgerType = Fillet, avIsEffectHeal = False, avEffectHeal = 0,
      avIsInstallBomb = False, avInstallBombDamage = 0, avEffectItemCount = 0,
      avUseKeyCapCount = 0, avCanDefendNegativeEffect = False, avIsIgnoreNextDamage = False,
      avIsCharacterDamage = False, avFirstAttackState = 0\<rparr>"

text \<open>The client is given by its index and its contents; its six equipped items are copied.\<close>

definition SetAvatar ::
  "nat \<Rightarrow> client \<Rightarrow> nat option \<Rightarrow> int \<Rightarrow> bool \<Rightarrow> int \<Rightarrow> avatar \<Rightarrow> avatar result" where
  "SetAvatar idx client room networkID isGhost round av =
     (if length (clUsingItems client) < MAX_USING_ITEM_COUNT then Inl OutOfBounds
      else let maxHp = 50 + 10 * min 5 round in Inr (av
        \<lparr>avClient := Some idx, avRoom := room, avNetworkID := networkID, avMaxHp := maxHp,
         avHp := maxHp, avDefensive := 0, avOffensePower := 0, avAdditionDefensive := 0,
         avWeakening := 0, avBleeding := 0, avReducedHealing := 0, avIsGhost := isGhost,
         avIsFinish := False, avIsCounterAttack := False, avCounterAttackDamage := 0,
         avIsCounterHeal := False, avCounterHeal := 0, avHamburgerType := Fillet,
         avIsEffectHeal := False, avEffectHeal := 0, avIsInstallBomb := False,
         avInstallBombDamage := 0, avEffectItemCount := 0, avUseKeyCapCount := 0,
         avCanDefendNegativeEffect := False, avIsIgnoreNextDamage := False,
         avIsCharacterDamage := False, avFirstAttackState := clFirstAttackState client,
         avUsingItem := take MAX_USING_ITEM_COUNT (clUsingItems client),
         avActiveQueue := map int [0..<MAX_USING_ITEM_COUNT]\<rparr>))"

text \<open>The length of the queue is asserted.\<close>

definition SetActiveQueue :: "SlotInfo list \<Rightarrow> avatar \<Rightarrow> avatar result" where
  "SetActiveQueue activeQueue av =
     (if length activeQueue \<noteq> MAX_USING_ITEM_COUNT then Inl AssertFailed
      else Inr (av\<lparr>avActiveQueue := map siIndex activeQueue\<rparr>))"

section \<open>Damage\<close>

definition ToDamage :: "int \<Rightarrow> avatar \<Rightarrow> avatar \<Rightarrow> avatar" where
  "ToDamage damage opponent av =
     (if avIsIgnoreNextDamage av then av\<lparr>avIsIgnoreNextDamage := False\<rparr>
      else let damage1 = i32 (damage + avOffensePower opponent);
               damage2 = max 0 (i32 (damage1 - avWeakening opponent));
               oldDefensive = avDefensive av;
               damage3 = max 0 (i32 (damage2 - oldDefensive))
           in av\<lparr>avDefensive := max 0 (i32 (avDefensive av - damage2)),
                 avHp := max 0 (i32 (avHp av - damage3))\<rparr>)"

definition ToPiercingDamage :: "int \<Rightarrow> avatar \<Rightarrow> avatar \<Rightarrow> avatar" where
  "ToPiercingDamage damage opponent av =
     (if avIsIgnoreNextDamage av then av\<lparr>avIsIgnoreNextDamage := False\<rparr>
      else let damage1 = i32 (damage + avOffensePower opponent);
               damage2 = max 0 (i32 (damage1 - avWeakening opponent))
           in av\<lparr>avHp := max 0 (i32 (avHp av - damage2))\<rparr>)"

definition ToJustDamage :: "int \<Rightarrow> avatar \<Rightarrow> avatar" where
  "ToJustDamage damage av = av\<lparr>avHp := max 0 (i32 (avHp av - damage))\<rparr>"

definition EffectBleeding :: "avatar \<Rightarrow> avatar" where
  "EffectBleeding av = av\<lparr>avHp := max 0 (i32 (avHp av - avBleeding av))\<rparr>"

definition EffectBomb :: "avatar \<Rightarrow> avatar" where
  "EffectBomb av =
     (if avIsIgnoreNextDamage av then av\<lparr>avIsIgnoreNextDamage := False\<rparr>
      else let oldDefensive = avDefensive av;
               rest = max 0 (i32 (avInstallBombDamage av - oldDefensive))
           in av\<lparr>avDefensive := max 0 (i32 (avDefensive av - avInstallBombDamage av)),
                 avHp := max 0 (i32 (avHp av - rest)),
                 avInstallBombDamage := 0, avIsInstallBomb := False\<rparr>)"

section \<open>Defence, power and healing\<close>

definition ToDefensive :: "int \<Rightarrow> avatar \<Rightarrow> avatar" where
  "ToDefensive defensive av =
     av\<lparr>avDefensive := max 0 (i32 (i32 (avDefensive av + defensive) + avAdditionDefensive av))\<rparr>"

definition ToOffensePower :: "int \<Rightarrow> avatar \<Rightarrow> avatar" where
  "ToOffensePower offensePower av =
     av\<lparr>avOffensePower := max 0 (i32 (avOffensePower av + offensePower))\<rparr>"

definition ToAdditionDefensive :: "int \<Rightarrow> avatar \<Rightarrow> avatar" where
  "ToAdditionDefensive additionDefensive av =
     av\<lparr>avAdditionDefensive := max 0 (i32 (avAdditionDefensive av + additionDefensive))\<rparr>"

definition ToHeal :: "int \<Rightarrow> avatar \<Rightarrow> avatar" where
  "ToHeal heal av =
     (let heal' = max 0 (i32 (heal - avReducedHealing av))
      in av\<lparr>avHp := min (avMaxHp av) (i32 (avHp av + heal'))\<rparr>)"

definition ToJustHeal :: "int \<Rightarrow> avatar \<Rightarrow> avatar" where
  "ToJustHeal heal av = av\<lparr>avHp := min (avMaxHp av) (i32 (avHp av + heal))\<rparr>"

section \<open>Negative effects, which the cape of the hero takes once\<close>

definition ToWeakening :: "int \<Rightarrow> avatar \<Rightarrow> avatar" where
  "ToWeakening weakening av =
     (if avCanDefendNegativeEffect av then av\<lparr>avCanDefendNegativeEffect := False\<rparr>
      else av\<lparr>avWeakening := max 0 (i32 (avWeakening av + weakening))\<rparr>)"

definition ToBleeding :: "int \<Rightarrow> avatar \<Rightarrow> avatar" where
  "ToBleeding bleeding av =
     (if avCanDefendNegativeEffect av then av\<lparr>avCanDefendNegativeEffect := False\<rparr>
      else av\<lparr>avBleeding := max 0 (i32 (avBleeding av + bleeding))\<rparr>)"

definition ToReducedHealing :: "int \<Rightarrow> avatar \<Rightarrow> avatar" where
  "ToReducedHealing reducedHealing av =
     (if avCanDefendNegativeEffect av then av\<lparr>avCanDefendNegativeEffect := False\<rparr>
      else av\<lparr>avReducedHealing := max 0 (i32 (avReducedHealing av + reducedHealing))\<rparr>)"

definition SetInstallBomb :: "int \<Rightarrow> avatar \<Rightarrow> avatar" where
  "SetInstallBomb bombDamage av =
     (if avCanDefendNegativeEffect av then av\<lparr>avCanDefendNegativeEffect := False\<rparr>
      else av\<lparr>avIsInstallBomb := True,
              avInstallBombDamage := i32 (avInstallBombDamage av + bombDamage)\<rparr>)"

definition Clear :: "avatar \<Rightarrow> avatar" where
  "Clear av = av\<lparr>avBleeding := 0, avWeakening := 0, avReducedHealing := 0,
     avIsInstallBomb := False, avInstallBombDamage := 0\<rparr>"

section \<open>Effects that wait\<close>

definition SetCounterAttack :: "int \<Rightarrow> avatar \<Rightarrow> avatar" where
  "SetCounterAttack counterDamage av =
     av\<lparr>avIsCounterAttack := True,
        avCounterAttackDamage := i32 (avCounterAttackDamage av + counterDamage)\<rparr>"

definition SetCounterHeal :: "int \<Rightarrow> avatar \<Rightarrow> avatar" where
  "SetCounterHeal counterHeal av =
     av\<lparr>avIsCounterHeal := True, avCounterHeal := i32 (avCounterHeal av + counterHeal)\<rparr>"

definition SetEffectHeal :: "int \<Rightarrow> avatar \<Rightarrow> avatar" where
  "SetEffectHeal heal av =
     av\<lparr>avIsEffectHeal := True, avEffectHeal := i32 (avEffectHeal av + heal)\<rparr>"

definition UseKeyCap :: "avatar \<Rightarrow> avatar" where
  "UseKeyCap av = av\<lparr>avUseKeyCapCount := i32 (avUseKeyCapCount av + 1)\<rparr>"

definition SetMaxHP :: "int \<Rightarrow> avatar \<Rightarrow> avatar" where
  "SetMaxHP maxHp av = av\<lparr>avMaxHp := maxHp, avHp := maxHp\<rparr>"

text \<open>The counters of the avatar that was attacked; the result is (attacked, attacker).\<close>

definition EffectCounter :: "avatar \<Rightarrow> avatar \<Rightarrow> avatar \<times> avatar" where
  "EffectCounter av opponent =
     (if avIsFinish av then (av, opponent)
      else
        let (av1, opponent1) =
              (if avIsCounterAttack av
               then let a = av\<lparr>avIsCounterAttack := False\<rparr>
                    in (a\<lparr>avCounterAttackDamage := 0\<rparr>, ToDamage (avCounterAttackDamage a) a opponent)
               else (av, opponent));
            av2 =
              (if avIsCounterHeal av1
               then (ToHeal (avCounterHeal av1) (av1\<lparr>avIsCounterHeal := False\<rparr>))\<lparr>avCounterHeal := 0\<rparr>
               else av1)
        in (av2, opponent1))"

section \<open>Cycles and copies\<close>

definition InitCycle :: "avatar \<Rightarrow> avatar" where
  "InitCycle av = av
     \<lparr>avOffensePower := 0, avAdditionDefensive := 0, avWeakening := 0, avBleeding := 0,
      avReducedHealing := 0, avIsCounterAttack := False, avCounterAttackDamage := 0,
      avIsCounterHeal := False, avCounterHeal := 0, avIsEffectHeal := False, avEffectHeal := 0,
      avIsInstallBomb := False, avInstallBombDamage := 0, avEffectItemCount := 0,
      avCanDefendNegativeEffect := False, avIsIgnoreNextDamage := False\<rparr>"

definition GetItemBySlot :: "avatar \<Rightarrow> nat \<Rightarrow> item result" where
  "GetItemBySlot av slot = at_idx (avUsingItem av) slot"

definition GetRandomHamburgerType :: "nat list \<Rightarrow> EHamburgerType \<times> nat list" where
  "GetRandomHamburgerType rng =
     (let d = Random_draw (int (hamburger_num Fillet)) (int (hamburger_num Rice)) rng
      in (hamburger_of (fst d), snd d))"

text \<open>Neither a hamburger, nor another doctor's tool, nor an empty slot is copied.\<close>

definition GetRandomCopyItem :: "avatar \<Rightarrow> nat list \<Rightarrow> item result \<times> nat list" where
  "GetRandomCopyItem av rng =
     (let validItems = filter (\<lambda>it. mType it \<noteq> 7 \<and> mType it \<noteq> 16 \<and> mType it \<noteq> 0) (avUsingItem av)
      in if validItems \<noteq> []
         then let d = Random_draw 0 (int (length validItems) - 1) rng
              in (at_idx validItems (nat (fst d)), snd d)
         else (Inr (Item_new\<lparr>mType := 16, mUpgrade := 0\<rparr>), rng))"

text \<open>The damage of an avatar to a character: one per item plus the tier of the item.\<close>

fun damage_loop :: "int \<Rightarrow> item list \<Rightarrow> int result" where
  "damage_loop acc [] = Inr acc"
| "damage_loop acc (it # its) =
     (if mType it \<noteq> EMPTY_ITEM
      then rbind (at_idx sItems (unat (mType it))) (\<lambda>ib.
        damage_loop (i32 (acc + (int (tier_num (ibTIER_TYPE ib)) + 1))) its)
      else damage_loop acc its)"

definition GetDamage :: "avatar \<Rightarrow> int result" where
  "GetDamage av = damage_loop 0 (avUsingItem av)"

end
