(* ===== verification/Battle_Manager.thy ===== *)
theory Battle_Manager
  imports Client
begin

text \<open>
  The class \<open>BattleManager\<close> (\<open>BattleManager.h\<close>, \<open>BattleManager.cpp\<close>): who fights whom in a room.
  A pointer to a client is its index; what the code reads through it comes from \<open>cl\<close>, the
  contents of the client array.  \<open>std::shuffle\<close> draws a uniform permutation: it is modelled by
  drawing the elements one after the other.
\<close>

record BattleHistory =
  bhClient :: nat
  bhCount :: nat

record BattleInfo =
  biClient :: nat
  biInfos :: "BattleHistory list"

record BattleManager =
  bmUnMatching :: "BattleInfo list"
  bmMatching :: "BattleInfo list"

definition BattleManager_new :: BattleManager where
  "BattleManager_new = \<lparr>bmUnMatching = [], bmMatching = []\<rparr>"

section \<open>The history of one client\<close>

definition BattleInfo_new :: "(nat \<Rightarrow> client) \<Rightarrow> nat \<Rightarrow> nat list \<Rightarrow> BattleInfo" where
  "BattleInfo_new cl p clients =
     \<lparr>biClient = p,
      biInfos = map (\<lambda>c. \<lparr>bhClient = c, bhCount = 0\<rparr>)
        (filter (\<lambda>c. clNetworkID (cl p) \<noteq> clNetworkID (cl c)) clients)\<rparr>"

fun battle_count :: "BattleHistory list \<Rightarrow> nat \<Rightarrow> nat" where
  "battle_count [] c = 0"
| "battle_count (h # hs) c = (if c = bhClient h then bhCount h else battle_count hs c)"

definition GetBattleCount :: "BattleInfo \<Rightarrow> nat \<Rightarrow> nat" where
  "GetBattleCount b c = battle_count (biInfos b) c"

definition AddBattleCount :: "BattleInfo \<Rightarrow> nat \<Rightarrow> BattleInfo" where
  "AddBattleCount b c = b\<lparr>biInfos :=
     map (\<lambda>h. if bhClient h = c then h\<lparr>bhCount := (bhCount h + 1) mod 2 ^ 64\<rparr> else h) (biInfos b)\<rparr>"

fun erase_history :: "(nat \<Rightarrow> client) \<Rightarrow> int \<Rightarrow> BattleHistory list \<Rightarrow> BattleHistory list" where
  "erase_history cl networkID [] = []"
| "erase_history cl networkID (h # hs) =
     (if clNetworkID (cl (bhClient h)) = networkID then hs else h # erase_history cl networkID hs)"

definition BattleInfo_RemoveClient :: "(nat \<Rightarrow> client) \<Rightarrow> int \<Rightarrow> BattleInfo \<Rightarrow> BattleInfo" where
  "BattleInfo_RemoveClient cl networkID b = b\<lparr>biInfos := erase_history cl networkID (biInfos b)\<rparr>"

section \<open>The members of the room\<close>

text \<open>The loop indexes eight clients, whatever the length of the vector.\<close>

definition BattleManager_SetClients ::
  "(nat \<Rightarrow> client) \<Rightarrow> nat list \<Rightarrow> BattleManager result" where
  "BattleManager_SetClients cl clients =
     (if length clients < MAX_ROOM_PLAYER then Inl OutOfBounds
      else Inr \<lparr>bmUnMatching =
                  map (\<lambda>player. BattleInfo_new cl (clients ! player) clients) [0..<MAX_ROOM_PLAYER],
                bmMatching = []\<rparr>)"

fun remove_info :: "(nat \<Rightarrow> client) \<Rightarrow> int \<Rightarrow> BattleInfo list \<Rightarrow> BattleInfo list" where
  "remove_info cl networkID [] = []"
| "remove_info cl networkID (b # bs) =
     (if clNetworkID (cl (biClient b)) \<noteq> networkID
      then BattleInfo_RemoveClient cl networkID b # remove_info cl networkID bs
      else remove_info cl networkID bs)"

definition BattleManager_RemoveClient ::
  "(nat \<Rightarrow> client) \<Rightarrow> int \<Rightarrow> BattleManager \<Rightarrow> BattleManager" where
  "BattleManager_RemoveClient cl networkID bm =
     bm\<lparr>bmUnMatching := remove_info cl networkID (bmUnMatching bm)\<rparr>"

section \<open>Drawing the opponents\<close>

fun shuffle_loop :: "nat \<Rightarrow> 'a list \<Rightarrow> nat list \<Rightarrow> 'a list \<times> nat list" where
  "shuffle_loop 0 xs rng = ([], rng)"
| "shuffle_loop (Suc n) xs rng =
     (let d = Random_draw 0 (int n) rng; i = nat (fst d);
          r = shuffle_loop n (take i xs @ drop (Suc i) xs) (snd d)
      in (xs ! i # fst r, snd r))"

definition shuffle_vec :: "'a list \<Rightarrow> nat list \<Rightarrow> 'a list \<times> nat list" where
  "shuffle_vec xs rng = shuffle_loop (length xs) xs rng"

text \<open>The loop for the smallest count: the first strict minimum below the initial value.\<close>

fun min_loop :: "(BattleInfo \<Rightarrow> nat) \<Rightarrow> BattleInfo list \<Rightarrow> nat \<Rightarrow> nat option \<Rightarrow> nat \<Rightarrow> nat option" where
  "min_loop cnt [] i best minCount = best"
| "min_loop cnt (b # bs) i best minCount =
     (if cnt b < minCount then min_loop cnt bs (Suc i) (Some i) (cnt b)
      else min_loop cnt bs (Suc i) best minCount)"

definition INT64_MAX :: nat where "INT64_MAX = 9223372036854775807"

definition i16 :: "int \<Rightarrow> int" where
  "i16 x = (x + 32768) mod 65536 - 32768"

text \<open>The order of attack: the higher state first, a coin on a tie.\<close>

definition attack_order ::
  "client \<Rightarrow> client \<Rightarrow> int \<Rightarrow> int \<Rightarrow> nat list \<Rightarrow> int list \<times> nat list" where
  "attack_order pClient pMinClient networkID1 networkID2 rng =
     (if clFirstAttackState pClient = clFirstAttackState pMinClient
      then let d = Random_draw 0 1 rng
           in (if fst d \<noteq> 0 then [networkID1, networkID2] else [networkID2, networkID1], snd d)
      else (if i16 (clFirstAttackState pClient) > i16 (clFirstAttackState pMinClient)
            then [networkID1, networkID2] else [networkID2, networkID1], rng))"

function (sequential) opponent_loop ::
  "(nat \<Rightarrow> client) \<Rightarrow> BattleInfo list \<Rightarrow> BattleInfo list \<Rightarrow> int list \<Rightarrow> nat list \<Rightarrow>
     (int list \<times> BattleInfo list \<times> nat list) result" where
  "opponent_loop cl [] mat lst rng = Inr (lst, mat, rng)"
| "opponent_loop cl (c # us) mat lst rng =
     (case min_loop (\<lambda>b. GetBattleCount b (biClient c)) us 0 None INT64_MAX of
        Some k \<Rightarrow>
          let m = us ! k;
              d = attack_order (cl (biClient c)) (cl (biClient m))
                    (clNetworkID (cl (biClient c))) (clNetworkID (cl (biClient m))) rng
          in opponent_loop cl (take k us @ drop (Suc k) us)
               (mat @ [AddBattleCount m (biClient c), AddBattleCount c (biClient m)])
               (lst @ fst d) (snd d)
      | None \<Rightarrow>
          if mat = [] then Inl EmptyContainer
          else
            let k = (case min_loop (\<lambda>b. GetBattleCount b (biClient c)) mat 0 None INT64_MAX of
                       None \<Rightarrow> 0 | Some k \<Rightarrow> k);
                m = mat ! k;
                d = attack_order (cl (biClient c)) (cl (biClient m))
                      (clNetworkID (cl (biClient c))) (not (clNetworkID (cl (biClient m)))) rng
            in opponent_loop cl us (mat @ [c]) (lst @ fst d) (snd d))"
  by pat_completeness auto

termination
  by (relation "measure (\<lambda>(cl, us, mat, lst, rng). length us)") auto

declare opponent_loop.simps [simp del]

definition GetBattleOpponent ::
  "(nat \<Rightarrow> client) \<Rightarrow> BattleManager \<Rightarrow> nat list \<Rightarrow> (int list \<times> BattleManager \<times> nat list) result" where
  "GetBattleOpponent cl bm rng =
     (let s = shuffle_vec (bmUnMatching bm) rng
      in rbind (opponent_loop cl (fst s) (bmMatching bm) [] (snd s)) (\<lambda>(lst, mat, rng').
           Inr (lst, \<lparr>bmUnMatching = mat, bmMatching = []\<rparr>, rng')))"

section \<open>Lemmas on the parts\<close>

lemma shuffle_loop_mset:
  "length xs = n \<Longrightarrow> mset (fst (shuffle_loop n xs rng)) = mset xs"
proof (induction n arbitrary: xs rng)
  case 0
  then show ?case by simp
next
  case (Suc n)
  let ?d = "Random_draw 0 (int n) rng"
  have i: "nat (fst ?d) < length xs"
    using Random_draw_range [of 0 "int n" rng] Suc.prems by auto
  have xs: "xs = take (nat (fst ?d)) xs @ xs ! nat (fst ?d) # drop (Suc (nat (fst ?d))) xs"
    using i by (rule id_take_nth_drop)
  have "mset (fst (shuffle_loop n (take (nat (fst ?d)) xs @ drop (Suc (nat (fst ?d))) xs) (snd ?d)))
      = mset (take (nat (fst ?d)) xs @ drop (Suc (nat (fst ?d))) xs)"
    using Suc.prems i by (intro Suc.IH) auto
  moreover have "mset xs = add_mset (xs ! nat (fst ?d))
      (mset (take (nat (fst ?d)) xs @ drop (Suc (nat (fst ?d))) xs))"
    using arg_cong [OF xs, of mset] by simp
  ultimately show ?case by (simp add: Let_def)
qed

lemma shuffle_vec_mset: "mset (fst (shuffle_vec xs rng)) = mset xs"
  by (simp add: shuffle_vec_def shuffle_loop_mset)

text \<open>Every order of the vector is drawn by some raw values.\<close>

lemma shuffle_loop_reach:
  "mset ys = mset xs \<Longrightarrow> \<exists>rng. shuffle_loop (length ys) xs rng = (ys, [])"
proof (induction ys arbitrary: xs)
  case Nil
  then show ?case by (intro exI [of _ "[]"]) simp
next
  case (Cons y ys)
  then have "y \<in> set xs" by (metis list.set_intros(1) set_mset_mset)
  then obtain i where i: "i < length xs" "xs ! i = y" by (auto simp: in_set_conv_nth)
  have len: "length xs = Suc (length ys)" using Cons.prems by (metis length_Cons size_mset)
  have xs: "xs = take i xs @ y # drop (Suc i) xs" using id_take_nth_drop [OF i(1)] i(2) by simp
  have "mset xs = mset (take i xs) + (add_mset y (mset (drop (Suc i) xs)))"
    by (subst xs) simp
  then have "mset ys = mset (take i xs @ drop (Suc i) xs)" using Cons.prems by simp
  then obtain rng where rng: "shuffle_loop (length ys) (take i xs @ drop (Suc i) xs) rng = (ys, [])"
    using Cons.IH by blast
  obtain r where "Random_draw 0 (int (length ys)) (r # rng) = (int i, rng)"
    using Random_draw_surj [of 0 "int i" "int (length ys)" rng] i(1) len by auto
  then show ?case using rng i(2) by (intro exI [of _ "r # rng"]) (simp add: Let_def)
qed

text \<open>The chosen index is that of a smallest count.\<close>

lemma min_loop_shift:
  "min_loop cnt bs i best m =
     (case min_loop cnt bs 0 None m of None \<Rightarrow> best | Some k \<Rightarrow> Some (k + i))"
proof (induction bs arbitrary: i best m)
  case Nil
  then show ?case by simp
next
  case (Cons b bs)
  show ?case
    by (subst (1 2) min_loop.simps(2)) (subst (1 2 3 4) Cons, auto split: option.splits)
qed

lemma min_loop_Cons:
  "min_loop cnt (b # bs) 0 None m =
     (if cnt b < m
      then (case min_loop cnt bs 0 None (cnt b) of None \<Rightarrow> Some 0 | Some k \<Rightarrow> Some (Suc k))
      else map_option Suc (min_loop cnt bs 0 None m))"
  by (subst min_loop.simps(2), subst (1 2) min_loop_shift) (auto split: option.splits)

lemma min_loop_None: "min_loop cnt bs 0 None m = None \<longleftrightarrow> (\<forall>b \<in> set bs. m \<le> cnt b)"
  by (induction bs arbitrary: m)
    (auto simp: min_loop_Cons simp del: min_loop.simps(2) split: option.splits)

lemma min_loop_Some:
  "min_loop cnt bs 0 None m = Some k \<Longrightarrow>
     k < length bs \<and> cnt (bs ! k) < m \<and> (\<forall>b \<in> set bs. cnt (bs ! k) \<le> cnt b)"
proof (induction bs arbitrary: m k)
  case Nil
  then show ?case by simp
next
  case (Cons b bs)
  show ?case
  proof (cases "cnt b < m")
    case True
    show ?thesis
    proof (cases "min_loop cnt bs 0 None (cnt b)")
      case None
      then have "k = 0" using True Cons.prems
        by (simp add: min_loop_Cons del: min_loop.simps(2))
      then show ?thesis using True None by (simp add: min_loop_None)
    next
      case (Some j)
      then show ?thesis using True Cons.prems Cons.IH [OF Some]
        by (auto simp: min_loop_Cons simp del: min_loop.simps(2))
    qed
  next
    case False
    then obtain j where "min_loop cnt bs 0 None m = Some j" "k = Suc j"
      using Cons.prems by (auto simp: min_loop_Cons simp del: min_loop.simps(2))
    then show ?thesis using False Cons.IH [of m j] by auto
  qed
qed

end
