(* ===== verification/Room.thy ===== *)
theory Room
  imports Avatar Battle_Manager
begin

text \<open>
  The class \<open>Room\<close> (\<open>Room.h\<close>, \<open>Room.cpp\<close>): its data, the operations on the room alone, and the
  creep monsters.  A pointer to a room is its index in the array of the \<open>RoomManager\<close>.
\<close>

record room =
  rmClients :: "nat list"
  rmSize :: nat
  rmNumber :: nat
  rmIsRun :: bool
  rmBattleManager :: BattleManager
  rmIsFinishChoiceCharacter :: bool
  rmBattleOpponents :: "int list"
  rmOpenCount :: nat
  rmRound :: int
  rmCurRoomStatusType :: ERoomStatusType
  rmCreepRound :: nat
  rmIsFinishThread :: bool

definition Room_new :: room where
  "Room_new =
     \<lparr>rmClients = [], rmSize = 0, rmNumber = 0, rmIsRun = False,
      rmBattleManager = BattleManager_new, rmIsFinishChoiceCharacter = False,
      rmBattleOpponents = [], rmOpenCount = 0, rmRound = 0,
      rmCurRoomStatusType = St_ChoiceCharacter, rmCreepRound = 0, rmIsFinishThread = True\<rparr>"

text \<open>\<open>size_t\<close> has 64 bits; the counters of the room wrap.\<close>

definition usize :: "int \<Rightarrow> nat" where
  "usize n = nat (n mod 2 ^ 64)"

definition Room_Init :: "room \<Rightarrow> room" where
  "Room_Init r = r\<lparr>rmClients := [], rmSize := 0, rmIsRun := False,
     rmIsFinishChoiceCharacter := False, rmRound := 0,
     rmCurRoomStatusType := St_ChoiceCharacter, rmCreepRound := 0\<rparr>"

definition AddOpenCount :: "room \<Rightarrow> room" where
  "AddOpenCount r = r\<lparr>rmOpenCount := usize (int (rmOpenCount r) + 1)\<rparr>"

text \<open>
  The members of the room after \<open>AddClients\<close>, and whether they were added; the full room is left
  alone (the capacity is \<open>MAX_ROOM_PLAYER\<close>).
\<close>

definition Room_AddClients :: "(nat \<Rightarrow> client) \<Rightarrow> nat list \<Rightarrow> room \<Rightarrow> (bool \<times> room) result" where
  "Room_AddClients cl clients r =
     (if rmSize r = MAX_ROOM_PLAYER then Inr (False, r)
      else rbind (BattleManager_SetClients cl clients) (\<lambda>bm.
        Inr (True, r\<lparr>rmSize := usize (int (rmSize r) + int (length clients)),
                    rmClients := rmClients r @ clients, rmBattleManager := bm\<rparr>)))"

definition Room_RemoveClient :: "(nat \<Rightarrow> client) \<Rightarrow> nat \<Rightarrow> room \<Rightarrow> room" where
  "Room_RemoveClient cl p r =
     (let r1 = (if p \<in> set (rmClients r)
                then r\<lparr>rmClients := remove1 p (rmClients r),
                       rmBattleManager :=
                         BattleManager_RemoveClient cl (clNetworkID (cl p)) (rmBattleManager r),
                       rmSize := usize (int (rmSize r) - 1)\<rparr>
                else r)
      in if rmSize r1 = 0 then Room_Init r1 else r1)"

definition ApplyRandomBattleOpponent ::
  "(nat \<Rightarrow> client) \<Rightarrow> room \<Rightarrow> nat list \<Rightarrow> (room \<times> nat list) result" where
  "ApplyRandomBattleOpponent cl r rng =
     (if rmSize r < 2 then Inr (r, rng)
      else rbind (GetBattleOpponent cl (rmBattleManager r) rng) (\<lambda>(lst, bm, rng').
        Inr (r\<lparr>rmBattleManager := bm, rmBattleOpponents := lst\<rparr>, rng')))"

section \<open>Creeps\<close>

definition GetCurCreepType :: "room \<Rightarrow> ECreepType" where
  "GetCurCreepType r =
     (if rmCreepRound r \<ge> creep_num KwonMin then KwonMin else creep_of (rmCreepRound r))"

definition creep_item :: "u8 \<Rightarrow> item" where
  "creep_item type = Item_new\<lparr>mType := type, mUpgrade := 0\<rparr>"

fun creep_items :: "ECreepType \<Rightarrow> item list" where
  "creep_items Shrimp = replicate MAX_USING_ITEM_COUNT (creep_item 38)"
| "creep_items NegativeMan = replicate MAX_USING_ITEM_COUNT (creep_item 39)"
| "creep_items Hodd = replicate MAX_USING_ITEM_COUNT (creep_item 40)"
| "creep_items Wakpago = replicate MAX_USING_ITEM_COUNT (creep_item 41)"
| "creep_items ShortAnswer =
     map (\<lambda>i. creep_item (if even i then 42 else 43)) [0..<MAX_USING_ITEM_COUNT]"
| "creep_items Chunsik = replicate MAX_USING_ITEM_COUNT (creep_item 44)"
| "creep_items KwonMin = replicate MAX_USING_ITEM_COUNT (creep_item 45)"

fun creep_hp :: "ECreepType \<Rightarrow> int" where
  "creep_hp Shrimp = 20"
| "creep_hp NegativeMan = 20"
| "creep_hp Hodd = 20"
| "creep_hp Wakpago = 30"
| "creep_hp ShortAnswer = 30"
| "creep_hp Chunsik = 25"
| "creep_hp KwonMin = 100"

text \<open>A monster is a ghost without a client; asking for it advances the creep round.\<close>

definition GetCreepMonster :: "room \<Rightarrow> avatar \<times> room" where
  "GetCreepMonster r =
     (let c = GetCurCreepType r
      in (SetMaxHP (creep_hp c) (BattleAvatar_new\<lparr>avIsGhost := True, avUsingItem := creep_items c\<rparr>),
          r\<lparr>rmCreepRound := usize (int (rmCreepRound r) + 1)\<rparr>))"

record CreepRewardInfo =
  crItemTicketType :: EItemTicketType
  crCount :: int

fun creep_reward :: "ECreepType \<Rightarrow> nat list \<Rightarrow> CreepRewardInfo \<times> nat list" where
  "creep_reward Shrimp rng = (\<lparr>crItemTicketType = Advanced, crCount = 1\<rparr>, rng)"
| "creep_reward NegativeMan rng = (\<lparr>crItemTicketType = Advanced, crCount = 1\<rparr>, rng)"
| "creep_reward Hodd rng = (\<lparr>crItemTicketType = Advanced, crCount = 1\<rparr>, rng)"
| "creep_reward Wakpago rng = (\<lparr>crItemTicketType = Advanced, crCount = 3\<rparr>, rng)"
| "creep_reward ShortAnswer rng = (\<lparr>crItemTicketType = Top, crCount = 2\<rparr>, rng)"
| "creep_reward Chunsik rng = (\<lparr>crItemTicketType = Top, crCount = 3\<rparr>, rng)"
| "creep_reward KwonMin rng =
     (let d = Random_draw 0 99 rng
      in (if fst d < 20 then \<lparr>crItemTicketType = Supreme, crCount = 1\<rparr>
          else \<lparr>crItemTicketType = Top, crCount = 4\<rparr>, snd d))"

definition GetCreepRewardTicketType :: "room \<Rightarrow> nat list \<Rightarrow> CreepRewardInfo \<times> nat list" where
  "GetCreepRewardTicketType r rng = creep_reward (GetCurCreepType r) rng"

end
