(* ===== verification/Client_Queue.thy ===== *)
theory Client_Queue
  imports Server_Types
begin

text \<open>
  The interface of the matching queue: clients enter at the back, leave wherever they stand, and
  the first eight leave together.  The provider is the class \<open>ServerQueue\<close>; its user is the
  server, which matches clients and takes the disconnected ones out.
\<close>

locale client_queue =
  fixes empty :: 'q
    and enq :: "'q \<Rightarrow> nat \<Rightarrow> 'q result"
    and del :: "'q \<Rightarrow> nat \<Rightarrow> 'q result"
    and take_room :: "'q \<Rightarrow> (nat list option \<times> 'q) result"
    and members :: "'q \<Rightarrow> nat list"
    and good :: "'q \<Rightarrow> bool"
  assumes empty_members: "good empty \<and> members empty = []"
    and enq_members: "good q \<Longrightarrow> \<exists>q'. enq q c = Inr q' \<and> good q' \<and> members q' = members q @ [c]"
    and del_members: "good q \<Longrightarrow> \<exists>q'. del q c = Inr q' \<and> good q' \<and> members q' = remove1 c (members q)"
    and take_members: "good q \<Longrightarrow> MAX_ROOM_PLAYER \<le> length (members q) \<Longrightarrow>
      \<exists>q'. take_room q = Inr (Some (take MAX_ROOM_PLAYER (members q)), q') \<and> good q' \<and>
        members q' = drop MAX_ROOM_PLAYER (members q)"
    and take_few: "good q \<Longrightarrow> length (members q) < MAX_ROOM_PLAYER \<Longrightarrow> take_room q = Inr (None, q)"
begin

text \<open>What the server does on a request: enter, then try to fill a room.\<close>

definition request :: "'q \<Rightarrow> nat \<Rightarrow> (nat list option \<times> 'q) result" where
  "request q c = rbind (enq q c) take_room"

definition waiting :: "'q \<Rightarrow> bool" where
  "waiting q \<longleftrightarrow> good q \<and> length (members q) < MAX_ROOM_PLAYER"

lemma waiting_empty: "waiting empty"
  by (simp add: waiting_def empty_members)

text \<open>
  Fewer than eight clients ever wait between two requests; a room is filled exactly by the
  request that makes them eight, with the clients in the order of their arrival.
\<close>

lemma request_spec:
  assumes "waiting q"
  shows "\<exists>r q'. request q c = Inr (r, q') \<and> waiting q' \<and>
    (if length (members q) < MAX_ROOM_PLAYER - 1
     then r = None \<and> members q' = members q @ [c]
     else r = Some (members q @ [c]) \<and> members q' = [])"
proof -
  obtain q1 where q1: "enq q c = Inr q1" "good q1" "members q1 = members q @ [c]"
    using enq_members assms by (auto simp: waiting_def)
  show ?thesis
  proof (cases "length (members q) < MAX_ROOM_PLAYER - 1")
    case True
    then have "take_room q1 = Inr (None, q1)" using q1 by (intro take_few) auto
    then show ?thesis using True q1 by (auto simp: request_def waiting_def)
  next
    case False
    then have len: "length (members q1) = MAX_ROOM_PLAYER"
      using assms q1(3) by (auto simp: waiting_def)
    then obtain q2 where "take_room q1 = Inr (Some (take MAX_ROOM_PLAYER (members q1)), q2)"
      "good q2" "members q2 = drop MAX_ROOM_PLAYER (members q1)"
      using take_members q1(2) by (metis order_refl)
    then show ?thesis using False q1 len by (auto simp: request_def waiting_def)
  qed
qed

lemma del_spec:
  assumes "waiting q"
  shows "\<exists>q'. del q c = Inr q' \<and> waiting q' \<and> members q' = remove1 c (members q)"
proof -
  obtain q' where q': "del q c = Inr q'" "good q'" "members q' = remove1 c (members q)"
    using del_members [of q c] assms by (auto simp: waiting_def)
  have "length (remove1 c (members q)) \<le> length (members q)" by (simp add: length_remove1)
  then show ?thesis using q' assms by (auto simp: waiting_def)
qed

end

end
