(* ===== verification/Server_Queue.thy ===== *)
theory Server_Queue
  imports Client_Queue
begin

text \<open>
  The class \<open>ServerQueue\<close> (\<open>ServerQueue.h\<close>, \<open>ServerQueue.cpp\<close>, \<open>ServerQueueNode.h\<close>): the clients
  that wait for a room, in a doubly linked list of reference-counted nodes.  The store maps
  addresses to nodes; a node leaves the store when its last owner is gone, so that following a
  pointer to it (or locking the weak pointer \<open>Previous\<close>) is an error.
\<close>

section \<open>Nodes\<close>

record ServerQueueNode =
  ndNext :: "nat option"
  ndPrevious :: "nat option"
  ndClient :: nat

definition ServerQueueNode_new :: "nat \<Rightarrow> ServerQueueNode" where
  "ServerQueueNode_new client = \<lparr>ndNext = None, ndPrevious = None, ndClient = client\<rparr>"

type_synonym heap = "nat \<Rightarrow> ServerQueueNode option"

definition deref :: "heap \<Rightarrow> nat option \<Rightarrow> (nat \<times> ServerQueueNode) result" where
  "deref h p = (case p of None \<Rightarrow> Inl NullDeref
     | Some a \<Rightarrow> (case h a of None \<Rightarrow> Inl NullDeref | Some nd \<Rightarrow> Inr (a, nd)))"

record ServerQueue =
  sqHeap :: heap
  sqFresh :: nat
  sqClientQueue :: "nat option"
  sqSize :: nat

definition ServerQueue_new :: ServerQueue where
  "ServerQueue_new = \<lparr>sqHeap = (\<lambda>_. None), sqFresh = 0, sqClientQueue = None, sqSize = 0\<rparr>"

section \<open>Operations\<close>

text \<open>\<open>node = node->Next\<close>, a number of times.\<close>

fun walk :: "heap \<Rightarrow> nat option \<Rightarrow> nat \<Rightarrow> nat option result" where
  "walk h p 0 = Inr p"
| "walk h p (Suc n) = rbind (deref h p) (\<lambda>(a, nd). walk h (ndNext nd) n)"

definition AddClient :: "ServerQueue \<Rightarrow> nat \<Rightarrow> ServerQueue result" where
  "AddClient q client =
     (let a = sqFresh q
      in if sqSize q = 0
         then Inr (q\<lparr>sqHeap := (sqHeap q)(a \<mapsto> ServerQueueNode_new client), sqFresh := a + 1,
                     sqClientQueue := Some a, sqSize := sqSize q + 1\<rparr>)
         else rbind (walk (sqHeap q) (sqClientQueue q) (sqSize q - 1)) (\<lambda>p.
           rbind (deref (sqHeap q) p) (\<lambda>(b, nd). Inr
             (q\<lparr>sqHeap := (sqHeap q)(b \<mapsto> nd\<lparr>ndNext := Some a\<rparr>,
                  a \<mapsto> (ServerQueueNode_new client)\<lparr>ndPrevious := Some b\<rparr>),
                sqFresh := a + 1, sqSize := sqSize q + 1\<rparr>))))"

text \<open>Taking the node out at the address \<open>a\<close>: its neighbours are linked to each other.\<close>

definition set_previous :: "heap \<Rightarrow> nat option \<Rightarrow> nat option \<Rightarrow> heap result" where
  "set_previous h p prev =
     (case p of None \<Rightarrow> Inr h
      | Some _ \<Rightarrow> rbind (deref h p) (\<lambda>(b, nd). Inr (h(b \<mapsto> nd\<lparr>ndPrevious := prev\<rparr>))))"

definition unlink :: "ServerQueue \<Rightarrow> nat \<Rightarrow> ServerQueueNode \<Rightarrow> ServerQueue result" where
  "unlink q a nd =
     (if Some a = sqClientQueue q
      then rbind (set_previous (sqHeap q) (ndNext nd) None) (\<lambda>h.
             Inr (q\<lparr>sqHeap := h(a := None), sqClientQueue := ndNext nd, sqSize := sqSize q - 1\<rparr>))
      else rbind (deref (sqHeap q) (ndPrevious nd)) (\<lambda>(b, pd).
             rbind (set_previous ((sqHeap q)(b \<mapsto> pd\<lparr>ndNext := ndNext nd\<rparr>)) (ndNext nd) (Some b)) (\<lambda>h.
               Inr (q\<lparr>sqHeap := h(a := None), sqSize := sqSize q - 1\<rparr>))))"

fun remove_loop :: "ServerQueue \<Rightarrow> nat option \<Rightarrow> nat \<Rightarrow> nat \<Rightarrow> ServerQueue result" where
  "remove_loop q node 0 client = Inr q"
| "remove_loop q node (Suc n) client =
     rbind (deref (sqHeap q) node) (\<lambda>(a, nd).
       if ndClient nd = client then unlink q a nd else remove_loop q (ndNext nd) n client)"

definition RemoveClient :: "ServerQueue \<Rightarrow> nat \<Rightarrow> ServerQueue result" where
  "RemoveClient q client = remove_loop q (sqClientQueue q) (sqSize q) client"

text \<open>The clients of the next \<open>n\<close> nodes, and the node after them.\<close>

fun collect :: "heap \<Rightarrow> nat option \<Rightarrow> nat \<Rightarrow> ((nat \<times> nat) list \<times> nat option) result" where
  "collect h p 0 = Inr ([], p)"
| "collect h p (Suc n) =
     rbind (deref h p) (\<lambda>(a, nd). rbind (collect h (ndNext nd) n) (\<lambda>(cs, p').
       Inr ((a, ndClient nd) # cs, p')))"

text \<open>
  The part of \<open>TryCreateRoomOrNullPtr\<close> that concerns the queue: with eight clients or more, the
  first eight leave it (their nodes lose their owner).
\<close>

definition TakeRoomClients :: "ServerQueue \<Rightarrow> (nat list option \<times> ServerQueue) result" where
  "TakeRoomClients q =
     (if sqSize q \<ge> MAX_ROOM_PLAYER
      then rbind (collect (sqHeap q) (sqClientQueue q) MAX_ROOM_PLAYER) (\<lambda>(cs, node).
             rbind (set_previous (sqHeap q) node None) (\<lambda>h.
               Inr (Some (map snd cs),
                    q\<lparr>sqHeap := (\<lambda>a. if a \<in> set (map fst cs) then None else h a),
                      sqClientQueue := node, sqSize := sqSize q - MAX_ROOM_PLAYER\<rparr>)))
      else Inr (None, q))"

text \<open>The clients that \<open>SendMatchingQueueInfo\<close> writes to.\<close>

definition QueueClients :: "ServerQueue \<Rightarrow> nat list result" where
  "QueueClients q =
     rbind (collect (sqHeap q) (sqClientQueue q) (sqSize q)) (\<lambda>(cs, node). Inr (map snd cs))"

section \<open>The list a queue stands for\<close>

text \<open>
  The segment of nodes from \<open>p\<close> up to \<open>e\<close>: every node points back to the one before it, the first
  to \<open>prev\<close>.
\<close>

fun seg :: "heap \<Rightarrow> nat option \<Rightarrow> nat option \<Rightarrow> (nat \<times> nat) list \<Rightarrow> nat option \<Rightarrow> bool" where
  "seg h p prev [] e \<longleftrightarrow> p = e"
| "seg h p prev ((a, c) # xs) e \<longleftrightarrow>
     p = Some a \<and>
     (\<exists>nx. h a = Some \<lparr>ndNext = nx, ndPrevious = prev, ndClient = c\<rparr> \<and> seg h nx (Some a) xs e)"

definition queue_rep :: "ServerQueue \<Rightarrow> (nat \<times> nat) list \<Rightarrow> bool" where
  "queue_rep q xs \<longleftrightarrow>
     seg (sqHeap q) (sqClientQueue q) None xs None \<and> distinct (map fst xs) \<and> sqSize q = length xs \<and>
     (\<forall>a \<in> fst ` set xs. a < sqFresh q)"

definition queue_good :: "ServerQueue \<Rightarrow> bool" where
  "queue_good q \<longleftrightarrow> (\<exists>xs. queue_rep q xs)"

definition queue_list :: "ServerQueue \<Rightarrow> nat list" where
  "queue_list q = (case QueueClients q of Inr cs \<Rightarrow> cs | Inl _ \<Rightarrow> [])"

definition before :: "nat option \<Rightarrow> (nat \<times> nat) list \<Rightarrow> nat option" where
  "before prev xs = (if xs = [] then prev else Some (fst (last xs)))"

lemma before_simps [simp]: "before prev [] = prev" "before prev (xs @ [x]) = Some (fst x)"
  "before prev (x # xs) = before (Some (fst x)) xs"
  by (simp_all add: before_def)

lemma deref_simps [simp]:
  "deref h None = Inl NullDeref"
  "h a = Some nd \<Longrightarrow> deref h (Some a) = Inr (a, nd)"
  by (simp_all add: deref_def)

lemma set_previous_simps [simp]:
  "set_previous h None prev = Inr h"
  "h a = Some nd \<Longrightarrow> set_previous h (Some a) prev = Inr (h(a \<mapsto> nd\<lparr>ndPrevious := prev\<rparr>))"
  by (simp_all add: set_previous_def)

lemma seg_append:
  "seg h p prev (xs @ ys) e \<longleftrightarrow> (\<exists>m. seg h p prev xs m \<and> seg h m (before prev xs) ys e)"
proof (induction xs arbitrary: p prev)
  case Nil
  then show ?case by simp
next
  case (Cons x xs)
  show ?case by (cases x) (simp add: Cons, blast)
qed

text \<open>Nodes outside the segment do not matter.\<close>

lemma seg_cong:
  "(\<And>a. a \<in> fst ` set xs \<Longrightarrow> h a = h' a) \<Longrightarrow> seg h p prev xs e \<longleftrightarrow> seg h' p prev xs e"
  by (induction xs arbitrary: p prev) auto

lemma seg_upd [simp]: "a \<notin> fst ` set xs \<Longrightarrow> seg (h(a := v)) p prev xs e \<longleftrightarrow> seg h p prev xs e"
  by (rule seg_cong) auto

lemma walk_seg: "seg h p prev xs e \<Longrightarrow> walk h p (length xs) = Inr e"
  by (induction xs arbitrary: p prev) auto

lemma collect_seg: "seg h p prev xs e \<Longrightarrow> collect h p (length xs) = Inr (xs, e)"
  by (induction xs arbitrary: p prev) auto

lemma queue_list_rep: "queue_rep q xs \<Longrightarrow> queue_list q = map snd xs"
  using collect_seg [of "sqHeap q" "sqClientQueue q" None xs None]
  by (auto simp: queue_rep_def queue_list_def QueueClients_def)

text \<open>The successor of a removed or served prefix gets a new predecessor.\<close>

lemma seg_set_previous:
  assumes "seg h p prev xs e" and "distinct (map fst xs)" and "xs \<noteq> [] \<or> e = None"
  shows "\<exists>h'. set_previous h p prev' = Inr h' \<and> seg h' p prev' xs e \<and>
    (\<forall>a. a \<notin> fst ` set xs \<longrightarrow> h' a = h a)"
proof (cases xs)
  case Nil
  then show ?thesis using assms by simp
next
  case (Cons x ys)
  obtain a c where x: "x = (a, c)" by (cases x)
  show ?thesis using assms(1,2) by (auto simp: Cons x)
qed

section \<open>The operations on the list\<close>

lemma queue_rep_new: "queue_rep ServerQueue_new []"
  by (simp add: queue_rep_def ServerQueue_new_def)

lemma AddClient_rep:
  assumes "queue_rep q xs"
  shows "\<exists>q'. AddClient q c = Inr q' \<and> queue_rep q' (xs @ [(sqFresh q, c)])"
proof (cases xs rule: rev_cases)
  case Nil
  then show ?thesis using assms
    by (auto simp: queue_rep_def AddClient_def ServerQueueNode_new_def Let_def)
next
  case (snoc zs x)
  obtain b d where x: "x = (b, d)" by (cases x)
  obtain m where m: "seg (sqHeap q) (sqClientQueue q) None zs m" "m = Some b"
    "sqHeap q b = Some \<lparr>ndNext = None, ndPrevious = before None zs, ndClient = d\<rparr>"
    using assms by (auto simp: queue_rep_def snoc x seg_append)
  have ne: "b \<noteq> sqFresh q" "b \<notin> fst ` set zs" "sqFresh q \<notin> fst ` set zs" "sqSize q = Suc (length zs)"
    using assms by (auto simp: queue_rep_def snoc x)
  have "walk (sqHeap q) (sqClientQueue q) (length zs) = Inr (Some b)"
    using walk_seg [OF m(1)] m(2) by simp
  then show ?thesis using assms m ne
    by (auto simp: queue_rep_def AddClient_def snoc x seg_append ServerQueueNode_new_def Let_def)
qed

lemma unlink_rep:
  assumes "queue_rep q (zs @ (a, c) # ys)"
  shows "\<exists>nd q'. sqHeap q a = Some nd \<and> ndClient nd = c \<and> unlink q a nd = Inr q' \<and>
    queue_rep q' (zs @ ys)"
proof -
  obtain nx where zs: "seg (sqHeap q) (sqClientQueue q) None zs (Some a)"
    and nd: "sqHeap q a = Some \<lparr>ndNext = nx, ndPrevious = before None zs, ndClient = c\<rparr>"
    and ys: "seg (sqHeap q) nx (Some a) ys None"
    using assms by (auto simp: queue_rep_def seg_append)
  have dst: "distinct (map fst (zs @ (a, c) # ys))" and sz: "sqSize q = Suc (length (zs @ ys))"
    and fr: "\<forall>b \<in> fst ` set (zs @ (a, c) # ys). b < sqFresh q"
    using assms by (auto simp: queue_rep_def)
  show ?thesis
  proof (cases zs rule: rev_cases)
    case Nil
    then have hd: "sqClientQueue q = Some a" using zs by simp
    obtain h' where "set_previous (sqHeap q) nx None = Inr h'" "seg h' nx None ys None"
      using seg_set_previous [OF ys, of None] dst by auto
    then show ?thesis using Nil hd nd dst sz fr
      by (auto simp: unlink_def queue_rep_def)
  next
    case (snoc ws x)
    obtain b d where x: "x = (b, d)" by (cases x)
    have ws: "seg (sqHeap q) (sqClientQueue q) None ws (Some b)"
      "sqHeap q b = Some \<lparr>ndNext = Some a, ndPrevious = before None ws, ndClient = d\<rparr>"
      using zs by (auto simp: snoc x seg_append)
    have "zs \<noteq> []" using snoc by simp
    then obtain y l where y: "zs = y # l" by (cases zs) auto
    have hd: "sqClientQueue q \<noteq> Some a" using zs dst by (cases y) (auto simp: y)
    let ?h = "(sqHeap q)(b \<mapsto> \<lparr>ndNext = nx, ndPrevious = before None ws, ndClient = d\<rparr>)"
    have "seg ?h nx (Some a) ys None" using ys dst by (auto simp: snoc x)
    then obtain h' where h': "set_previous ?h nx (Some b) = Inr h'" "seg h' nx (Some b) ys None"
      "\<forall>e. e \<notin> fst ` set ys \<longrightarrow> h' e = ?h e"
      using seg_set_previous [of ?h nx "Some a" ys None "Some b"] dst by auto
    have "seg h' (sqClientQueue q) None ws (Some b) \<longleftrightarrow> seg (sqHeap q) (sqClientQueue q) None ws (Some b)"
    proof (rule seg_cong)
      fix e assume e: "e \<in> fst ` set ws"
      then have "e \<noteq> b" and "e \<notin> fst ` set ys" using dst by (auto simp: snoc x)
      then show "h' e = sqHeap q e" using h'(3) by simp
    qed
    moreover have "h' b = ?h b" using h'(3) dst by (auto simp: snoc x)
    ultimately show ?thesis using nd hd h' ws dst sz fr
      by (auto simp: unlink_def queue_rep_def snoc x seg_append)
  qed
qed

lemma remove_loop_rep:
  assumes "queue_rep q (zs @ ys)" and "seg (sqHeap q) p (before None zs) ys None"
    and "c \<notin> snd ` set zs"
  shows "\<exists>q' xs'. remove_loop q p (length ys) c = Inr q' \<and> queue_rep q' xs' \<and>
    map snd xs' = remove1 c (map snd (zs @ ys))"
  using assms
proof (induction ys arbitrary: p zs)
  case Nil
  then show ?case by (auto simp: remove1_idem)
next
  case (Cons y ys)
  obtain a d where y: "y = (a, d)" by (cases y)
  show ?case
  proof (cases "d = c")
    case True
    obtain nd q' where "sqHeap q a = Some nd" "ndClient nd = c" "unlink q a nd = Inr q'"
      "queue_rep q' (zs @ ys)" using unlink_rep [of q zs a d ys] Cons.prems(1) y True by auto
    then show ?thesis using Cons.prems(2,3) y True
      by (intro exI [of _ q'] exI [of _ "zs @ ys"]) (auto simp: remove1_append)
  next
    case False
    then obtain nx where nx: "p = Some a"
      "sqHeap q a = Some \<lparr>ndNext = nx, ndPrevious = before None zs, ndClient = d\<rparr>"
      "seg (sqHeap q) nx (Some a) ys None" using Cons.prems(2) y by auto
    then show ?thesis using Cons.IH [of "zs @ [y]" nx] Cons.prems(1,3) False y by auto
  qed
qed

lemma RemoveClient_rep:
  assumes "queue_rep q xs"
  shows "\<exists>q' xs'. RemoveClient q c = Inr q' \<and> queue_rep q' xs' \<and> map snd xs' = remove1 c (map snd xs)"
  using remove_loop_rep [of q "[]" xs "sqClientQueue q" c] assms
  by (auto simp: RemoveClient_def queue_rep_def)

lemma TakeRoomClients_rep:
  assumes "queue_rep q xs" and "MAX_ROOM_PLAYER \<le> length xs"
  shows "\<exists>q'. TakeRoomClients q = Inr (Some (map snd (take MAX_ROOM_PLAYER xs)), q') \<and>
    queue_rep q' (drop MAX_ROOM_PLAYER xs)"
proof -
  define zs ys where "zs = take 8 xs" and "ys = drop 8 xs"
  have xs: "xs = zs @ ys" and lz: "length zs = 8" using assms(2) by (simp_all add: zs_def ys_def)
  obtain m where m: "seg (sqHeap q) (sqClientQueue q) None zs m"
    "seg (sqHeap q) m (before None zs) ys None"
    using assms(1) by (auto simp: queue_rep_def xs seg_append)
  have dst: "distinct (map fst (zs @ ys))" using assms(1) by (simp add: queue_rep_def xs)
  obtain h' where h': "set_previous (sqHeap q) m None = Inr h'" "seg h' m None ys None"
    using seg_set_previous [OF m(2), of None] dst by auto
  have "seg (\<lambda>a. if a \<in> set (map fst zs) then None else h' a) m None ys None \<longleftrightarrow> seg h' m None ys None"
    using dst by (intro seg_cong) auto
  moreover have "collect (sqHeap q) (sqClientQueue q) 8 = Inr (zs, m)"
    using collect_seg [OF m(1)] lz by simp
  ultimately show ?thesis using assms h' dst lz
    by (auto simp: TakeRoomClients_def queue_rep_def xs zs_def [symmetric] ys_def [symmetric])
qed

interpretation sq: client_queue ServerQueue_new AddClient RemoveClient TakeRoomClients queue_list queue_good
proof
  show "queue_good ServerQueue_new \<and> queue_list ServerQueue_new = []"
    using queue_rep_new queue_list_rep [OF queue_rep_new] by (auto simp: queue_good_def)
  fix q c
  assume "queue_good q"
  then obtain xs where q: "queue_rep q xs" by (auto simp: queue_good_def)
  note l = queue_list_rep [OF q]
  show "\<exists>q'. AddClient q c = Inr q' \<and> queue_good q' \<and> queue_list q' = queue_list q @ [c]"
    using AddClient_rep [OF q] queue_list_rep l by (fastforce simp: queue_good_def)
  show "\<exists>q'. RemoveClient q c = Inr q' \<and> queue_good q' \<and> queue_list q' = remove1 c (queue_list q)"
    using RemoveClient_rep [OF q, of c] queue_list_rep l by (fastforce simp: queue_good_def)
  show "\<exists>q'. TakeRoomClients q = Inr (Some (take MAX_ROOM_PLAYER (queue_list q)), q') \<and>
      queue_good q' \<and> queue_list q' = drop MAX_ROOM_PLAYER (queue_list q)"
    if len: "MAX_ROOM_PLAYER \<le> length (queue_list q)"
  proof -
    obtain q' where "TakeRoomClients q = Inr (Some (map snd (take MAX_ROOM_PLAYER xs)), q')"
      "queue_rep q' (drop MAX_ROOM_PLAYER xs)"
      using TakeRoomClients_rep [OF q] len l by auto
    then show ?thesis using queue_list_rep l
      by (intro exI [of _ q']) (auto simp: queue_good_def take_map drop_map)
  qed
  show "TakeRoomClients q = Inr (None, q)" if "length (queue_list q) < MAX_ROOM_PLAYER"
    using that q l by (simp add: TakeRoomClients_def queue_rep_def)
qed

end
