(* ===== verification/Packets.thy ===== *)
theory Packets
  imports Avatar
begin

text \<open>
  The packets of \<open>PacketStruct.h\<close>: their fields, their constructors and their bytes.  The
  structures are packed (no padding) and the machine is little-endian, so that the bytes of a
  packet are the bytes of its fields in the order of their declaration, and a packet that is
  written field by field into a memory stream or sent as it lies in memory gives the same bytes.
  A C++ conversion of an \<open>int\<close> to a narrower unsigned type is \<open>word_of_int\<close>.
\<close>

section \<open>Packet and notification types\<close>

datatype EPacketType =
  pt_sc_connectRoom | pt_cs_startMatching | pt_sc_addNewItem | pt_cs_sc_changeItemSlot
| pt_sc_upgradeItem | pt_cs_sc_changeCharacter | pt_sc_battleInfo | pt_cs_sc_notification
| pt_cs_sc_useEmoticon | pt_sc_updateCharacterInfo | pt_sc_setChoiceCharacterTime
| pt_sc_setReadyTime | pt_cs_sc_dropItem | pt_cs_requestCombinationItem | pt_sc_setItemTicket
| pt_sc_activeItem | pt_sc_fadeIn | pt_sc_fadeOut | pt_sc_battleOpponents
| pt_sc_setHamburgerType | pt_sc_magicStickInfo | pt_cs_requestUpgradeItem
| pt_sc_DoctorToolInfo | pt_sc_CreepStageInfo | pt_sc_BattleAvatarInfo | pt_sc_InventoryInfo
| pt_sc_matchingInfo | pt_sc_BattleTimeInfo

text \<open>The enumerators in order: the number of an enumerator is its place.\<close>

definition packet_types :: "EPacketType list" where
  "packet_types =
     [pt_sc_connectRoom, pt_cs_startMatching, pt_sc_addNewItem, pt_cs_sc_changeItemSlot,
      pt_sc_upgradeItem, pt_cs_sc_changeCharacter, pt_sc_battleInfo, pt_cs_sc_notification,
      pt_cs_sc_useEmoticon, pt_sc_updateCharacterInfo, pt_sc_setChoiceCharacterTime,
      pt_sc_setReadyTime, pt_cs_sc_dropItem, pt_cs_requestCombinationItem, pt_sc_setItemTicket,
      pt_sc_activeItem, pt_sc_fadeIn, pt_sc_fadeOut, pt_sc_battleOpponents,
      pt_sc_setHamburgerType, pt_sc_magicStickInfo, pt_cs_requestUpgradeItem,
      pt_sc_DoctorToolInfo, pt_sc_CreepStageInfo, pt_sc_BattleAvatarInfo, pt_sc_InventoryInfo,
      pt_sc_matchingInfo, pt_sc_BattleTimeInfo]"

datatype ENotificationType =
  ConnectServer | ChoiceCharacter | ChoiceAllCharacter | DisconnectServer | ConnectCheck
| EnterReadyStage | EnterCutSceneStage | FinishCutSceneStage | EnterBattleStage
| EnterCreepStage | FinishChoiceCharacterTime | InitBattleSlot | UseNormalItemTicket
| UseAdvancedItemTicket | UseTopItemTicket | UseSupremeItemTicket | SetDefaultUsingItem
| EffectCreepItem

definition notification_types :: "ENotificationType list" where
  "notification_types =
     [ConnectServer, ChoiceCharacter, ChoiceAllCharacter, DisconnectServer, ConnectCheck,
      EnterReadyStage, EnterCutSceneStage, FinishCutSceneStage, EnterBattleStage,
      EnterCreepStage, FinishChoiceCharacterTime, InitBattleSlot, UseNormalItemTicket,
      UseAdvancedItemTicket, UseTopItemTicket, UseSupremeItemTicket, SetDefaultUsingItem,
      EffectCreepItem]"

fun place_in :: "'a list \<Rightarrow> 'a \<Rightarrow> nat" where
  "place_in [] x = 0"
| "place_in (y # ys) x = (if x = y then 0 else Suc (place_in ys x))"

text \<open>A byte names an enumerator, or none of them.\<close>

definition num_of :: "'a list \<Rightarrow> 'a \<Rightarrow> u8" where
  "num_of xs x = of_nat (place_in xs x)"

definition of_num :: "'a list \<Rightarrow> u8 \<Rightarrow> 'a option" where
  "of_num xs b = (if unat b < length xs then Some (xs ! unat b) else None)"

lemma place_in_less: "x \<in> set xs \<Longrightarrow> place_in xs x < length xs \<and> xs ! place_in xs x = x"
  by (induction xs) auto

lemma of_num_num_of:
  assumes "x \<in> set xs" and "length xs < 256"
  shows "of_num xs (num_of xs x) = Some x"
proof -
  have "place_in xs x < 256" using place_in_less [OF assms(1)] assms(2) by simp
  then have "unat (num_of xs x) = place_in xs x"
    by (simp add: num_of_def unsigned_of_nat take_bit_nat_eq_self)
  then show ?thesis using place_in_less [OF assms(1)] by (simp add: of_num_def)
qed

lemma packet_types_all: "t \<in> set packet_types"
  by (cases t) (simp_all add: packet_types_def)

lemma notification_types_all: "t \<in> set notification_types"
  by (cases t) (simp_all add: notification_types_def)

section \<open>Bytes of integers\<close>

text \<open>The \<open>n\<close> little-endian bytes of a two's complement integer, and back.\<close>

fun int_bytes :: "nat \<Rightarrow> int \<Rightarrow> u8 list" where
  "int_bytes 0 x = []"
| "int_bytes (Suc n) x = word_of_int x # int_bytes n (x div 256)"

fun bytes_uint :: "u8 list \<Rightarrow> int" where
  "bytes_uint [] = 0"
| "bytes_uint (b # bs) = uint b + 256 * bytes_uint bs"

definition bytes_sint32 :: "u8 list \<Rightarrow> int" where
  "bytes_sint32 bs = i32 (bytes_uint bs)"

lemma length_int_bytes [simp]: "length (int_bytes n x) = n"
  by (induction n arbitrary: x) auto

lemma bytes_uint_int_bytes: "bytes_uint (int_bytes n x) = x mod 256 ^ n"
proof (induction n arbitrary: x)
  case 0
  then show ?case by simp
next
  case (Suc n)
  have "x mod 256 ^ Suc n = 256 * (x div 256 mod 256 ^ n) + x mod 256"
    by (simp add: zmod_zmult2_eq)
  then show ?case using Suc [of "x div 256"] by (simp add: uint_word_of_int)
qed

lemma bytes_sint32_int_bytes: "in_i32 x \<Longrightarrow> bytes_sint32 (int_bytes 4 x) = x"
proof -
  assume x: "in_i32 x"
  have "i32 (x mod 4294967296) = i32 x"
    by (simp add: i32_def mod_add_left_eq)
  then show ?thesis using i32_in [OF x]
    by (simp add: bytes_sint32_def bytes_uint_int_bytes)
qed

section \<open>Fields\<close>

record UserInfo =
  uiNetworkID :: int
  uiName :: "u16 list"

record SlotItemInfo =
  siType :: u8
  siUpgrade :: u8

record BattleAvatarInfo =
  paNetworkID :: int
  paPlayerHp :: u8
  paMaxHp :: u16
  paHp :: u16
  paFirstAttackState :: u8
  paOffensePower :: u8
  paDefensive :: u32
  paAdditionDefensive :: u8
  paWeakening :: u8
  paBleeding :: u16
  paReducedHealing :: u8
  paIsEffectHeal :: bool
  paEffectHeal :: u8
  paIsInstallBomb :: bool
  paInstallBombDamage :: u8
  paIsIgnoreNextDamage :: bool
  paCanDefendNegativeEffect :: bool
  paIsCounterAttack :: bool
  paCounterAttackDamage :: u8
  paIsCounterHeal :: bool
  paCounterHeal :: u8

record ItemQueueInfo =
  iqNetworkID :: int
  iqItemQueue :: "u8 list"

datatype packet =
  StartMatching int "u16 list"
| ConnectRoom "UserInfo list"
| AddNewItem int u8 u8
| ChangeItemSlot int u8 u8
| UpgradeItem int u8 u8
| ChangeCharacter int ECharacterType
| BattleInfo "int list" "ItemQueueInfo list"
| UseEmoticon int u8
| Notification int ENotificationType
| UpdateCharacterInfo int u16 u16 "SlotItemInfo list" "SlotItemInfo list"
| SetReadyTime u8
| SetChoiceCharacterTime u8
| DropItem int u8
| RequestCombinationItem int u8 u8 u8
| SetItemTicket int EItemTicketType u8
| ActiveItem int u8
| FadeIn u8
| FadeOut u8
| BattleOpponents "int list"
| SetHamburgerType int u8 EHamburgerType
| MagicStickInfo int bool
| RequestUpgradeItem int u8 u8
| DoctorToolInfo int u8 u8 u8
| CreepStageInfo ECreepType
| BattleAvatarInfo BattleAvatarInfo
| InventoryInfo int "SlotItemInfo list" "SlotItemInfo list"
| MatchingInfo u8 u16
| BattleTimeInfo u8

section \<open>Layout\<close>

text \<open>The sizes that the constructors store: \<open>sizeof\<close> of the packed structures.\<close>

fun packet_sizeof :: "packet \<Rightarrow> nat" where
  "packet_sizeof (StartMatching _ _) = 29"
| "packet_sizeof (ConnectRoom _) = 211"
| "packet_sizeof (AddNewItem _ _ _) = 9"
| "packet_sizeof (ChangeItemSlot _ _ _) = 9"
| "packet_sizeof (UpgradeItem _ _ _) = 9"
| "packet_sizeof (ChangeCharacter _ _) = 8"
| "packet_sizeof (BattleInfo _ _) = 547"
| "packet_sizeof (UseEmoticon _ _) = 8"
| "packet_sizeof (Notification _ _) = 8"
| "packet_sizeof (UpdateCharacterInfo _ _ _ _ _) = 43"
| "packet_sizeof (SetReadyTime _) = 4"
| "packet_sizeof (SetChoiceCharacterTime _) = 4"
| "packet_sizeof (DropItem _ _) = 8"
| "packet_sizeof (RequestCombinationItem _ _ _ _) = 10"
| "packet_sizeof (SetItemTicket _ _ _) = 9"
| "packet_sizeof (ActiveItem _ _) = 8"
| "packet_sizeof (FadeIn _) = 4"
| "packet_sizeof (FadeOut _) = 4"
| "packet_sizeof (BattleOpponents _) = 35"
| "packet_sizeof (SetHamburgerType _ _ _) = 9"
| "packet_sizeof (MagicStickInfo _ _) = 8"
| "packet_sizeof (RequestUpgradeItem _ _ _) = 9"
| "packet_sizeof (DoctorToolInfo _ _ _ _) = 10"
| "packet_sizeof (CreepStageInfo _) = 4"
| "packet_sizeof (BattleAvatarInfo _) = 33"
| "packet_sizeof (InventoryInfo _ _ _) = 39"
| "packet_sizeof (MatchingInfo _ _) = 6"
| "packet_sizeof (BattleTimeInfo _) = 4"

fun packet_type :: "packet \<Rightarrow> EPacketType" where
  "packet_type (StartMatching _ _) = pt_cs_startMatching"
| "packet_type (ConnectRoom _) = pt_sc_connectRoom"
| "packet_type (AddNewItem _ _ _) = pt_sc_addNewItem"
| "packet_type (ChangeItemSlot _ _ _) = pt_cs_sc_changeItemSlot"
| "packet_type (UpgradeItem _ _ _) = pt_sc_upgradeItem"
| "packet_type (ChangeCharacter _ _) = pt_cs_sc_changeCharacter"
| "packet_type (BattleInfo _ _) = pt_sc_battleInfo"
| "packet_type (UseEmoticon _ _) = pt_cs_sc_useEmoticon"
| "packet_type (Notification _ _) = pt_cs_sc_notification"
| "packet_type (UpdateCharacterInfo _ _ _ _ _) = pt_sc_updateCharacterInfo"
| "packet_type (SetReadyTime _) = pt_sc_setReadyTime"
| "packet_type (SetChoiceCharacterTime _) = pt_sc_setChoiceCharacterTime"
| "packet_type (DropItem _ _) = pt_cs_sc_dropItem"
| "packet_type (RequestCombinationItem _ _ _ _) = pt_cs_requestCombinationItem"
| "packet_type (SetItemTicket _ _ _) = pt_sc_setItemTicket"
| "packet_type (ActiveItem _ _) = pt_sc_activeItem"
| "packet_type (FadeIn _) = pt_sc_fadeIn"
| "packet_type (FadeOut _) = pt_sc_fadeOut"
| "packet_type (BattleOpponents _) = pt_sc_battleOpponents"
| "packet_type (SetHamburgerType _ _ _) = pt_sc_setHamburgerType"
| "packet_type (MagicStickInfo _ _) = pt_sc_magicStickInfo"
| "packet_type (RequestUpgradeItem _ _ _) = pt_cs_requestUpgradeItem"
| "packet_type (DoctorToolInfo _ _ _ _) = pt_sc_DoctorToolInfo"
| "packet_type (CreepStageInfo _) = pt_sc_CreepStageInfo"
| "packet_type (BattleAvatarInfo _) = pt_sc_BattleAvatarInfo"
| "packet_type (InventoryInfo _ _ _) = pt_sc_InventoryInfo"
| "packet_type (MatchingInfo _ _) = pt_sc_matchingInfo"
| "packet_type (BattleTimeInfo _) = pt_sc_BattleTimeInfo"

definition word16_bytes :: "u16 \<Rightarrow> u8 list" where
  "word16_bytes w = int_bytes 2 (uint w)"

definition bool_byte :: "bool \<Rightarrow> u8" where
  "bool_byte b = (if b then 1 else 0)"

definition user_bytes :: "UserInfo \<Rightarrow> u8 list" where
  "user_bytes u = int_bytes 4 (uiNetworkID u) @ concat (map word16_bytes (uiName u))"

definition slot_bytes :: "SlotItemInfo \<Rightarrow> u8 list" where
  "slot_bytes s = [siType s, siUpgrade s]"

definition avatar_info_bytes :: "BattleAvatarInfo \<Rightarrow> u8 list" where
  "avatar_info_bytes p =
     int_bytes 4 (paNetworkID p) @ [paPlayerHp p] @ word16_bytes (paMaxHp p) @
     word16_bytes (paHp p) @ [paFirstAttackState p, paOffensePower p] @
     int_bytes 4 (uint (paDefensive p)) @ [paAdditionDefensive p, paWeakening p] @
     word16_bytes (paBleeding p) @ [paReducedHealing p, bool_byte (paIsEffectHeal p),
       paEffectHeal p, bool_byte (paIsInstallBomb p), paInstallBombDamage p,
       bool_byte (paIsIgnoreNextDamage p), bool_byte (paCanDefendNegativeEffect p),
       bool_byte (paIsCounterAttack p), paCounterAttackDamage p,
       bool_byte (paIsCounterHeal p), paCounterHeal p]"

text \<open>The fields of each structure, in the order of their declaration (and of \<open>Write\<close>).\<close>

definition cs_StartMatchingPacket_body :: "int \<Rightarrow> u16 list \<Rightarrow> u8 list" where [simp]:
  "cs_StartMatchingPacket_body n nm =
     int_bytes 4 n @ concat (map word16_bytes nm)"

definition sc_ConnectRoomPacket_body :: "UserInfo list \<Rightarrow> u8 list" where [simp]:
  "sc_ConnectRoomPacket_body us =
     concat (map user_bytes us)"

definition sc_AddNewItemPacket_body :: "int \<Rightarrow> u8 \<Rightarrow> u8 \<Rightarrow> u8 list" where [simp]:
  "sc_AddNewItemPacket_body n s i =
     int_bytes 4 n @ [s, i]"

definition cs_sc_ChangeItemSlotPacket_body :: "int \<Rightarrow> u8 \<Rightarrow> u8 \<Rightarrow> u8 list" where [simp]:
  "cs_sc_ChangeItemSlotPacket_body n s1 s2 =
     int_bytes 4 n @ [s1, s2]"

definition sc_UpgradeItemPacket_body :: "int \<Rightarrow> u8 \<Rightarrow> u8 \<Rightarrow> u8 list" where [simp]:
  "sc_UpgradeItemPacket_body n s u =
     int_bytes 4 n @ [s, u]"

definition cs_sc_ChangeCharacterPacket_body :: "int \<Rightarrow> ECharacterType \<Rightarrow> u8 list" where [simp]:
  "cs_sc_ChangeCharacterPacket_body n c =
     int_bytes 4 n @ [c]"

definition sc_BattleInfoPacket_body :: "int list \<Rightarrow> ItemQueueInfo list \<Rightarrow> u8 list" where [simp]:
  "sc_BattleInfoPacket_body ops qs =
     concat (map (int_bytes 4) ops) @
     concat (map (\<lambda>q. int_bytes 4 (iqNetworkID q) @ iqItemQueue q) qs)"

definition cs_sc_UseEmoticonPacket_body :: "int \<Rightarrow> u8 \<Rightarrow> u8 list" where [simp]:
  "cs_sc_UseEmoticonPacket_body n e =
     int_bytes 4 n @ [e]"

definition cs_sc_NotificationPacket_body :: "int \<Rightarrow> ENotificationType \<Rightarrow> u8 list" where [simp]:
  "cs_sc_NotificationPacket_body n t =
     int_bytes 4 n @ [num_of notification_types t]"

definition sc_UpdateCharacterInfoPacket_body :: "int \<Rightarrow> u16 \<Rightarrow> u16 \<Rightarrow> SlotItemInfo list \<Rightarrow> SlotItemInfo list \<Rightarrow> u8 list" where [simp]:
  "sc_UpdateCharacterInfoPacket_body n hp ahp us uns =
     int_bytes 4 n @ word16_bytes hp @
     word16_bytes ahp @ concat (map slot_bytes us) @ concat (map slot_bytes uns)"

definition sc_SetReadyTimePacket_body :: "u8 \<Rightarrow> u8 list" where [simp]:
  "sc_SetReadyTimePacket_body t =
     [t]"

definition sc_SetChoiceCharacterTimePacket_body :: "u8 \<Rightarrow> u8 list" where [simp]:
  "sc_SetChoiceCharacterTimePacket_body t =
     [t]"

definition cs_sc_DropItemPacket_body :: "int \<Rightarrow> u8 \<Rightarrow> u8 list" where [simp]:
  "cs_sc_DropItemPacket_body n i =
     int_bytes 4 n @ [i]"

definition cs_RequestCombinationItemPacket_body :: "int \<Rightarrow> u8 \<Rightarrow> u8 \<Rightarrow> u8 \<Rightarrow> u8 list" where [simp]:
  "cs_RequestCombinationItemPacket_body n i1 i2 i3 =
     int_bytes 4 n @ [i1, i2, i3]"

definition sc_SetItemTicketPacket_body :: "int \<Rightarrow> EItemTicketType \<Rightarrow> u8 \<Rightarrow> u8 list" where [simp]:
  "sc_SetItemTicketPacket_body n t c =
     int_bytes 4 n @ [of_nat (ticket_num t), c]"

definition sc_ActiveItemPacket_body :: "int \<Rightarrow> u8 \<Rightarrow> u8 list" where [simp]:
  "sc_ActiveItemPacket_body n s =
     int_bytes 4 n @ [s]"

definition sc_FadeInPacket_body :: "u8 \<Rightarrow> u8 list" where [simp]:
  "sc_FadeInPacket_body s =
     [s]"

definition sc_FadeOutPacket_body :: "u8 \<Rightarrow> u8 list" where [simp]:
  "sc_FadeOutPacket_body s =
     [s]"

definition sc_BattleOpponentsPacket_body :: "int list \<Rightarrow> u8 list" where [simp]:
  "sc_BattleOpponentsPacket_body ops =
     concat (map (int_bytes 4) ops)"

definition sc_SetHamburgerTypePacket_body :: "int \<Rightarrow> u8 \<Rightarrow> EHamburgerType \<Rightarrow> u8 list" where [simp]:
  "sc_SetHamburgerTypePacket_body n s t =
     int_bytes 4 n @ [s, of_nat (hamburger_num t)]"

definition sc_MagicStickInfoPacket_body :: "int \<Rightarrow> bool \<Rightarrow> u8 list" where [simp]:
  "sc_MagicStickInfoPacket_body n b =
     int_bytes 4 n @ [bool_byte b]"

definition cs_RequestUpgradeItemPacket_body :: "int \<Rightarrow> u8 \<Rightarrow> u8 \<Rightarrow> u8 list" where [simp]:
  "cs_RequestUpgradeItemPacket_body n s1 s2 =
     int_bytes 4 n @ [s1, s2]"

definition sc_DoctorToolInfoPacket_body :: "int \<Rightarrow> u8 \<Rightarrow> u8 \<Rightarrow> u8 \<Rightarrow> u8 list" where [simp]:
  "sc_DoctorToolInfoPacket_body n s i u =
     int_bytes 4 n @ [s, i, u]"

definition sc_CreepStageInfoPacket_body :: "ECreepType \<Rightarrow> u8 list" where [simp]:
  "sc_CreepStageInfoPacket_body c =
     [of_nat (creep_num c)]"

definition sc_BattleAvatarInfoPacket_body :: "BattleAvatarInfo \<Rightarrow> u8 list" where [simp]:
  "sc_BattleAvatarInfoPacket_body p =
     avatar_info_bytes p"

definition sc_InventoryInfoPacket_body :: "int \<Rightarrow> SlotItemInfo list \<Rightarrow> SlotItemInfo list \<Rightarrow> u8 list" where [simp]:
  "sc_InventoryInfoPacket_body n us uns =
     int_bytes 4 n @ concat (map slot_bytes us) @ concat (map slot_bytes uns)"

definition sc_MatchingInfoPacket_body :: "u8 \<Rightarrow> u16 \<Rightarrow> u8 list" where [simp]:
  "sc_MatchingInfoPacket_body q c =
     [q] @ word16_bytes c"

definition sc_BattleTimeInfoPacket_body :: "u8 \<Rightarrow> u8 list" where [simp]:
  "sc_BattleTimeInfoPacket_body t =
     [t]"

fun packet_body :: "packet \<Rightarrow> u8 list" where
  "packet_body (StartMatching n nm) = cs_StartMatchingPacket_body n nm"
| "packet_body (ConnectRoom us) = sc_ConnectRoomPacket_body us"
| "packet_body (AddNewItem n s i) = sc_AddNewItemPacket_body n s i"
| "packet_body (ChangeItemSlot n s1 s2) = cs_sc_ChangeItemSlotPacket_body n s1 s2"
| "packet_body (UpgradeItem n s u) = sc_UpgradeItemPacket_body n s u"
| "packet_body (ChangeCharacter n c) = cs_sc_ChangeCharacterPacket_body n c"
| "packet_body (BattleInfo ops qs) = sc_BattleInfoPacket_body ops qs"
| "packet_body (UseEmoticon n e) = cs_sc_UseEmoticonPacket_body n e"
| "packet_body (Notification n t) = cs_sc_NotificationPacket_body n t"
| "packet_body (UpdateCharacterInfo n hp ahp us uns) = sc_UpdateCharacterInfoPacket_body n hp ahp us uns"
| "packet_body (SetReadyTime t) = sc_SetReadyTimePacket_body t"
| "packet_body (SetChoiceCharacterTime t) = sc_SetChoiceCharacterTimePacket_body t"
| "packet_body (DropItem n i) = cs_sc_DropItemPacket_body n i"
| "packet_body (RequestCombinationItem n i1 i2 i3) = cs_RequestCombinationItemPacket_body n i1 i2 i3"
| "packet_body (SetItemTicket n t c) = sc_SetItemTicketPacket_body n t c"
| "packet_body (ActiveItem n s) = sc_ActiveItemPacket_body n s"
| "packet_body (FadeIn s) = sc_FadeInPacket_body s"
| "packet_body (FadeOut s) = sc_FadeOutPacket_body s"
| "packet_body (BattleOpponents ops) = sc_BattleOpponentsPacket_body ops"
| "packet_body (SetHamburgerType n s t) = sc_SetHamburgerTypePacket_body n s t"
| "packet_body (MagicStickInfo n b) = sc_MagicStickInfoPacket_body n b"
| "packet_body (RequestUpgradeItem n s1 s2) = cs_RequestUpgradeItemPacket_body n s1 s2"
| "packet_body (DoctorToolInfo n s i u) = sc_DoctorToolInfoPacket_body n s i u"
| "packet_body (CreepStageInfo c) = sc_CreepStageInfoPacket_body c"
| "packet_body (BattleAvatarInfo p) = sc_BattleAvatarInfoPacket_body p"
| "packet_body (InventoryInfo n us uns) = sc_InventoryInfoPacket_body n us uns"
| "packet_body (MatchingInfo q c) = sc_MatchingInfoPacket_body q c"
| "packet_body (BattleTimeInfo t) = sc_BattleTimeInfoPacket_body t"

definition Packet_Write :: "packet \<Rightarrow> u8 list" where
  "Packet_Write p =
     int_bytes 2 (int (packet_sizeof p)) @ [num_of packet_types (packet_type p)] @ packet_body p"

section \<open>Well-formed packets\<close>

text \<open>
  Arrays have their declared lengths and signed fields fit; every packet the server builds is of
  this kind, since the constructors fill arrays of fixed size.
\<close>

definition slots_ok :: "SlotItemInfo list \<Rightarrow> SlotItemInfo list \<Rightarrow> bool" where
  "slots_ok us uns \<longleftrightarrow> length us = MAX_USING_ITEM_COUNT \<and> length uns = MAX_UN_USING_ITEM_COUNT"

fun packet_ok :: "packet \<Rightarrow> bool" where
  "packet_ok (StartMatching n nm) \<longleftrightarrow> length nm = MAX_USER_NAME_LENGTH"
| "packet_ok (ConnectRoom us) \<longleftrightarrow> length us = MAX_ROOM_PLAYER \<and>
     list_all (\<lambda>u. length (uiName u) = MAX_USER_NAME_LENGTH) us"
| "packet_ok (BattleInfo ops qs) \<longleftrightarrow> length ops = MAX_ROOM_PLAYER \<and> length qs = MAX_ROOM_PLAYER \<and>
     list_all (\<lambda>q. length (iqItemQueue q) = 60) qs"
| "packet_ok (UpdateCharacterInfo n hp ahp us uns) \<longleftrightarrow> slots_ok us uns"
| "packet_ok (BattleOpponents ops) \<longleftrightarrow> length ops = MAX_ROOM_PLAYER"
| "packet_ok (InventoryInfo n us uns) \<longleftrightarrow> slots_ok us uns"
| "packet_ok _ \<longleftrightarrow> True"

lemma length_concat_const:
  "(\<And>x. x \<in> set xs \<Longrightarrow> length (f x) = k) \<Longrightarrow> length (concat (map f xs)) = k * length xs"
  by (induction xs) auto

lemma length_word16_bytes [simp]: "length (word16_bytes w) = 2"
  and length_slot_bytes [simp]: "length (slot_bytes s) = 2"
  and length_avatar_info [simp]: "length (avatar_info_bytes p) = 30"
  by (simp_all add: word16_bytes_def slot_bytes_def avatar_info_bytes_def)

lemma length_user_bytes: "length (uiName u) = MAX_USER_NAME_LENGTH \<Longrightarrow> length (user_bytes u) = 26"
  by (simp add: user_bytes_def length_concat_const [of _ _ 2])

lemma length_packet_body: "packet_ok p \<Longrightarrow> length (packet_body p) + 3 = packet_sizeof p"
  by (cases p)
    (auto simp: slots_ok_def list_all_iff length_user_bytes length_concat_const [of _ _ 2]
      length_concat_const [of _ _ 4] length_concat_const [of _ user_bytes 26]
      length_concat_const [of _ _ 64])

lemma length_Packet_Write: "packet_ok p \<Longrightarrow> length (Packet_Write p) = packet_sizeof p"
  using length_packet_body [of p] by (simp add: Packet_Write_def)

lemma packet_sizeof_bounds: "4 \<le> packet_sizeof p \<and> packet_sizeof p \<le> 547"
  by (cases p) simp_all

section \<open>Reading a packet in a buffer\<close>

text \<open>
  \<open>reinterpret_cast\<close> to a packet structure reads the fields at their offsets: the size at 0, the
  type at 2, the network identifier at 3, the further bytes from 7 on.
\<close>

definition rd_u16 :: "u8 list \<Rightarrow> nat \<Rightarrow> nat" where
  "rd_u16 buf off = nat (bytes_uint (take 2 (drop off buf)))"

definition rd_i32 :: "u8 list \<Rightarrow> nat \<Rightarrow> int" where
  "rd_i32 buf off = bytes_sint32 (take 4 (drop off buf))"

definition rd_u8 :: "u8 list \<Rightarrow> nat \<Rightarrow> u8" where
  "rd_u8 buf off = buf ! off"

definition rd_type :: "u8 list \<Rightarrow> EPacketType option" where
  "rd_type buf = of_num packet_types (buf ! 2)"

text \<open>The client's packets are read back from any buffer that starts with their bytes.\<close>

fun packet_networkID :: "packet \<Rightarrow> int option" where
  "packet_networkID (StartMatching n nm) = Some n"
| "packet_networkID (ChangeItemSlot n s1 s2) = Some n"
| "packet_networkID (ChangeCharacter n c) = Some n"
| "packet_networkID (UseEmoticon n e) = Some n"
| "packet_networkID (Notification n t) = Some n"
| "packet_networkID (DropItem n i) = Some n"
| "packet_networkID (RequestCombinationItem n i1 i2 i3) = Some n"
| "packet_networkID (RequestUpgradeItem n s1 s2) = Some n"
| "packet_networkID _ = None"

lemma rd_size:
  "packet_ok p \<Longrightarrow> rd_u16 (Packet_Write p @ tail) 0 = packet_sizeof p"
proof -
  have "bytes_uint (int_bytes 2 (int (packet_sizeof p))) = int (packet_sizeof p)"
    using packet_sizeof_bounds [of p] by (simp add: bytes_uint_int_bytes)
  then show ?thesis by (simp add: rd_u16_def Packet_Write_def del: int_bytes.simps)
qed

lemma rd_type_Write: "rd_type (Packet_Write p @ tail) = Some (packet_type p)"
proof -
  have "(Packet_Write p @ tail) ! 2 = num_of packet_types (packet_type p)"
    by (simp add: Packet_Write_def nth_append numeral_2_eq_2)
  moreover have "length packet_types < 256" by (simp add: packet_types_def)
  ultimately show ?thesis by (simp add: rd_type_def of_num_num_of packet_types_all)
qed

lemma rd_networkID:
  assumes "packet_networkID p = Some n" and "in_i32 n"
  shows "rd_i32 (Packet_Write p @ tail) 3 = n"
proof -
  have "\<exists>bs. packet_body p = int_bytes 4 n @ bs"
    using assms(1) by (cases p) auto
  then obtain bs where "packet_body p = int_bytes 4 n @ bs" by blast
  then have "drop 3 (Packet_Write p @ tail) = int_bytes 4 n @ bs @ tail"
    by (simp add: Packet_Write_def numeral_2_eq_2 numeral_3_eq_3)
  then show ?thesis using bytes_sint32_int_bytes [OF assms(2)]
    by (simp add: rd_i32_def del: int_bytes.simps)
qed

section \<open>Constructors\<close>

definition slot_info :: "item \<Rightarrow> SlotItemInfo" where
  "slot_info it = \<lparr>siType = mType it, siUpgrade = mUpgrade it\<rparr>"

definition sc_InventoryInfoPacket :: "client \<Rightarrow> packet" where
  "sc_InventoryInfoPacket c =
     InventoryInfo (clNetworkID c) (map slot_info (take MAX_USING_ITEM_COUNT (clUsingItems c)))
       (map slot_info (take MAX_UN_USING_ITEM_COUNT (clUnUsingItems c)))"

definition sc_UpdateCharacterInfoPacket :: "client \<Rightarrow> packet" where
  "sc_UpdateCharacterInfoPacket c =
     UpdateCharacterInfo (clNetworkID c) (word_of_int (clHp c)) (word_of_int (clAvatarHp c))
       (map slot_info (take MAX_USING_ITEM_COUNT (clUsingItems c)))
       (map slot_info (take MAX_UN_USING_ITEM_COUNT (clUnUsingItems c)))"

definition sc_SetItemTicketPacket :: "int \<Rightarrow> EItemTicketType \<Rightarrow> int \<Rightarrow> packet" where
  "sc_SetItemTicketPacket networkID ticketType cnt =
     SetItemTicket networkID ticketType (word_of_int cnt)"

text \<open>
  The opponents are copied into an array of eight, closed by \<open>INT32_MAX\<close> when there is room; the
  entries after it are not set (they read as zero here, and no client reads them).
\<close>

definition opponent_array :: "int list \<Rightarrow> int list result" where
  "opponent_array ops =
     (if MAX_ROOM_PLAYER < length ops then Inl OutOfBounds
      else Inr (take MAX_ROOM_PLAYER (ops @ [INT_MAX] @ replicate MAX_ROOM_PLAYER 0)))"

definition sc_BattleOpponentsPacket :: "int list \<Rightarrow> packet result" where
  "sc_BattleOpponentsPacket ops = rbind (opponent_array ops) (\<lambda>arr. Inr (BattleOpponents arr))"

definition sc_BattleInfoPacket :: "int list \<Rightarrow> int list \<Rightarrow> packet result" where
  "sc_BattleInfoPacket ops itemQueues =
     rbind (opponent_array ops) (\<lambda>arr.
       if length itemQueues < MAX_ROOM_PLAYER * 61 then Inl OutOfBounds
       else Inr (BattleInfo arr
         (map (\<lambda>i. \<lparr>iqNetworkID = itemQueues ! (i * 60 + i),
                    iqItemQueue = map (\<lambda>j. word_of_int (itemQueues ! (i * 60 + i + (j + 1)))) [0..<60]\<rparr>)
            [0..<MAX_ROOM_PLAYER])))"

text \<open>
  \<open>wcscpy\<close> copies up to and with the first null character; what lies behind the end of the source
  or of the destination is out of bounds.
\<close>

fun first_null :: "u16 list \<Rightarrow> nat option" where
  "first_null [] = None"
| "first_null (c # cs) = (if c = 0 then Some 0 else map_option Suc (first_null cs))"

definition wcscpy :: "u16 list \<Rightarrow> u16 list \<Rightarrow> u16 list result" where
  "wcscpy dst src =
     (case first_null src of None \<Rightarrow> Inl OutOfBounds
      | Some n \<Rightarrow> if n < length dst then Inr (take (Suc n) src @ drop (Suc n) dst) else Inl OutOfBounds)"

fun connect_users :: "client list \<Rightarrow> UserInfo list result" where
  "connect_users [] = Inr []"
| "connect_users (c # cs) =
     rbind (wcscpy (replicate MAX_USER_NAME_LENGTH 0) (clName c)) (\<lambda>nm.
       rbind (connect_users cs) (\<lambda>us. Inr (\<lparr>uiNetworkID = clNetworkID c, uiName = nm\<rparr> # us)))"

definition sc_ConnectRoomPacket :: "client list \<Rightarrow> packet result" where
  "sc_ConnectRoomPacket cs =
     (if MAX_ROOM_PLAYER < length cs then Inl OutOfBounds
      else rbind (connect_users cs) (\<lambda>us. Inr (ConnectRoom
        (us @ replicate (MAX_ROOM_PLAYER - length us)
                \<lparr>uiNetworkID = 0, uiName = replicate MAX_USER_NAME_LENGTH 0\<rparr>))))"

text \<open>
  \<open>BattleAvatar::ApplyBattleAvatarInfoPacket\<close>; \<open>playerHp\<close> is what the client's hit points give, or
  50 without a valid client.  A ghost shows the complement of its identifier, a creep (whose
  identifiers lie above 100000) its own.
\<close>

definition ApplyBattleAvatarInfoPacket :: "int \<Rightarrow> avatar \<Rightarrow> BattleAvatarInfo" where
  "ApplyBattleAvatarInfoPacket playerHp av =
     \<lparr>paNetworkID =
        (if avNetworkID av > 100000 then avNetworkID av
         else if avIsGhost av then not (avNetworkID av) else avNetworkID av),
      paPlayerHp = word_of_int playerHp, paMaxHp = word_of_int (avMaxHp av),
      paHp = word_of_int (avHp av), paFirstAttackState = word_of_int (avFirstAttackState av),
      paOffensePower = word_of_int (avOffensePower av), paDefensive = word_of_int (avDefensive av),
      paAdditionDefensive = word_of_int (avAdditionDefensive av),
      paWeakening = word_of_int (avWeakening av), paBleeding = word_of_int (avBleeding av),
      paReducedHealing = word_of_int (avReducedHealing av), paIsEffectHeal = avIsEffectHeal av,
      paEffectHeal = word_of_int (avEffectHeal av), paIsInstallBomb = avIsInstallBomb av,
      paInstallBombDamage = word_of_int (avInstallBombDamage av),
      paIsIgnoreNextDamage = avIsIgnoreNextDamage av,
      paCanDefendNegativeEffect = avCanDefendNegativeEffect av,
      paIsCounterAttack = avIsCounterAttack av,
      paCounterAttackDamage = word_of_int (avCounterAttackDamage av),
      paIsCounterHeal = avIsCounterHeal av, paCounterHeal = word_of_int (avCounterHeal av)\<rparr>"

end
