(* ===== verification/World.thy ===== *)
theory World
  imports Room Server_Queue Packets
begin

text \<open>
  The state of the server: the array of clients, the rooms of the \<open>RoomManager\<close>, the matching
  queue, the rooms whose progress thread was started, and the messages handed to the network
  (receiver and bytes, in order).  An operation takes and returns the state; a pointer is an
  index into the arrays.  \<open>Server.cpp\<close>, \<open>RoomManager.cpp\<close> and the operations of \<open>Room.cpp\<close>,
  \<open>Client.cpp\<close> and \<open>ServerQueue.cpp\<close> that reach other objects.
\<close>

record world =
  wClients :: "client list"
  wRooms :: "room list"
  wQueue :: ServerQueue
  wThreads :: "nat list"
  wSent :: "(nat \<times> u8 list) list"
  wRng :: "nat list"
  wNow :: int

text \<open>The static objects, after \<open>Server::Start\<close> has numbered the clients.\<close>

definition world_new :: "nat list \<Rightarrow> int \<Rightarrow> world" where
  "world_new rng now =
     \<lparr>wClients = map (\<lambda>i. Client_new (int i)) [0..<MAX_USER],
      wRooms = map (\<lambda>i. Room_new\<lparr>rmNumber := i\<rparr>) [0..<MAX_ROOM_COUNT],
      wQueue = ServerQueue_new, wThreads = [], wSent = [], wRng = rng, wNow = now\<rparr>"

abbreviation client_of :: "world \<Rightarrow> nat \<Rightarrow> client" where
  "client_of w p \<equiv> wClients w ! p"

abbreviation room_of :: "world \<Rightarrow> nat \<Rightarrow> room" where
  "room_of w i \<equiv> wRooms w ! i"

definition set_client :: "nat \<Rightarrow> client \<Rightarrow> world \<Rightarrow> world" where
  "set_client p c w = w\<lparr>wClients := (wClients w)[p := c]\<rparr>"

definition set_room :: "nat \<Rightarrow> room \<Rightarrow> world \<Rightarrow> world" where
  "set_room i r w = w\<lparr>wRooms := (wRooms w)[i := r]\<rparr>"

text \<open>\<open>sClients[networkID]\<close>: the array is indexed unchecked.\<close>

definition client_idx :: "world \<Rightarrow> int \<Rightarrow> nat result" where
  "client_idx w networkID =
     (if 0 \<le> networkID \<and> nat networkID < length (wClients w) then Inr (nat networkID)
      else Inl OutOfBounds)"

section \<open>Sending\<close>

text \<open>A message is copied into the buffer of a fresh overlapped structure of \<open>MAX_BUF_SIZE\<close> bytes.\<close>

definition SendBytes :: "int \<Rightarrow> u8 list \<Rightarrow> world \<Rightarrow> world result" where
  "SendBytes networkID bytes w =
     rbind (client_idx w networkID) (\<lambda>p.
       if MAX_BUF_SIZE < length bytes then Inl OutOfBounds
       else Inr (w\<lparr>wSent := wSent w @ [(p, bytes)]\<rparr>))"

text \<open>
  The packet is given by its bytes; the length that counts is the size field at its front.  With
  an explicit size the first \<open>size\<close> bytes are sent.
\<close>

definition sized :: "u8 list \<Rightarrow> nat \<Rightarrow> u8 list result" where
  "sized buf n = (if n \<le> length buf then Inr (take n buf) else Inl OutOfBounds)"

definition packet_bytes :: "u8 list \<Rightarrow> u8 list result" where
  "packet_bytes buf = sized buf (rd_u16 buf 0)"

definition SendPacket :: "int \<Rightarrow> u8 list \<Rightarrow> world \<Rightarrow> world result" where
  "SendPacket networkID buf w = rbind (packet_bytes buf) (\<lambda>bytes. SendBytes networkID bytes w)"

fun send_all :: "nat list \<Rightarrow> u8 list \<Rightarrow> world \<Rightarrow> world result" where
  "send_all [] bytes w = Inr w"
| "send_all (p # ps) bytes w =
     rbind (SendBytes (clNetworkID (client_of w p)) bytes w) (\<lambda>w'. send_all ps bytes w')"

definition SendToAll :: "nat \<Rightarrow> u8 list \<Rightarrow> world \<Rightarrow> world result" where
  "SendToAll i bytes w = send_all (rmClients (room_of w i)) bytes w"

definition SendPacketToAllClients :: "nat \<Rightarrow> packet \<Rightarrow> world \<Rightarrow> world result" where
  "SendPacketToAllClients i p w = SendToAll i (Packet_Write p) w"

definition stream :: "packet list \<Rightarrow> u8 list" where
  "stream ps = concat (map Packet_Write ps)"

text \<open>A memory stream of packets, sent with its length.\<close>

definition SendStreamToAllClients :: "nat \<Rightarrow> packet list \<Rightarrow> world \<Rightarrow> world result" where
  "SendStreamToAllClients i ps w = SendToAll i (stream ps) w"

text \<open>The other clients of a room: every client of the room but \<open>p\<close>.\<close>

definition SendToOthers :: "nat \<Rightarrow> nat \<Rightarrow> u8 list \<Rightarrow> world \<Rightarrow> world result" where
  "SendToOthers i p bytes w = send_all (filter (\<lambda>q. q \<noteq> p) (rmClients (room_of w i))) bytes w"

definition SendPacketToAnotherClients :: "nat \<Rightarrow> nat \<Rightarrow> packet \<Rightarrow> world \<Rightarrow> world result" where
  "SendPacketToAnotherClients i p pkt w = SendToOthers i p (Packet_Write pkt) w"

definition SendPacketInAllRoomClients :: "nat \<Rightarrow> packet \<Rightarrow> world \<Rightarrow> world result" where
  "SendPacketInAllRoomClients p pkt w =
     (case clRoomPtr (client_of w p) of None \<Rightarrow> Inr w | Some i \<Rightarrow> SendPacketToAllClients i pkt w)"

definition SendPacketInAnotherRoomClients :: "nat \<Rightarrow> packet \<Rightarrow> world \<Rightarrow> world result" where
  "SendPacketInAnotherRoomClients p pkt w =
     (case clRoomPtr (client_of w p) of None \<Rightarrow> Inr w
      | Some i \<Rightarrow> SendPacketToAnotherClients i p pkt w)"

text \<open>A packet forwarded as it was received: the bytes of the buffer up to its own size field.\<close>

definition ForwardInAllRoomClients :: "nat \<Rightarrow> u8 list \<Rightarrow> world \<Rightarrow> world result" where
  "ForwardInAllRoomClients p buf w =
     (case clRoomPtr (client_of w p) of None \<Rightarrow> Inr w
      | Some i \<Rightarrow>
          if rmClients (room_of w i) = [] then Inr w
          else rbind (packet_bytes buf) (\<lambda>bytes. SendToAll i bytes w))"

section \<open>Rooms\<close>

definition IsValidClientInThisRoom :: "nat \<Rightarrow> nat option \<Rightarrow> world \<Rightarrow> bool" where
  "IsValidClientInThisRoom i client w =
     (case client of None \<Rightarrow> False
      | Some p \<Rightarrow>
          if clSocket (client_of w p) = None then False
          else if clRoomPtr (client_of w p) \<noteq> Some i then False
          else if clRoomOpenCount (client_of w p) \<noteq> rmOpenCount (room_of w i) then False
          else True)"

fun find_unused :: "room list \<Rightarrow> nat option" where
  "find_unused [] = None"
| "find_unused (r # rs) =
     (if \<not> rmIsRun r \<and> rmIsFinishThread r then Some 0 else map_option Suc (find_unused rs))"

text \<open>Without an unused room the last one is handed out as it is.\<close>

definition GetUnUsedRoom :: "world \<Rightarrow> nat \<times> world" where
  "GetUnUsedRoom w =
     (let i = (case find_unused (wRooms w) of Some i \<Rightarrow> i | None \<Rightarrow> length (wRooms w) - 1);
          r = (case find_unused (wRooms w) of
                 Some i \<Rightarrow> (room_of w i)\<lparr>rmIsRun := True\<rparr> | None \<Rightarrow> room_of w i)
      in (i, set_room i (Room.AddOpenCount r) w))"

definition GetUsingRoomCount :: "world \<Rightarrow> nat" where
  "GetUsingRoomCount w = length (filter (\<lambda>r. \<not> rmIsFinishThread r) (wRooms w))"

text \<open>\<open>Room::AddClients\<close> with the back pointers of the clients (\<open>Client::SetRoom\<close>).\<close>

fun set_rooms :: "nat \<Rightarrow> nat list \<Rightarrow> world \<Rightarrow> world" where
  "set_rooms i [] w = w"
| "set_rooms i (p # ps) w =
     set_rooms i ps (set_client p
       ((client_of w p)\<lparr>clRoomPtr := Some i, clRoomOpenCount := rmOpenCount (room_of w i)\<rparr>) w)"

definition World_AddClients :: "nat \<Rightarrow> nat list \<Rightarrow> world \<Rightarrow> world result" where
  "World_AddClients i clients w =
     rbind (Room_AddClients (client_of w) clients (room_of w i)) (\<lambda>(added, r).
       Inr (if added then set_rooms i clients (set_room i r w) else w))"

definition TryCreateRoomOrNullPtr :: "world \<Rightarrow> (nat option \<times> world) result" where
  "TryCreateRoomOrNullPtr w =
     rbind (TakeRoomClients (wQueue w)) (\<lambda>(cs, q).
       case cs of
         None \<Rightarrow> Inr (None, w)
       | Some clients \<Rightarrow>
           let (i, w1) = GetUnUsedRoom w
           in rbind (World_AddClients i clients w1) (\<lambda>w2. Inr (Some i, w2\<lparr>wQueue := q\<rparr>)))"

text \<open>Both fields of the message are converted to their unsigned types.\<close>

fun send_each :: "int list \<Rightarrow> packet \<Rightarrow> world \<Rightarrow> world result" where
  "send_each [] pkt w = Inr w"
| "send_each (n # ns) pkt w = rbind (SendBytes n (Packet_Write pkt) w) (\<lambda>w'. send_each ns pkt w')"

definition SendMatchingQueueInfo :: "nat \<Rightarrow> world \<Rightarrow> world result" where
  "SendMatchingQueueInfo connectionCount w =
     (if sqSize (wQueue w) = 0 then Inr w
      else rbind (QueueClients (wQueue w)) (\<lambda>cs.
        send_each (map (\<lambda>p. clNetworkID (client_of w p)) cs)
          (MatchingInfo (of_nat (sqSize (wQueue w))) (of_nat connectionCount)) w))"

section \<open>Leaving\<close>

definition Client_Init :: "nat \<Rightarrow> world \<Rightarrow> world" where
  "Client_Init p w =
     (let w1 = (case clRoomPtr (client_of w p) of None \<Rightarrow> w
                | Some i \<Rightarrow> set_room i (Room_RemoveClient (client_of w) p (room_of w i)) w)
      in set_client p (Client_reset (client_of w1 p)) w1)"

definition Disconnect :: "int \<Rightarrow> bool \<Rightarrow> world \<Rightarrow> world result" where
  "Disconnect networkID isSendAnotherRoomClient w =
     rbind (client_idx w networkID) (\<lambda>p.
       if clStatus (client_of w p) = FREE then Inr w
       else rbind (RemoveClient (wQueue w) p) (\<lambda>q.
         let w1 = w\<lparr>wQueue := q\<rparr>
         in rbind (if isSendAnotherRoomClient
                   then SendPacketInAnotherRoomClients p (Notification networkID DisconnectServer) w1
                   else Inr w1) (\<lambda>w2.
              Inr (Client_Init p (set_client p ((client_of w2 p)\<lparr>clStatus := ALLOCATED\<rparr>) w2)))))"

definition SendDisconnect :: "int \<Rightarrow> world \<Rightarrow> world result" where
  "SendDisconnect networkID w =
     rbind (client_idx w networkID) (\<lambda>p.
       if clStatus (client_of w p) \<noteq> ACTIVE then Inr w
       else SendPacketInAnotherRoomClients p (Notification networkID DisconnectServer) w)"

definition SendDisconnectDelay :: "int \<Rightarrow> world \<Rightarrow> world result" where
  "SendDisconnectDelay networkID w =
     rbind (client_idx w networkID) (\<lambda>p.
       if clStatus (client_of w p) \<noteq> ACTIVE then Inr w
       else rbind (SendPacketInAllRoomClients p (Notification networkID DisconnectServer) w) (\<lambda>w1.
         Disconnect networkID False w1))"

end
