(* ===== verification/Items.thy ===== *)
theory Items
  imports World
begin

text \<open>
  The items of \<open>Items.h\<close>: what each does when it is activated (at its three upgrade levels) and
  when it is fitted, and the operations of \<open>BattleAvatar\<close> that reach the client of the avatar, its
  room or the item table.  An effect acts on the two avatars of a battle and on the server.
\<close>

section \<open>Effects\<close>

record fx =
  fxMe :: avatar
  fxOpponents :: avatar
  fxWorld :: world

definition me :: "(avatar \<Rightarrow> avatar) \<Rightarrow> fx \<Rightarrow> fx result" where
  "me f s = Inr (s\<lparr>fxMe := f (fxMe s)\<rparr>)"

definition opponents :: "(avatar \<Rightarrow> avatar) \<Rightarrow> fx \<Rightarrow> fx result" where
  "opponents f s = Inr (s\<lparr>fxOpponents := f (fxOpponents s)\<rparr>)"

text \<open>\<open>opponents.ToDamage(n, me)\<close> and \<open>opponents.ToPiercingDamage(n, me)\<close>.\<close>

definition hit :: "int \<Rightarrow> fx \<Rightarrow> fx result" where
  "hit n s = opponents (ToDamage n (fxMe s)) s"

definition pierce :: "int \<Rightarrow> fx \<Rightarrow> fx result" where
  "pierce n s = opponents (ToPiercingDamage n (fxMe s)) s"

definition seqfx :: "(fx \<Rightarrow> fx result) \<Rightarrow> (fx \<Rightarrow> fx result) \<Rightarrow> fx \<Rightarrow> fx result" where
  "seqfx f g s = rbind (f s) g"

fun repeat_fx :: "nat \<Rightarrow> (fx \<Rightarrow> fx result) \<Rightarrow> fx \<Rightarrow> fx result" where
  "repeat_fx 0 f s = Inr s"
| "repeat_fx (Suc n) f s = rbind (f s) (repeat_fx n f)"

text \<open>The \<open>switch\<close> on the upgrade in the macro \<open>ITEM\<close>; other values are logged only.\<close>

definition upgrades ::
  "(fx \<Rightarrow> fx result) \<Rightarrow> (fx \<Rightarrow> fx result) \<Rightarrow> (fx \<Rightarrow> fx result) \<Rightarrow> int \<Rightarrow> fx \<Rightarrow> fx result" where
  "upgrades one two three upgrade s =
     (if upgrade = 0 then one s else if upgrade = 1 then two s
      else if upgrade = 2 then three s else Inr s)"

definition with_client :: "(client \<Rightarrow> fx \<Rightarrow> fx result) \<Rightarrow> fx \<Rightarrow> fx result" where
  "with_client f s =
     (case avClient (fxMe s) of None \<Rightarrow> Inl NullDeref | Some p \<Rightarrow> f (client_of (fxWorld s) p) s)"

definition draw :: "int \<Rightarrow> int \<Rightarrow> (int \<Rightarrow> fx \<Rightarrow> fx result) \<Rightarrow> fx \<Rightarrow> fx result" where
  "draw a b f s =
     (let d = Random_draw a b (wRng (fxWorld s))
      in f (fst d) (s\<lparr>fxWorld := (fxWorld s)\<lparr>wRng := snd d\<rparr>\<rparr>))"

definition on_world :: "(world \<Rightarrow> world result) \<Rightarrow> fx \<Rightarrow> fx result" where
  "on_world f s = rbind (f (fxWorld s)) (\<lambda>w. Inr (s\<lparr>fxWorld := w\<rparr>))"

lemmas fx_defs = me_def opponents_def hit_def pierce_def seqfx_def upgrades_def with_client_def
  draw_def on_world_def

section \<open>Avatars and rooms\<close>

definition IsValidBattleAvatarInRoom :: "avatar \<Rightarrow> world \<Rightarrow> bool" where
  "IsValidBattleAvatarInRoom av w =
     (case avRoom av of None \<Rightarrow> False | Some i \<Rightarrow> IsValidClientInThisRoom i (avClient av) w)"

section \<open>Activation\<close>

definition ItemEmpty_Active :: "int \<Rightarrow> fx \<Rightarrow> fx result" where
  "ItemEmpty_Active = upgrades Inr Inr Inr"

definition Item001_Active :: "int \<Rightarrow> fx \<Rightarrow> fx result" where
  "Item001_Active = upgrades (hit 5) (hit 8) (hit 12)"

definition Item002_Active :: "int \<Rightarrow> fx \<Rightarrow> fx result" where
  "Item002_Active = upgrades (me (ToDefensive 3)) (me (ToDefensive 5)) (me (ToDefensive 7))"

definition Item003_Active :: "int \<Rightarrow> fx \<Rightarrow> fx result" where
  "Item003_Active =
     upgrades (opponents (ToWeakening 1)) (opponents (ToWeakening 2)) (opponents (ToWeakening 3))"

definition Item004_Active :: "int \<Rightarrow> fx \<Rightarrow> fx result" where
  "Item004_Active =
     upgrades (seqfx (hit 3) (hit 3)) (seqfx (hit 4) (hit 4)) (seqfx (hit 6) (hit 6))"

definition Item005_hit :: "int \<Rightarrow> fx \<Rightarrow> fx result" where
  "Item005_hit x s = hit (i32 (5 + i32 (avDefensive (fxMe s) * x))) s"

definition Item005_Active :: "int \<Rightarrow> fx \<Rightarrow> fx result" where
  "Item005_Active = upgrades (Item005_hit 3) (Item005_hit 4) (Item005_hit 6)"

definition Item006_Active :: "int \<Rightarrow> fx \<Rightarrow> fx result" where
  "Item006_Active = upgrades (me Clear) (me Clear) (me Clear)"

definition Item007_burger :: "int \<Rightarrow> int \<Rightarrow> int \<Rightarrow> int \<Rightarrow> fx \<Rightarrow> fx result" where
  "Item007_burger fillet guinness garlic rice s =
     (case avHamburgerType (fxMe s) of
        Fillet \<Rightarrow> opponents (ToWeakening fillet) s
      | Guinness \<Rightarrow> hit guinness s
      | WhiteGarlic \<Rightarrow> me (ToHeal garlic) s
      | Rice \<Rightarrow> me (ToDefensive rice) s)"

definition Item007_Active :: "int \<Rightarrow> fx \<Rightarrow> fx result" where
  "Item007_Active =
     upgrades (Item007_burger 2 7 4 4) (Item007_burger 3 9 6 6) (Item007_burger 4 12 9 9)"

definition Item008_Active :: "int \<Rightarrow> fx \<Rightarrow> fx result" where
  "Item008_Active = upgrades (me (ToOffensePower 2)) (me (ToOffensePower 3)) (me (ToOffensePower 5))"

definition Item009_Active :: "int \<Rightarrow> fx \<Rightarrow> fx result" where
  "Item009_Active =
     upgrades (seqfx (me (ToDefensive 4)) (me (SetCounterAttack 5)))
       (seqfx (me (ToDefensive 4)) (me (SetCounterAttack 7)))
       (seqfx (me (ToDefensive 4)) (me (SetCounterAttack 10)))"

definition Item010_Active :: "int \<Rightarrow> fx \<Rightarrow> fx result" where
  "Item010_Active =
     upgrades (seqfx (me (ToDefensive 4)) (me (SetCounterHeal 6)))
       (seqfx (me (ToDefensive 4)) (me (SetCounterHeal 8)))
       (seqfx (me (ToDefensive 4)) (me (SetCounterHeal 11)))"

definition Item011_Active :: "int \<Rightarrow> fx \<Rightarrow> fx result" where
  "Item011_Active =
     upgrades (me (ToAdditionDefensive 2)) (me (ToAdditionDefensive 4)) (me (ToAdditionDefensive 6))"

definition Item012_Active :: "int \<Rightarrow> fx \<Rightarrow> fx result" where
  "Item012_Active = upgrades (me (SetEffectHeal 1)) (me (SetEffectHeal 3)) (me (SetEffectHeal 4))"

definition Item013_Active :: "int \<Rightarrow> fx \<Rightarrow> fx result" where
  "Item013_Active =
     upgrades (opponents (SetInstallBomb 15)) (opponents (SetInstallBomb 20))
       (opponents (SetInstallBomb 30))"

definition Item014_Active :: "int \<Rightarrow> fx \<Rightarrow> fx result" where
  "Item014_Active =
     upgrades (seqfx (me (ToJustDamage 3)) (me (ToDefensive (3 * 3))))
       (seqfx (me (ToJustDamage 4)) (me (ToDefensive (3 * 4))))
       (seqfx (me (ToJustDamage 5)) (me (ToDefensive (3 * 5))))"

definition Item015_hits :: "int \<Rightarrow> fx \<Rightarrow> fx result" where
  "Item015_hits n s = repeat_fx (nat (avEffectItemCount (fxMe s))) (hit n) s"

definition Item015_Active :: "int \<Rightarrow> fx \<Rightarrow> fx result" where
  "Item015_Active = upgrades (Item015_hits 10) (Item015_hits 20) (Item015_hits 30)"

definition Item016_Active :: "int \<Rightarrow> fx \<Rightarrow> fx result" where
  "Item016_Active = upgrades (hit 5) (hit 5) (hit 5)"

definition sumTicket :: "client \<Rightarrow> int" where
  "sumTicket c = i32 (i32 (i32 (clNormalItemTicketCount c + clAdvancedItemTicketCount c) +
     clTopItemTicketCount c) + clSupremeItemTicketCount c)"

definition Item017_Active :: "int \<Rightarrow> fx \<Rightarrow> fx result" where
  "Item017_Active =
     upgrades (with_client (\<lambda>c. hit (f32_mul (sumTicket c) 1 1)))
       (with_client (\<lambda>c. hit (sumTicket c)))
       (with_client (\<lambda>c. hit (i32 (sumTicket c * 2))))"

definition Item018_hit :: "int \<Rightarrow> fx \<Rightarrow> fx result" where
  "Item018_hit n s = hit (n * (if avDefensive (fxOpponents s) = 0 then 1 else 2)) s"

definition Item018_Active :: "int \<Rightarrow> fx \<Rightarrow> fx result" where
  "Item018_Active = upgrades (Item018_hit 10) (Item018_hit 15) (Item018_hit 20)"

definition Item019_Active :: "int \<Rightarrow> fx \<Rightarrow> fx result" where
  "Item019_Active =
     upgrades (seqfx (opponents (ToWeakening 1)) (hit 6)) (seqfx (opponents (ToWeakening 1)) (hit 9))
       (seqfx (opponents (ToWeakening 1)) (hit 13))"

definition Item020_Active :: "int \<Rightarrow> fx \<Rightarrow> fx result" where
  "Item020_Active =
     upgrades (opponents (ToWeakening 2))
       (seqfx (opponents (ToWeakening 3)) (me (ToWeakening 1)))
       (seqfx (opponents (ToWeakening 4)) (me (ToWeakening 2)))"

text \<open>
  The stick announces one draw; at the first level the same draw decides the effect, at the
  others a second draw does, with the other polarity.
\<close>

definition Item021_announce :: "bool \<Rightarrow> fx \<Rightarrow> fx result" where
  "Item021_announce isDamage s =
     (case avClient (fxMe s) of None \<Rightarrow> Inl NullDeref
      | Some p \<Rightarrow> on_world (SendPacketInAllRoomClients p
          (MagicStickInfo (clNetworkID (client_of (fxWorld s) p)) isDamage)) s)"

definition Item021_again :: "int \<Rightarrow> int \<Rightarrow> fx \<Rightarrow> fx result" where
  "Item021_again damage heal =
     draw 0 1 (\<lambda>g. seqfx (Item021_announce (g = 1))
       (draw 0 1 (\<lambda>g'. if g' = 0 then hit damage else me (ToHeal heal))))"

definition Item021_Active :: "int \<Rightarrow> fx \<Rightarrow> fx result" where
  "Item021_Active =
     upgrades
       (draw 0 1 (\<lambda>g. seqfx (Item021_announce (g = 1)) (if g = 1 then hit 6 else me (ToHeal 7))))
       (Item021_again 9 10) (Item021_again 13 14)"

definition Item022_Active :: "int \<Rightarrow> fx \<Rightarrow> fx result" where
  "Item022_Active =
     upgrades (seqfx (opponents (ToBleeding 2)) (hit 3)) (seqfx (opponents (ToBleeding 2)) (hit 6))
       (seqfx (opponents (ToBleeding 2)) (hit 11))"

definition Item023_calm :: "fx \<Rightarrow> fx result" where
  "Item023_calm =
     seqfx (opponents (\<lambda>av. av\<lparr>avOffensePower := 0\<rparr>)) (me (\<lambda>av. av\<lparr>avWeakening := 0\<rparr>))"

definition Item023_Active :: "int \<Rightarrow> fx \<Rightarrow> fx result" where
  "Item023_Active = upgrades Item023_calm Item023_calm Item023_calm"

definition Item024_hit :: "int \<Rightarrow> fx \<Rightarrow> fx result" where
  "Item024_hit base s =
     (let percentHp = c_div (avMaxHp (fxOpponents s)) 5
      in if percentHp = 0 then Inl DivByZero
         else let damage = c_div (i32 (avMaxHp (fxOpponents s) - avHp (fxOpponents s))) percentHp
              in hit (i32 (base + damage)) s)"

definition Item024_Active :: "int \<Rightarrow> fx \<Rightarrow> fx result" where
  "Item024_Active = upgrades (Item024_hit 7) (Item024_hit 11) (Item024_hit 15)"

definition Item025_power :: "int \<Rightarrow> int \<Rightarrow> fx \<Rightarrow> fx result" where
  "Item025_power early late s =
     me (ToOffensePower (if avEffectItemCount (fxMe s) < 4 then early else late)) s"

definition Item025_Active :: "int \<Rightarrow> fx \<Rightarrow> fx result" where
  "Item025_Active = upgrades (Item025_power 3 5) (Item025_power 4 6) (Item025_power 5 7)"

definition Item026_Active :: "int \<Rightarrow> fx \<Rightarrow> fx result" where
  "Item026_Active =
     upgrades (seqfx (hit 10) (opponents (ToReducedHealing 2)))
       (seqfx (hit 10) (opponents (ToReducedHealing 4)))
       (seqfx (hit 10) (opponents (ToReducedHealing 6)))"

definition Item027_double :: "int \<Rightarrow> fx \<Rightarrow> fx result" where
  "Item027_double n = seqfx (me (ToDefensive n)) (me (\<lambda>av. ToDefensive (avDefensive av) av))"

definition Item027_Active :: "int \<Rightarrow> fx \<Rightarrow> fx result" where
  "Item027_Active = upgrades (Item027_double 3) (Item027_double 5) (Item027_double 10)"

definition Item028_Active :: "int \<Rightarrow> fx \<Rightarrow> fx result" where
  "Item028_Active =
     upgrades (seqfx (opponents (ToBleeding 2)) (hit 6)) (seqfx (opponents (ToBleeding 3)) (hit 6))
       (seqfx (opponents (ToBleeding 5)) (hit 6))"

definition Item029_ticket :: "fx \<Rightarrow> fx result" where
  "Item029_ticket s =
     (if \<not> IsValidBattleAvatarInRoom (fxMe s) (fxWorld s) then Inr s
      else case avClient (fxMe s) of None \<Rightarrow> Inl NullDeref
        | Some p \<Rightarrow>
            let client = client_of (fxWorld s) p;
                ticketCount = i32 (clNormalItemTicketCount client + 1)
            in on_world (\<lambda>w. SendPacketInAllRoomClients p
                 (sc_SetItemTicketPacket (clNetworkID client) Normal ticketCount)
                 (set_client p (SetTicketCount Normal ticketCount (client_of w p)) w)) s)"

definition Item029_Active :: "int \<Rightarrow> fx \<Rightarrow> fx result" where
  "Item029_Active =
     upgrades (draw 0 99 (\<lambda>g. if g < 30 then Item029_ticket else Inr))
       (draw 0 99 (\<lambda>g. if g < 50 then Item029_ticket else Inr)) Item029_ticket"

definition Item030_Active :: "int \<Rightarrow> fx \<Rightarrow> fx result" where
  "Item030_Active =
     (let ignore = me (\<lambda>av. av\<lparr>avIsIgnoreNextDamage := True\<rparr>) in upgrades ignore ignore ignore)"

definition Item031_Active :: "int \<Rightarrow> fx \<Rightarrow> fx result" where
  "Item031_Active = upgrades (pierce 6) (pierce 9) (pierce 13)"

text \<open>\<open>0.25f\<close>, \<open>0.4f\<close> and \<open>0.5f\<close> by significand and negated exponent.\<close>

definition Item032_heal :: "nat \<Rightarrow> nat \<Rightarrow> fx \<Rightarrow> fx result" where
  "Item032_heal m e s =
     (let lostHp = i32 (avMaxHp (fxMe s) - avHp (fxMe s)) in me (ToHeal (f32_mul lostHp m e)) s)"

definition Item032_Active :: "int \<Rightarrow> fx \<Rightarrow> fx result" where
  "Item032_Active = upgrades (Item032_heal 1 2) (Item032_heal 13421773 25) (Item032_heal 1 1)"

definition Item033_Active :: "int \<Rightarrow> fx \<Rightarrow> fx result" where
  "Item033_Active = upgrades (me (ToHeal 3)) (me (ToHeal 5)) (me (ToHeal 7))"

definition Item034_hits :: "int \<Rightarrow> fx \<Rightarrow> fx result" where
  "Item034_hits n =
     seqfx (me UseKeyCap) (\<lambda>s. repeat_fx (nat (avUseKeyCapCount (fxMe s))) (hit n) s)"

definition Item034_Active :: "int \<Rightarrow> fx \<Rightarrow> fx result" where
  "Item034_Active = upgrades (Item034_hits 3) (Item034_hits 4) (Item034_hits 6)"

definition Item035_Active :: "int \<Rightarrow> fx \<Rightarrow> fx result" where
  "Item035_Active = upgrades (me (ToDefensive 5)) (me (ToDefensive 9)) (me (ToDefensive 13))"

definition Item036_defence :: "int \<Rightarrow> int \<Rightarrow> fx \<Rightarrow> fx result" where
  "Item036_defence early late s =
     me (ToDefensive (if avEffectItemCount (fxMe s) < 4 then early else late)) s"

definition Item036_Active :: "int \<Rightarrow> fx \<Rightarrow> fx result" where
  "Item036_Active = upgrades (Item036_defence 4 7) (Item036_defence 4 9) (Item036_defence 4 11)"

definition Item037_Active :: "int \<Rightarrow> fx \<Rightarrow> fx result" where
  "Item037_Active =
     (let defend = me (\<lambda>av. av\<lparr>avCanDefendNegativeEffect := True\<rparr>) in upgrades defend defend defend)"

definition Item038_Active :: "int \<Rightarrow> fx \<Rightarrow> fx result" where
  "Item038_Active = upgrades (hit 1) (hit 1) (hit 1)"

definition Item039_Active :: "int \<Rightarrow> fx \<Rightarrow> fx result" where
  "Item039_Active = upgrades (hit 2) (hit 2) (hit 2)"

definition Item040_Active :: "int \<Rightarrow> fx \<Rightarrow> fx result" where
  "Item040_Active = upgrades (hit 3) (hit 3) (hit 3)"

definition Item041_Active :: "int \<Rightarrow> fx \<Rightarrow> fx result" where
  "Item041_Active =
     (let charge = seqfx (hit 2) (me (ToHeal 3)) in upgrades charge charge charge)"

definition Item042_Active :: "int \<Rightarrow> fx \<Rightarrow> fx result" where
  "Item042_Active = upgrades (hit 10) (hit 10) (hit 10)"

definition Item043_Active :: "int \<Rightarrow> fx \<Rightarrow> fx result" where
  "Item043_Active = upgrades (me (ToDefensive 8)) (me (ToDefensive 8)) (me (ToDefensive 8))"

definition Item044_Active :: "int \<Rightarrow> fx \<Rightarrow> fx result" where
  "Item044_Active = upgrades (hit 20) (hit 20) (hit 20)"

text \<open>
  \<open>pow(2, n - 1)\<close> is exact for these exponents; it truncates to 0 below one, and its conversion to
  \<open>int\<close> is undefined from \<open>2 ^ 31\<close> on.
\<close>

definition Item045_hit :: "fx \<Rightarrow> fx result" where
  "Item045_hit s =
     (let effectItemCount = avEffectItemCount (fxMe s)
      in if effectItemCount = 1 then hit 1 s
         else if effectItemCount < 1 then hit 0 s
         else if 31 \<le> effectItemCount - 1 then Inl BadConversion
         else hit (2 ^ nat (effectItemCount - 1)) s)"

definition Item045_Active :: "int \<Rightarrow> fx \<Rightarrow> fx result" where
  "Item045_Active = upgrades Item045_hit Item045_hit Item045_hit"

text \<open>The virtual call through the array \<open>sItems\<close>.\<close>

definition sItems_Active :: "(int \<Rightarrow> fx \<Rightarrow> fx result) list" where
  "sItems_Active =
     [ItemEmpty_Active, Item001_Active, Item002_Active, Item003_Active, Item004_Active,
      Item005_Active, Item006_Active, Item007_Active, Item008_Active, Item009_Active,
      Item010_Active, Item011_Active, Item012_Active, Item013_Active, Item014_Active,
      Item015_Active, Item016_Active, Item017_Active, Item018_Active, Item019_Active,
      Item020_Active, Item021_Active, Item022_Active, Item023_Active, Item024_Active,
      Item025_Active, Item026_Active, Item027_Active, Item028_Active, Item029_Active,
      Item030_Active, Item031_Active, Item032_Active, Item033_Active, Item034_Active,
      Item035_Active, Item036_Active, Item037_Active, Item038_Active, Item039_Active,
      Item040_Active, Item041_Active, Item042_Active, Item043_Active, Item044_Active,
      Item045_Active]"

section \<open>Fitting\<close>

text \<open>The effects of fitting an item; the items not named here have none.\<close>

definition more_hp :: "int \<Rightarrow> avatar \<Rightarrow> avatar" where
  "more_hp n av = SetMaxHP (i32 (avMaxHp av + n)) av"

definition first_attack :: "int \<Rightarrow> avatar \<Rightarrow> avatar" where
  "first_attack n av = av\<lparr>avFirstAttackState := i32 (avFirstAttackState av + n)\<rparr>"

definition Item006_Fitment :: "int \<Rightarrow> avatar \<Rightarrow> avatar" where
  "Item006_Fitment upgrade = more_hp (5 + 5 * upgrade)"

definition Item007_Fitment :: "int \<Rightarrow> avatar \<Rightarrow> avatar" where
  "Item007_Fitment upgrade = ToDefensive (3 + 3 * upgrade)"

definition Item015_Fitment :: "int \<Rightarrow> avatar \<Rightarrow> avatar" where
  "Item015_Fitment upgrade = first_attack (2 + upgrade)"

definition Item016_Fitment :: "int \<Rightarrow> avatar \<Rightarrow> avatar" where
  "Item016_Fitment upgrade = more_hp (5 + 5 * upgrade)"

definition Item023_Fitment :: "int \<Rightarrow> avatar \<Rightarrow> avatar" where
  "Item023_Fitment upgrade = first_attack (upgrade + 1)"

definition Item027_Fitment :: "int \<Rightarrow> avatar \<Rightarrow> avatar" where
  "Item027_Fitment upgrade = ToDefensive (5 + 5 * upgrade)"

definition Item030_Fitment :: "int \<Rightarrow> avatar \<Rightarrow> avatar" where
  "Item030_Fitment upgrade = ToDefensive (3 + 3 * upgrade)"

definition Item032_Fitment :: "int \<Rightarrow> avatar \<Rightarrow> avatar" where
  "Item032_Fitment upgrade av =
     (if upgrade = 0 then more_hp 7 av else if upgrade = 1 then more_hp 12 av
      else if upgrade = 2 then more_hp 20 av else av)"

definition Item036_Fitment :: "int \<Rightarrow> avatar \<Rightarrow> avatar" where
  "Item036_Fitment upgrade = more_hp (5 + 5 * upgrade)"

definition Item037_Fitment :: "int \<Rightarrow> avatar \<Rightarrow> avatar" where
  "Item037_Fitment upgrade = ToDefensive (3 + 3 * upgrade)"

definition Fitment :: "nat \<Rightarrow> int \<Rightarrow> avatar \<Rightarrow> avatar" where
  "Fitment code upgrade =
     (if code = 6 then Item006_Fitment upgrade
      else if code = 7 then Item007_Fitment upgrade
      else if code = 15 then Item015_Fitment upgrade
      else if code = 16 then Item016_Fitment upgrade
      else if code = 23 then Item023_Fitment upgrade
      else if code = 27 then Item027_Fitment upgrade
      else if code = 30 then Item030_Fitment upgrade
      else if code = 32 then Item032_Fitment upgrade
      else if code = 36 then Item036_Fitment upgrade
      else if code = 37 then Item037_Fitment upgrade
      else (\<lambda>av. av))"

fun fit_loop :: "item list \<Rightarrow> avatar \<Rightarrow> avatar result" where
  "fit_loop [] av = Inr av"
| "fit_loop (it # its) av =
     (if unat (mType it) < length sItems
      then fit_loop its (Fitment (unat (mType it)) (uint (mUpgrade it)) av) else Inl OutOfBounds)"

definition FitmentEffect :: "avatar \<Rightarrow> avatar result" where
  "FitmentEffect av = fit_loop (avUsingItem av) av"

section \<open>Operations of the avatar on other objects\<close>

definition SetFinish :: "avatar \<Rightarrow> avatar" where
  "SetFinish av = av\<lparr>avIsFinish := True\<rparr>"

text \<open>The result holds the slot that was activated.\<close>

definition activated_item :: "nat \<Rightarrow> avatar \<Rightarrow> (int \<times> item) result" where
  "activated_item index av =
     rbind (at_idx (avActiveQueue av) index) (\<lambda>slot.
       if slot < 0 then Inl OutOfBounds
       else rbind (at_idx (avUsingItem av) (nat slot)) (\<lambda>it. Inr (slot, it)))"

definition ActiveItem :: "nat \<Rightarrow> fx \<Rightarrow> (u8 \<times> fx) result" where
  "ActiveItem index s =
     rbind (activated_item index (fxMe s)) (\<lambda>(slot, it).
       let av = fxMe s;
           s1 = s\<lparr>fxMe := av\<lparr>avEffectItemCount := i32 (avEffectItemCount av + 1)\<rparr>\<rparr>
       in rbind (at_idx sItems_Active (unat (mType it))) (\<lambda>act.
         rbind (act (uint (mUpgrade it)) s1) (\<lambda>s2.
           let me2 = fxMe s2;
               me3 = (if avIsEffectHeal me2 \<and> avHp me2 > 0 then ToHeal (avEffectHeal me2) me2 else me2)
           in rbind (at_idx (avActiveQueue me3) index) (\<lambda>slot'.
                Inr (word_of_int slot', s2\<lparr>fxMe := me3\<rparr>)))))"

definition ToDamageCharacter :: "int \<Rightarrow> bool \<Rightarrow> avatar \<Rightarrow> world \<Rightarrow> (avatar \<times> world) result" where
  "ToDamageCharacter damage isNotFinishBattle av w =
     (if avIsGhost av then Inr (av, w)
      else if avIsCharacterDamage av then Inr (av, w)
      else if \<not> isNotFinishBattle \<and> avHp av > 0 then Inr (av, w)
      else if \<not> IsValidBattleAvatarInRoom av w then Inr (av, w)
      else case avClient av of None \<Rightarrow> Inl NullDeref
        | Some p \<Rightarrow> Inr (av\<lparr>avIsCharacterDamage := True\<rparr>,
                       set_client p (Client_ToDamage (client_of w p) damage) w))"

definition IncreaseItemTicket ::
  "EItemTicketType \<Rightarrow> int \<Rightarrow> avatar \<Rightarrow> world \<Rightarrow> (int \<times> world) result" where
  "IncreaseItemTicket ticketType n av w =
     (if avIsGhost av then Inr (0, w)
      else if \<not> IsValidBattleAvatarInRoom av w then Inr (0, w)
      else case avClient av of None \<Rightarrow> Inl NullDeref
        | Some p \<Rightarrow>
            let c = SetTicketCount ticketType (i32 (TicketCount ticketType (client_of w p) + n)) (client_of w p)
            in Inr (TicketCount ticketType c, set_client p c w))"

definition sc_BattleAvatarInfoPacket :: "avatar \<Rightarrow> world \<Rightarrow> packet result" where
  "sc_BattleAvatarInfoPacket av w =
     (if IsValidBattleAvatarInRoom av w
      then case avClient av of None \<Rightarrow> Inl NullDeref
        | Some p \<Rightarrow> Inr (BattleAvatarInfo (ApplyBattleAvatarInfoPacket (clHp (client_of w p)) av))
      else Inr (BattleAvatarInfo (ApplyBattleAvatarInfoPacket 50 av)))"

end
