(* ===== verification/Inventory.thy ===== *)
theory Inventory
  imports Client
begin

text \<open>
  Facts about the inventory of a client: its well-formedness and the operations that keep it,
  the interpretation of the slot interface on the two arrays, and what the operations do to the
  sequence of sixteen slots.
\<close>

section \<open>The slots as one list\<close>

definition Slots :: "client \<Rightarrow> item list" where
  "Slots c = clUsingItems c @ clUnUsingItems c"

definition inv_shape :: "client \<Rightarrow> bool" where
  "inv_shape c \<longleftrightarrow> length (clUsingItems c) = 6 \<and> length (clUnUsingItems c) = 10"

definition not_items :: "client \<Rightarrow> client" where
  "not_items c = c\<lparr>clUsingItems := [], clUnUsingItems := []\<rparr>"

lemma length_Slots: "inv_shape c \<Longrightarrow> length (Slots c) = 16"
  by (simp add: inv_shape_def Slots_def)

lemma Slots_nth:
  "inv_shape c \<Longrightarrow> Slots c ! i = (if i < 6 then clUsingItems c ! i else clUnUsingItems c ! (i - 6))"
  by (simp add: inv_shape_def Slots_def nth_append)

lemma GetItem_Slots: "inv_shape c \<Longrightarrow> GetItem c i = at_idx (Slots c) (unat i)"
  by (auto simp: GetItem_def at_idx_def inv_shape_def Slots_def nth_append)

lemma ModifyItem_Slots:
  "inv_shape c \<Longrightarrow> ModifyItem c i f = Inr c' \<Longrightarrow>
     Slots c' = (Slots c)[unat i := f (Slots c ! unat i)]"
  by (auto simp: ModifyItem_def rbind_Inr_iff GetItem_def inv_shape_def Slots_def nth_append
      list_update_append split: if_splits)

interpretation inv: slot_store GetItem ModifyItem Slots inv_shape not_items
proof unfold_locales
  fix c :: client and i :: u8 and f :: "item \<Rightarrow> item" and c' :: client
  assume sh: "inv_shape c"
  show "GetItem c i = at_idx (Slots c) (unat i)" using sh by (rule GetItem_Slots)
  show "unat i < length (Slots c) \<Longrightarrow> \<exists>c'. ModifyItem c i f = Inr c'"
    using sh by (simp add: ModifyItem_def GetItem_Slots at_idx_def)
  show "length (Slots c) \<le> unat i \<Longrightarrow> ModifyItem c i f = Inl OutOfBounds"
    using sh by (simp add: ModifyItem_def GetItem_Slots at_idx_def)
  assume m: "ModifyItem c i f = Inr c'"
  show "Slots c' = (Slots c)[unat i := f (Slots c ! unat i)]"
    using sh m by (rule ModifyItem_Slots)
  show "inv_shape c'"
    using sh m by (auto simp: ModifyItem_def rbind_Inr_iff inv_shape_def)
  show "not_items c' = not_items c"
    using m by (auto simp: ModifyItem_def rbind_Inr_iff not_items_def)
qed

lemma SwapItem_exchange: "SwapItem c i j = inv.exchange copy_kind c i j"
  by (simp add: SwapItem_def inv.exchange_def)

lemma not_itemsD:
  assumes "not_items c' = not_items c"
  shows "clHp c' = clHp c" "clRoomPtr c' = clRoomPtr c" "clNetworkID c' = clNetworkID c"
    "clSocket c' = clSocket c" "clStatus c' = clStatus c" "TicketCount t c' = TicketCount t c"
    "clRoomOpenCount c' = clRoomOpenCount c" "clPrevSize c' = clPrevSize c"
    "clIsChoiceCharacter c' = clIsChoiceCharacter c"
proof -
  show "clHp c' = clHp c" using arg_cong [OF assms, of clHp] by (simp add: not_items_def)
  show "clRoomPtr c' = clRoomPtr c" using arg_cong [OF assms, of clRoomPtr] by (simp add: not_items_def)
  show "clNetworkID c' = clNetworkID c"
    using arg_cong [OF assms, of clNetworkID] by (simp add: not_items_def)
  show "clSocket c' = clSocket c" using arg_cong [OF assms, of clSocket] by (simp add: not_items_def)
  show "clStatus c' = clStatus c" using arg_cong [OF assms, of clStatus] by (simp add: not_items_def)
  show "TicketCount t c' = TicketCount t c"
    using arg_cong [OF assms, of "TicketCount t"] by (cases t) (simp_all add: not_items_def)
  show "clRoomOpenCount c' = clRoomOpenCount c"
    using arg_cong [OF assms, of clRoomOpenCount] by (simp add: not_items_def)
  show "clPrevSize c' = clPrevSize c"
    using arg_cong [OF assms, of clPrevSize] by (simp add: not_items_def)
  show "clIsChoiceCharacter c' = clIsChoiceCharacter c"
    using arg_cong [OF assms, of clIsChoiceCharacter] by (simp add: not_items_def)
qed

section \<open>Well-formed inventories\<close>

text \<open>
  Sixteen well-formed items; the activation percentages of the field and the slot numbers are
  those of the constructor.
\<close>

definition kind :: "item \<Rightarrow> u8 \<times> u8" where
  "kind it = (mType it, mUpgrade it)"

definition place :: "item \<Rightarrow> u8 \<times> u8" where
  "place it = (mActivePercent it, mSlot it)"

definition places :: "(u8 \<times> u8) list" where
  "places = [(45, 0), (45, 1), (33, 2), (33, 3), (23, 4), (23, 5), (0, 6), (0, 7), (0, 8), (0, 9),
     (0, 10), (0, 11), (0, 12), (0, 13), (0, 14), (0, 15)]"

definition inventory_ok :: "client \<Rightarrow> bool" where
  "inventory_ok c \<longleftrightarrow>
     inv_shape c \<and> map place (Slots c) = places \<and> list_all item_ok (Slots c)"

lemma inventory_ok_shape: "inventory_ok c \<Longrightarrow> inv_shape c"
  by (simp add: inventory_ok_def)

lemma inventory_ok_item: "inventory_ok c \<Longrightarrow> i < 16 \<Longrightarrow> item_ok (Slots c ! i)"
  by (auto simp: inventory_ok_def list_all_length length_Slots)

lemma kind_copy [simp]: "kind (copy_kind src it) = kind src"
  and place_copy [simp]: "place (copy_kind src it) = place it"
  and item_ok_copy [simp]: "item_ok (copy_kind src it) = item_ok src"
  by (simp_all add: kind_def place_def copy_kind_def item_ok_def)

lemma place_empty [simp]: "place (SetEmptyItem it) = place it"
  by (simp add: place_def)

lemma place_type [simp]: "place (it\<lparr>mType := t\<rparr>) = place it"
  and place_upgrade [simp]: "place (it\<lparr>mUpgrade := u\<rparr>) = place it"
  by (simp_all add: place_def)

text \<open>A write through a reference keeps a well-formed inventory when it keeps its item so.\<close>

lemma inventory_ok_modify:
  assumes ok: "inventory_ok c" and m: "ModifyItem c i f = Inr c'"
    and pl: "\<And>x. place (f x) = place x"
    and it: "item_ok (f (Slots c ! unat i))"
  shows "inventory_ok c'"
proof -
  have sh: "inv_shape c" using ok by (rule inventory_ok_shape)
  have i: "unat i < length (Slots c)" using sh m by (rule inv.modi_Inr_bound)
  have sl: "Slots c' = (Slots c)[unat i := f (Slots c ! unat i)]"
    using sh m by (rule inv.modi_slots)
  have "map place (Slots c') = map place (Slots c)"
    using i by (simp add: sl map_update pl)
  moreover have "list_all item_ok (Slots c')"
    using ok it unfolding sl inventory_ok_def by (blast intro: list_all_update)
  ultimately show ?thesis
    using ok inv.modi_shape [OF sh m] by (simp add: inventory_ok_def)
qed

lemma inventory_ok_new: "inventory_ok (Client_new n)"
  by (simp add: inventory_ok_def inv_shape_def Slots_def Client_new_def place_def places_def
      upt_rec Item_new_def item_ok_def)

lemma inventory_ok_reset: "inventory_ok c \<Longrightarrow> inventory_ok (Client_reset c)"
  by (auto simp: inventory_ok_def inv_shape_def Slots_def Client_reset_def list_all_iff comp_def)

section \<open>Swapping\<close>

lemma SwapItem_Slots:
  assumes "inv_shape c" and "SwapItem c i j = Inr c'"
  shows "Slots c' = (Slots c)[unat j := copy_kind (Slots c ! unat i) (Slots c ! unat j),
           unat i := copy_kind (Slots c ! unat j) (Slots c ! unat i)]"
    and "inv_shape c'" and "not_items c' = not_items c"
  using inv.exchange_slots [OF assms(1), of copy_kind i j c'] assms(2)
  by (auto simp: SwapItem_exchange copy_kind_def)

lemma SwapItem_defined:
  "inv_shape c \<Longrightarrow> (\<exists>c'. SwapItem c i j = Inr c') \<longleftrightarrow> unat i < 16 \<and> unat j < 16"
  by (simp add: SwapItem_exchange inv.exchange_defined length_Slots)

lemma SwapItem_kinds:
  assumes "inv_shape c" and "SwapItem c i j = Inr c'"
  shows "map kind (Slots c') =
     (map kind (Slots c))[unat j := kind (Slots c ! unat i), unat i := kind (Slots c ! unat j)]"
  by (simp add: SwapItem_Slots(1) [OF assms] map_update)

lemma SwapItem_bounds:
  "inv_shape c \<Longrightarrow> SwapItem c i j = Inr c' \<Longrightarrow> unat i < 16 \<and> unat j < 16"
  using SwapItem_defined by blast

lemma SwapItem_ok:
  assumes ok: "inventory_ok c" and sw: "SwapItem c i j = Inr c'"
  shows "inventory_ok c'"
proof -
  have sh: "inv_shape c" using ok by (rule inventory_ok_shape)
  have ij: "unat i < 16" "unat j < 16" using SwapItem_bounds [OF sh sw] by auto
  note sl = SwapItem_Slots [OF sh sw]
  have "map place (Slots c') = map place (Slots c)"
    using ij by (simp add: sl map_update)
  moreover have "item_ok (copy_kind (Slots c ! unat k) x)" if "unat k < 16" for k :: u8 and x
    using inventory_ok_item [OF ok that] by simp
  then have "list_all item_ok (Slots c')"
    using ok ij unfolding sl inventory_ok_def by (blast intro: list_all_update)
  ultimately show ?thesis using ok sl by (simp add: inventory_ok_def)
qed

lemma SwapItem_mset_kind:
  assumes "inv_shape c" and "SwapItem c i j = Inr c'"
  shows "mset (map kind (Slots c')) = mset (map kind (Slots c))"
proof -
  have ij: "unat i < 16" "unat j < 16" using SwapItem_bounds [OF assms] by auto
  have "map kind (Slots c') = (map kind (Slots c))
      [unat j := map kind (Slots c) ! unat i, unat i := map kind (Slots c) ! unat j]"
    using ij by (simp add: SwapItem_kinds [OF assms] length_Slots [OF assms(1)])
  then show ?thesis
    using ij mset_swap [of "unat i" "map kind (Slots c)" "unat j"] length_Slots [OF assms(1)]
    by (simp add: list_update_swap)
qed

section \<open>Adding\<close>

lemma u8_of_nat [simp]: "n < 256 \<Longrightarrow> unat (of_nat n :: u8) = n"
  by (simp add: unat_of_nat)

lemma find_empty_Some:
  "find_empty its = Some i \<Longrightarrow>
     i < length its \<and> mType (its ! i) = 0 \<and> (\<forall>j < i. mType (its ! j) \<noteq> 0)"
proof (induction its arbitrary: i)
  case Nil
  then show ?case by simp
next
  case (Cons it its)
  then show ?case
    by (auto simp: less_Suc_eq_0_disj split: if_splits)
qed

lemma find_empty_None: "find_empty its = None \<longleftrightarrow> (\<forall>it \<in> set its. mType it \<noteq> 0)"
  by (induction its) auto

text \<open>The order in which the slots are searched: the bag first, then the field.\<close>

definition search_order :: "nat list" where
  "search_order = [6..<16] @ [0..<6]"

definition first_free :: "client \<Rightarrow> nat option" where
  "first_free c = List.find (\<lambda>k. mType (Slots c ! k) = 0) search_order"

lemma find_map: "List.find P (map f xs) = map_option f (List.find (P \<circ> f) xs)"
  by (induction xs) auto

lemma find_append:
  "List.find P (xs @ ys) = (case List.find P xs of None \<Rightarrow> List.find P ys | Some x \<Rightarrow> Some x)"
  by (induction xs) auto

lemma find_empty_find:
  "find_empty its = List.find (\<lambda>k. mType (its ! k) = 0) [0..<length its]"
proof (induction its)
  case Nil
  then show ?case by simp
next
  case (Cons it its)
  have "[0..<length (it # its)] = 0 # map Suc [0..<length its]"
    by (simp add: upt_conv_Cons map_Suc_upt del: upt_Suc)
  then show ?case using Cons by (simp add: find_map comp_def del: upt_Suc)
qed

lemma find_cong_list: "(\<And>x. x \<in> set xs \<Longrightarrow> P x = Q x) \<Longrightarrow> List.find P xs = List.find Q xs"
  by (induction xs) auto

lemma first_free_eq:
  assumes "inv_shape c"
  shows "first_free c =
    (case find_empty (clUnUsingItems c) of
       Some i \<Rightarrow> Some (i + 6)
     | None \<Rightarrow> find_empty (clUsingItems c))"
proof -
  have len: "length (clUsingItems c) = 6" "length (clUnUsingItems c) = 10"
    using assms by (auto simp: inv_shape_def)
  have m: "[6..<16] = map (\<lambda>i. i + 6) [0..<10]" by (simp add: map_add_upt)
  have A: "List.find (\<lambda>k. mType (Slots c ! k) = 0) [6..<16] =
      map_option (\<lambda>i. i + 6) (find_empty (clUnUsingItems c))"
    unfolding m find_map find_empty_find len
    by (rule arg_cong [where f = "map_option _"], rule find_cong_list)
      (simp add: Slots_nth [OF assms])
  have B: "List.find (\<lambda>k. mType (Slots c ! k) = 0) [0..<6] = find_empty (clUsingItems c)"
    unfolding find_empty_find len by (rule find_cong_list) (simp add: Slots_nth [OF assms])
  show ?thesis
    unfolding first_free_def search_order_def find_append A B by (simp split: option.split)
qed

lemma FindEmptyItemSlotIndex_eq:
  "inv_shape c \<Longrightarrow>
     FindEmptyItemSlotIndex c = of_nat (case first_free c of Some k \<Rightarrow> k | None \<Rightarrow> 16)"
  by (simp add: FindEmptyItemSlotIndex_def first_free_eq split: option.split)

lemma find_Some_props:
  "List.find P xs = Some x \<Longrightarrow> x \<in> set xs \<and> P x"
  by (induction xs) (auto split: if_splits)

lemma first_free_Some:
  "first_free c = Some k \<Longrightarrow> k < 16 \<and> mType (Slots c ! k) = 0"
  unfolding first_free_def by (drule find_Some_props) (auto simp: search_order_def)

lemma first_free_None:
  "inv_shape c \<Longrightarrow> first_free c = None \<longleftrightarrow> (\<forall>it \<in> set (Slots c). mType it \<noteq> 0)"
  by (auto simp: first_free_eq find_empty_None Slots_def split: option.split
      dest: find_empty_Some nth_mem)

lemma unat_FindEmptyItemSlotIndex:
  assumes "inv_shape c"
  shows "unat (FindEmptyItemSlotIndex c) = (case first_free c of Some k \<Rightarrow> k | None \<Rightarrow> 16)"
proof -
  have "(case first_free c of Some k \<Rightarrow> k | None \<Rightarrow> 16) < 256"
    by (auto split: option.split dest!: first_free_Some)
  then show ?thesis by (simp only: FindEmptyItemSlotIndex_eq [OF assms] u8_of_nat)
qed

text \<open>
  \<open>AddItem\<close> writes the type into the first free slot and returns its number, or returns 16 and
  changes nothing.
\<close>

lemma AddItem_spec:
  assumes sh: "inv_shape c"
  shows "snd (AddItem c t) = FindEmptyItemSlotIndex c"
    and "Slots (fst (AddItem c t)) =
      (case first_free c of None \<Rightarrow> Slots c
       | Some k \<Rightarrow> (Slots c)[k := (Slots c ! k)\<lparr>mType := t\<rparr>])"
    and "inv_shape (fst (AddItem c t))"
    and "not_items (fst (AddItem c t)) = not_items c"
proof -
  have len: "length (clUsingItems c) = 6" "length (clUnUsingItems c) = 10"
    using sh by (auto simp: inv_shape_def)
  show "snd (AddItem c t) = FindEmptyItemSlotIndex c"
    by (auto simp: AddItem_def FindEmptyItemSlotIndex_def split: option.splits)
  show "Slots (fst (AddItem c t)) =
      (case first_free c of None \<Rightarrow> Slots c
       | Some k \<Rightarrow> (Slots c)[k := (Slots c ! k)\<lparr>mType := t\<rparr>])"
    unfolding AddItem_def first_free_eq [OF sh]
    using len by (auto simp: Slots_def nth_append list_update_append split: option.splits
        dest: find_empty_Some)
  show "inv_shape (fst (AddItem c t))" and "not_items (fst (AddItem c t)) = not_items c"
    using len by (auto simp: AddItem_def inv_shape_def not_items_def split: option.splits)
qed

lemma AddItem_ok:
  assumes ok: "inventory_ok c" and t: "unat t < 46"
  shows "inventory_ok (fst (AddItem c t))"
proof -
  have sh: "inv_shape c" using ok by (rule inventory_ok_shape)
  have "map place (Slots (fst (AddItem c t))) = map place (Slots c)"
    by (simp add: AddItem_spec(2) [OF sh] map_update split: option.split)
  moreover have "list_all item_ok (Slots (fst (AddItem c t)))"
  proof (cases "first_free c")
    case None
    then show ?thesis using ok by (simp add: AddItem_spec(2) [OF sh] inventory_ok_def)
  next
    case (Some k)
    then have k: "k < 16" "mType (Slots c ! k) = 0" by (auto dest: first_free_Some)
    then have "mUpgrade (Slots c ! k) = 0"
      using inventory_ok_item [OF ok, of k] by (simp add: item_ok_def)
    then have "item_ok ((Slots c ! k)\<lparr>mType := t\<rparr>)" using t by (simp add: item_ok_def)
    then show ?thesis
      using ok Some by (simp add: AddItem_spec(2) [OF sh] inventory_ok_def list_all_update)
  qed
  ultimately show ?thesis
    using ok AddItem_spec(3) [OF sh] by (simp add: inventory_ok_def)
qed

text \<open>The guard of \<open>SetItem\<close> admits slot 16, whose reference is outside both arrays.\<close>

lemma SetItem_cases:
  assumes "inv_shape c"
  shows "unat i < 16 \<Longrightarrow> \<exists>c'. SetItem c i t = Inr c' \<and>
           Slots c' = (Slots c)[unat i := (Slots c ! unat i)\<lparr>mType := t\<rparr>]"
    and "unat i = 16 \<Longrightarrow> SetItem c i t = Inl OutOfBounds"
    and "16 < unat i \<Longrightarrow> SetItem c i t = Inr c"
proof -
  assume "unat i < 16"
  then obtain c' where "ModifyItem c i (\<lambda>it. it\<lparr>mType := t\<rparr>) = Inr c'"
    using inv.modi_in [OF assms, of i] by (auto simp: length_Slots [OF assms])
  then show "\<exists>c'. SetItem c i t = Inr c' \<and>
      Slots c' = (Slots c)[unat i := (Slots c ! unat i)\<lparr>mType := t\<rparr>]"
    using \<open>unat i < 16\<close> inv.modi_slots [OF assms] by (auto simp: SetItem_def)
next
  assume "unat i = 16"
  then show "SetItem c i t = Inl OutOfBounds"
    using inv.modi_out [OF assms, of i] by (simp add: SetItem_def length_Slots [OF assms])
next
  assume "16 < unat i"
  then show "SetItem c i t = Inr c" by (simp add: SetItem_def)
qed

section \<open>The default equipment\<close>

text \<open>The first occurrences of a list, in order.\<close>

fun firsts :: "'a list \<Rightarrow> 'a list" where
  "firsts [] = []"
| "firsts (x # xs) = x # filter (\<lambda>y. y \<noteq> x) (firsts xs)"

lemma set_firsts [simp]: "set (firsts xs) = set xs"
  by (induction xs) auto

lemma distinct_firsts [simp]: "distinct (firsts xs)"
  by (induction xs) auto

abbreviation kinds :: "client \<Rightarrow> (u8 \<times> u8) list" where
  "kinds c \<equiv> map kind (Slots c)"

abbreviation field_types :: "client \<Rightarrow> u8 list" where
  "field_types c \<equiv> map mType (clUsingItems c)"

lemma field_types_kinds: "inv_shape c \<Longrightarrow> field_types c = map fst (take 6 (kinds c))"
  by (simp add: Slots_def inv_shape_def kind_def comp_def take_map [symmetric] map_map)

definition si_ok :: "client \<Rightarrow> SlotInfo \<Rightarrow> bool" where
  "si_ok c s \<longleftrightarrow> 6 \<le> siIndex s \<and> siIndex s < 16 \<and> kinds c ! nat (siIndex s) = kind (siItem s)
     \<and> mType (siItem s) \<noteq> 0"

lemma u8_of_int_small: "0 \<le> n \<Longrightarrow> n < 256 \<Longrightarrow> unat (word_of_int n :: u8) = nat n"
  by (simp add: unat_eq_nat_uint uint_word_of_int)

text \<open>One exchange of the loop, on the kinds of the slots.\<close>

lemma set_default_swap:
  assumes sh: "inv_shape c" and s: "si_ok c s"
    and ft: "field_types c = used @ replicate (6 - length used) 0" and k: "length used < 6"
  obtains c' where "SwapItem c (of_nat (length used)) (word_of_int (siIndex s)) = Inr c'"
    and "inv_shape c'" and "not_items c' = not_items c"
    and "field_types c' = (used @ [mType (siItem s)]) @ replicate (6 - Suc (length used)) 0"
    and "mset (kinds c') = mset (kinds c)"
    and "\<And>t. si_ok c t \<Longrightarrow> siIndex t \<noteq> siIndex s \<Longrightarrow> si_ok c' t"
    and "inventory_ok c \<Longrightarrow> inventory_ok c'"
proof -
  let ?i = "of_nat (length used) :: u8" and ?j = "word_of_int (siIndex s) :: u8"
  have i: "unat ?i = length used" using k by simp
  have j: "unat ?j = nat (siIndex s)" and jb: "6 \<le> nat (siIndex s)" "nat (siIndex s) < 16"
    using s by (auto simp: si_ok_def u8_of_int_small)
  then obtain c' where sw: "SwapItem c ?i ?j = Inr c'"
    using SwapItem_defined [OF sh, of ?i ?j] i k by auto
  note sl = SwapItem_Slots [OF sh sw]
  have kk: "kinds c' = (kinds c)[nat (siIndex s) := kinds c ! length used,
      length used := kind (siItem s)]"
    using SwapItem_kinds [OF sh sw] i j k jb s length_Slots [OF sh] by (simp add: si_ok_def)
  have "map fst (take 6 (kinds c')) = (field_types c)[length used := mType (siItem s)]"
    using jb by (simp add: kk field_types_kinds [OF sh] take_update_swap map_update kind_def
        list_update_beyond length_Slots [OF sh])
  then have ft': "field_types c' = (used @ [mType (siItem s)]) @ replicate (6 - Suc (length used)) 0"
    using k by (simp add: field_types_kinds [OF sl(2)] ft list_update_append Suc_diff_Suc [symmetric]
        replicate_Suc [symmetric] del: replicate_Suc) (simp add: Suc_diff_Suc [symmetric])
  have rest: "si_ok c' t" if "si_ok c t" "siIndex t \<noteq> siIndex s" for t
    using that k jb s length_Slots [OF sh]
    by (auto simp: si_ok_def kk nth_list_update eq_nat_nat_iff)
  show thesis
    using that sw sl(2,3) ft' SwapItem_mset_kind [OF sh sw] rest SwapItem_ok [OF _ sw] by blast
qed

text \<open>
  What the loop establishes: \<open>ts\<close> are the types it has still to go through, \<open>used\<close> those it
  has equipped.
\<close>

definition equipped :: "u8 list \<Rightarrow> u8 list \<Rightarrow> u8 list" where
  "equipped used ts = used @ take (6 - length used) (filter (\<lambda>t. t \<notin> set used) (firsts ts))"

definition set_default_post :: "client \<Rightarrow> u8 list \<Rightarrow> u8 list \<Rightarrow> client \<Rightarrow> bool" where
  "set_default_post c used ts c' \<longleftrightarrow>
     field_types c' = equipped used ts @ replicate (6 - length (equipped used ts)) 0 \<and>
     inv_shape c' \<and> not_items c' = not_items c \<and> mset (kinds c') = mset (kinds c) \<and>
     (inventory_ok c \<longrightarrow> inventory_ok c')"

lemma equipped_seen: "t \<in> set used \<Longrightarrow> equipped used (t # ts) = equipped used ts"
proof -
  assume "t \<in> set used"
  then have "filter (\<lambda>u. u \<notin> set used) (filter (\<lambda>y. y \<noteq> t) us) = filter (\<lambda>u. u \<notin> set used) us" for us
    by (auto intro: filter_cong)
  then show ?thesis using \<open>t \<in> set used\<close> by (simp add: equipped_def)
qed

lemma equipped_new:
  assumes "t \<notin> set used" and "length used < 6"
  shows "equipped used (t # ts) = equipped (used @ [t]) ts"
proof -
  have "filter (\<lambda>u. u \<notin> set used) (filter (\<lambda>y. y \<noteq> t) us) = filter (\<lambda>u. u \<notin> set (used @ [t])) us" for us
    by (auto intro: filter_cong)
  moreover have "6 - length used = Suc (6 - length (used @ [t]))" using assms(2) by simp
  ultimately show ?thesis using assms(1) by (simp add: equipped_def)
qed

lemma equipped_full: "6 \<le> length used \<Longrightarrow> equipped used ts = used"
  by (simp add: equipped_def)

lemma set_default_post_trans:
  "set_default_post c used [] c1 \<Longrightarrow> set_default_post c1 used ts c2 \<Longrightarrow>
     set_default_post c used ts c2"
  by (auto simp: set_default_post_def)

lemma set_default_loop_spec:
  assumes "inv_shape c" and "\<forall>s \<in> set its. si_ok c s" and "distinct (map siIndex its)"
    and "field_types c = used @ replicate (6 - length used) 0" and "length used < 6"
  shows "\<exists>c' b'. set_default_loop its used (of_nat (length used)) b c = Inr (b', c') \<and>
     (b' \<longleftrightarrow> b \<or> (\<exists>s \<in> set its. mType (siItem s) \<notin> set used)) \<and>
     set_default_post c used (map (mType \<circ> siItem) its) c'"
  using assms
proof (induction its arbitrary: c used b)
  case Nil
  then show ?case by (simp add: set_default_post_def equipped_def)
next
  case (Cons s its)
  let ?t = "mType (siItem s)"
  show ?case
  proof (cases "?t \<in> set used")
    case True
    then show ?thesis
      using Cons.IH [of c used b] Cons.prems by (simp add: equipped_seen set_default_post_def comp_def)
  next
    case False
    obtain c' where sw: "SwapItem c (of_nat (length used)) (word_of_int (siIndex s)) = Inr c'"
      and sh: "inv_shape c'" and fr: "not_items c' = not_items c"
      and ft: "field_types c' = (used @ [?t]) @ replicate (6 - Suc (length used)) 0"
      and ms: "mset (kinds c') = mset (kinds c)"
      and rs: "\<And>t. si_ok c t \<Longrightarrow> siIndex t \<noteq> siIndex s \<Longrightarrow> si_ok c' t"
      and ok: "inventory_ok c \<Longrightarrow> inventory_ok c'"
      using set_default_swap [of c s used] Cons.prems by (metis list.set_intros(1))
    have step: "set_default_post c (used @ [?t]) [] c'"
      using sh fr ft ms ok by (simp add: set_default_post_def equipped_def)
    have new: "\<exists>u \<in> set (s # its). mType (siItem u) \<notin> set used" using False by simp
    have eq: "equipped used (?t # ts) = equipped (used @ [?t]) ts" for ts
      using False Cons.prems(5) by (rule equipped_new)
    show ?thesis
    proof (cases "length used = 5")
      case True
      then have "set_default_loop (s # its) used (of_nat (length used)) b c = Inr (True, c')"
        using False sw by simp
      moreover have "set_default_post c used (map (mType \<circ> siItem) (s # its)) c'"
        using step True by (simp add: set_default_post_def eq equipped_full)
      ultimately show ?thesis using new by blast
    next
      case len: False
      have its: "\<forall>u \<in> set its. si_ok c' u" "distinct (map siIndex its)"
        using Cons.prems(2,3) rs by (auto simp: image_iff)
      have len': "length (used @ [?t]) < 6" using len Cons.prems(5) by simp
      have ft': "field_types c' = (used @ [?t]) @ replicate (6 - length (used @ [?t])) 0"
        using ft by simp
      obtain c'' b'' where
        IH: "set_default_loop its (used @ [?t]) (of_nat (length (used @ [?t]))) True c' = Inr (b'', c'')"
        "b''" "set_default_post c' (used @ [?t]) (map (mType \<circ> siItem) its) c''"
        using Cons.IH [OF sh its ft' len', of True] by blast
      have "set_default_loop (s # its) used (of_nat (length used)) b c = Inr (b'', c'')"
        using False len sw IH(1) by (simp add: Let_def add.commute)
      moreover have "set_default_post c used (map (mType \<circ> siItem) (s # its)) c''"
        using set_default_post_trans [OF step IH(3)] by (simp add: set_default_post_def eq)
      ultimately show ?thesis using IH(2) new by blast
    qed
  qed
qed

text \<open>The valid items of the bag, seen as slots.\<close>

lemma valid_unusing_types:
  "map (mType \<circ> siItem) (GetValidUnUsingItems c) = filter (\<lambda>t. t \<noteq> 0) (map mType (clUnUsingItems c))"
proof -
  have "map (mType \<circ> siItem \<circ> (\<lambda>(i, it). \<lparr>siIndex = int (i + 6), siItem = it\<rparr>))
      (filter (\<lambda>(i, it). mType it \<noteq> 0) (enumerate n its)) = filter (\<lambda>t. t \<noteq> 0) (map mType its)" for n its
    by (induction its arbitrary: n) auto
  then show ?thesis by (simp add: GetValidUnUsingItems_def word_gt_0)
qed

lemma valid_using_empty: "GetValidUsingItems c = [] \<longleftrightarrow> (\<forall>t \<in> set (field_types c). t = 0)"
proof -
  have "filter (\<lambda>(i, it). mType it \<noteq> 0) (enumerate n its) = [] \<longleftrightarrow> (\<forall>it \<in> set its. mType it = 0)" for n its
    by (induction its arbitrary: n) auto
  then show ?thesis by (simp add: GetValidUsingItems_def word_gt_0)
qed

lemma valid_unusing_indices: "distinct (map siIndex (GetValidUnUsingItems c))"
proof -
  have "map siIndex (map (\<lambda>(i, it). \<lparr>siIndex = int (i + 6), siItem = it\<rparr>) xs) = map (\<lambda>i. int (i + 6)) (map fst xs)"
    for xs :: "(nat \<times> item) list" by auto
  moreover have "distinct (map fst (filter P (enumerate 0 its)))" for P and its :: "item list"
    by (rule distinct_map_filter) (simp add: map_fst_enumerate)
  ultimately show ?thesis
    by (simp add: GetValidUnUsingItems_def distinct_map inj_on_def)
qed

lemma valid_unusing_si_ok:
  assumes "inv_shape c"
  shows "\<forall>s \<in> set (GetValidUnUsingItems c). si_ok c s"
  using assms length_Slots [OF assms]
  by (auto simp: GetValidUnUsingItems_def si_ok_def in_set_enumerate_eq word_gt_0 Slots_nth
      inv_shape_def nat_add_distrib)

theorem TrySetDefaultUsingItem_spec:
  assumes sh: "inv_shape c"
  shows "\<exists>b c'. TrySetDefaultUsingItem c = Inr (b, c') \<and>
     (b \<longleftrightarrow> (\<forall>t \<in> set (field_types c). t = 0) \<and> (\<exists>it \<in> set (clUnUsingItems c). mType it \<noteq> 0)) \<and>
     (b \<longrightarrow> (let eq = take 6 (firsts (filter (\<lambda>t. t \<noteq> 0) (map mType (clUnUsingItems c))))
       in field_types c' = eq @ replicate (6 - length eq) 0)) \<and>
     (\<not> b \<longrightarrow> c' = c) \<and> inv_shape c' \<and>
     not_items c' = not_items c \<and> mset (kinds c') = mset (kinds c) \<and>
     (inventory_ok c \<longrightarrow> inventory_ok c')"
proof (cases "GetValidUnUsingItems c \<noteq> [] \<and> GetValidUsingItems c = []")
  case True
  then have fld: "\<forall>t \<in> set (field_types c). t = 0" by (simp add: valid_using_empty)
  have len: "length (field_types c) = 6" using sh by (simp add: inv_shape_def)
  have ft: "field_types c = [] @ replicate (6 - length ([] :: u8 list)) 0"
    using fld len by (simp add: list_eq_iff_nth_eq)
  obtain b c' where run: "set_default_loop (GetValidUnUsingItems c) [] 0 False c = Inr (b, c')"
    and b: "b \<longleftrightarrow> (\<exists>s \<in> set (GetValidUnUsingItems c). mType (siItem s) \<notin> set [])"
    and post: "set_default_post c [] (map (mType \<circ> siItem) (GetValidUnUsingItems c)) c'"
    using set_default_loop_spec [OF sh valid_unusing_si_ok [OF sh] valid_unusing_indices ft, of False]
    by auto
  have b': b using b True by (cases "GetValidUnUsingItems c") auto
  have "map (mType \<circ> siItem) (GetValidUnUsingItems c) \<noteq> []" using True by simp
  then have "\<exists>it \<in> set (clUnUsingItems c). mType it \<noteq> 0"
    unfolding valid_unusing_types by (auto simp: filter_empty_conv)
  then show ?thesis
    using True run post b' fld
    by (auto simp: TrySetDefaultUsingItem_def set_default_post_def equipped_def Let_def
        valid_unusing_types)
next
  case False
  have "(\<exists>it \<in> set (clUnUsingItems c). mType it \<noteq> 0) \<longleftrightarrow> map (mType \<circ> siItem) (GetValidUnUsingItems c) \<noteq> []"
    unfolding valid_unusing_types by (auto simp: filter_empty_conv)
  then have "\<not> ((\<forall>t \<in> set (field_types c). t = 0) \<and> (\<exists>it \<in> set (clUnUsingItems c). mType it \<noteq> 0))"
    using False by (auto simp: valid_using_empty)
  moreover have "TrySetDefaultUsingItem c = Inr (False, c)"
    using False by (auto simp: TrySetDefaultUsingItem_def Let_def)
  ultimately show ?thesis using sh by auto
qed

end
