(* ===== verification/World_Facts.thy ===== *)
theory World_Facts
  imports World Inventory
begin

text \<open>
  The memory-safety invariant of the server and its preservation: every pointer and index that
  the state holds is in range, the inventories are well-formed, the sizes of the rooms are those
  of their member lists, and the queue is a well-formed list of clients.
\<close>

section \<open>The invariant\<close>

definition client_ok :: "nat \<Rightarrow> nat \<Rightarrow> client \<Rightarrow> bool" where
  "client_ok nrooms p c \<longleftrightarrow>
     clNetworkID c = int p \<and> inventory_ok c \<and>
     (case clRoomPtr c of None \<Rightarrow> True | Some i \<Rightarrow> i < nrooms) \<and>
     length (clName c) = MAX_USER_NAME_LENGTH \<and> clName c ! (MAX_USER_NAME_LENGTH - 1) = 0 \<and>
     length (clPacketBuf c) = MAX_PACKET_SIZE"

definition room_ok :: "nat \<Rightarrow> room \<Rightarrow> bool" where
  "room_ok nclients r \<longleftrightarrow>
     rmSize r = length (rmClients r) \<and> (\<forall>p \<in> set (rmClients r). p < nclients) \<and>
     length (rmClients r) \<le> MAX_ROOM_PLAYER \<and> 0 \<le> rmRound r \<and>
     (\<not> rmIsRun r \<longrightarrow> rmIsFinishThread r \<longrightarrow> rmClients r = [])"

definition world_ok :: "world \<Rightarrow> bool" where
  "world_ok w \<longleftrightarrow>
     (\<forall>p < length (wClients w). client_ok (length (wRooms w)) p (client_of w p)) \<and>
     (\<forall>i < length (wRooms w). room_ok (length (wClients w)) (room_of w i)) \<and>
     queue_good (wQueue w) \<and> (\<forall>p \<in> set (queue_list (wQueue w)). p < length (wClients w)) \<and>
     wRooms w \<noteq> []"

lemma world_ok_client: "world_ok w \<Longrightarrow> p < length (wClients w) \<Longrightarrow> client_ok (length (wRooms w)) p (client_of w p)"
  and world_ok_room: "world_ok w \<Longrightarrow> i < length (wRooms w) \<Longrightarrow> room_ok (length (wClients w)) (room_of w i)"
  by (simp_all add: world_ok_def)

lemma world_ok_nid: "world_ok w \<Longrightarrow> p < length (wClients w) \<Longrightarrow> clNetworkID (client_of w p) = int p"
  using world_ok_client by (auto simp: client_ok_def)

lemma world_ok_inventory: "world_ok w \<Longrightarrow> p < length (wClients w) \<Longrightarrow> inventory_ok (client_of w p)"
  using world_ok_client by (auto simp: client_ok_def)

lemma world_ok_roomptr:
  "world_ok w \<Longrightarrow> p < length (wClients w) \<Longrightarrow> clRoomPtr (client_of w p) = Some i \<Longrightarrow> i < length (wRooms w)"
  using world_ok_client [of w p] by (auto simp: client_ok_def)

lemma world_ok_members:
  "world_ok w \<Longrightarrow> i < length (wRooms w) \<Longrightarrow> p \<in> set (rmClients (room_of w i)) \<Longrightarrow> p < length (wClients w)"
  using world_ok_room [of w i] by (auto simp: room_ok_def)

text \<open>Logs, random values, time and threads do not matter.\<close>

lemma world_ok_frame [simp]:
  "world_ok (w\<lparr>wSent := a\<rparr>) = world_ok w"
  "world_ok (w\<lparr>wRng := b\<rparr>) = world_ok w"
  "world_ok (w\<lparr>wNow := c\<rparr>) = world_ok w"
  "world_ok (w\<lparr>wThreads := d\<rparr>) = world_ok w"
  by (simp_all add: world_ok_def)

lemma set_client_simps [simp]:
  "length (wClients (set_client p c w)) = length (wClients w)"
  "wRooms (set_client p c w) = wRooms w"
  "wQueue (set_client p c w) = wQueue w"
  "wSent (set_client p c w) = wSent w"
  "wRng (set_client p c w) = wRng w"
  "wThreads (set_client p c w) = wThreads w"
  "wNow (set_client p c w) = wNow w"
  by (simp_all add: set_client_def)

lemma set_room_simps [simp]:
  "wClients (set_room i r w) = wClients w"
  "length (wRooms (set_room i r w)) = length (wRooms w)"
  "wQueue (set_room i r w) = wQueue w"
  "wSent (set_room i r w) = wSent w"
  "wRng (set_room i r w) = wRng w"
  "wThreads (set_room i r w) = wThreads w"
  "wNow (set_room i r w) = wNow w"
  by (simp_all add: set_room_def)

lemma client_of_set_client:
  "p < length (wClients w) \<Longrightarrow> client_of (set_client p c w) q = (if q = p then c else client_of w q)"
  by (simp add: set_client_def nth_list_update)

lemma room_of_set_room:
  "i < length (wRooms w) \<Longrightarrow> room_of (set_room i r w) j = (if j = i then r else room_of w j)"
  by (simp add: set_room_def nth_list_update)

lemma world_ok_set_client:
  assumes "world_ok w" and "p < length (wClients w)" and "client_ok (length (wRooms w)) p c"
  shows "world_ok (set_client p c w)"
  using assms by (auto simp: world_ok_def client_of_set_client)

lemma world_ok_set_room:
  assumes "world_ok w" and "i < length (wRooms w)" and "room_ok (length (wClients w)) r"
  shows "world_ok (set_room i r w)"
proof -
  have "wRooms (set_room i r w) \<noteq> []" using assms(1) by (simp add: set_room_def world_ok_def)
  then show ?thesis using assms by (auto simp: world_ok_def room_of_set_room)
qed

lemma world_ok_queue:
  assumes "world_ok w" and "queue_good q" and "set (queue_list q) \<subseteq> {..<length (wClients w)}"
  shows "world_ok (w\<lparr>wQueue := q\<rparr>)"
  using assms by (auto simp: world_ok_def)

text \<open>An update of a client that leaves the checked fields alone.\<close>

lemma client_ok_cong:
  assumes "client_ok n p c" and "clNetworkID c' = clNetworkID c" and "clRoomPtr c' = clRoomPtr c"
    and "clUsingItems c' = clUsingItems c" and "clUnUsingItems c' = clUnUsingItems c"
    and "clName c' = clName c" and "length (clPacketBuf c') = length (clPacketBuf c)"
  shows "client_ok n p c'"
  using assms by (simp add: client_ok_def inventory_ok_def inv_shape_def Slots_def)

section \<open>Sending\<close>

lemma client_idx_ok:
  "client_idx w n = Inr p \<longleftrightarrow> 0 \<le> n \<and> p = nat n \<and> p < length (wClients w)"
  by (auto simp: client_idx_def)

lemma SendBytes_ok:
  assumes "world_ok w" and "p < length (wClients w)" and "length bytes \<le> MAX_BUF_SIZE"
  shows "SendBytes (clNetworkID (client_of w p)) bytes w = Inr (w\<lparr>wSent := wSent w @ [(p, bytes)]\<rparr>)"
  using assms world_ok_nid [OF assms(1,2)] by (simp add: SendBytes_def client_idx_def)

lemma send_all_ok:
  assumes "world_ok w" and "\<forall>p \<in> set ps. p < length (wClients w)" and "length bytes \<le> MAX_BUF_SIZE"
  shows "send_all ps bytes w = Inr (w\<lparr>wSent := wSent w @ map (\<lambda>p. (p, bytes)) ps\<rparr>)"
  using assms
proof (induction ps arbitrary: w)
  case Nil
  then show ?case by simp
next
  case (Cons p ps)
  then show ?case using SendBytes_ok [of w p bytes] by simp
qed

definition delivered :: "nat \<Rightarrow> u8 list \<Rightarrow> world \<Rightarrow> world" where
  "delivered i bytes w = w\<lparr>wSent := wSent w @ map (\<lambda>p. (p, bytes)) (rmClients (room_of w i))\<rparr>"

lemma delivered_simps [simp]:
  "wClients (delivered i bytes w) = wClients w" "wRooms (delivered i bytes w) = wRooms w"
  "wQueue (delivered i bytes w) = wQueue w" "wRng (delivered i bytes w) = wRng w"
  "wThreads (delivered i bytes w) = wThreads w" "wNow (delivered i bytes w) = wNow w"
  "world_ok (delivered i bytes w) = world_ok w"
  by (simp_all add: delivered_def)

lemma SendToAll_ok:
  assumes "world_ok w" and "i < length (wRooms w)" and "length bytes \<le> MAX_BUF_SIZE"
  shows "SendToAll i bytes w = Inr (delivered i bytes w)"
  using assms send_all_ok [of w "rmClients (room_of w i)" bytes] world_ok_members
  by (auto simp: SendToAll_def delivered_def)

lemma Packet_Write_small: "packet_ok p \<Longrightarrow> length (Packet_Write p) \<le> MAX_BUF_SIZE"
  using packet_sizeof_bounds [of p] by (simp add: length_Packet_Write)

lemma SendPacketInAllRoomClients_ok:
  assumes "world_ok w" and "p < length (wClients w)" and "packet_ok pkt"
  shows "SendPacketInAllRoomClients p pkt w =
    Inr (case clRoomPtr (client_of w p) of None \<Rightarrow> w | Some i \<Rightarrow> delivered i (Packet_Write pkt) w)"
  using assms world_ok_roomptr [OF assms(1,2)] Packet_Write_small [OF assms(3)] SendToAll_ok [OF assms(1)]
  by (auto simp: SendPacketInAllRoomClients_def SendPacketToAllClients_def split: option.split)

lemma packet_ok_Inventory: "inventory_ok c \<Longrightarrow> packet_ok (sc_InventoryInfoPacket c)"
  and packet_ok_Update: "inventory_ok c \<Longrightarrow> packet_ok (sc_UpdateCharacterInfoPacket c)"
  by (simp_all add: sc_InventoryInfoPacket_def sc_UpdateCharacterInfoPacket_def slots_ok_def
      inventory_ok_def inv_shape_def)

section \<open>Leaving a room and the server\<close>

lemma room_ok_Init: "0 \<le> (0::int) \<Longrightarrow> room_ok n (Room_Init r)"
  by (simp add: room_ok_def Room_Init_def)

lemma room_ok_RemoveClient:
  assumes "room_ok n r"
  shows "room_ok n (Room_RemoveClient cl p r)"
proof -
  have sub: "set (remove1 p (rmClients r)) \<subseteq> set (rmClients r)" by (rule set_remove1_subset)
  have len: "length (remove1 p (rmClients r)) = length (rmClients r) - 1" if "p \<in> set (rmClients r)"
    using that by (simp add: length_remove1)
  have pos: "0 < length (rmClients r)" if "p \<in> set (rmClients r)" using that by (cases "rmClients r") auto
  have "usize (int (length (rmClients r)) - 1) = length (rmClients r) - 1" if "p \<in> set (rmClients r)"
    using pos [OF that] assms by (simp add: usize_def room_ok_def nat_diff_distrib)
  then show ?thesis using assms sub len
    by (auto simp: Room_RemoveClient_def Let_def room_ok_def Room_Init_def)
qed

lemma Client_Init_simps [simp]:
  "length (wClients (Client_Init p w)) = length (wClients w)"
  "length (wRooms (Client_Init p w)) = length (wRooms w)"
  "wQueue (Client_Init p w) = wQueue w"
  "wSent (Client_Init p w) = wSent w"
  "wRng (Client_Init p w) = wRng w"
  by (simp_all add: Client_Init_def Let_def split: option.split)

lemma client_ok_reset: "client_ok n p c \<Longrightarrow> client_ok n p (Client_reset c)"
  using inventory_ok_reset [of c] by (simp add: client_ok_def Client_reset_def)

lemma Client_Init_ok:
  assumes "world_ok w" and "p < length (wClients w)"
  shows "world_ok (Client_Init p w)"
proof -
  define w1 where "w1 = (case clRoomPtr (client_of w p) of None \<Rightarrow> w
    | Some i \<Rightarrow> set_room i (Room_RemoveClient (client_of w) p (room_of w i)) w)"
  have w1: "world_ok w1" "wClients w1 = wClients w"
    using assms world_ok_set_room room_ok_RemoveClient world_ok_roomptr world_ok_room
    by (auto simp: w1_def split: option.split)
  have "client_ok (length (wRooms w1)) p (Client_reset (client_of w1 p))"
    using world_ok_client [OF w1(1)] w1(2) assms(2) client_ok_reset by simp
  then have "world_ok (set_client p (Client_reset (client_of w1 p)) w1)"
    using w1 assms(2) by (intro world_ok_set_client) auto
  then show ?thesis by (simp add: Client_Init_def Let_def w1_def)
qed

lemma Disconnect_ok:
  assumes "world_ok w" and "p < length (wClients w)"
  shows "\<exists>w'. Disconnect (int p) b w = Inr w' \<and> world_ok w' \<and>
    length (wClients w') = length (wClients w) \<and> length (wRooms w') = length (wRooms w) \<and>
    wRng w' = wRng w \<and>
    (if clStatus (client_of w p) = FREE then w' = w
     else queue_list (wQueue w') = remove1 p (queue_list (wQueue w)) \<and>
          clStatus (client_of w' p) = FREE \<and> clRoomPtr (client_of w' p) = None)"
proof (cases "clStatus (client_of w p) = FREE")
  case True
  then show ?thesis using assms by (simp add: Disconnect_def client_idx_def)
next
  case False
  obtain q where q: "RemoveClient (wQueue w) p = Inr q" "queue_good q"
    "queue_list q = remove1 p (queue_list (wQueue w))"
    using sq.del_members [of "wQueue w" p] assms(1) by (auto simp: world_ok_def)
  define w1 where "w1 = w\<lparr>wQueue := q\<rparr>"
  have w1: "world_ok w1" using assms(1) q set_remove1_subset [of p "queue_list (wQueue w)"]
    unfolding w1_def by (intro world_ok_queue) (auto simp: world_ok_def)
  have "\<exists>w2. (if b then SendPacketInAnotherRoomClients p (Notification (int p) DisconnectServer) w1
      else Inr w1) = Inr w2 \<and> world_ok w2 \<and> wClients w2 = wClients w1 \<and> wRooms w2 = wRooms w1 \<and>
      wQueue w2 = wQueue w1 \<and> wRng w2 = wRng w1"
  proof (cases "b \<and> clRoomPtr (client_of w1 p) \<noteq> None")
    case True
    then obtain i where i: "clRoomPtr (client_of w1 p) = Some i" by auto
    then have "i < length (wRooms w1)" using world_ok_roomptr [OF w1] assms(2) by (simp add: w1_def)
    then show ?thesis
      using True i w1 world_ok_members [OF w1] Packet_Write_small [of "Notification (int p) DisconnectServer"]
        send_all_ok [OF w1, of "filter (\<lambda>q. q \<noteq> p) (rmClients (room_of w1 i))"]
      by (simp add: SendPacketInAnotherRoomClients_def SendPacketToAnotherClients_def SendToOthers_def)
  next
    case False
    then show ?thesis using w1 by (auto simp: SendPacketInAnotherRoomClients_def)
  qed
  then obtain w2 where w2: "(if b then SendPacketInAnotherRoomClients p (Notification (int p) DisconnectServer) w1
      else Inr w1) = Inr w2" "world_ok w2" "wClients w2 = wClients w" "wRooms w2 = wRooms w"
    "wQueue w2 = q" "wRng w2 = wRng w" by (auto simp: w1_def)
  define w3 where "w3 = set_client p ((client_of w2 p)\<lparr>clStatus := ALLOCATED\<rparr>) w2"
  have p2: "p < length (wClients w2)" using assms(2) w2(3) by simp
  have "client_ok (length (wRooms w2)) p ((client_of w2 p)\<lparr>clStatus := ALLOCATED\<rparr>)"
    by (rule client_ok_cong [OF world_ok_client [OF w2(2) p2]]) simp_all
  then have w3: "world_ok w3" unfolding w3_def using w2(2) p2 by (intro world_ok_set_client)
  have p3: "p < length (wClients w3)" using p2 by (simp add: w3_def)
  have "Disconnect (int p) b w = Inr (Client_Init p w3)"
    using False assms(2) q(1) w2(1)
    by (simp add: Disconnect_def client_idx_def w1_def [symmetric] w3_def [symmetric])
  moreover have "clStatus (client_of (Client_Init p w3) p) = FREE \<and>
      clRoomPtr (client_of (Client_Init p w3) p) = None"
    using p3 by (simp add: Client_Init_def Let_def client_of_set_client Client_reset_def split: option.split)
  ultimately show ?thesis using False Client_Init_ok [OF w3 p3] w2 q
    by (simp add: w3_def)
qed

end
