(* ===== verification/Item_Facts.thy ===== *)
theory Item_Facts
  imports Items World_Facts
begin

text \<open>
  The numbers of an avatar stay in their ranges through every effect, no effect leaves the defined
  behaviour, and the damage arithmetic absorbs as it should.
\<close>

section \<open>Ranges\<close>

definition counter :: "int \<Rightarrow> bool" where
  "counter x \<longleftrightarrow> 0 \<le> x \<and> x \<le> INT_MAX"

text \<open>
  The ranges after \<open>k\<close> activations of the cycle: a wait of an effect grows by a bounded amount with
  each activation.
\<close>

definition nums_ok :: "int \<Rightarrow> avatar \<Rightarrow> bool" where
  "nums_ok k av \<longleftrightarrow>
     5 \<le> avMaxHp av \<and> avMaxHp av \<le> 1000 \<and> 0 \<le> avHp av \<and> avHp av \<le> avMaxHp av \<and>
     counter (avDefensive av) \<and> counter (avOffensePower av) \<and> counter (avAdditionDefensive av) \<and>
     counter (avWeakening av) \<and> counter (avBleeding av) \<and> counter (avReducedHealing av) \<and>
     0 \<le> avCounterAttackDamage av \<and> avCounterAttackDamage av \<le> 10 * k \<and>
     0 \<le> avCounterHeal av \<and> avCounterHeal av \<le> 11 * k \<and>
     0 \<le> avEffectHeal av \<and> avEffectHeal av \<le> 4 * k \<and> in_i32 (avInstallBombDamage av)"

definition items_ok :: "avatar \<Rightarrow> bool" where
  "items_ok av \<longleftrightarrow>
     length (avUsingItem av) = MAX_USING_ITEM_COUNT \<and> list_all item_ok (avUsingItem av) \<and>
     length (avActiveQueue av) = MAX_USING_ITEM_COUNT \<and>
     list_all (\<lambda>i. 0 \<le> i \<and> i < int MAX_USING_ITEM_COUNT) (avActiveQueue av)"

definition avatar_ok :: "avatar \<Rightarrow> bool" where
  "avatar_ok av \<longleftrightarrow>
     nums_ok (avEffectItemCount av) av \<and> items_ok av \<and>
     0 \<le> avEffectItemCount av \<and> avEffectItemCount av \<le> int MAX_USING_ITEM_COUNT"

text \<open>What no effect changes in an avatar.\<close>

definition avatar_frame :: "avatar \<Rightarrow> avatar \<Rightarrow> bool" where
  "avatar_frame av av' \<longleftrightarrow>
     avClient av' = avClient av \<and> avRoom av' = avRoom av \<and> avNetworkID av' = avNetworkID av \<and>
     avUsingItem av' = avUsingItem av \<and> avActiveQueue av' = avActiveQueue av \<and>
     avIsGhost av' = avIsGhost av \<and> avIsFinish av' = avIsFinish av \<and>
     avEffectItemCount av' = avEffectItemCount av \<and> avIsCharacterDamage av' = avIsCharacterDamage av"

lemma avatar_frame_refl [simp]: "avatar_frame av av"
  and avatar_frame_trans: "avatar_frame a b \<Longrightarrow> avatar_frame b c \<Longrightarrow> avatar_frame a c"
  by (simp_all add: avatar_frame_def)

lemma in_i32_0: "in_i32 0"
  by (simp add: in_i32_def INT_MIN_def INT_MAX_def)

lemma max0_i32 [simp]: "counter (max 0 (i32 x))"
  using i32_upper [of x] by (simp add: counter_def INT_MAX_def)

lemma counter_0 [simp]: "counter 0"
  by (simp add: counter_def INT_MAX_def)

text \<open>Damage of a non-negative amount never raises the hit points, whatever the amount.\<close>

lemma hp_minus:
  assumes "0 \<le> hp" and "hp \<le> INT_MAX" and "counter d"
  shows "max 0 (i32 (hp - d)) = max 0 (hp - d)"
proof -
  have "i32 (hp - d) = hp - d"
    using assms by (intro i32_id) (simp_all add: counter_def INT_MIN_def INT_MAX_def)
  then show ?thesis by simp
qed

lemma hp_minus_range:
  assumes "0 \<le> hp" and "hp \<le> 1000"
  shows "0 \<le> max 0 (i32 (hp - max 0 (i32 d))) \<and> max 0 (i32 (hp - max 0 (i32 d))) \<le> hp"
  using hp_minus [of hp "max 0 (i32 d)"] assms by (auto simp: INT_MAX_def)

section \<open>The operations keep the ranges\<close>

definition keeps :: "int \<Rightarrow> int \<Rightarrow> (avatar \<Rightarrow> avatar) \<Rightarrow> bool" where
  "keeps k k' f \<longleftrightarrow> (\<forall>av. nums_ok k av \<longrightarrow> nums_ok k' (f av) \<and> avatar_frame av (f av))"

lemmas keeps_unfold = keeps_def nums_ok_def avatar_frame_def Let_def

lemma keeps_ToDamage: "keeps k k (ToDamage n opp)"
  unfolding keeps_unfold ToDamage_def
  using hp_minus_range by (auto intro: order_trans)

lemma keeps_ToPiercingDamage: "keeps k k (ToPiercingDamage n opp)"
  unfolding keeps_unfold ToPiercingDamage_def
  using hp_minus_range by (auto intro: order_trans)

lemma keeps_ToJustDamage: "0 \<le> n \<Longrightarrow> n \<le> INT_MAX \<Longrightarrow> keeps k k (ToJustDamage n)"
  unfolding keeps_unfold ToJustDamage_def
  using hp_minus [of _ n] by (auto simp: counter_def INT_MAX_def)

lemma keeps_EffectBleeding: "keeps k k EffectBleeding"
  unfolding keeps_unfold EffectBleeding_def
  using hp_minus by (auto simp: counter_def INT_MAX_def)

lemma keeps_EffectBomb: "keeps k k EffectBomb"
  unfolding keeps_unfold EffectBomb_def
  using hp_minus_range by (auto intro: order_trans simp: in_i32_def INT_MIN_def INT_MAX_def)

lemma keeps_ToDefensive: "keeps k k (ToDefensive n)"
  and keeps_ToOffensePower: "keeps k k (ToOffensePower n)"
  and keeps_ToAdditionDefensive: "keeps k k (ToAdditionDefensive n)"
  and keeps_ToWeakening: "keeps k k (ToWeakening n)"
  and keeps_ToBleeding: "keeps k k (ToBleeding n)"
  and keeps_ToReducedHealing: "keeps k k (ToReducedHealing n)"
  and keeps_SetInstallBomb: "keeps k k (SetInstallBomb n)"
  and keeps_Clear: "keeps k k Clear"
  and keeps_UseKeyCap: "keeps k k UseKeyCap"
  by (simp_all add: keeps_unfold ToDefensive_def ToOffensePower_def ToAdditionDefensive_def
      ToWeakening_def ToBleeding_def ToReducedHealing_def SetInstallBomb_def Clear_def UseKeyCap_def
      in_i32_0)

lemma heal_range:
  assumes "0 \<le> hp" and "hp \<le> mx" and "mx \<le> 1000" and "counter red" and "0 \<le> n" and "n \<le> 1000000"
  shows "hp \<le> min mx (i32 (hp + max 0 (i32 (n - red)))) \<and>
    min mx (i32 (hp + max 0 (i32 (n - red)))) = min mx (hp + max 0 (n - red))"
proof -
  have 1: "i32 (n - red) = n - red"
    using assms by (intro i32_id) (simp_all add: counter_def INT_MIN_def INT_MAX_def)
  have "i32 (hp + max 0 (n - red)) = hp + max 0 (n - red)"
    using assms by (intro i32_id) (auto simp: counter_def INT_MIN_def INT_MAX_def)
  then show ?thesis using assms 1 by simp
qed

lemma keeps_ToHeal: "0 \<le> n \<Longrightarrow> n \<le> 1000000 \<Longrightarrow> keeps k k (ToHeal n)"
  unfolding keeps_unfold ToHeal_def
  using heal_range by (auto intro: order_trans)

text \<open>The effects that wait use up the allowance of one activation.\<close>

lemma keeps_Suc: "keeps k k f \<Longrightarrow> keeps k (k + 1) f"
  by (fastforce simp: keeps_def nums_ok_def)

lemma i32_small: "0 \<le> x \<Longrightarrow> x \<le> 1000000 \<Longrightarrow> i32 x = x"
  by (simp add: i32_id INT_MIN_def INT_MAX_def)

lemma keeps_SetCounterAttack:
  "0 \<le> n \<Longrightarrow> n \<le> 10 \<Longrightarrow> k \<le> 1000 \<Longrightarrow> keeps k (k + 1) (SetCounterAttack n)"
  by (auto simp: keeps_unfold SetCounterAttack_def i32_small)

lemma keeps_SetCounterHeal:
  "0 \<le> n \<Longrightarrow> n \<le> 11 \<Longrightarrow> k \<le> 1000 \<Longrightarrow> keeps k (k + 1) (SetCounterHeal n)"
  by (auto simp: keeps_unfold SetCounterHeal_def i32_small)

lemma keeps_SetEffectHeal:
  "0 \<le> n \<Longrightarrow> n \<le> 4 \<Longrightarrow> k \<le> 1000 \<Longrightarrow> keeps k (k + 1) (SetEffectHeal n)"
  by (auto simp: keeps_unfold SetEffectHeal_def i32_small)

lemma keeps_set:
  "keeps k k (\<lambda>av. av\<lparr>avOffensePower := 0\<rparr>)" "keeps k k (\<lambda>av. av\<lparr>avWeakening := 0\<rparr>)"
  "keeps k k (\<lambda>av. av\<lparr>avIsIgnoreNextDamage := b\<rparr>)"
  "keeps k k (\<lambda>av. av\<lparr>avCanDefendNegativeEffect := b\<rparr>)"
  by (simp_all add: keeps_unfold)

lemma keeps_double: "keeps k k (\<lambda>av. ToDefensive (avDefensive av) av)"
  using keeps_ToDefensive unfolding keeps_def by blast

section \<open>Effects\<close>

text \<open>
  The server as the effects need it, and what they leave alone in it: an effect changes the
  tickets of clients, the random values and the log.
\<close>

definition world_frame :: "world \<Rightarrow> world \<Rightarrow> bool" where
  "world_frame w w' \<longleftrightarrow>
     wRooms w' = wRooms w \<and> wQueue w' = wQueue w \<and> wThreads w' = wThreads w \<and>
     length (wClients w') = length (wClients w) \<and>
     (\<forall>p < length (wClients w). clHp (client_of w' p) = clHp (client_of w p) \<and>
        clSocket (client_of w' p) = clSocket (client_of w p) \<and>
        clStatus (client_of w' p) = clStatus (client_of w p) \<and>
        clRoomPtr (client_of w' p) = clRoomPtr (client_of w p) \<and>
        clRoomOpenCount (client_of w' p) = clRoomOpenCount (client_of w p) \<and>
        clUsingItems (client_of w' p) = clUsingItems (client_of w p) \<and>
        clUnUsingItems (client_of w' p) = clUnUsingItems (client_of w p))"

lemma world_frame_refl [simp]: "world_frame w w"
  by (simp add: world_frame_def)

lemma world_frame_trans: "world_frame a b \<Longrightarrow> world_frame b c \<Longrightarrow> world_frame a c"
  by (simp add: world_frame_def)

definition fx_ok :: "int \<Rightarrow> int \<Rightarrow> fx \<Rightarrow> bool" where
  "fx_ok k m s \<longleftrightarrow>
     nums_ok k (fxMe s) \<and> nums_ok m (fxOpponents s) \<and> world_ok (fxWorld s) \<and>
     0 \<le> avEffectItemCount (fxMe s) \<and> avEffectItemCount (fxMe s) \<le> 6 \<and>
     (\<forall>p. avClient (fxMe s) = Some p \<longrightarrow> p < length (wClients (fxWorld s)))"

definition fx_frame :: "fx \<Rightarrow> fx \<Rightarrow> bool" where
  "fx_frame s s' \<longleftrightarrow> avatar_frame (fxMe s) (fxMe s') \<and> avatar_frame (fxOpponents s) (fxOpponents s') \<and>
     world_frame (fxWorld s) (fxWorld s')"

lemma fx_frame_trans: "fx_frame a b \<Longrightarrow> fx_frame b c \<Longrightarrow> fx_frame a c"
  unfolding fx_frame_def using avatar_frame_trans world_frame_trans by blast

text \<open>
  An effect is safe when it returns and keeps the ranges; with \<open>needs = True\<close> it is claimed for
  avatars that have a client.
\<close>

definition safe :: "bool \<Rightarrow> int \<Rightarrow> int \<Rightarrow> (fx \<Rightarrow> fx result) \<Rightarrow> bool" where
  "safe needs k k' f \<longleftrightarrow>
     (\<forall>s m. fx_ok k m s \<longrightarrow> (needs \<longrightarrow> avClient (fxMe s) \<noteq> None) \<longrightarrow>
        (\<exists>s'. f s = Inr s' \<and> fx_ok k' m s' \<and> fx_frame s s'))"

named_theorems safe_intros

lemma safe_Inr: "safe needs k k Inr"
  by (simp add: safe_def fx_frame_def)

lemma safe_me: "keeps k k' f \<Longrightarrow> safe needs k k' (me f)"
  by (auto simp: safe_def me_def keeps_def fx_ok_def fx_frame_def avatar_frame_def)

lemma safe_opponents: "(\<And>m. keeps m m f) \<Longrightarrow> safe needs k k (opponents f)"
  by (auto simp: safe_def opponents_def keeps_def fx_ok_def fx_frame_def)

lemma safe_hit: "safe needs k k (hit n)"
  using safe_opponents [OF keeps_ToDamage] unfolding safe_def hit_def by blast

lemma safe_pierce: "safe needs k k (pierce n)"
  using safe_opponents [OF keeps_ToPiercingDamage] unfolding safe_def pierce_def by blast

lemma safe_Suc:
  assumes "safe needs k k f"
  shows "safe needs k (k + 1) f"
proof -
  have "nums_ok k av \<Longrightarrow> nums_ok (k + 1) av" for av by (simp add: nums_ok_def)
  then show ?thesis using assms unfolding safe_def fx_ok_def by blast
qed

lemma safe_seqfx:
  assumes "safe needs k k' f" and "safe needs k' k'' g"
  shows "safe needs k k'' (seqfx f g)"
  unfolding safe_def
proof (intro allI impI)
  fix s m assume s: "fx_ok k m s" "needs \<longrightarrow> avClient (fxMe s) \<noteq> None"
  obtain s1 where s1: "f s = Inr s1" "fx_ok k' m s1" "fx_frame s s1"
    using assms(1) s by (auto simp: safe_def)
  moreover from s1(3) have "avClient (fxMe s1) = avClient (fxMe s)"
    by (simp add: fx_frame_def avatar_frame_def)
  ultimately obtain s2 where "g s1 = Inr s2" "fx_ok k'' m s2" "fx_frame s1 s2"
    using assms(2) s(2) by (fastforce simp: safe_def)
  then show "\<exists>s'. seqfx f g s = Inr s' \<and> fx_ok k'' m s' \<and> fx_frame s s'"
    using s1 fx_frame_trans by (auto simp: seqfx_def)
qed

lemma safe_repeat_fx: "safe needs k k f \<Longrightarrow> safe needs k k (repeat_fx n f)"
proof (induction n)
  case 0
  then show ?case by (simp add: safe_def fx_frame_def)
next
  case (Suc n)
  have "repeat_fx (Suc n) f = seqfx f (repeat_fx n f)" by (simp add: fun_eq_iff seqfx_def)
  then show ?case using Suc by (simp add: safe_seqfx)
qed

lemma safe_upgrades:
  assumes "safe needs k k' one" and "safe needs k k' two" and "safe needs k k' three"
  shows "0 \<le> u \<Longrightarrow> u \<le> 2 \<Longrightarrow> safe needs k k' (upgrades one two three u)"
proof -
  assume "0 \<le> u" and "u \<le> 2"
  then have "u = 0 \<or> u = 1 \<or> u = 2" by linarith
  then have "upgrades one two three u \<in> {one, two, three}"
    by (auto simp: upgrades_def fun_eq_iff)
  then show ?thesis using assms by auto
qed

text \<open>An effect whose argument depends on the state.\<close>

lemma safe_dep: "(\<And>x. safe needs k k' (f x)) \<Longrightarrow> safe needs k k' (\<lambda>s. f (g s) s)"
  unfolding safe_def by blast

lemma safe_if: "safe needs k k' f \<Longrightarrow> safe needs k k' g \<Longrightarrow> safe needs k k' (if b then f else g)"
  by simp

lemma fx_ok_rng [simp]: "fx_ok k m (s\<lparr>fxWorld := (fxWorld s)\<lparr>wRng := r\<rparr>\<rparr>) = fx_ok k m s"
  by (simp add: fx_ok_def)

lemma safe_draw: "(\<And>x. safe needs k k' (f x)) \<Longrightarrow> safe needs k k' (draw a b f)"
  unfolding safe_def draw_def Let_def
proof (intro allI impI)
  fix s m
  assume f: "\<And>x. \<forall>s m. fx_ok k m s \<longrightarrow> (needs \<longrightarrow> avClient (fxMe s) \<noteq> None) \<longrightarrow>
      (\<exists>s'. f x s = Inr s' \<and> fx_ok k' m s' \<and> fx_frame s s')"
    and s: "fx_ok k m s" "needs \<longrightarrow> avClient (fxMe s) \<noteq> None"
  let ?d = "Random_draw a b (wRng (fxWorld s))"
  let ?s = "s\<lparr>fxWorld := (fxWorld s)\<lparr>wRng := snd ?d\<rparr>\<rparr>"
  have "fx_ok k m ?s" and "needs \<longrightarrow> avClient (fxMe ?s) \<noteq> None" using s by simp_all
  then obtain s' where s': "f (fst ?d) ?s = Inr s'" "fx_ok k' m s'" "fx_frame ?s s'" using f by blast
  have "fx_frame s ?s" by (simp add: fx_frame_def world_frame_def)
  then have "fx_frame s s'" using s'(3) by (rule fx_frame_trans)
  then show "\<exists>s'. f (fst ?d) ?s = Inr s' \<and> fx_ok k' m s' \<and> fx_frame s s'" using s' by blast
qed

lemma safe_with_client: "(\<And>c. safe True k k' (f c)) \<Longrightarrow> safe True k k' (with_client f)"
  by (auto simp: safe_def with_client_def split: option.split)

lemma safe_needs: "safe False k k' f \<Longrightarrow> safe True k k' f"
  by (auto simp: safe_def)

section \<open>The items are safe\<close>

lemma safe_hit_dep: "safe needs k k (\<lambda>s. hit (g s) s)"
  by (rule safe_dep) (rule safe_hit)

lemma safe_repeat_dep: "safe needs k k f \<Longrightarrow> safe needs k k (\<lambda>s. repeat_fx (g s) f s)"
proof -
  assume "safe needs k k f"
  then have "\<And>x. safe needs k k (repeat_fx x f)" by (rule safe_repeat_fx)
  then show ?thesis unfolding safe_def by blast
qed

lemma safe_me_dep: "(\<And>x. keeps k k (f x)) \<Longrightarrow> safe needs k k (\<lambda>s. me (f (g s)) s)"
proof -
  assume "\<And>x. keeps k k (f x)"
  then have "\<And>x. safe needs k k (me (f x))" by (intro safe_me)
  then show ?thesis unfolding safe_def by blast
qed

lemma safe_seq0: "safe needs k k f \<Longrightarrow> safe needs k k g \<Longrightarrow> safe needs k k (seqfx f g)"
  by (rule safe_seqfx)

lemma safe_seq1: "safe needs k k f \<Longrightarrow> safe needs k (k + 1) g \<Longrightarrow> safe needs k (k + 1) (seqfx f g)"
  by (rule safe_seqfx)

lemmas keeps_all = keeps_ToDefensive keeps_ToOffensePower keeps_ToAdditionDefensive
  keeps_ToWeakening keeps_ToBleeding keeps_ToReducedHealing keeps_SetInstallBomb keeps_Clear
  keeps_UseKeyCap keeps_set keeps_double

lemmas safe_step = safe_seq0 safe_hit safe_pierce safe_me safe_opponents safe_repeat_fx keeps_all
  keeps_ToHeal keeps_ToJustDamage safe_Inr

lemma INT_MAX_ge [simp]: "numeral n \<le> INT_MAX \<longleftrightarrow> (numeral n :: int) \<le> 2147483647"
  by (simp add: INT_MAX_def)

text \<open>Effects with an argument that depends on the state.\<close>

lemma safe_burger:
  "0 \<le> garlic \<Longrightarrow> garlic \<le> 1000000 \<Longrightarrow> safe needs k k (Item007_burger fillet guinness garlic rice)"
proof -
  assume g: "0 \<le> garlic" "garlic \<le> 1000000"
  define f where "f = (\<lambda>t. case t of Fillet \<Rightarrow> opponents (ToWeakening fillet) | Guinness \<Rightarrow> hit guinness
    | WhiteGarlic \<Rightarrow> me (ToHeal garlic) | Rice \<Rightarrow> me (ToDefensive rice))"
  have "safe needs k k (f t)" for t
    using g by (cases t) (auto simp: f_def intro!: safe_step)
  then have "safe needs k k (\<lambda>s. f (avHamburgerType (fxMe s)) s)" by (rule safe_dep)
  moreover have "Item007_burger fillet guinness garlic rice = (\<lambda>s. f (avHamburgerType (fxMe s)) s)"
    by (auto simp: fun_eq_iff Item007_burger_def f_def split: EHamburgerType.split)
  ultimately show ?thesis by simp
qed

lemma safe_Item005_hit: "safe needs k k (Item005_hit x)"
  unfolding Item005_hit_def [abs_def] by (rule safe_hit_dep)

lemma safe_Item015_hits: "safe needs k k (Item015_hits n)"
  unfolding Item015_hits_def [abs_def] by (rule safe_repeat_dep) (rule safe_hit)

lemma safe_Item034_hits: "safe needs k k (Item034_hits n)"
  unfolding Item034_hits_def
  by (rule safe_seq0 [OF safe_me [OF keeps_UseKeyCap] safe_repeat_dep [OF safe_hit]])

lemma safe_Item018_hit: "safe needs k k (Item018_hit n)"
  unfolding Item018_hit_def [abs_def] by (rule safe_hit_dep)

lemma safe_Item025_power: "safe needs k k (Item025_power a b)"
  unfolding Item025_power_def [abs_def]
  by (rule safe_me_dep) (rule keeps_ToOffensePower)

lemma safe_Item036_defence: "safe needs k k (Item036_defence a b)"
  unfolding Item036_defence_def [abs_def]
  by (rule safe_me_dep) (rule keeps_ToDefensive)

lemma safe_Item024_hit: "safe needs k k (Item024_hit base)"
  unfolding safe_def
proof (intro allI impI)
  fix s m assume s: "fx_ok k m s" "needs \<longrightarrow> avClient (fxMe s) \<noteq> None"
  then have mx: "5 \<le> avMaxHp (fxOpponents s)" by (simp add: fx_ok_def nums_ok_def)
  then have "c_div (avMaxHp (fxOpponents s)) 5 \<noteq> 0"
    by (simp add: c_div_nonneg div_greater_zero_iff [THEN iffD2] less_imp_neq [symmetric]
        pos_imp_zdiv_pos_iff)
  then obtain x where "Item024_hit base s = hit x s" by (auto simp: Item024_hit_def Let_def)
  then show "\<exists>s'. Item024_hit base s = Inr s' \<and> fx_ok k m s' \<and> fx_frame s s'"
    using safe_hit [of needs k x] s by (auto simp: safe_def)
qed

lemma safe_Item045_hit: "safe needs k k Item045_hit"
  unfolding safe_def
proof (intro allI impI)
  fix s m assume s: "fx_ok k m s" "needs \<longrightarrow> avClient (fxMe s) \<noteq> None"
  then have "avEffectItemCount (fxMe s) \<le> 6" by (simp add: fx_ok_def)
  then have "\<exists>x. Item045_hit s = hit x s" unfolding Item045_hit_def Let_def by auto
  then obtain x where "Item045_hit s = hit x s" by blast
  then show "\<exists>s'. Item045_hit s = Inr s' \<and> fx_ok k m s' \<and> fx_frame s s'"
    using safe_hit [of needs k x] s by (auto simp: safe_def)
qed

lemma safe_Item032_heal: "2 * m \<le> 2 ^ e \<Longrightarrow> safe needs k k (Item032_heal m e)"
  unfolding safe_def
proof (intro allI impI)
  fix s n assume me: "2 * m \<le> 2 ^ e"
    and s: "fx_ok k n s" "needs \<longrightarrow> avClient (fxMe s) \<noteq> None"
  let ?l = "avMaxHp (fxMe s) - avHp (fxMe s)"
  have l: "0 \<le> ?l" "?l \<le> 1000" using s(1) by (simp_all add: fx_ok_def nums_ok_def)
  then have "0 \<le> f32_mul ?l m e \<and> f32_mul ?l m e \<le> ?l" using me by (intro f32_mul_bounds) simp_all
  then have "keeps k k (ToHeal (f32_mul ?l m e))" using l by (intro keeps_ToHeal) auto
  then have "safe needs k k (Items.me (ToHeal (f32_mul ?l m e)))" by (rule safe_me)
  moreover have "Item032_heal m e s = Items.me (ToHeal (f32_mul ?l m e)) s"
    using l by (simp add: Item032_heal_def Let_def i32_small)
  ultimately show "\<exists>s'. Item032_heal m e s = Inr s' \<and> fx_ok k n s' \<and> fx_frame s s'"
    using s by (auto simp: safe_def)
qed

text \<open>Effects that reach the server.\<close>

lemma fx_world_step:
  assumes "fx_ok k m s" and "world_ok w" and "world_frame (fxWorld s) w"
  shows "fx_ok k m (s\<lparr>fxWorld := w\<rparr>) \<and> fx_frame s (s\<lparr>fxWorld := w\<rparr>)"
  using assms by (simp add: fx_ok_def fx_frame_def world_frame_def)

lemma delivered_frame: "world_frame w (delivered i bytes w)"
  by (simp add: world_frame_def)

lemma safe_announce: "safe True k k (Item021_announce d)"
  unfolding safe_def
proof (intro allI impI)
  fix s m assume s: "fx_ok k m s" "True \<longrightarrow> avClient (fxMe s) \<noteq> None"
  then obtain p where p: "avClient (fxMe s) = Some p" "p < length (wClients (fxWorld s))"
    and w: "world_ok (fxWorld s)" by (auto simp: fx_ok_def)
  let ?w = "case clRoomPtr (client_of (fxWorld s) p) of None \<Rightarrow> fxWorld s
    | Some i \<Rightarrow> delivered i (Packet_Write (MagicStickInfo (clNetworkID (client_of (fxWorld s) p)) d)) (fxWorld s)"
  have "Item021_announce d s = Inr (s\<lparr>fxWorld := ?w\<rparr>)"
    using p w by (simp add: Item021_announce_def on_world_def SendPacketInAllRoomClients_ok)
  moreover have "world_ok ?w" "world_frame (fxWorld s) ?w"
    using w delivered_frame by (auto split: option.split)
  ultimately show "\<exists>s'. Item021_announce d s = Inr s' \<and> fx_ok k m s' \<and> fx_frame s s'"
    using fx_world_step [OF s(1)] by blast
qed

lemma ticket_frame:
  assumes "world_ok w" and "p < length (wClients w)"
  shows "world_ok (set_client p (SetTicketCount t n (client_of w p)) w) \<and>
    world_frame w (set_client p (SetTicketCount t n (client_of w p)) w)"
proof -
  have "client_ok (length (wRooms w)) p (SetTicketCount t n (client_of w p))"
    by (rule client_ok_cong [OF world_ok_client [OF assms]]) (cases t; simp)+
  then have "world_ok (set_client p (SetTicketCount t n (client_of w p)) w)"
    using assms by (intro world_ok_set_client)
  then show ?thesis using assms by (auto simp: world_frame_def client_of_set_client)
qed

lemma safe_ticket: "safe needs k k Item029_ticket"
  unfolding safe_def
proof (intro allI impI)
  fix s m assume s: "fx_ok k m s" "needs \<longrightarrow> avClient (fxMe s) \<noteq> None"
  show "\<exists>s'. Item029_ticket s = Inr s' \<and> fx_ok k m s' \<and> fx_frame s s'"
  proof (cases "IsValidBattleAvatarInRoom (fxMe s) (fxWorld s)")
    case False
    then show ?thesis using s by (auto simp: Item029_ticket_def fx_frame_def)
  next
    case True
    then obtain p where p: "avClient (fxMe s) = Some p"
      by (auto simp: IsValidBattleAvatarInRoom_def IsValidClientInThisRoom_def split: option.splits)
    have pw: "p < length (wClients (fxWorld s))" "world_ok (fxWorld s)" using s(1) p by (auto simp: fx_ok_def)
    define w where "w = set_client p (SetTicketCount Normal
      (i32 (clNormalItemTicketCount (client_of (fxWorld s) p) + 1)) (client_of (fxWorld s) p)) (fxWorld s)"
    have w: "world_ok w" "world_frame (fxWorld s) w"
      using ticket_frame [OF pw(2,1), of Normal] unfolding w_def by blast+
    have pl: "p < length (wClients w)" using pw(1) by (simp add: w_def)
    let ?pkt = "sc_SetItemTicketPacket (clNetworkID (client_of (fxWorld s) p)) Normal
      (i32 (clNormalItemTicketCount (client_of (fxWorld s) p) + 1))"
    let ?w = "case clRoomPtr (client_of w p) of None \<Rightarrow> w | Some i \<Rightarrow> delivered i (Packet_Write ?pkt) w"
    have "packet_ok ?pkt" by (simp add: sc_SetItemTicketPacket_def)
    then have "Item029_ticket s = Inr (s\<lparr>fxWorld := ?w\<rparr>)"
      using True p w pl by (simp add: Item029_ticket_def on_world_def Let_def SendPacketInAllRoomClients_ok
          w_def [symmetric] del: SetTicketCount.simps)
    moreover have "world_ok ?w" "world_frame (fxWorld s) ?w"
      using w delivered_frame world_frame_trans by (auto split: option.split)
    ultimately show ?thesis using fx_world_step [OF s(1)] by blast
  qed
qed

lemmas safe_special = safe_burger safe_Item005_hit safe_Item015_hits safe_Item034_hits safe_Item018_hit
  safe_Item025_power safe_Item036_defence safe_Item024_hit safe_Item045_hit safe_Item032_heal

lemmas Active_plain_defs =
  ItemEmpty_Active_def Item001_Active_def Item002_Active_def Item003_Active_def
  Item004_Active_def Item005_Active_def Item006_Active_def Item007_Active_def
  Item008_Active_def Item011_Active_def Item013_Active_def Item014_Active_def
  Item015_Active_def Item016_Active_def Item018_Active_def Item019_Active_def
  Item020_Active_def Item022_Active_def Item023_Active_def Item024_Active_def
  Item025_Active_def Item026_Active_def Item027_Active_def Item028_Active_def
  Item030_Active_def Item031_Active_def Item032_Active_def Item033_Active_def
  Item034_Active_def Item035_Active_def Item036_Active_def Item037_Active_def
  Item038_Active_def Item039_Active_def Item040_Active_def Item041_Active_def
  Item042_Active_def Item043_Active_def Item044_Active_def Item045_Active_def
  Item023_calm_def Item027_double_def

lemma safe_ItemEmpty: "0 \<le> u \<Longrightarrow> u \<le> 2 \<Longrightarrow> safe needs k (k + 1) (ItemEmpty_Active u)"
  unfolding Active_plain_defs Let_def
  by (rule safe_Suc, rule safe_upgrades; (intro safe_step safe_special)?; simp?)

lemma safe_Item001: "0 \<le> u \<Longrightarrow> u \<le> 2 \<Longrightarrow> safe needs k (k + 1) (Item001_Active u)"
  unfolding Active_plain_defs Let_def
  by (rule safe_Suc, rule safe_upgrades; (intro safe_step safe_special)?; simp?)

lemma safe_Item002: "0 \<le> u \<Longrightarrow> u \<le> 2 \<Longrightarrow> safe needs k (k + 1) (Item002_Active u)"
  unfolding Active_plain_defs Let_def
  by (rule safe_Suc, rule safe_upgrades; (intro safe_step safe_special)?; simp?)

lemma safe_Item003: "0 \<le> u \<Longrightarrow> u \<le> 2 \<Longrightarrow> safe needs k (k + 1) (Item003_Active u)"
  unfolding Active_plain_defs Let_def
  by (rule safe_Suc, rule safe_upgrades; (intro safe_step safe_special)?; simp?)

lemma safe_Item004: "0 \<le> u \<Longrightarrow> u \<le> 2 \<Longrightarrow> safe needs k (k + 1) (Item004_Active u)"
  unfolding Active_plain_defs Let_def
  by (rule safe_Suc, rule safe_upgrades; (intro safe_step safe_special)?; simp?)

lemma safe_Item005: "0 \<le> u \<Longrightarrow> u \<le> 2 \<Longrightarrow> safe needs k (k + 1) (Item005_Active u)"
  unfolding Active_plain_defs Let_def
  by (rule safe_Suc, rule safe_upgrades; (intro safe_step safe_special)?; simp?)

lemma safe_Item006: "0 \<le> u \<Longrightarrow> u \<le> 2 \<Longrightarrow> safe needs k (k + 1) (Item006_Active u)"
  unfolding Active_plain_defs Let_def
  by (rule safe_Suc, rule safe_upgrades; (intro safe_step safe_special)?; simp?)

lemma safe_Item007: "0 \<le> u \<Longrightarrow> u \<le> 2 \<Longrightarrow> safe needs k (k + 1) (Item007_Active u)"
  unfolding Active_plain_defs Let_def
  by (rule safe_Suc, rule safe_upgrades; (intro safe_step safe_special)?; simp?)

lemma safe_Item008: "0 \<le> u \<Longrightarrow> u \<le> 2 \<Longrightarrow> safe needs k (k + 1) (Item008_Active u)"
  unfolding Active_plain_defs Let_def
  by (rule safe_Suc, rule safe_upgrades; (intro safe_step safe_special)?; simp?)

lemma safe_Item011: "0 \<le> u \<Longrightarrow> u \<le> 2 \<Longrightarrow> safe needs k (k + 1) (Item011_Active u)"
  unfolding Active_plain_defs Let_def
  by (rule safe_Suc, rule safe_upgrades; (intro safe_step safe_special)?; simp?)

lemma safe_Item013: "0 \<le> u \<Longrightarrow> u \<le> 2 \<Longrightarrow> safe needs k (k + 1) (Item013_Active u)"
  unfolding Active_plain_defs Let_def
  by (rule safe_Suc, rule safe_upgrades; (intro safe_step safe_special)?; simp?)

lemma safe_Item014: "0 \<le> u \<Longrightarrow> u \<le> 2 \<Longrightarrow> safe needs k (k + 1) (Item014_Active u)"
  unfolding Active_plain_defs Let_def
  by (rule safe_Suc, rule safe_upgrades; (intro safe_step safe_special)?; simp?)

lemma safe_Item015: "0 \<le> u \<Longrightarrow> u \<le> 2 \<Longrightarrow> safe needs k (k + 1) (Item015_Active u)"
  unfolding Active_plain_defs Let_def
  by (rule safe_Suc, rule safe_upgrades; (intro safe_step safe_special)?; simp?)

lemma safe_Item016: "0 \<le> u \<Longrightarrow> u \<le> 2 \<Longrightarrow> safe needs k (k + 1) (Item016_Active u)"
  unfolding Active_plain_defs Let_def
  by (rule safe_Suc, rule safe_upgrades; (intro safe_step safe_special)?; simp?)

lemma safe_Item018: "0 \<le> u \<Longrightarrow> u \<le> 2 \<Longrightarrow> safe needs k (k + 1) (Item018_Active u)"
  unfolding Active_plain_defs Let_def
  by (rule safe_Suc, rule safe_upgrades; (intro safe_step safe_special)?; simp?)

lemma safe_Item019: "0 \<le> u \<Longrightarrow> u \<le> 2 \<Longrightarrow> safe needs k (k + 1) (Item019_Active u)"
  unfolding Active_plain_defs Let_def
  by (rule safe_Suc, rule safe_upgrades; (intro safe_step safe_special)?; simp?)

lemma safe_Item020: "0 \<le> u \<Longrightarrow> u \<le> 2 \<Longrightarrow> safe needs k (k + 1) (Item020_Active u)"
  unfolding Active_plain_defs Let_def
  by (rule safe_Suc, rule safe_upgrades; (intro safe_step safe_special)?; simp?)

lemma safe_Item022: "0 \<le> u \<Longrightarrow> u \<le> 2 \<Longrightarrow> safe needs k (k + 1) (Item022_Active u)"
  unfolding Active_plain_defs Let_def
  by (rule safe_Suc, rule safe_upgrades; (intro safe_step safe_special)?; simp?)

lemma safe_Item023: "0 \<le> u \<Longrightarrow> u \<le> 2 \<Longrightarrow> safe needs k (k + 1) (Item023_Active u)"
  unfolding Active_plain_defs Let_def
  by (rule safe_Suc, rule safe_upgrades; (intro safe_step safe_special)?; simp?)

lemma safe_Item024: "0 \<le> u \<Longrightarrow> u \<le> 2 \<Longrightarrow> safe needs k (k + 1) (Item024_Active u)"
  unfolding Active_plain_defs Let_def
  by (rule safe_Suc, rule safe_upgrades; (intro safe_step safe_special)?; simp?)

lemma safe_Item025: "0 \<le> u \<Longrightarrow> u \<le> 2 \<Longrightarrow> safe needs k (k + 1) (Item025_Active u)"
  unfolding Active_plain_defs Let_def
  by (rule safe_Suc, rule safe_upgrades; (intro safe_step safe_special)?; simp?)

lemma safe_Item026: "0 \<le> u \<Longrightarrow> u \<le> 2 \<Longrightarrow> safe needs k (k + 1) (Item026_Active u)"
  unfolding Active_plain_defs Let_def
  by (rule safe_Suc, rule safe_upgrades; (intro safe_step safe_special)?; simp?)

lemma safe_Item027: "0 \<le> u \<Longrightarrow> u \<le> 2 \<Longrightarrow> safe needs k (k + 1) (Item027_Active u)"
  unfolding Active_plain_defs Let_def
  by (rule safe_Suc, rule safe_upgrades; (intro safe_step safe_special)?; simp?)

lemma safe_Item028: "0 \<le> u \<Longrightarrow> u \<le> 2 \<Longrightarrow> safe needs k (k + 1) (Item028_Active u)"
  unfolding Active_plain_defs Let_def
  by (rule safe_Suc, rule safe_upgrades; (intro safe_step safe_special)?; simp?)

lemma safe_Item030: "0 \<le> u \<Longrightarrow> u \<le> 2 \<Longrightarrow> safe needs k (k + 1) (Item030_Active u)"
  unfolding Active_plain_defs Let_def
  by (rule safe_Suc, rule safe_upgrades; (intro safe_step safe_special)?; simp?)

lemma safe_Item031: "0 \<le> u \<Longrightarrow> u \<le> 2 \<Longrightarrow> safe needs k (k + 1) (Item031_Active u)"
  unfolding Active_plain_defs Let_def
  by (rule safe_Suc, rule safe_upgrades; (intro safe_step safe_special)?; simp?)

lemma safe_Item032: "0 \<le> u \<Longrightarrow> u \<le> 2 \<Longrightarrow> safe needs k (k + 1) (Item032_Active u)"
  unfolding Active_plain_defs Let_def
  by (rule safe_Suc, rule safe_upgrades; (intro safe_step safe_special)?; simp?)

lemma safe_Item033: "0 \<le> u \<Longrightarrow> u \<le> 2 \<Longrightarrow> safe needs k (k + 1) (Item033_Active u)"
  unfolding Active_plain_defs Let_def
  by (rule safe_Suc, rule safe_upgrades; (intro safe_step safe_special)?; simp?)

lemma safe_Item034: "0 \<le> u \<Longrightarrow> u \<le> 2 \<Longrightarrow> safe needs k (k + 1) (Item034_Active u)"
  unfolding Active_plain_defs Let_def
  by (rule safe_Suc, rule safe_upgrades; (intro safe_step safe_special)?; simp?)

lemma safe_Item035: "0 \<le> u \<Longrightarrow> u \<le> 2 \<Longrightarrow> safe needs k (k + 1) (Item035_Active u)"
  unfolding Active_plain_defs Let_def
  by (rule safe_Suc, rule safe_upgrades; (intro safe_step safe_special)?; simp?)

lemma safe_Item036: "0 \<le> u \<Longrightarrow> u \<le> 2 \<Longrightarrow> safe needs k (k + 1) (Item036_Active u)"
  unfolding Active_plain_defs Let_def
  by (rule safe_Suc, rule safe_upgrades; (intro safe_step safe_special)?; simp?)

lemma safe_Item037: "0 \<le> u \<Longrightarrow> u \<le> 2 \<Longrightarrow> safe needs k (k + 1) (Item037_Active u)"
  unfolding Active_plain_defs Let_def
  by (rule safe_Suc, rule safe_upgrades; (intro safe_step safe_special)?; simp?)

lemma safe_Item038: "0 \<le> u \<Longrightarrow> u \<le> 2 \<Longrightarrow> safe needs k (k + 1) (Item038_Active u)"
  unfolding Active_plain_defs Let_def
  by (rule safe_Suc, rule safe_upgrades; (intro safe_step safe_special)?; simp?)

lemma safe_Item039: "0 \<le> u \<Longrightarrow> u \<le> 2 \<Longrightarrow> safe needs k (k + 1) (Item039_Active u)"
  unfolding Active_plain_defs Let_def
  by (rule safe_Suc, rule safe_upgrades; (intro safe_step safe_special)?; simp?)

lemma safe_Item040: "0 \<le> u \<Longrightarrow> u \<le> 2 \<Longrightarrow> safe needs k (k + 1) (Item040_Active u)"
  unfolding Active_plain_defs Let_def
  by (rule safe_Suc, rule safe_upgrades; (intro safe_step safe_special)?; simp?)

lemma safe_Item041: "0 \<le> u \<Longrightarrow> u \<le> 2 \<Longrightarrow> safe needs k (k + 1) (Item041_Active u)"
  unfolding Active_plain_defs Let_def
  by (rule safe_Suc, rule safe_upgrades; (intro safe_step safe_special)?; simp?)

lemma safe_Item042: "0 \<le> u \<Longrightarrow> u \<le> 2 \<Longrightarrow> safe needs k (k + 1) (Item042_Active u)"
  unfolding Active_plain_defs Let_def
  by (rule safe_Suc, rule safe_upgrades; (intro safe_step safe_special)?; simp?)

lemma safe_Item043: "0 \<le> u \<Longrightarrow> u \<le> 2 \<Longrightarrow> safe needs k (k + 1) (Item043_Active u)"
  unfolding Active_plain_defs Let_def
  by (rule safe_Suc, rule safe_upgrades; (intro safe_step safe_special)?; simp?)

lemma safe_Item044: "0 \<le> u \<Longrightarrow> u \<le> 2 \<Longrightarrow> safe needs k (k + 1) (Item044_Active u)"
  unfolding Active_plain_defs Let_def
  by (rule safe_Suc, rule safe_upgrades; (intro safe_step safe_special)?; simp?)

lemma safe_Item045: "0 \<le> u \<Longrightarrow> u \<le> 2 \<Longrightarrow> safe needs k (k + 1) (Item045_Active u)"
  unfolding Active_plain_defs Let_def
  by (rule safe_Suc, rule safe_upgrades; (intro safe_step safe_special)?; simp?)

text \<open>The items whose effects wait, the stick and the certificate.\<close>

lemma safe_waiting:
  assumes "0 \<le> u" and "u \<le> 2" and "k \<le> 1000"
  shows "safe needs k (k + 1) (Item009_Active u)" and "safe needs k (k + 1) (Item010_Active u)"
    and "safe needs k (k + 1) (Item012_Active u)"
  unfolding Item009_Active_def Item010_Active_def Item012_Active_def using assms
  by (auto intro!: safe_upgrades safe_seq1 safe_me keeps_ToDefensive keeps_SetCounterAttack
      keeps_SetCounterHeal keeps_SetEffectHeal)

lemma safe_Item017: "0 \<le> u \<Longrightarrow> u \<le> 2 \<Longrightarrow> safe True k (k + 1) (Item017_Active u)"
  unfolding Item017_Active_def
  by (rule safe_Suc, rule safe_upgrades) (rule safe_with_client, rule safe_hit)+

lemma safe_Item021: "0 \<le> u \<Longrightarrow> u \<le> 2 \<Longrightarrow> safe True k (k + 1) (Item021_Active u)"
proof -
  assume u: "0 \<le> u" "u \<le> 2"
  have "safe True k k (Item021_again d h)" if "0 \<le> h" "h \<le> 1000000" for d h
    unfolding Item021_again_def using that
    by (intro safe_draw safe_seq0 safe_announce safe_if safe_hit safe_me keeps_ToHeal)
  moreover have "safe True k k
      (draw 0 1 (\<lambda>g. seqfx (Item021_announce (g = 1)) (if g = 1 then hit 6 else me (ToHeal 7))))"
    by (intro safe_draw safe_seq0 safe_announce safe_if safe_hit safe_me keeps_ToHeal) simp_all
  ultimately show ?thesis
    unfolding Item021_Active_def using u by (intro safe_Suc safe_upgrades) auto
qed

lemma safe_Item029: "0 \<le> u \<Longrightarrow> u \<le> 2 \<Longrightarrow> safe needs k (k + 1) (Item029_Active u)"
  unfolding Item029_Active_def
  by (rule safe_Suc, rule safe_upgrades) (intro safe_draw safe_if safe_ticket safe_Inr | simp)+

text \<open>Every entry of the table.\<close>

lemmas safe_all =
  safe_ItemEmpty safe_Item001 safe_Item002 safe_Item003 safe_Item004 safe_Item005 safe_Item006
  safe_Item007 safe_Item008 safe_Item011 safe_Item013 safe_Item014 safe_Item015 safe_Item016
  safe_Item017 safe_Item018 safe_Item019 safe_Item020 safe_Item021 safe_Item022 safe_Item023
  safe_Item024 safe_Item025 safe_Item026 safe_Item027 safe_Item028 safe_Item029 safe_Item030
  safe_Item031 safe_Item032 safe_Item033 safe_Item034 safe_Item035 safe_Item036 safe_Item037
  safe_Item038 safe_Item039 safe_Item040 safe_Item041 safe_Item042 safe_Item043 safe_Item044
  safe_Item045 safe_waiting

lemma safe_table_True:
  assumes "0 \<le> u" and "u \<le> 2" and "k \<le> 1000"
  shows "list_all (\<lambda>act. safe True k (k + 1) (act u)) sItems_Active"
  unfolding sItems_Active_def using assms by (simp only: list.pred_inject) (intro conjI TrueI safe_all)

lemma safe_table_False:
  assumes "0 \<le> u" and "u \<le> 2" and "k \<le> 1000"
  shows "list_all (\<lambda>(n, act). n \<noteq> 17 \<and> n \<noteq> 21 \<longrightarrow> safe False k (k + 1) (act u)) (enumerate 0 sItems_Active)"
proof -
  have "list_all2 (\<lambda>n act. n \<noteq> 17 \<and> n \<noteq> 21 \<longrightarrow> safe False k (k + 1) (act u))
      [0, 1, 2, 3, 4, 5, 6, 7, 8, 9, 10, 11, 12, 13, 14, 15, 16, 17, 18, 19, 20, 21, 22, 23, 24, 25, 26,
       27, 28, 29, 30, 31, 32, 33, 34, 35, 36, 37, 38, 39, 40, 41, 42, 43, 44, 45 :: nat] sItems_Active"
    unfolding sItems_Active_def list_all2_Cons list_all2_Nil using assms
    by (intro conjI TrueI) (simp_all add: safe_all)
  moreover have "[0, 1, 2, 3, 4, 5, 6, 7, 8, 9, 10, 11, 12, 13, 14, 15, 16, 17, 18, 19, 20, 21, 22, 23,
      24, 25, 26, 27, 28, 29, 30, 31, 32, 33, 34, 35, 36, 37, 38, 39, 40, 41, 42, 43, 44, 45] = [0..<46]"
    by (simp add: upt_conv_Cons)
  moreover have "length sItems_Active = 46" by (simp add: sItems_Active_def)
  ultimately show ?thesis
    by (simp add: list_all_length nth_enumerate_eq list_all2_conv_all_nth)
qed

section \<open>Activating an item\<close>

lemma nums_ok_mono: "nums_ok k av \<Longrightarrow> k \<le> l \<Longrightarrow> nums_ok l av"
  by (auto simp: nums_ok_def)

lemma nums_ok_count [simp]: "nums_ok k (av\<lparr>avEffectItemCount := n\<rparr>) = nums_ok k av"
  by (simp add: nums_ok_def)

lemma active_lookup:
  assumes "avatar_ok av" and "index < MAX_USING_ITEM_COUNT"
  shows "\<exists>slot. 0 \<le> slot \<and> slot < 6 \<and> avActiveQueue av ! index = slot \<and>
    activated_item index av = Inr (slot, avUsingItem av ! nat slot) \<and> item_ok (avUsingItem av ! nat slot)"
proof -
  have i: "index < length (avActiveQueue av)" "length (avUsingItem av) = 6"
    "list_all (\<lambda>i. 0 \<le> i \<and> i < 6) (avActiveQueue av)" "list_all item_ok (avUsingItem av)"
    using assms by (simp_all add: avatar_ok_def items_ok_def)
  then have "0 \<le> avActiveQueue av ! index \<and> avActiveQueue av ! index < 6"
    by (simp add: list_all_length)
  note q = this
  then have nl: "nat (avActiveQueue av ! index) < length (avUsingItem av)" using i(2) by linarith
  moreover from nl have "item_ok (avUsingItem av ! nat (avActiveQueue av ! index))" by (rule list_all_nth [OF i(4)])
  ultimately show ?thesis using i q by (simp add: activated_item_def at_idx_def)
qed

text \<open>
  The item in the activated slot works: with a client behind the attacker, or without one when
  the item is neither the hair roll nor the stick (the items of the creeps are not).
\<close>

lemma ActiveItem_ok:
  assumes me: "avatar_ok (fxMe s)" "avEffectItemCount (fxMe s) < 6" and opp: "avatar_ok (fxOpponents s)"
    and w: "world_ok (fxWorld s)" and i: "index < MAX_USING_ITEM_COUNT"
    and cl: "\<forall>p. avClient (fxMe s) = Some p \<longrightarrow> p < length (wClients (fxWorld s))"
    and needs: "avClient (fxMe s) \<noteq> None \<or> (\<forall>it \<in> set (avUsingItem (fxMe s)). mType it \<noteq> 17 \<and> mType it \<noteq> 21)"
  shows "\<exists>s'. ActiveItem index s = Inr (word_of_int (avActiveQueue (fxMe s) ! index), s') \<and>
    avatar_ok (fxMe s') \<and> avatar_ok (fxOpponents s') \<and> world_ok (fxWorld s') \<and>
    avEffectItemCount (fxMe s') = avEffectItemCount (fxMe s) + 1 \<and>
    avatar_frame ((fxMe s)\<lparr>avEffectItemCount := avEffectItemCount (fxMe s) + 1\<rparr>) (fxMe s') \<and>
    avatar_frame (fxOpponents s) (fxOpponents s') \<and> world_frame (fxWorld s) (fxWorld s')"
proof -
  let ?n = "avEffectItemCount (fxMe s)" and ?m = "avEffectItemCount (fxOpponents s)"
  define s1 where "s1 = s\<lparr>fxMe := (fxMe s)\<lparr>avEffectItemCount := ?n + 1\<rparr>\<rparr>"
  have n: "0 \<le> ?n" "?n \<le> 5" using me by (simp_all add: avatar_ok_def)
  have cnt: "i32 (?n + 1) = ?n + 1" using n by (simp add: i32_small)
  have s1: "fx_ok ?n ?m s1" using me opp w cl n by (simp add: fx_ok_def s1_def avatar_ok_def)
  obtain slot where slot: "0 \<le> slot" "slot < 6" "avActiveQueue (fxMe s) ! index = slot"
    "activated_item index (fxMe s) = Inr (slot, avUsingItem (fxMe s) ! nat slot)"
    "item_ok (avUsingItem (fxMe s) ! nat slot)"
    using active_lookup [OF me(1) i] by blast
  define it where "it = avUsingItem (fxMe s) ! nat slot"
  have len: "length sItems_Active = 46" by (simp add: sItems_Active_def)
  have io: "unat (mType it) < 46" "unat (mUpgrade it) \<le> 2" using slot(5) by (simp_all add: item_ok_def it_def)
  then have ty: "unat (mType it) < length sItems_Active" using len by simp
  have up: "0 \<le> uint (mUpgrade it)" "uint (mUpgrade it) \<le> 2"
    using io(2) uint_unat_int [of "mUpgrade it"] by linarith+
  define act where "act = sItems_Active ! unat (mType it)"
  have "\<exists>needs'. safe needs' ?n (?n + 1) (act (uint (mUpgrade it))) \<and>
      (needs' \<longrightarrow> avClient (fxMe s) \<noteq> None)"
  proof (cases "avClient (fxMe s) = None")
    case False
    then show ?thesis using safe_table_True [OF up, of ?n] n ty
      by (intro exI [of _ True]) (simp add: act_def list_all_length)
  next
    case True
    have "it \<in> set (avUsingItem (fxMe s))"
      using slot(1,2) me(1) by (simp add: it_def avatar_ok_def items_ok_def)
    then have "mType it \<noteq> 17" "mType it \<noteq> 21" using needs True by auto
    then have "unat (mType it) \<noteq> 17" "unat (mType it) \<noteq> 21"
      by (metis unat_of_nat_back of_nat_numeral)+
    then show ?thesis using safe_table_False [OF up, of ?n] n ty
      by (intro exI [of _ False]) (auto simp: act_def list_all_length nth_enumerate_eq)
  qed
  then obtain needs' where sf: "safe needs' ?n (?n + 1) (act (uint (mUpgrade it)))"
    "needs' \<longrightarrow> avClient (fxMe s) \<noteq> None" by blast
  have "needs' \<longrightarrow> avClient (fxMe s1) \<noteq> None" using sf(2) by (simp add: s1_def)
  then obtain s2 where s2: "act (uint (mUpgrade it)) s1 = Inr s2" "fx_ok (?n + 1) ?m s2" "fx_frame s1 s2"
    using sf(1) s1 unfolding safe_def by blast
  define me3 where "me3 = (if avIsEffectHeal (fxMe s2) \<and> avHp (fxMe s2) > 0
    then ToHeal (avEffectHeal (fxMe s2)) (fxMe s2) else fxMe s2)"
  have eh: "0 \<le> avEffectHeal (fxMe s2)" "avEffectHeal (fxMe s2) \<le> 1000000"
    using s2(2) n by (auto simp: fx_ok_def nums_ok_def)
  then have me3: "nums_ok (?n + 1) me3" "avatar_frame (fxMe s2) me3"
    using s2(2) keeps_ToHeal [OF eh, of "?n + 1"] by (auto simp: me3_def fx_ok_def keeps_def)
  have fr: "avatar_frame ((fxMe s)\<lparr>avEffectItemCount := ?n + 1\<rparr>) me3"
    using s2(3) me3(2) avatar_frame_trans by (auto simp: fx_frame_def s1_def)
  then have q: "avActiveQueue me3 = avActiveQueue (fxMe s)" and c3: "avEffectItemCount me3 = ?n + 1"
    and it3: "avUsingItem me3 = avUsingItem (fxMe s)" by (simp_all add: avatar_frame_def)
  have lq: "index < length (avActiveQueue (fxMe s))" using me(1) i by (simp add: avatar_ok_def items_ok_def)
  have "ActiveItem index s = Inr (word_of_int slot, s2\<lparr>fxMe := me3\<rparr>)"
    using slot s2(1) lq q ty cnt
    by (simp add: ActiveItem_def it_def [symmetric] s1_def [symmetric] act_def at_idx_def Let_def me3_def)
  moreover have "avatar_ok me3" using me3(1) me(1) n by (simp add: avatar_ok_def items_ok_def c3 q it3)
  moreover have "avatar_ok (fxOpponents s2)" "avatar_frame (fxOpponents s) (fxOpponents s2)"
    "world_ok (fxWorld s2)" "world_frame (fxWorld s) (fxWorld s2)"
    using s2(2,3) opp by (auto simp: fx_ok_def fx_frame_def avatar_ok_def items_ok_def s1_def avatar_frame_def)
  ultimately show ?thesis using fr c3 slot(3)
    by (intro exI [of _ "s2\<lparr>fxMe := me3\<rparr>"]) simp
qed

end
