(* ===== verification/Matching.thy ===== *)
theory Matching
  imports Battle_Manager
begin

text \<open>
  Facts about the drawing of opponents: every member of the room fights, exactly one ghost fills
  an odd room, nobody meets the own ghost, and the histories stay well-formed and symmetric.
\<close>

section \<open>Well-formed managers\<close>

text \<open>
  The manager of the set \<open>S\<close> of members: one entry per member, whose history counts the fights
  against every other member, at most \<open>K\<close> each.
\<close>

definition info_ok :: "nat set \<Rightarrow> nat \<Rightarrow> BattleInfo \<Rightarrow> bool" where
  "info_ok S K b \<longleftrightarrow>
     biClient b \<in> S \<and> distinct (map bhClient (biInfos b)) \<and>
     set (map bhClient (biInfos b)) = S - {biClient b} \<and> (\<forall>h \<in> set (biInfos b). bhCount h \<le> K)"

definition manager_ok :: "nat set \<Rightarrow> nat \<Rightarrow> BattleManager \<Rightarrow> bool" where
  "manager_ok S K bm \<longleftrightarrow>
     bmMatching bm = [] \<and> distinct (map biClient (bmUnMatching bm)) \<and>
     set (map biClient (bmUnMatching bm)) = S \<and> (\<forall>b \<in> set (bmUnMatching bm). info_ok S K b)"

text \<open>The network identifiers of the members: distinct and not negative.\<close>

definition ids_ok :: "(nat \<Rightarrow> client) \<Rightarrow> nat set \<Rightarrow> bool" where
  "ids_ok cl S \<longleftrightarrow> inj_on (clNetworkID \<circ> cl) S \<and> (\<forall>p \<in> S. 0 \<le> clNetworkID (cl p))"

lemma ids_ok_neq:
  "ids_ok cl S \<Longrightarrow> p \<in> S \<Longrightarrow> q \<in> S \<Longrightarrow> p \<noteq> q \<Longrightarrow> clNetworkID (cl p) \<noteq> clNetworkID (cl q)"
  by (metis comp_apply ids_ok_def inj_onD)

lemma battle_count_le: "(\<forall>h \<in> set hs. bhCount h \<le> K) \<Longrightarrow> battle_count hs c \<le> K"
  by (induction hs) auto

lemma info_ok_count: "info_ok S K b \<Longrightarrow> GetBattleCount b c \<le> K"
  by (simp add: info_ok_def GetBattleCount_def battle_count_le)

lemma biClient_AddBattleCount [simp]: "biClient (AddBattleCount b c) = biClient b"
  by (simp add: AddBattleCount_def)

lemma info_ok_mono: "info_ok S K b \<Longrightarrow> K \<le> L \<Longrightarrow> info_ok S L b"
  by (force simp: info_ok_def)

lemma info_ok_add:
  assumes "info_ok S K b" and "K < INT64_MAX"
  shows "info_ok S (Suc K) (AddBattleCount b c)"
proof -
  have "map bhClient (biInfos (AddBattleCount b c)) = map bhClient (biInfos b)"
    by (simp add: AddBattleCount_def)
  moreover have "bhCount h \<le> Suc K" if "h \<in> set (biInfos (AddBattleCount b c))" for h
    using that assms by (auto simp: AddBattleCount_def info_ok_def INT64_MAX_def split: if_splits)
  ultimately show ?thesis using assms(1) by (simp add: info_ok_def del: set_map)
qed

section \<open>The pairs\<close>

text \<open>The member a network identifier stands for: a ghost carries the complement.\<close>

definition owner :: "int \<Rightarrow> int" where
  "owner x = (if 0 \<le> x then x else not x)"

lemma owner_simps [simp]: "0 \<le> x \<Longrightarrow> owner x = x" "0 \<le> x \<Longrightarrow> owner (not x) = x"
  by (simp_all add: owner_def not_int_def)

definition flat :: "(int \<times> int) list \<Rightarrow> int list" where
  "flat ps = concat (map (\<lambda>(a, b). [a, b]) ps)"

lemma flat_simps [simp]: "flat [] = []" "flat ((a, b) # ps) = a # b # flat ps"
  by (simp_all add: flat_def)

lemma length_flat: "length (flat ps) = 2 * length ps"
  by (induction ps) auto

lemma flat_nth: "i < length ps \<Longrightarrow> flat ps ! (2 * i) = fst (ps ! i) \<and> flat ps ! (2 * i + 1) = snd (ps ! i)"
  by (induction ps arbitrary: i) (auto simp: nth_Cons split: nat.splits)

lemma attack_order_cases:
  "fst (attack_order p m a b rng) = [a, b] \<or> fst (attack_order p m a b rng) = [b, a]"
  by (simp add: attack_order_def Let_def)

text \<open>The pairs the loop produces out of the entries \<open>us\<close>, with \<open>mat\<close> already matched.\<close>

definition pairs_ok :: "(nat \<Rightarrow> client) \<Rightarrow> nat list \<Rightarrow> nat list \<Rightarrow> (int \<times> int) list \<Rightarrow> bool" where
  "pairs_ok cl us mat ps \<longleftrightarrow>
     length ps = (length us + 1) div 2 \<and>
     mset (filter (\<lambda>x. 0 \<le> x) (flat ps)) = mset (map (\<lambda>p. clNetworkID (cl p)) us) \<and>
     length (filter (\<lambda>x. x < 0) (flat ps)) = length us mod 2 \<and>
     (\<forall>(a, b) \<in> set ps. owner a \<noteq> owner b) \<and>
     (\<forall>x \<in> set (flat ps). owner x \<in> (\<lambda>p. clNetworkID (cl p)) ` (set us \<union> set mat))"

lemma pairs_ok_Nil [simp]: "pairs_ok cl [] mat []"
  by (simp add: pairs_ok_def)

lemma pairs_ok_pair:
  assumes "pairs_ok cl us' (mat @ [m, c]) ps" and "mset us = mset (m # us')"
    and "0 \<le> clNetworkID (cl c)" and "0 \<le> clNetworkID (cl m)"
    and "clNetworkID (cl c) \<noteq> clNetworkID (cl m)"
    and "(a, b) = (clNetworkID (cl c), clNetworkID (cl m)) \<or>
         (a, b) = (clNetworkID (cl m), clNetworkID (cl c))"
  shows "pairs_ok cl (c # us) mat ((a, b) # ps)"
proof -
  have len: "length us = Suc (length us')" using assms(2) by (metis length_Cons size_mset)
  have st: "set us = insert m (set us')" using assms(2) by (metis list.simps(15) set_mset_mset)
  have ms: "mset (map (\<lambda>p. clNetworkID (cl p)) us) =
      add_mset (clNetworkID (cl m)) (mset (map (\<lambda>p. clNetworkID (cl p)) us'))"
    using assms(2) by (metis image_mset_add_mset mset.simps(2) mset_map)
  show ?thesis
    using assms(1,3-6) len st ms by (auto simp: pairs_ok_def)
qed

lemma pairs_ok_ghost:
  assumes "m \<in> set mat" and "0 \<le> clNetworkID (cl c)" and "0 \<le> clNetworkID (cl m)"
    and "clNetworkID (cl c) \<noteq> clNetworkID (cl m)"
    and "(a, b) = (clNetworkID (cl c), not (clNetworkID (cl m))) \<or>
         (a, b) = (not (clNetworkID (cl m)), clNetworkID (cl c))"
  shows "pairs_ok cl [c] mat [(a, b)]"
  using assms by (auto simp: pairs_ok_def not_int_def owner_def)

section \<open>The loop\<close>

lemma opponent_loop_pairs:
  assumes "distinct (map biClient (us @ mat))"
    and "ids_ok cl (set (map biClient (us @ mat)))"
    and "\<forall>b \<in> set us. info_ok S K b" and "\<forall>b \<in> set mat. info_ok S (Suc K) b" and "K < INT64_MAX"
    and "length us \<noteq> 1 \<or> mat \<noteq> []"
  shows "\<exists>ps mat' rng'. opponent_loop cl us mat lst rng = Inr (lst @ flat ps, mat', rng') \<and>
    pairs_ok cl (map biClient us) (map biClient mat) ps \<and>
    mset (map biClient mat') = mset (map biClient (us @ mat)) \<and> (\<forall>b \<in> set mat'. info_ok S (Suc K) b)"
  using assms
proof (induction us arbitrary: mat lst rng rule: measure_induct_rule [of length])
  case (less us)
  show ?case
  proof (cases us)
    case Nil
    then show ?thesis using less.prems
      by (intro exI [of _ "[] :: (int \<times> int) list"] exI [of _ mat] exI [of _ rng])
        (simp add: opponent_loop.simps)
  next
    case (Cons c us')
    let ?nid = "\<lambda>p. clNetworkID (cl p)"
    have nn: "0 \<le> ?nid (biClient x)" if "x \<in> set (us @ mat)" for x
      using that less.prems(2) by (auto simp: ids_ok_def)
    have ne: "?nid (biClient c) \<noteq> ?nid (biClient x)" if "x \<in> set (us' @ mat)" for x
    proof -
      have "biClient c \<noteq> biClient x" using that less.prems(1) Cons by auto
      moreover have "biClient c \<in> set (map biClient (us @ mat))"
        "biClient x \<in> set (map biClient (us @ mat))" using that Cons by auto
      ultimately show ?thesis using ids_ok_neq [OF less.prems(2)] by blast
    qed
    show ?thesis
    proof (cases "min_loop (\<lambda>b. GetBattleCount b (biClient c)) us' 0 None INT64_MAX")
      case None
      have emp: "us' = []"
      proof (rule ccontr)
        assume "us' \<noteq> []"
        then obtain x where "x \<in> set us'" by (cases us') auto
        then have "info_ok S K x" using less.prems(3) Cons by simp
        then have "GetBattleCount x (biClient c) \<le> K" by (rule info_ok_count)
        then show False using None \<open>x \<in> set us'\<close> less.prems(5) by (auto simp: min_loop_None)
      qed
      then have mne: "mat \<noteq> []" using less.prems(6) Cons by simp
      define k where "k = (case min_loop (\<lambda>b. GetBattleCount b (biClient c)) mat 0 None INT64_MAX of
        None \<Rightarrow> 0 | Some k \<Rightarrow> k)"
      have k: "k < length mat" using mne min_loop_Some by (auto simp: k_def split: option.splits)
      define d where "d = attack_order (cl (biClient c)) (cl (biClient (mat ! k)))
        (?nid (biClient c)) (not (?nid (biClient (mat ! k)))) rng"
      have "fst d = [?nid (biClient c), not (?nid (biClient (mat ! k)))] \<or>
          fst d = [not (?nid (biClient (mat ! k))), ?nid (biClient c)]"
        unfolding d_def by (rule attack_order_cases)
      then obtain a b where ab: "fst d = [a, b]"
        "(a, b) = (?nid (biClient c), not (?nid (biClient (mat ! k)))) \<or>
         (a, b) = (not (?nid (biClient (mat ! k))), ?nid (biClient c))"
        by blast
      have "opponent_loop cl us mat lst rng = Inr (lst @ flat [(a, b)], mat @ [c], snd d)"
        using mne None ab(1)
        by (simp add: Cons emp opponent_loop.simps Let_def k_def [symmetric] d_def [symmetric])
      moreover have "pairs_ok cl [biClient c] (map biClient mat) [(a, b)]"
        using k nn ne ab(2) Cons by (intro pairs_ok_ghost [of "biClient (mat ! k)"]) auto
      moreover have "\<forall>b \<in> set (mat @ [c]). info_ok S (Suc K) b"
        using less.prems(3,4) Cons by (auto intro: info_ok_mono)
      ultimately show ?thesis using Cons emp
        by (intro exI [of _ "[(a, b)]"] exI [of _ "mat @ [c]"] exI [of _ "snd d"]) simp
    next
      case (Some k)
      have k: "k < length us'" using min_loop_Some [OF Some] by simp
      define m where "m = us' ! k"
      define rest where "rest = take k us' @ drop (Suc k) us'"
      have us': "us' = take k us' @ m # drop (Suc k) us'"
        unfolding m_def by (rule id_take_nth_drop [OF k])
      have msr: "mset us' = mset (m # rest)" using arg_cong [OF us', of mset] by (simp add: rest_def)
      then have mem: "set us' = insert m (set rest)" by (metis list.simps(15) set_mset_mset)
      have msc: "mset (map biClient us') = mset (biClient m # map biClient rest)"
        using msr by (metis image_mset_add_mset mset.simps(2) mset_map)
      define d where "d = attack_order (cl (biClient c)) (cl (biClient m))
        (?nid (biClient c)) (?nid (biClient m)) rng"
      have "fst d = [?nid (biClient c), ?nid (biClient m)] \<or>
          fst d = [?nid (biClient m), ?nid (biClient c)]"
        unfolding d_def by (rule attack_order_cases)
      then obtain a b where ab: "fst d = [a, b]"
        "(a, b) = (?nid (biClient c), ?nid (biClient m)) \<or> (a, b) = (?nid (biClient m), ?nid (biClient c))"
        by blast
      let ?new = "[AddBattleCount m (biClient c), AddBattleCount c (biClient m)]"
      have step: "opponent_loop cl us mat lst rng =
          opponent_loop cl rest (mat @ ?new) (lst @ [a, b]) (snd d)"
        using Some ab(1)
        by (simp add: Cons opponent_loop.simps Let_def m_def [symmetric] rest_def [symmetric] d_def [symmetric])
      have perm: "mset (map biClient (rest @ mat @ ?new)) = mset (map biClient (us @ mat))"
        using msc Cons by simp
      have len: "length rest < length us" using k Cons by (simp add: rest_def)
      have cond: "distinct (map biClient (rest @ mat @ ?new))"
        "ids_ok cl (set (map biClient (rest @ mat @ ?new)))"
        using less.prems(1,2) perm by (metis mset_eq_imp_distinct_iff, metis mset_eq_setD)
      have ok: "\<forall>b \<in> set rest. info_ok S K b" "\<forall>b \<in> set (mat @ ?new). info_ok S (Suc K) b"
        using less.prems(3,4,5) Cons mem by (auto intro: info_ok_add)
      obtain ps mat' rng' where
        r: "opponent_loop cl rest (mat @ ?new) (lst @ [a, b]) (snd d) =
             Inr ((lst @ [a, b]) @ flat ps, mat', rng')"
           "pairs_ok cl (map biClient rest) (map biClient (mat @ ?new)) ps"
           "mset (map biClient mat') = mset (map biClient (rest @ mat @ ?new))"
           "\<forall>b \<in> set mat'. info_ok S (Suc K) b"
        using less.IH [OF len cond ok less.prems(5), of "lst @ [a, b]" "snd d"] by auto
      have "pairs_ok cl (biClient c # map biClient us') (map biClient mat) ((a, b) # ps)"
        using r(2) msc nn ne mem ab(2) Cons by (intro pairs_ok_pair) auto
      then show ?thesis using r step perm Cons
        by (intro exI [of _ "(a, b) # ps"] exI [of _ mat'] exI [of _ rng']) simp
    qed
  qed
qed

section \<open>The manager\<close>

lemma manager_ok_SetClients:
  assumes "length clients = MAX_ROOM_PLAYER" and "distinct clients" and "ids_ok cl (set clients)"
  shows "\<exists>bm. BattleManager_SetClients cl clients = Inr bm \<and> manager_ok (set clients) 0 bm"
proof -
  have flt: "clNetworkID (cl p) \<noteq> clNetworkID (cl c) \<longleftrightarrow> p \<noteq> c"
    if "p \<in> set clients" "c \<in> set clients" for p c
    using that assms(3) by (auto simp: ids_ok_def inj_on_def)
  have bi: "info_ok (set clients) 0 (BattleInfo_new cl p clients)" if p: "p \<in> set clients" for p
  proof -
    have "filter (\<lambda>c. clNetworkID (cl p) \<noteq> clNetworkID (cl c)) clients = filter (\<lambda>c. p \<noteq> c) clients"
      using flt p by (intro filter_cong) auto
    then show ?thesis using p assms(2) by (auto simp: info_ok_def BattleInfo_new_def comp_def)
  qed
  have map8: "map (\<lambda>i. clients ! i) [0..<8] = clients"
    using assms(1) by (metis MAX_ROOM_PLAYER_def map_nth)
  have "map (\<lambda>player. BattleInfo_new cl (clients ! player) clients) [0..<8] =
      map (\<lambda>p. BattleInfo_new cl p clients) clients"
    by (subst (3) map8 [symmetric]) (simp add: comp_def)
  then have "BattleManager_SetClients cl clients =
      Inr \<lparr>bmUnMatching = map (\<lambda>p. BattleInfo_new cl p clients) clients, bmMatching = []\<rparr>"
    using assms(1) by (simp add: BattleManager_SetClients_def)
  moreover have "map biClient (map (\<lambda>p. BattleInfo_new cl p clients) clients) = clients"
    by (simp add: comp_def BattleInfo_new_def)
  moreover have "\<forall>b \<in> set (map (\<lambda>p. BattleInfo_new cl p clients) clients). info_ok (set clients) 0 b"
    using bi by simp
  ultimately show ?thesis using assms(2) by (simp add: manager_ok_def del: map_map set_map)
qed

lemma erase_history_filter:
  assumes "inj_on (clNetworkID \<circ> cl) S" and "set (map bhClient hs) \<subseteq> S" and "p \<in> S"
    and "distinct (map bhClient hs)"
  shows "erase_history cl (clNetworkID (cl p)) hs = filter (\<lambda>h. bhClient h \<noteq> p) hs"
  using assms
proof (induction hs)
  case Nil
  then show ?case by simp
next
  case (Cons h hs)
  have "clNetworkID (cl (bhClient h)) = clNetworkID (cl p) \<longleftrightarrow> bhClient h = p"
    using Cons.prems by (auto simp: inj_on_def)
  moreover have "filter (\<lambda>h. bhClient h \<noteq> p) hs = hs" if "bhClient h = p"
    using that Cons.prems(4) by (auto simp: filter_id_conv image_iff)
  ultimately show ?case using Cons by auto
qed

lemma info_ok_remove:
  assumes "inj_on (clNetworkID \<circ> cl) S" and "info_ok S K b" and "p \<in> S" and "biClient b \<noteq> p"
  shows "info_ok (S - {p}) K (BattleInfo_RemoveClient cl (clNetworkID (cl p)) b)"
proof -
  have "erase_history cl (clNetworkID (cl p)) (biInfos b) = filter (\<lambda>h. bhClient h \<noteq> p) (biInfos b)"
    using assms by (intro erase_history_filter [of cl S]) (auto simp: info_ok_def)
  moreover have "bhClient ` {h \<in> set (biInfos b). bhClient h \<noteq> p} = bhClient ` set (biInfos b) - {p}"
    by auto
  ultimately show ?thesis using assms
    by (auto simp: info_ok_def BattleInfo_RemoveClient_def distinct_map_filter)
qed

lemma remove_info_map:
  assumes "inj_on (clNetworkID \<circ> cl) S" and "biClient ` set bs \<subseteq> S" and "p \<in> S"
  shows "remove_info cl (clNetworkID (cl p)) bs =
    map (BattleInfo_RemoveClient cl (clNetworkID (cl p))) (filter (\<lambda>b. biClient b \<noteq> p) bs)"
  using assms
proof (induction bs)
  case Nil
  then show ?case by simp
next
  case (Cons b bs)
  have "clNetworkID (cl (biClient b)) = clNetworkID (cl p) \<longleftrightarrow> biClient b = p"
    using Cons.prems by (auto simp: inj_on_def)
  then show ?case using Cons by simp
qed

lemma manager_ok_RemoveClient:
  assumes "manager_ok S K bm" and "inj_on (clNetworkID \<circ> cl) S" and "p \<in> S"
  shows "manager_ok (S - {p}) K (BattleManager_RemoveClient cl (clNetworkID (cl p)) bm)"
proof -
  let ?n = "clNetworkID (cl p)"
  let ?bs = "filter (\<lambda>b. biClient b \<noteq> p) (bmUnMatching bm)"
  have sub: "biClient ` set (bmUnMatching bm) = S" using assms(1) by (simp add: manager_ok_def)
  have un: "bmUnMatching (BattleManager_RemoveClient cl ?n bm) = map (BattleInfo_RemoveClient cl ?n) ?bs"
    using remove_info_map [OF assms(2) _ assms(3)] sub by (simp add: BattleManager_RemoveClient_def)
  have bic: "map biClient (map (BattleInfo_RemoveClient cl ?n) ?bs) = map biClient ?bs"
    by (simp add: BattleInfo_RemoveClient_def)
  have "distinct (map biClient ?bs)" using assms(1) by (simp add: manager_ok_def distinct_map_filter)
  moreover have "set (map biClient ?bs) = S - {p}" using sub by auto
  moreover have "\<forall>b \<in> set ?bs. info_ok (S - {p}) K (BattleInfo_RemoveClient cl ?n b)"
    using assms(1) info_ok_remove [OF assms(2) _ assms(3)] by (simp add: manager_ok_def)
  moreover have "bmMatching (BattleManager_RemoveClient cl ?n bm) = []"
    using assms(1) by (simp add: manager_ok_def BattleManager_RemoveClient_def)
  ultimately show ?thesis unfolding manager_ok_def un bic by auto
qed

text \<open>A draw for at least two members.\<close>

lemma GetBattleOpponent_ok:
  assumes "manager_ok S K bm" and "ids_ok cl S" and "K < INT64_MAX" and "card S \<noteq> 1"
  shows "\<exists>ps bm' rng' order. GetBattleOpponent cl bm rng = Inr (flat ps, bm', rng') \<and>
    manager_ok S (Suc K) bm' \<and> distinct order \<and> set order = S \<and> pairs_ok cl order [] ps"
proof -
  let ?s = "shuffle_vec (bmUnMatching bm) rng"
  have ms: "mset (fst ?s) = mset (bmUnMatching bm)" by (rule shuffle_vec_mset)
  then have msc: "mset (map biClient (fst ?s)) = mset (map biClient (bmUnMatching bm))" by simp
  have dst: "distinct (map biClient (fst ?s))" and st: "set (map biClient (fst ?s)) = S"
    using assms(1) msc unfolding manager_ok_def by (metis mset_eq_imp_distinct_iff, metis mset_eq_setD)
  have ok: "\<forall>b \<in> set (fst ?s). info_ok S K b"
    using assms(1) ms unfolding manager_ok_def by (metis mset_eq_setD)
  have len: "length (fst ?s) \<noteq> 1 \<or> ([] :: BattleInfo list) \<noteq> []"
    using assms(4) distinct_card [OF dst] st by simp
  have "\<exists>ps mat' rng'. opponent_loop cl (fst ?s) [] [] (snd ?s) = Inr ([] @ flat ps, mat', rng') \<and>
      pairs_ok cl (map biClient (fst ?s)) (map biClient []) ps \<and>
      mset (map biClient mat') = mset (map biClient (fst ?s @ [])) \<and>
      (\<forall>b \<in> set mat'. info_ok S (Suc K) b)"
    using opponent_loop_pairs [of "fst ?s" "[]" cl S K "[]" "snd ?s"] dst st ok assms(2,3) len
    by (simp del: set_map)
  then obtain ps mat' rng' where r:
    "opponent_loop cl (fst ?s) [] [] (snd ?s) = Inr (flat ps, mat', rng')"
    "pairs_ok cl (map biClient (fst ?s)) [] ps" "mset (map biClient mat') = mset (map biClient (fst ?s))"
    "\<forall>b \<in> set mat'. info_ok S (Suc K) b" by auto
  have "distinct (map biClient mat')" "set (map biClient mat') = S"
    using r(3) dst st by (metis mset_eq_imp_distinct_iff, metis mset_eq_setD)
  then have "manager_ok S (Suc K) \<lparr>bmUnMatching = mat', bmMatching = []\<rparr>"
    using r(4) by (simp add: manager_ok_def)
  then show ?thesis using r assms(1) dst st
    by (auto simp: GetBattleOpponent_def Let_def manager_ok_def simp del: set_map)
qed

end
