(* ===== verification/Process_Packet.thy ===== *)
theory Process_Packet
  imports World Item_Table
begin

text \<open>
  \<open>Server::ProcessPacket\<close> (\<open>Server.cpp\<close>): the handlers of the packets that clients send.  A packet
  is the client's packet buffer; its fields are read at their offsets.  \<open>networkID\<close> is the
  connection it came in on, the identifier inside the packet is the client it is about.
\<close>

section \<open>Shared parts\<close>

text \<open>The client a packet is about: \<open>sClients[pPacket->networkID]\<close>.\<close>

definition packet_client :: "u8 list \<Rightarrow> world \<Rightarrow> nat result" where
  "packet_client buf w = client_idx w (rd_i32 buf 3)"

definition room_status :: "nat \<Rightarrow> world \<Rightarrow> ERoomStatusType option" where
  "room_status p w = map_option (\<lambda>i. rmCurRoomStatusType (room_of w i)) (clRoomPtr (client_of w p))"

text \<open>The inventory of the packet's client, to everybody in the room of the connection.\<close>

definition send_inventory :: "nat \<Rightarrow> nat \<Rightarrow> world \<Rightarrow> world result" where
  "send_inventory conn p w =
     SendPacketInAllRoomClients conn (sc_InventoryInfoPacket (client_of w p)) w"

definition modify_client :: "nat \<Rightarrow> (client \<Rightarrow> client result) \<Rightarrow> world \<Rightarrow> world result" where
  "modify_client p f w = rbind (f (client_of w p)) (\<lambda>c. Inr (set_client p c w))"

section \<open>Matching\<close>

text \<open>
  The name is copied from the packet up to its first null character, wherever that is in the
  buffer; the last character of the copy is then cleared.
\<close>

fun rd_u16s :: "u8 list \<Rightarrow> u16 list" where
  "rd_u16s (a # b # bs) = word_of_int (uint a + 256 * uint b) # rd_u16s bs"
| "rd_u16s _ = []"

definition take_name :: "u8 list \<Rightarrow> client \<Rightarrow> client result" where
  "take_name buf c =
     rbind (wcscpy (clName c) (rd_u16s (drop 7 buf))) (\<lambda>nm.
       Inr (c\<lparr>clName := nm[MAX_USER_NAME_LENGTH - 1 := 0]\<rparr>))"

definition start_matching :: "nat \<Rightarrow> u8 list \<Rightarrow> world \<Rightarrow> world result" where
  "start_matching conn buf w =
     (if clRoomPtr (client_of w conn) \<noteq> None then Inr w
      else rbind (modify_client conn (take_name buf) w) (\<lambda>w1.
        rbind (AddClient (wQueue w1) conn) (\<lambda>q.
          rbind (TryCreateRoomOrNullPtr (w1\<lparr>wQueue := q\<rparr>)) (\<lambda>(room, w2).
            case room of
              None \<Rightarrow> Inr w2
            | Some i \<Rightarrow>
                rbind (sc_ConnectRoomPacket (map (client_of w2) (rmClients (room_of w2 i)))) (\<lambda>pkt.
                  rbind (SendStreamToAllClients i
                           [SetChoiceCharacterTime (of_nat CHOICE_CHARACTER_TIME), pkt] w2) (\<lambda>w3.
                    Inr (w3\<lparr>wThreads := wThreads w3 @ [i]\<rparr>)))))))"

section \<open>Characters, slots and emoticons\<close>

definition change_character :: "nat \<Rightarrow> u8 list \<Rightarrow> world \<Rightarrow> world result" where
  "change_character conn buf w =
     rbind (packet_client buf w) (\<lambda>p.
       if room_status p w \<noteq> Some St_ChoiceCharacter then Inr w
       else if clRoomPtr (client_of w conn) = None then Inr w
       else rbind (modify_client conn (\<lambda>c. Inr (c\<lparr>clCharacterType := rd_u8 buf 7\<rparr>)) w) (\<lambda>w1.
         ForwardInAllRoomClients conn buf w1))"

definition change_item_slot :: "nat \<Rightarrow> u8 list \<Rightarrow> world \<Rightarrow> world result" where
  "change_item_slot conn buf w =
     rbind (packet_client buf w) (\<lambda>p.
       case room_status p w of
         None \<Rightarrow> Inr w
       | Some st \<Rightarrow>
           if st \<noteq> St_ReadyStage then send_inventory conn p w
           else rbind (modify_client conn (\<lambda>c. SwapItem c (rd_u8 buf 7) (rd_u8 buf 8)) w) (\<lambda>w1.
             send_inventory conn p w1))"

definition use_emoticon :: "nat \<Rightarrow> u8 list \<Rightarrow> world \<Rightarrow> world result" where
  "use_emoticon conn buf w =
     (if clRoomPtr (client_of w conn) = None then Inr w else ForwardInAllRoomClients conn buf w)"

section \<open>Notifications\<close>

definition choice_character :: "nat \<Rightarrow> u8 list \<Rightarrow> world \<Rightarrow> world result" where
  "choice_character p buf w =
     (if room_status p w \<noteq> Some St_ChoiceCharacter then Inr w
      else rbind (modify_client p (\<lambda>c. Inr (c\<lparr>clIsChoiceCharacter := True\<rparr>)) w) (\<lambda>w1.
        ForwardInAllRoomClients p buf w1))"

definition connect_check :: "nat \<Rightarrow> world \<Rightarrow> world result" where
  "connect_check p w =
     modify_client p (\<lambda>c. Inr (c\<lparr>clLastConnectCheckPacketTime := wNow w\<rparr>)) w"

text \<open>The draw of each ticket.\<close>

fun ticket_draw :: "EItemTicketType \<Rightarrow> nat \<Rightarrow> world \<Rightarrow> (u8 \<times> nat list) result" where
  "ticket_draw Normal p w =
     GetRandomItemTypeOfNormalItemTicket (\<lambda>i. rmRound (room_of w i)) (client_of w p) (wRng w)"
| "ticket_draw Advanced p w = GetRandomItemTypeOfAdvancedItemTicket (client_of w p) (wRng w)"
| "ticket_draw Top p w = GetRandomItemTypeOfTopItemTicket (client_of w p) (wRng w)"
| "ticket_draw Supreme p w = GetRandomItemTypeOfSupremeItemTicket (client_of w p) (wRng w)"

text \<open>
  The four cases differ in the ticket only.  The item goes to the first free slot (to none, when
  the inventory is full); the ticket is taken in any case.
\<close>

definition use_ticket :: "EItemTicketType \<Rightarrow> nat \<Rightarrow> world \<Rightarrow> world result" where
  "use_ticket t p w =
     (case clRoomPtr (client_of w p) of
        None \<Rightarrow> Inr w
      | Some i \<Rightarrow>
          if rmCurRoomStatusType (room_of w i) \<noteq> St_ReadyStage then Inr w
          else rbind (ticket_draw t p w) (\<lambda>(newItemType, rng).
            let w1 = w\<lparr>wRng := rng\<rparr>
            in if newItemType \<noteq> EMPTY_ITEM
               then let (c1, slot) = AddItem (client_of w1 p) newItemType;
                        c2 = SetTicketCount t (i32 (TicketCount t c1 - 1)) c1
                    in SendStreamToAllClients i
                         [sc_InventoryInfoPacket c1,
                          sc_SetItemTicketPacket (clNetworkID c2) t (TicketCount t c2)]
                         (set_client p c2 w1)
               else Inr w1))"

text \<open>A byte that names no notification, or the one after the last handled, trips the assertion.\<close>

definition notification :: "u8 list \<Rightarrow> world \<Rightarrow> world result" where
  "notification buf w =
     rbind (packet_client buf w) (\<lambda>p.
       case of_num notification_types (rd_u8 buf 7) of
         None \<Rightarrow> Inl AssertFailed
       | Some t \<Rightarrow>
           (case t of
              ChoiceCharacter \<Rightarrow> choice_character p buf w
            | ConnectCheck \<Rightarrow> connect_check p w
            | UseNormalItemTicket \<Rightarrow> use_ticket Normal p w
            | UseAdvancedItemTicket \<Rightarrow> use_ticket Advanced p w
            | UseTopItemTicket \<Rightarrow> use_ticket Top p w
            | UseSupremeItemTicket \<Rightarrow> use_ticket Supreme p w
            | EffectCreepItem \<Rightarrow> Inl AssertFailed
            | _ \<Rightarrow> Inr w))"

section \<open>Items\<close>

definition drop_item :: "nat \<Rightarrow> u8 list \<Rightarrow> world \<Rightarrow> world result" where
  "drop_item conn buf w =
     rbind (packet_client buf w) (\<lambda>p.
       case room_status p w of
         None \<Rightarrow> Inr w
       | Some st \<Rightarrow>
           if st \<noteq> St_ReadyStage then send_inventory conn p w
           else rbind (GetItem (client_of w p) (rd_u8 buf 7)) (\<lambda>it.
             if mType it = EMPTY_ITEM then send_inventory conn p w
             else rbind (modify_client p (\<lambda>c. ModifyItem c (rd_u8 buf 7) SetEmptyItem) w) (\<lambda>w1.
               send_inventory conn p w1)))"

text \<open>Up to ten draws, until one differs from the three items given away.\<close>

fun combination_loop ::
  "nat \<Rightarrow> nat \<Rightarrow> nat \<Rightarrow> u8 list \<Rightarrow> u8 \<Rightarrow> nat list \<Rightarrow> (u8 \<times> nat list) result" where
  "combination_loop 0 lo hi types new rng = Inr (new, rng)"
| "combination_loop (Suc n) lo hi types new rng =
     rbind (GetRandomItemTypeByCombination lo hi rng) (\<lambda>(new', rng').
       if new' \<notin> set types then Inr (new', rng') else combination_loop n lo hi types new' rng')"

definition tier_of_type :: "u8 \<Rightarrow> nat result" where
  "tier_of_type type = rbind (at_idx sItems (unat type)) (\<lambda>ib. Inr (tier_num (ibTIER_TYPE ib)))"

text \<open>What the handler does to the client: the three slots are emptied, the first free one filled.\<close>

definition combine :: "u8 \<Rightarrow> u8 \<Rightarrow> u8 \<Rightarrow> client \<Rightarrow> nat list \<Rightarrow> ((client \<times> nat list) option) result" where
  "combine index1 index2 index3 c rng =
     rbind (GetItem c index1) (\<lambda>item1. rbind (GetItem c index2) (\<lambda>item2.
     rbind (GetItem c index3) (\<lambda>item3.
       if mType item1 = EMPTY_ITEM \<or> mType item2 = EMPTY_ITEM \<or> mType item3 = EMPTY_ITEM
       then Inr None
       else rbind (tier_of_type (mType item1)) (\<lambda>tier1. rbind (tier_of_type (mType item2)) (\<lambda>tier2.
         rbind (tier_of_type (mType item3)) (\<lambda>tier3.
         rbind (ModifyItem c index1 SetEmptyItem) (\<lambda>c1.
         rbind (ModifyItem c1 index2 SetEmptyItem) (\<lambda>c2.
         rbind (ModifyItem c2 index3 SetEmptyItem) (\<lambda>c3.
         rbind (combination_loop 10 (min (min tier1 tier2) tier3) (max (max tier3 tier2) tier1)
                  [mType item1, mType item2, mType item3] 0 rng) (\<lambda>(newItemType, rng').
         rbind (ModifyItem c3 (FindEmptyItemSlotIndex c3)
                  (\<lambda>it. it\<lparr>mType := newItemType, mUpgrade := 0\<rparr>)) (\<lambda>c4.
           Inr (Some (c4, rng'))))))))))))) "

definition request_combination_item :: "nat \<Rightarrow> u8 list \<Rightarrow> world \<Rightarrow> world result" where
  "request_combination_item conn buf w =
     rbind (packet_client buf w) (\<lambda>p.
       case room_status p w of
         None \<Rightarrow> Inr w
       | Some st \<Rightarrow>
           rbind (if st \<noteq> St_ReadyStage then send_inventory conn p w else Inr w) (\<lambda>w1.
             rbind (combine (rd_u8 buf 7) (rd_u8 buf 8) (rd_u8 buf 9) (client_of w1 p) (wRng w1)) (\<lambda>r.
               case r of
                 None \<Rightarrow> send_inventory conn p w1
               | Some (c, rng) \<Rightarrow> send_inventory conn p (set_client p c (w1\<lparr>wRng := rng\<rparr>)))))"

text \<open>What the handler does to the client; \<open>None\<close> when a check refuses the upgrade.\<close>

definition upgrade_items :: "u8 \<Rightarrow> u8 \<Rightarrow> client \<Rightarrow> (client option) result" where
  "upgrade_items slot1 slot2 c =
     rbind (GetItem c slot1) (\<lambda>upgradeItem. rbind (GetItem c slot2) (\<lambda>materialItem.
       if slot1 = slot2 then Inr None
       else if mType upgradeItem \<noteq> mType materialItem then Inr None
       else if mType upgradeItem = 0 then Inr None
       else if mUpgrade upgradeItem \<noteq> mUpgrade materialItem then Inr None
       else if mUpgrade upgradeItem \<ge> 2 then Inr None
       else let upgrade = mUpgrade upgradeItem + 1
            in rbind (ModifyItem c slot1 (\<lambda>it. it\<lparr>mUpgrade := upgrade\<rparr>)) (\<lambda>c1.
                 rbind (ModifyItem c1 slot2 SetEmptyItem) (\<lambda>c2. Inr (Some c2)))))"

definition request_upgrade_item :: "nat \<Rightarrow> u8 list \<Rightarrow> world \<Rightarrow> world result" where
  "request_upgrade_item conn buf w =
     rbind (packet_client buf w) (\<lambda>p.
       case room_status p w of
         None \<Rightarrow> Inr w
       | Some st \<Rightarrow>
           if st \<noteq> St_ReadyStage then send_inventory conn p w
           else rbind (upgrade_items (rd_u8 buf 7) (rd_u8 buf 8) (client_of w p)) (\<lambda>r.
             case r of
               None \<Rightarrow> send_inventory conn p w
             | Some c \<Rightarrow> send_inventory conn p (set_client p c w)))"

section \<open>The dispatch\<close>

definition ProcessPacket :: "nat \<Rightarrow> u8 list \<Rightarrow> world \<Rightarrow> world result" where
  "ProcessPacket conn buf w =
     (case rd_type buf of
        None \<Rightarrow> Inr w
      | Some t \<Rightarrow>
          (case t of
             pt_cs_startMatching \<Rightarrow> start_matching conn buf w
           | pt_cs_sc_changeCharacter \<Rightarrow> change_character conn buf w
           | pt_cs_sc_changeItemSlot \<Rightarrow> change_item_slot conn buf w
           | pt_cs_sc_useEmoticon \<Rightarrow> use_emoticon conn buf w
           | pt_cs_sc_notification \<Rightarrow> notification buf w
           | pt_cs_sc_dropItem \<Rightarrow> drop_item conn buf w
           | pt_cs_requestCombinationItem \<Rightarrow> request_combination_item conn buf w
           | pt_cs_requestUpgradeItem \<Rightarrow> request_upgrade_item conn buf w
           | _ \<Rightarrow> Inr w))"

end
