(* ===== verification/Draws.thy ===== *)
theory Draws
  imports Inventory
begin

text \<open>
  Facts about the random choices of a client: which items the tickets and the combination can
  give and with which weight, and the order in which the six equipped slots are activated.
\<close>

section \<open>Items of a tier\<close>

lemma with_rng_Inr: "with_rng p = Inr q \<longleftrightarrow> (\<exists>x. fst p = Inr x \<and> q = (x, snd p))"
  by (cases "fst p") (auto simp: with_rng_def)

text \<open>A draw from a non-empty vector returns the code of one of its entries; each is reached.\<close>

lemma draw_item_Inr:
  assumes "xs \<noteq> []"
  shows "\<exists>i < length xs. draw_item xs rng = (Inr (of_nat (ibCODE (xs ! i))), snd (next_raw rng))"
proof -
  have b: "0 \<le> fst (Random_draw 0 (int (length xs) - 1) rng) \<and>
      fst (Random_draw 0 (int (length xs) - 1) rng) \<le> int (length xs) - 1"
    using assms by (intro Random_draw_range) (cases xs, auto)
  then have "nat (fst (Random_draw 0 (int (length xs) - 1) rng)) < length xs" by linarith
  then show ?thesis
    by (intro exI [of _ "nat (fst (Random_draw 0 (int (length xs) - 1) rng))"])
      (simp add: draw_item_def Let_def at_idx_def Random_draw_def)
qed

lemma draw_item_reach:
  assumes "i < length xs"
  shows "\<exists>r. draw_item xs (r # rng) = (Inr (of_nat (ibCODE (xs ! i))), rng)"
proof -
  obtain r where "Random_draw 0 (int (length xs) - 1) (r # rng) = (int i, rng)"
    using Random_draw_surj [of 0 "int i" "int (length xs) - 1" rng] assms by auto
  then show ?thesis using assms
    by (intro exI [of _ r]) (simp add: draw_item_def Let_def at_idx_def)
qed

text \<open>
  The codes of a tier vector, as bytes: the item types of that tier among the obtainable ones.
\<close>

definition tier_types :: "nat \<Rightarrow> u8 list" where
  "tier_types k = map (\<lambda>ib. of_nat (ibCODE ib)) (sTierItems ! k)"

lemma less5: "k < (5::nat) \<longleftrightarrow> k = 0 \<or> k = 1 \<or> k = 2 \<or> k = 3 \<or> k = 4"
  by linarith

lemma tier_types_eq:
  "tier_types 0 = [1, 2, 3, 4, 8, 33]"
  "tier_types 1 = [7, 9, 10, 12, 14, 16, 19, 20, 21, 22, 26, 30, 31, 37]"
  "tier_types 2 = [6, 11, 23, 24, 28, 29, 34, 35, 36]"
  "tier_types 3 = [5, 13, 17, 18, 25]"
  "tier_types 4 = [15, 27, 32]"
  by (simp_all add: tier_types_def tier_lists_def item_entries_def numeral_eq_Suc)

lemmas tier_types_all = tier_types_eq tier_types_eq [unfolded One_nat_def]

lemma tier_types_tier:
  "k < 5 \<Longrightarrow> t \<in> set (tier_types k) \<Longrightarrow> tier_num (tier_of t) = k \<and> t \<noteq> 0 \<and> unat t < 38"
  unfolding less5 by (elim disjE) (auto simp: tier_types_all tier_of_def sItems_def item_entries_def)

lemma tier_types_partition:
  "distinct (concat (map tier_types [0..<5])) \<and>
   set (concat (map tier_types [0..<5])) = {t. 1 \<le> t \<and> t \<le> 37}"
proof -
  have five: "[0..<5] = [0, 1, 2, 3, 4::nat]" by (simp add: upt_rec)
  have "distinct (concat (map tier_types [0..<5]))" by (simp add: five tier_types_all)
  moreover have "set (concat (map tier_types [0..<5])) = {t. 1 \<le> t \<and> t \<le> 37}" (is "?L = ?R")
  proof
    show "?L \<subseteq> ?R" by (simp add: five tier_types_all word_le_nat_alt)
    show "?R \<subseteq> ?L"
    proof
      fix t :: u8
      assume "t \<in> ?R"
      then have "unat t \<in> {1..37}" by (simp add: word_le_nat_alt)
      then have "unat t \<in> set [1..<38]" by simp
      moreover have "[1..<38] = 1 # [2..<38::nat]" by (simp add: upt_conv_Cons)
      ultimately have "t \<in> set (map of_nat (1 # [2..<38]))"
        by (metis image_eqI list.set_map unat_of_nat_back)
      then show "t \<in> ?L" by (auto simp: five tier_types_all)
    qed
  qed
  ultimately show ?thesis by blast
qed

section \<open>The tier of a normal ticket\<close>

lemma tier_loop_shift: "tier_loop r ps (t + k) = tier_loop r ps t + k"
proof (induction ps arbitrary: r t)
  case Nil
  then show ?case by simp
next
  case (Cons p ps)
  show ?case using Cons [of "r - p" "t + 1"] by (simp add: Let_def)
qed

text \<open>The loop returns the tier in whose section of the cumulated row the draw lies.\<close>

lemma tier_loop_iff:
  assumes "0 \<le> r" and "\<forall>p \<in> set ps. 0 \<le> p" and "k < length ps"
  shows "tier_loop r ps 0 = k \<longleftrightarrow> sum_list (take k ps) \<le> r \<and> r < sum_list (take (Suc k) ps)"
  using assms
proof (induction ps arbitrary: r k)
  case Nil
  then show ?case by simp
next
  case (Cons p ps)
  have sh: "tier_loop (r - p) ps (Suc 0) = Suc (tier_loop (r - p) ps 0)"
    using tier_loop_shift [of "r - p" ps 0 1] by simp
  show ?case
  proof (cases "r < p")
    case True
    have "0 \<le> sum_list (take j ps)" for j
      using Cons.prems(2) by (intro sum_list_nonneg) (auto dest: in_set_takeD)
    then have "p \<le> sum_list (take k (p # ps))" if "0 < k" using that by (cases k) auto
    then show ?thesis using True Cons.prems(1) by (cases k) auto
  next
    case False
    show ?thesis
    proof (cases k)
      case 0
      then show ?thesis using False sh by simp
    next
      case (Suc j)
      then have "tier_loop (r - p) ps 0 = j \<longleftrightarrow>
          sum_list (take j ps) \<le> r - p \<and> r - p < sum_list (take (Suc j) ps)"
        using False Cons.prems by (intro Cons.IH) auto
      then show ?thesis using Suc False sh by auto
    qed
  qed
qed

lemma tier_loop_less:
  assumes "0 \<le> r" and "r < sum_list ps"
  shows "tier_loop r ps 0 < length ps"
  using assms
proof (induction ps arbitrary: r)
  case Nil
  then show ?case by simp
next
  case (Cons p ps)
  have "tier_loop (r - p) ps (Suc 0) = Suc (tier_loop (r - p) ps 0)"
    using tier_loop_shift [of "r - p" ps 0 1] by simp
  then show ?case using Cons.IH [of "r - p"] Cons.prems by (auto simp: Let_def)
qed

text \<open>The weight of a tier is its entry of the row.\<close>

lemma tier_loop_card:
  assumes "\<forall>p \<in> set ps. 0 \<le> p" and "sum_list ps = int n" and "k < length ps"
  shows "int (card {r. 0 \<le> r \<and> r < int n \<and> tier_loop r ps 0 = k}) = ps ! k"
proof -
  let ?a = "sum_list (take k ps)"
  have nn: "0 \<le> sum_list (take j ps)" "0 \<le> sum_list (drop j ps)" for j
    using assms(1) by (auto intro!: sum_list_nonneg dest: in_set_takeD in_set_dropD)
  have suc: "sum_list (take (Suc k) ps) = ?a + ps ! k"
    using assms(3) by (simp add: take_Suc_conv_app_nth)
  have "sum_list (take (Suc k) ps) + sum_list (drop (Suc k) ps) = int n"
    using assms(2) by (metis append_take_drop_id sum_list.append)
  then have le: "?a + ps ! k \<le> int n" using nn(2) [of "Suc k"] suc by linarith
  have "{r. 0 \<le> r \<and> r < int n \<and> tier_loop r ps 0 = k} = {?a ..< ?a + ps ! k}"
    using le nn(1) [of k] tier_loop_iff [OF _ assms(1,3), unfolded suc]
    by (intro set_eqI iffI CollectI) auto
  moreover have "0 \<le> ps ! k" using assms(1,3) by simp
  ultimately show ?thesis by simp
qed

definition row_ok :: "int list \<Rightarrow> bool" where
  "row_ok row \<longleftrightarrow> length row = 5 \<and> sum_list row = 100 \<and> (\<forall>p \<in> set row. 0 \<le> p)"

lemma sItemProbability_rows: "k < 6 \<Longrightarrow> row_ok (sItemProbability ! k)"
proof -
  assume k: "k < 6"
  have "list_all row_ok sItemProbability" by (simp add: sItemProbability_def row_ok_def)
  moreover have "length sItemProbability = 6" by (simp add: sItemProbability_def)
  ultimately show ?thesis using k list_all_nth [of row_ok sItemProbability k] by simp
qed

text \<open>What a normal ticket gives in a round, on success and on both guards.\<close>

lemma NormalTicket_result:
  assumes "clNormalItemTicketCount c \<noteq> 0" and "clRoomPtr c = Some r" and "0 \<le> room_round r"
  shows "\<exists>t. GetRandomItemTypeOfNormalItemTicket room_round c rng =
       Inr (t, snd (next_raw (snd (next_raw rng)))) \<and>
     (let row = sItemProbability ! nat (min (room_round r) 5);
          k = tier_loop (fst (Random_draw 0 99 rng)) row 0
      in k < 5 \<and> t \<in> set (tier_types k))"
proof -
  let ?j = "nat (min (room_round r) 5)"
  let ?d = "Random_draw 0 99 rng"
  let ?k = "tier_loop (fst ?d) (sItemProbability ! ?j) 0"
  have j: "?j < 6" using assms(3) by linarith
  have row: "at_idx sItemProbability ?j = Inr (sItemProbability ! ?j)"
    using j by (simp add: at_idx_def sItemProbability_def)
  have d: "0 \<le> fst ?d" "fst ?d < 100" using Random_draw_range [of 0 99 rng] by auto
  have k: "?k < 5" using tier_loop_less [OF d(1), of "sItemProbability ! ?j"] sItemProbability_rows [OF j] d(2) by (simp add: row_ok_def)
  have sd: "snd ?d = snd (next_raw rng)" by (simp add: Random_draw_def Let_def)
  have ne: "sTierItems ! ?k \<noteq> []"
    using k unfolding less5 by (elim disjE) (simp_all add: tier_lists_def)
  obtain i where i: "i < length (sTierItems ! ?k)"
    "draw_item (sTierItems ! ?k) (snd ?d) =
      (Inr (of_nat (ibCODE (sTierItems ! ?k ! i))), snd (next_raw (snd ?d)))"
    using draw_item_Inr [OF ne, of "snd ?d"] by blast
  have at: "at_idx sTierItems ?k = Inr (sTierItems ! ?k)" using k by (simp add: at_idx_def)
  have nn: "\<not> min (room_round r) 5 < 0" using assms(3) by linarith
  have "GetRandomItemTypeOfNormalItemTicket room_round c rng =
      Inr (of_nat (ibCODE (sTierItems ! ?k ! i)), snd (next_raw (snd (next_raw rng))))"
    using assms(1,2) nn
    by (simp add: GetRandomItemTypeOfNormalItemTicket_def Let_def row at i(2) [unfolded sd] with_rng_def sd
        del: min_less_iff_disj)
  moreover have "of_nat (ibCODE (sTierItems ! ?k ! i)) \<in> set (tier_types ?k)"
    using i(1) by (auto simp: tier_types_def)
  ultimately show ?thesis using k by (auto simp: Let_def)
qed

text \<open>The combination draws from the tiers between the lowest and the highest of the three.\<close>

lemma Combination_result:
  assumes "lo \<le> hi" and "hi < 5"
  shows "\<exists>t k. GetRandomItemTypeByCombination lo hi rng =
       Inr (t, snd (next_raw (snd (next_raw rng)))) \<and> lo \<le> k \<and> k \<le> hi \<and> t \<in> set (tier_types k)"
proof -
  let ?d = "Random_draw (int lo) (int hi) rng"
  have d: "int lo \<le> fst ?d" "fst ?d \<le> int hi" using Random_draw_range [of "int lo" "int hi" rng] assms by auto
  let ?k = "nat (fst ?d)"
  have k: "lo \<le> ?k" "?k \<le> hi" "?k < 5" using d assms by linarith+
  have sd: "snd ?d = snd (next_raw rng)" by (simp add: Random_draw_def Let_def)
  have ne: "sTierItems ! ?k \<noteq> []"
    using k(3) unfolding less5 by (elim disjE) (simp_all add: tier_lists_def)
  obtain i where i: "i < length (sTierItems ! ?k)"
    "draw_item (sTierItems ! ?k) (snd ?d) =
      (Inr (of_nat (ibCODE (sTierItems ! ?k ! i))), snd (next_raw (snd ?d)))"
    using draw_item_Inr [OF ne, of "snd ?d"] by blast
  have at: "at_idx sTierItems ?k = Inr (sTierItems ! ?k)" using k(3) by (simp add: at_idx_def)
  have "GetRandomItemTypeByCombination lo hi rng =
      Inr (of_nat (ibCODE (sTierItems ! ?k ! i)), snd (next_raw (snd (next_raw rng))))"
    by (simp add: GetRandomItemTypeByCombination_def Let_def at i(2) [unfolded sd] with_rng_def sd)
  moreover have "of_nat (ibCODE (sTierItems ! ?k ! i)) \<in> set (tier_types ?k)"
    using i(1) by (auto simp: tier_types_def)
  ultimately show ?thesis using k by blast
qed

text \<open>The other tickets draw one of two tiers, or the last.\<close>

lemma ne_tiers [simp]:
  "sTwoTierItems \<noteq> []" "sThreeTierItems \<noteq> []" "sFourTierItems \<noteq> []" "sFiveTierItems \<noteq> []"
  by (simp_all add: tier_lists_def)

lemma draw_item_tier:
  assumes "xs = sTierItems ! k" and "xs \<noteq> []"
  shows "\<exists>t. draw_item xs rng = (Inr t, snd (next_raw rng)) \<and> t \<in> set (tier_types k)"
  using draw_item_Inr [OF assms(2), of rng] by (force simp: tier_types_def assms(1))

lemma sTierItems_nth:
  "sTwoTierItems = sTierItems ! 1" "sThreeTierItems = sTierItems ! 2"
  "sFourTierItems = sTierItems ! 3" "sFiveTierItems = sTierItems ! 4"
  by (simp_all add: sTierItems_def)

lemma AdvancedTicket_result:
  assumes "clAdvancedItemTicketCount c \<noteq> 0"
  shows "\<exists>t. GetRandomItemTypeOfAdvancedItemTicket c rng =
      Inr (t, snd (next_raw (snd (next_raw rng)))) \<and> t \<in> set (tier_types 1) \<union> set (tier_types 2)"
  using assms draw_item_tier [OF sTierItems_nth(1) ne_tiers(1), of "snd (next_raw rng)"]
    draw_item_tier [OF sTierItems_nth(2) ne_tiers(2), of "snd (next_raw rng)"]
  by (auto simp: GetRandomItemTypeOfAdvancedItemTicket_def Let_def with_rng_def Random_draw_def)

lemma TopTicket_result:
  assumes "clTopItemTicketCount c \<noteq> 0"
  shows "\<exists>t. GetRandomItemTypeOfTopItemTicket c rng =
      Inr (t, snd (next_raw (snd (next_raw rng)))) \<and> t \<in> set (tier_types 2) \<union> set (tier_types 3)"
  using assms draw_item_tier [OF sTierItems_nth(2) ne_tiers(2), of "snd (next_raw rng)"]
    draw_item_tier [OF sTierItems_nth(3) ne_tiers(3), of "snd (next_raw rng)"]
  by (auto simp: GetRandomItemTypeOfTopItemTicket_def Let_def with_rng_def Random_draw_def)

lemma SupremeTicket_result:
  assumes "clSupremeItemTicketCount c \<noteq> 0"
  shows "\<exists>t. GetRandomItemTypeOfSupremeItemTicket c rng = Inr (t, snd (next_raw rng)) \<and>
      t \<in> set (tier_types 4)"
  using assms draw_item_tier [OF sTierItems_nth(4) ne_tiers(4), of rng]
  by (auto simp: GetRandomItemTypeOfSupremeItemTicket_def Let_def with_rng_def)

section \<open>The activation order\<close>

definition free_slots :: "bool list \<Rightarrow> nat set" where
  "free_slots inc = {j. j < length inc \<and> \<not> inc ! j}"

lemma free_slots_Cons:
  "free_slots (b # inc) = (if b then {} else {0}) \<union> Suc ` free_slots inc"
proof (rule set_eqI)
  fix x
  show "x \<in> free_slots (b # inc) \<longleftrightarrow> x \<in> (if b then {} else {0}) \<union> Suc ` free_slots inc"
    by (cases x) (auto simp: free_slots_def)
qed

lemma free_slots_update: "j \<in> free_slots inc \<Longrightarrow> free_slots (inc[j := True]) = free_slots inc - {j}"
  by (auto simp: free_slots_def nth_list_update split: if_splits)

lemma finite_free_slots [simp]: "finite (free_slots inc)"
  by (simp add: free_slots_def)

lemma percent_sum_nonneg: "0 \<le> percent_sum its inc"
  by (induction its inc rule: percent_sum.induct) auto

text \<open>A draw below the sum of the free weights always lands on a free slot.\<close>

lemma pick_slot_free:
  "length its = length inc \<Longrightarrow> 0 \<le> rand \<Longrightarrow> rand < percent_sum its inc \<Longrightarrow>
     \<exists>j \<in> free_slots inc. pick_slot rand its inc = Some j"
proof (induction rand its inc rule: pick_slot.induct)
  case (1 rand it its b inc)
  show ?case
    using "1.IH"(1) [of "rand - uint (mActivePercent it)"] "1.IH"(2) "1.prems"
    by (cases b; cases "rand < uint (mActivePercent it)") (auto simp: free_slots_Cons Let_def)
qed simp_all

text \<open>Each free slot with a positive weight is the answer to some draw.\<close>

lemma pick_slot_reach:
  "length its = length inc \<Longrightarrow> j \<in> free_slots inc \<Longrightarrow> mActivePercent (its ! j) \<noteq> 0 \<Longrightarrow>
     \<exists>rand. 0 \<le> rand \<and> rand < percent_sum its inc \<and> pick_slot rand its inc = Some j"
proof (induction its inc arbitrary: j rule: list_induct2')
  case (4 it its b inc)
  have nn: "0 \<le> uint (mActivePercent it)" by simp
  show ?case
  proof (cases j)
    case 0
    then have "\<not> b" and "0 < uint (mActivePercent it)"
      using "4.prems" nn by (auto simp: free_slots_Cons word_neq_0_conv word_less_def split: if_splits)
    then show ?thesis using 0 percent_sum_nonneg [of its inc]
      by (intro exI [of _ 0]) auto
  next
    case (Suc i)
    then have "i \<in> free_slots inc" "mActivePercent (its ! i) \<noteq> 0"
      using "4.prems" by (auto simp: free_slots_Cons split: if_splits)
    then obtain rand where "0 \<le> rand" "rand < percent_sum its inc" "pick_slot rand its inc = Some i"
      using "4.IH" "4.prems"(1) by auto
    then show ?thesis using Suc nn
      by (intro exI [of _ "rand + (if b then 0 else uint (mActivePercent it))"])
        (auto simp: Let_def)
  qed
qed (auto simp: free_slots_def)

lemma percent_sum_pos:
  assumes "length its = length inc" and "j \<in> free_slots inc" and "mActivePercent (its ! j) \<noteq> 0"
  shows "0 < percent_sum its inc"
  using pick_slot_reach [OF assms] by linarith

definition positive_weights :: "item list \<Rightarrow> bool" where
  "positive_weights its \<longleftrightarrow> (\<forall>it \<in> set its. mActivePercent it \<noteq> 0)"

definition entry_of :: "item list \<Rightarrow> nat \<Rightarrow> SlotInfo" where
  "entry_of its j = \<lparr>siIndex = int j, siItem = its ! j\<rparr>"

lemma active_queue_loop_perm:
  assumes "length its = length inc" and "positive_weights its" and "n = card (free_slots inc)"
  shows "\<exists>js. distinct js \<and> set js = free_slots inc \<and>
    fst (active_queue_loop n its inc q rng) = q @ map (entry_of its) js"
  using assms
proof (induction n arbitrary: inc q rng)
  case 0
  then have "free_slots inc = {}" by simp
  then show ?case by simp
next
  case (Suc n)
  then obtain i where i: "i \<in> free_slots inc" by (metis card.empty ex_in_conv nat.distinct(1))
  have "its ! i \<in> set its" using i Suc.prems(1) by (simp add: free_slots_def)
  then have "0 < percent_sum its inc"
    using percent_sum_pos [OF Suc.prems(1) i] Suc.prems(2) by (simp add: positive_weights_def)
  then have d: "0 \<le> fst (Random_draw 0 (percent_sum its inc - 1) rng)"
    "fst (Random_draw 0 (percent_sum its inc - 1) rng) < percent_sum its inc"
    using Random_draw_range [of 0 "percent_sum its inc - 1" rng] by linarith+
  obtain j where j: "j \<in> free_slots inc"
    "pick_slot (fst (Random_draw 0 (percent_sum its inc - 1) rng)) its inc = Some j"
    using pick_slot_free [OF Suc.prems(1) d] by blast
  have "n = card (free_slots (inc[j := True]))"
    using Suc.prems(3) j(1) by (simp add: free_slots_update)
  then obtain js where "distinct js" "set js = free_slots inc - {j}"
    "fst (active_queue_loop n its (inc[j := True]) (q @ [entry_of its j])
       (snd (Random_draw 0 (percent_sum its inc - 1) rng)))
     = (q @ [entry_of its j]) @ map (entry_of its) js"
    using Suc.IH [of "inc[j := True]" "q @ [entry_of its j]"] Suc.prems(1,2)
      free_slots_update [OF j(1)] by (metis length_list_update)
  then show ?case using j
    by (intro exI [of _ "j # js"]) (auto simp: Let_def entry_of_def)
qed

lemma active_queue_loop_reach:
  assumes "length its = length inc" and "positive_weights its"
    and "distinct js" and "set js = free_slots inc"
  shows "\<exists>rng. active_queue_loop (length js) its inc q rng = (q @ map (entry_of its) js, [])"
  using assms
proof (induction js arbitrary: inc q)
  case Nil
  then show ?case by simp
next
  case (Cons j js)
  have j: "j \<in> free_slots inc" using Cons.prems by auto
  have "set js = free_slots inc - {j}" using Cons.prems by auto
  then have "set js = free_slots (inc[j := True])" using free_slots_update [OF j] by simp
  then obtain rng where rng:
    "active_queue_loop (length js) its (inc[j := True]) (q @ [entry_of its j]) rng =
       ((q @ [entry_of its j]) @ map (entry_of its) js, [])"
    using Cons.IH [of "inc[j := True]" "q @ [entry_of its j]"] Cons.prems(1-3) by auto
  have "its ! j \<in> set its" using j Cons.prems(1) by (simp add: free_slots_def)
  then obtain rand where "0 \<le> rand" "rand < percent_sum its inc" "pick_slot rand its inc = Some j"
    using pick_slot_reach [OF Cons.prems(1) j] Cons.prems(2) by (auto simp: positive_weights_def)
  moreover from this obtain r where
    "Random_draw 0 (percent_sum its inc - 1) (r # rng) = (rand, rng)"
    using Random_draw_surj [of 0 rand "percent_sum its inc - 1" rng] by auto
  ultimately show ?case using rng
    by (intro exI [of _ "r # rng"]) (simp add: Let_def entry_of_def)
qed

lemma inventory_ok_weights:
  assumes "inventory_ok c"
  shows "positive_weights (clUsingItems c)" and "length (clUsingItems c) = 6"
proof -
  show l: "length (clUsingItems c) = 6"
    using assms by (simp add: inventory_ok_def inv_shape_def)
  have "map place (Slots c) = places" using assms by (simp add: inventory_ok_def)
  then have "take 6 (map place (Slots c)) = take 6 places" by simp
  then have "map place (clUsingItems c) = take 6 places" using l by (simp add: Slots_def)
  then have "map (fst \<circ> place) (clUsingItems c) = map fst (take 6 places)"
    by (metis map_map)
  then have "map mActivePercent (clUsingItems c) = [45, 45, 33, 33, 23, 23]"
    by (simp add: place_def comp_def places_def)
  then have "mActivePercent ` set (clUsingItems c) = set [45, 45, 33, 33, 23, 23]"
    by (metis list.set_map)
  then have "\<forall>it \<in> set (clUsingItems c). mActivePercent it \<in> {45, 33, 23}" by auto
  then show "positive_weights (clUsingItems c)" by (auto simp: positive_weights_def)
qed

end
