(* ===== verification/Trades.thy ===== *)
theory Trades
  imports Process_Packet Draws
begin

text \<open>
  What the handlers do to an inventory: combining three items, upgrading one with another, using
  a ticket, dropping an item.
\<close>

lemma not_itemsD':
  assumes "not_items c' = not_items c"
  shows "clName c' = clName c" "clPacketBuf c' = clPacketBuf c" "clCharacterType c' = clCharacterType c"
proof -
  show "clName c' = clName c" using arg_cong [OF assms, of clName] by (simp add: not_items_def)
  show "clPacketBuf c' = clPacketBuf c" using arg_cong [OF assms, of clPacketBuf] by (simp add: not_items_def)
  show "clCharacterType c' = clCharacterType c"
    using arg_cong [OF assms, of clCharacterType] by (simp add: not_items_def)
qed

text \<open>A write in range, with its effect on the kinds of the items.\<close>

lemma write_slot:
  assumes "inventory_ok c" and "unat i < 16" and "\<And>x. place (f x) = place x"
    and "item_ok (f (Slots c ! unat i))" and "\<And>x. kind (f x) = g (kind x)"
  shows "\<exists>c'. ModifyItem c i f = Inr c' \<and> inventory_ok c' \<and> not_items c' = not_items c \<and>
    map kind (Slots c') = (map kind (Slots c))[unat i := g (map kind (Slots c) ! unat i)]"
proof -
  have sh: "inv_shape c" using assms(1) by (rule inventory_ok_shape)
  obtain c' where c': "ModifyItem c i f = Inr c'"
    using inv.modi_in [OF sh] assms(2) length_Slots [OF sh] by metis
  have "inventory_ok c'" using assms(1) c' assms(3,4) by (rule inventory_ok_modify)
  moreover have "map kind (Slots c') = (map kind (Slots c))[unat i := g (map kind (Slots c) ! unat i)]"
    using assms(2) length_Slots [OF sh] by (simp add: inv.modi_slots [OF sh c'] map_update assms(5))
  ultimately show ?thesis using c' inv.modi_rest [OF sh c'] by blast
qed

lemma kind_empty [simp]: "kind (SetEmptyItem it) = (0, 0)"
  by (simp add: kind_def)

lemma empty_slot:
  assumes "inventory_ok c" and "unat i < 16"
  shows "\<exists>c'. ModifyItem c i SetEmptyItem = Inr c' \<and> inventory_ok c' \<and> not_items c' = not_items c \<and>
    map kind (Slots c') = (map kind (Slots c))[unat i := (0, 0)]"
  by (rule write_slot [where g = "\<lambda>_. (0, 0)"]) (use assms in simp_all)

lemma look_slot: "inventory_ok c \<Longrightarrow> GetItem c i = at_idx (Slots c) (unat i)"
  by (rule GetItem_Slots [OF inventory_ok_shape])

lemma ok_length: "inventory_ok c \<Longrightarrow> length (Slots c) = 16"
  by (rule length_Slots [OF inventory_ok_shape])

section \<open>Upgrading\<close>

text \<open>Two different slots with the same kind, not empty and not yet at the highest upgrade.\<close>

definition upgradable :: "client \<Rightarrow> u8 \<Rightarrow> u8 \<Rightarrow> bool" where
  "upgradable c i j \<longleftrightarrow> i \<noteq> j \<and> kind (Slots c ! unat i) = kind (Slots c ! unat j) \<and>
     mType (Slots c ! unat i) \<noteq> 0 \<and> unat (mUpgrade (Slots c ! unat i)) < 2"

lemma u8_add1: "unat (u :: u8) < 2 \<Longrightarrow> unat (u + 1) = unat u + 1"
  by (simp add: unat_word_ariths)

lemma upgrade_items_spec:
  assumes ok: "inventory_ok c" and ij: "unat i < 16" "unat j < 16"
  shows "if upgradable c i j
     then \<exists>c'. upgrade_items i j c = Inr (Some c') \<and> inventory_ok c' \<and> not_items c' = not_items c \<and>
       map kind (Slots c') = (map kind (Slots c))
         [unat i := (mType (Slots c ! unat i), mUpgrade (Slots c ! unat i) + 1), unat j := (0, 0)]
     else upgrade_items i j c = Inr None"
proof (cases "upgradable c i j")
  case True
  let ?u = "mUpgrade (Slots c ! unat i)" and ?f = "\<lambda>it. it\<lparr>mUpgrade := mUpgrade (Slots c ! unat i) + 1\<rparr>"
  have lt: "unat ?u < 2" using True by (simp add: upgradable_def)
  have it: "item_ok (?f (Slots c ! unat i))"
    using inventory_ok_item [OF ok ij(1)] True u8_add1 [OF lt] by (simp add: item_ok_def upgradable_def)
  obtain c1 where c1: "ModifyItem c i ?f = Inr c1" "inventory_ok c1" "not_items c1 = not_items c"
    "map kind (Slots c1) = (map kind (Slots c))[unat i := (fst (map kind (Slots c) ! unat i), ?u + 1)]"
    using write_slot [OF ok ij(1), of ?f "\<lambda>k. (fst k, ?u + 1)"] it by (auto simp: kind_def)
  obtain c2 where c2: "ModifyItem c1 j SetEmptyItem = Inr c2" "inventory_ok c2"
    "not_items c2 = not_items c1" "map kind (Slots c2) = (map kind (Slots c1))[unat j := (0, 0)]"
    using empty_slot [OF c1(2) ij(2)] by blast
  have "\<not> 2 \<le> ?u" "mType (Slots c ! unat j) \<noteq> 0"
    using lt True by (auto simp: word_le_nat_alt upgradable_def kind_def)
  then have "upgrade_items i j c = Inr (Some c2)"
    using True ij c1(1) c2(1) ok_length [OF ok]
    by (simp add: upgrade_items_def look_slot [OF ok] at_idx_def upgradable_def kind_def Let_def)
  then show ?thesis using True c1 c2 ij ok_length [OF ok] by (simp add: kind_def)
next
  case False
  then show ?thesis using ij ok_length [OF ok]
    by (auto simp: upgrade_items_def look_slot [OF ok] at_idx_def upgradable_def kind_def word_le_nat_alt)
qed

section \<open>Combining\<close>

lemma combination_loop_result:
  assumes "lo \<le> hi" and "hi < 5"
  shows "\<exists>t k rng'. combination_loop (Suc n) lo hi types new rng = Inr (t, rng') \<and>
    lo \<le> k \<and> k \<le> hi \<and> t \<in> set (tier_types k)"
proof (induction n arbitrary: new rng)
  case 0
  show ?case using Combination_result [OF assms, of rng] by auto
next
  case (Suc n)
  obtain t k where tk: "GetRandomItemTypeByCombination lo hi rng =
      Inr (t, snd (next_raw (snd (next_raw rng))))" "lo \<le> k" "k \<le> hi" "t \<in> set (tier_types k)"
    using Combination_result [OF assms, of rng] by blast
  show ?case
  proof (cases "t \<in> set types")
    case True
    then show ?thesis using Suc [of t "snd (next_raw (snd (next_raw rng)))"] tk(1)
      by (simp only: combination_loop.simps(2) [of "Suc n"]) simp
  next
    case False
    then show ?thesis using tk by (simp only: combination_loop.simps(2) [of "Suc n"]) auto
  qed
qed

lemma tier_of_type_ok: "item_ok it \<Longrightarrow> tier_of_type (mType it) = Inr (tier_num (tier_of (mType it)))"
  by (simp add: tier_of_type_def at_idx_def item_ok_def tier_of_def sItems_def item_entries_def)

definition tier_at :: "client \<Rightarrow> u8 \<Rightarrow> nat" where
  "tier_at c i = tier_num (tier_of (mType (Slots c ! unat i)))"

lemma first_free_kinds:
  assumes "inv_shape c"
  shows "first_free c = List.find (\<lambda>s. fst (map kind (Slots c) ! s) = 0) search_order"
  unfolding first_free_def
  by (rule find_cong_list) (use length_Slots [OF assms] in \<open>auto simp: search_order_def kind_def\<close>)

lemma combine_spec:
  assumes ok: "inventory_ok c" and ijk: "unat i < 16" "unat j < 16" "unat k < 16"
    and ne: "mType (Slots c ! unat i) \<noteq> 0" "mType (Slots c ! unat j) \<noteq> 0" "mType (Slots c ! unat k) \<noteq> 0"
  shows "\<exists>c' rng' t m s. combine i j k c rng = Inr (Some (c', rng')) \<and>
    min (min (tier_at c i) (tier_at c j)) (tier_at c k) \<le> m \<and>
    m \<le> max (max (tier_at c k) (tier_at c j)) (tier_at c i) \<and> t \<in> set (tier_types m) \<and>
    (let emptied = (map kind (Slots c))[unat i := (0, 0), unat j := (0, 0), unat k := (0, 0)]
     in List.find (\<lambda>s. fst (emptied ! s) = 0) search_order = Some s \<and>
        map kind (Slots c') = emptied[s := (t, 0)]) \<and>
    inventory_ok c' \<and> not_items c' = not_items c"
proof -
  let ?lo = "min (min (tier_at c i) (tier_at c j)) (tier_at c k)"
  let ?hi = "max (max (tier_at c k) (tier_at c j)) (tier_at c i)"
  let ?em = "(map kind (Slots c))[unat i := (0, 0), unat j := (0, 0), unat k := (0, 0)]"
  have look: "GetItem c x = Inr (Slots c ! unat x)" if "unat x < 16" for x
    using that ok_length [OF ok] by (simp add: look_slot [OF ok] at_idx_def)
  have tier: "tier_of_type (mType (Slots c ! unat x)) = Inr (tier_at c x)" if "unat x < 16" for x
    using tier_of_type_ok [OF inventory_ok_item [OF ok that]] by (simp add: tier_at_def)
  obtain c1 where c1: "ModifyItem c i SetEmptyItem = Inr c1" "inventory_ok c1"
    "not_items c1 = not_items c" "map kind (Slots c1) = (map kind (Slots c))[unat i := (0, 0)]"
    using empty_slot [OF ok ijk(1)] by blast
  obtain c2 where c2: "ModifyItem c1 j SetEmptyItem = Inr c2" "inventory_ok c2"
    "not_items c2 = not_items c1" "map kind (Slots c2) = (map kind (Slots c1))[unat j := (0, 0)]"
    using empty_slot [OF c1(2) ijk(2)] by blast
  obtain c3 where c3: "ModifyItem c2 k SetEmptyItem = Inr c3" "inventory_ok c3"
    "not_items c3 = not_items c2" "map kind (Slots c3) = (map kind (Slots c2))[unat k := (0, 0)]"
    using empty_slot [OF c2(2) ijk(3)] by blast
  have em: "map kind (Slots c3) = ?em" by (simp add: c1 c2 c3)
  have sh3: "inv_shape c3" using c3(2) by (rule inventory_ok_shape)
  have "fst (?em ! unat k) = 0" using ijk ok_length [OF ok] by simp
  then have "mType (Slots c3 ! unat k) = 0"
    using em ijk(3) ok_length [OF c3(2)] by (metis fst_conv kind_def nth_map)
  then obtain s where s: "first_free c3 = Some s"
    using first_free_None [OF sh3] ijk(3) ok_length [OF c3(2)] nth_mem
    by (metis not_None_eq)
  then have s16: "s < 16" "mType (Slots c3 ! s) = 0" using first_free_Some by auto
  have us: "unat (FindEmptyItemSlotIndex c3) = s" by (simp add: unat_FindEmptyItemSlotIndex [OF sh3] s)
  have ten: "Suc 9 = (10::nat)" by simp
  have "?lo \<le> ?hi" and "?hi < 5" by (auto simp: tier_at_def tier_num_less)
  then obtain t m rng' where loop: "combination_loop 10 ?lo ?hi
      [mType (Slots c ! unat i), mType (Slots c ! unat j), mType (Slots c ! unat k)] 0 rng = Inr (t, rng')"
    "?lo \<le> m" "m \<le> ?hi" "t \<in> set (tier_types m)"
    using combination_loop_result [of ?lo ?hi 9, unfolded ten] by blast
  have "m < 5" using loop(3) \<open>?hi < 5\<close> by linarith
  then have t: "t \<noteq> 0" "unat t < 38" using tier_types_tier loop(4) by auto
  let ?f = "\<lambda>it. it\<lparr>mType := t, mUpgrade := 0\<rparr>"
  obtain c4 where c4: "ModifyItem c3 (FindEmptyItemSlotIndex c3) ?f = Inr c4" "inventory_ok c4"
    "not_items c4 = not_items c3" "map kind (Slots c4) = (map kind (Slots c3))[s := (t, 0)]"
    using write_slot [OF c3(2), of "FindEmptyItemSlotIndex c3" ?f "\<lambda>_. (t, 0)"] us s16 t
    by (auto simp: item_ok_def kind_def place_def)
  have "combine i j k c rng = Inr (Some (c4, rng'))"
    using ne c1(1) c2(1) c3(1) c4(1) loop(1)
    by (simp add: combine_def look [OF ijk(1)] look [OF ijk(2)] look [OF ijk(3)] tier [OF ijk(1)]
        tier [OF ijk(2)] tier [OF ijk(3)])
  moreover have "List.find (\<lambda>s. fst (?em ! s) = 0) search_order = Some s"
    using s first_free_kinds [OF sh3] by (simp add: em)
  ultimately show ?thesis using c1 c2 c3 c4 loop em by (auto simp: Let_def)
qed

text \<open>The other outcomes: a slot that does not exist, or an empty one.\<close>

lemma combine_refused:
  assumes "inventory_ok c" and "unat i < 16" "unat j < 16" "unat k < 16"
    and "mType (Slots c ! unat i) = 0 \<or> mType (Slots c ! unat j) = 0 \<or> mType (Slots c ! unat k) = 0"
  shows "combine i j k c rng = Inr None"
  using assms ok_length [OF assms(1)] by (auto simp: combine_def look_slot at_idx_def)

lemma combine_slots:
  assumes "inventory_ok c" and "combine i j k c rng = Inr r"
  shows "unat i < 16 \<and> unat j < 16 \<and> unat k < 16"
  using assms ok_length [OF assms(1)] by (auto simp: combine_def look_slot rbind_Inr_iff)

lemma upgrade_slots:
  assumes "inventory_ok c" and "upgrade_items i j c = Inr r"
  shows "unat i < 16 \<and> unat j < 16"
  using assms ok_length [OF assms(1)] by (auto simp: upgrade_items_def look_slot rbind_Inr_iff)

lemma combine_keeps:
  assumes "inventory_ok c" and "combine i j k c rng = Inr (Some (c', rng'))"
  shows "inventory_ok c' \<and> not_items c' = not_items c"
  using combine_slots [OF assms] combine_spec [OF assms(1), of i j k rng]
    combine_refused [OF assms(1), of i j k rng] assms(2)
  by (cases "mType (Slots c ! unat i) = 0 \<or> mType (Slots c ! unat j) = 0 \<or> mType (Slots c ! unat k) = 0")
    auto

lemma upgrade_keeps:
  assumes "inventory_ok c" and "upgrade_items i j c = Inr (Some c')"
  shows "inventory_ok c' \<and> not_items c' = not_items c"
  using upgrade_slots [OF assms] upgrade_items_spec [OF assms(1), of i j] assms(2)
  by (auto split: if_splits)

end
