(* ===== verification/Packet_Construct.thy ===== *)
theory Packet_Construct
  imports World
begin

text \<open>
  \<open>Server::PacketConstruct\<close> (\<open>Server.cpp\<close>): the reassembly of packets from the bytes of a
  connection.  The receive buffer is \<open>clIoBuf\<close>, the packet under construction is in \<open>clPacketBuf\<close>
  with \<open>clPrevSize\<close> bytes of it already there.  The handler of a complete packet is a parameter.
\<close>

section \<open>The loop\<close>

text \<open>\<open>memcpy\<close> inside two arrays; a negative length is a huge one.\<close>

definition copy_into :: "u8 list \<Rightarrow> int \<Rightarrow> u8 list \<Rightarrow> int \<Rightarrow> int \<Rightarrow> u8 list result" where
  "copy_into dst dst_off src src_off n =
     (if n < 0 \<or> dst_off < 0 \<or> src_off < 0 \<or> int (length dst) < dst_off + n \<or>
        int (length src) < src_off + n then Inl OutOfBounds
      else Inr (take (nat dst_off) dst @ take (nat n) (drop (nat src_off) src) @
        drop (nat (dst_off + n)) dst))"

text \<open>Two bytes as an unsigned 16-bit size.\<close>

definition read_size :: "u8 list \<Rightarrow> int \<Rightarrow> int result" where
  "read_size buf off =
     (if off < 0 \<or> int (length buf) < off + 2 then Inl OutOfBounds
      else Inr (bytes_uint (take 2 (drop (nat off) buf))))"

definition with_packet_buf :: "nat \<Rightarrow> u8 list \<Rightarrow> world \<Rightarrow> world" where
  "with_packet_buf c buf w = set_client c ((client_of w c)\<lparr>clPacketBuf := buf\<rparr>) w"

definition with_prev :: "nat \<Rightarrow> int \<Rightarrow> world \<Rightarrow> world" where
  "with_prev c n w = set_client c ((client_of w c)\<lparr>clPrevSize := n\<rparr>) w"

text \<open>
  One turn of the loop, with the position \<open>p\<close>, the rest and the packet size: either the next
  values and the state, or an error.
\<close>

definition construct_step ::
  "(nat \<Rightarrow> u8 list \<Rightarrow> world \<Rightarrow> world result) \<Rightarrow> nat \<Rightarrow> int \<Rightarrow> int \<Rightarrow> int \<Rightarrow> world \<Rightarrow>
     (int \<times> int \<times> int \<times> world) result" where
  "construct_step process c p restByte packetSize w =
     (let curUser = client_of w c; prev = clPrevSize curUser
      in rbind (if packetSize = 0 then read_size (clIoBuf curUser) p else Inr packetSize) (\<lambda>size.
           if size \<le> restByte + prev
           then rbind (copy_into (clPacketBuf curUser) prev (clIoBuf curUser) p (size - prev)) (\<lambda>buf.
                  rbind (process c buf (with_packet_buf c buf w)) (\<lambda>w1.
                    Inr (p + (size - prev), restByte - (size - prev), 0, with_prev c 0 w1)))
           else rbind (copy_into (clPacketBuf curUser) prev (clIoBuf curUser) p restByte) (\<lambda>buf.
                  Inr (p, 0, size, with_prev c (prev + restByte) (with_packet_buf c buf w)))))"

text \<open>The loop may run for ever (a packet of size 0): \<open>None\<close> when it does.\<close>

partial_function (option) construct_loop ::
  "(nat \<Rightarrow> u8 list \<Rightarrow> world \<Rightarrow> world result) \<Rightarrow> nat \<Rightarrow> int \<Rightarrow> int \<Rightarrow> int \<Rightarrow> world \<Rightarrow>
     world result option" where
  "construct_loop process c p restByte packetSize w =
     (if restByte > 0
      then case construct_step process c p restByte packetSize w of
             Inl e \<Rightarrow> Some (Inl e)
           | Inr (p', rest', size', w') \<Rightarrow> construct_loop process c p' rest' size' w'
      else Some (Inr w))"

declare construct_loop.simps [code]

definition PacketConstruct ::
  "(nat \<Rightarrow> u8 list \<Rightarrow> world \<Rightarrow> world result) \<Rightarrow> nat \<Rightarrow> int \<Rightarrow> world \<Rightarrow> world result option" where
  "PacketConstruct process c ioByteLength w =
     (if clPrevSize (client_of w c) \<noteq> 0
      then case read_size (clPacketBuf (client_of w c)) 0 of
             Inl e \<Rightarrow> Some (Inl e)
           | Inr packetSize \<Rightarrow> construct_loop process c 0 ioByteLength packetSize w
      else construct_loop process c 0 ioByteLength 0 w)"

text \<open>The network writes the received bytes to the front of the receive buffer.\<close>

definition receive ::
  "(nat \<Rightarrow> u8 list \<Rightarrow> world \<Rightarrow> world result) \<Rightarrow> nat \<Rightarrow> u8 list \<Rightarrow> world \<Rightarrow> world result option" where
  "receive process c bytes w =
     PacketConstruct process c (int (length bytes))
       (set_client c ((client_of w c)\<lparr>clIoBuf := bytes @ drop (length bytes) (clIoBuf (client_of w c))\<rparr>) w)"

section \<open>What the bytes mean\<close>

definition size_field :: "u8 list \<Rightarrow> int" where
  "size_field bs = bytes_uint (take 2 bs)"

text \<open>A complete packet: as long as its size field says, and within the buffer.\<close>

definition whole :: "u8 list \<Rightarrow> bool" where
  "whole b \<longleftrightarrow> 2 \<le> length b \<and> size_field b = int (length b) \<and> length b \<le> MAX_PACKET_SIZE"

text \<open>
  The beginning of a packet that is still incomplete: its size field is there and says so.  A
  single byte is not enough.
\<close>

definition begun :: "u8 list \<Rightarrow> bool" where
  "begun t \<longleftrightarrow> t = [] \<or> (2 \<le> length t \<and> int (length t) < size_field t \<and>
     size_field t \<le> int MAX_PACKET_SIZE)"

text \<open>What the connection holds: the begun packet.\<close>

definition pending :: "nat \<Rightarrow> world \<Rightarrow> u8 list" where
  "pending c w = take (nat (clPrevSize (client_of w c))) (clPacketBuf (client_of w c))"

definition buffers_ok :: "nat \<Rightarrow> world \<Rightarrow> bool" where
  "buffers_ok c w \<longleftrightarrow>
     c < length (wClients w) \<and> length (clPacketBuf (client_of w c)) = MAX_PACKET_SIZE \<and>
     length (clIoBuf (client_of w c)) = MAX_BUF_SIZE \<and>
     clPrevSize (client_of w c) = int (length (pending c w)) \<and> begun (pending c w)"

text \<open>Handing packets over, one by one, and keeping the begun rest.\<close>

definition store :: "nat \<Rightarrow> u8 list \<Rightarrow> world \<Rightarrow> world" where
  "store c b w = with_packet_buf c (b @ drop (length b) (clPacketBuf (client_of w c))) w"

fun hand_over ::
  "(nat \<Rightarrow> u8 list \<Rightarrow> world \<Rightarrow> world result) \<Rightarrow> nat \<Rightarrow> u8 list list \<Rightarrow> u8 list \<Rightarrow> world \<Rightarrow> world result" where
  "hand_over process c [] t w =
     Inr (if t = [] then w else with_prev c (int (length t)) (store c t w))"
| "hand_over process c (b # bs) t w =
     (let w1 = store c b w
      in rbind (process c (clPacketBuf (client_of w1 c)) w1) (\<lambda>w2.
           hand_over process c bs t (with_prev c 0 w2)))"

end
