(* ===== verification/Reassembly.thy ===== *)
theory Reassembly
  imports Packet_Construct World_Facts Process_Packet
begin

text \<open>
  Reassembly is right: whatever the pieces in which the bytes of a connection arrive, the complete
  packets in them are handed over in order and the begun rest is kept, as long as no piece ends
  inside the size field of a packet.  The handler is an interface: it must leave the buffers of
  the connection alone.
\<close>

locale packet_handler =
  fixes process :: "nat \<Rightarrow> u8 list \<Rightarrow> world \<Rightarrow> world result"
  assumes keeps_buffers: "process c buf w = Inr w' \<Longrightarrow> c < length (wClients w) \<Longrightarrow>
    length (wClients w') = length (wClients w) \<and>
    clPacketBuf (client_of w' c) = clPacketBuf (client_of w c) \<and>
    clIoBuf (client_of w' c) = clIoBuf (client_of w c) \<and>
    clPrevSize (client_of w' c) = clPrevSize (client_of w c)"

section \<open>Bytes\<close>

lemma size_field_append: "2 \<le> length a \<Longrightarrow> size_field (a @ b) = size_field a"
  by (simp add: size_field_def)

lemma begun_size: "begun t \<Longrightarrow> t \<noteq> [] \<Longrightarrow> 2 \<le> length t \<and> int (length t) < size_field t"
  by (auto simp: begun_def)

lemma begun_prefix_of_whole:
  assumes "begun t" and "t \<noteq> []" and "whole b" and "t @ x = b @ y"
  shows "length t < length b \<and> size_field t = int (length b)"
proof -
  have "size_field t = size_field (t @ x)" using begun_size [OF assms(1,2)] by (simp add: size_field_append)
  also have "\<dots> = size_field b" using assms(3,4) by (simp add: size_field_append whole_def)
  finally show ?thesis using begun_size [OF assms(1,2)] assms(3) by (simp add: whole_def)
qed

text \<open>The bytes \<open>bs\<close> lie at position \<open>p\<close> of a buffer.\<close>

definition at_pos :: "u8 list \<Rightarrow> int \<Rightarrow> u8 list \<Rightarrow> bool" where
  "at_pos io p bs \<longleftrightarrow> 0 \<le> p \<and> nat p + length bs \<le> length io \<and> take (length bs) (drop (nat p) io) = bs"

lemma at_pos_prefix:
  assumes "at_pos io p (a @ b)"
  shows "at_pos io p a" and "at_pos io (p + int (length a)) b"
proof -
  have t: "take (length a + length b) (drop (nat p) io) = a @ b"
    using assms by (simp add: at_pos_def)
  have "take (length a) (take (length a + length b) (drop (nat p) io)) = a" by (simp add: t)
  then show "at_pos io p a" using assms by (simp add: at_pos_def)
  have n: "nat (p + int (length a)) = length a + nat p"
    using assms by (simp add: at_pos_def nat_add_distrib)
  have "drop (length a) (take (length a + length b) (drop (nat p) io)) = b" by (simp add: t)
  then have "take (length b) (drop (length a + nat p) io) = b"
    by (simp add: drop_take add.commute)
  then show "at_pos io (p + int (length a)) b" using assms n by (simp add: at_pos_def)
qed

lemma read_size_at:
  assumes "at_pos io p bs" and "2 \<le> length bs"
  shows "read_size io p = Inr (size_field bs)"
proof -
  have "take 2 (take (length bs) (drop (nat p) io)) = take 2 (drop (nat p) io)"
    using assms(2) by (simp add: min_def)
  moreover have "take (length bs) (drop (nat p) io) = bs" using assms(1) by (simp add: at_pos_def)
  ultimately have "take 2 (drop (nat p) io) = take 2 bs" by simp
  moreover have "p + 2 \<le> int (length io)" using assms unfolding at_pos_def by linarith
  ultimately show ?thesis using assms by (simp add: read_size_def at_pos_def size_field_def)
qed

lemma copy_into_at:
  assumes "at_pos io p bs" and "length pre + length bs \<le> length buf" and "take (length pre) buf = pre"
  shows "copy_into buf (int (length pre)) io p (int (length bs)) =
    Inr ((pre @ bs) @ drop (length (pre @ bs)) buf)"
  using assms by (auto simp: copy_into_def at_pos_def nat_add_distrib)

section \<open>The loop\<close>

lemma set_client_same [simp]: "set_client c (client_of w c) w = w"
  by (simp add: set_client_def)

lemma buffer_simps:
  "c < length (wClients w) \<Longrightarrow> clPacketBuf (client_of (with_packet_buf c buf w) c) = buf"
  "c < length (wClients w) \<Longrightarrow> clIoBuf (client_of (with_packet_buf c buf w) c) = clIoBuf (client_of w c)"
  "c < length (wClients w) \<Longrightarrow> clPrevSize (client_of (with_packet_buf c buf w) c) = clPrevSize (client_of w c)"
  "c < length (wClients w) \<Longrightarrow> clPacketBuf (client_of (with_prev c n w) c) = clPacketBuf (client_of w c)"
  "c < length (wClients w) \<Longrightarrow> clIoBuf (client_of (with_prev c n w) c) = clIoBuf (client_of w c)"
  "c < length (wClients w) \<Longrightarrow> clPrevSize (client_of (with_prev c n w) c) = n"
  "length (wClients (with_packet_buf c buf w)) = length (wClients w)"
  "length (wClients (with_prev c n w)) = length (wClients w)"
  by (simp_all add: with_packet_buf_def with_prev_def client_of_set_client)

text \<open>The state of the loop: what is pending, what is still to be read, and the packet size.\<close>

definition loop_inv :: "nat \<Rightarrow> int \<Rightarrow> u8 list \<Rightarrow> u8 list \<Rightarrow> world \<Rightarrow> bool" where
  "loop_inv c p pre bs w \<longleftrightarrow>
     c < length (wClients w) \<and> length (clPacketBuf (client_of w c)) = MAX_PACKET_SIZE \<and>
     clPrevSize (client_of w c) = int (length pre) \<and>
     take (length pre) (clPacketBuf (client_of w c)) = pre \<and> begun pre \<and>
     at_pos (clIoBuf (client_of w c)) p bs"

definition arg_size :: "u8 list \<Rightarrow> int" where
  "arg_size pre = (if pre = [] then 0 else size_field pre)"

text \<open>The size the turn works with is the size field of the bytes ahead.\<close>

lemma turn_size:
  assumes "loop_inv c p pre bs w" and "2 \<le> length (pre @ bs)"
  shows "(if arg_size pre = 0 then read_size (clIoBuf (client_of w c)) p else Inr (arg_size pre)) =
    Inr (size_field (pre @ bs))"
proof (cases "pre = []")
  case True
  then show ?thesis using assms read_size_at by (simp add: arg_size_def loop_inv_def)
next
  case False
  then have "2 \<le> length pre \<and> int (length pre) < size_field pre"
    using assms(1) by (intro begun_size) (simp_all add: loop_inv_def)
  then show ?thesis using False by (simp add: arg_size_def size_field_append)
qed

context packet_handler
begin

lemma step_incomplete:
  assumes "loop_inv c p pre bs w" and "begun (pre @ bs)" and "pre @ bs \<noteq> []"
  shows "construct_step process c p (int (length bs)) (arg_size pre) w =
    Inr (p, 0, size_field (pre @ bs), with_prev c (int (length (pre @ bs))) (store c (pre @ bs) w))"
proof -
  have t: "2 \<le> length (pre @ bs)" "int (length (pre @ bs)) < size_field (pre @ bs)"
    "size_field (pre @ bs) \<le> 1300" using assms(2,3) by (auto simp: begun_def)
  have "copy_into (clPacketBuf (client_of w c)) (int (length pre)) (clIoBuf (client_of w c)) p (int (length bs)) =
      Inr ((pre @ bs) @ drop (length (pre @ bs)) (clPacketBuf (client_of w c)))"
    using assms(1) t by (intro copy_into_at) (auto simp: loop_inv_def)
  then show ?thesis
    using turn_size [OF assms(1) t(1)] t assms(1)
    by (simp add: construct_step_def Let_def loop_inv_def store_def)
qed

lemma step_complete:
  assumes "loop_inv c p pre bs w" and "pre @ bs = b @ rest" and "whole b"
  shows "construct_step process c p (int (length bs)) (arg_size pre) w =
    rbind (process c (clPacketBuf (client_of (store c b w) c)) (store c b w)) (\<lambda>w1.
      Inr (p + (int (length b) - int (length pre)), int (length rest), 0, with_prev c 0 w1))"
proof -
  have b: "2 \<le> length b" "size_field b = int (length b)" "length b \<le> 1300"
    using assms(3) by (simp_all add: whole_def)
  have sz: "size_field (pre @ bs) = int (length b)" using b assms(2) by (simp add: size_field_append)
  have len2: "2 \<le> length (pre @ bs)" using b assms(2) by simp
  have pre: "length pre \<le> length b"
    using begun_prefix_of_whole [OF _ _ assms(3), of pre bs rest] assms(1,2)
    by (cases "pre = []") (auto simp: loop_inv_def)
  define b' where "b' = take (length b - length pre) bs"
  have "b = take (length b) (pre @ bs)" using assms(2) by simp
  then have b': "b = pre @ b'" using pre by (simp add: b'_def)
  then have bs: "bs = b' @ rest" using assms(2) by simp
  have cp: "copy_into (clPacketBuf (client_of w c)) (int (length pre)) (clIoBuf (client_of w c)) p (int (length b')) =
      Inr ((pre @ b') @ drop (length (pre @ b')) (clPacketBuf (client_of w c)))"
    using assms(1) b b' bs by (intro copy_into_at) (auto simp: loop_inv_def intro: at_pos_prefix)
  have len: "int (length b) - int (length pre) = int (length b')" using b' by simp
  have le: "int (length b) \<le> int (length bs) + int (length pre)" using assms(2) bs b' by simp
  have rest: "int (length bs) - int (length b') = int (length rest)" using bs by simp
  show ?thesis
    using turn_size [OF assms(1) len2] sz le cp len rest assms(1)
    by (simp add: construct_step_def Let_def loop_inv_def store_def buffer_simps b' [symmetric])
qed

lemma loop_inv_next:
  assumes "loop_inv c p pre bs w" and "pre @ bs = b @ rest" and "whole b"
    and "process c (clPacketBuf (client_of (store c b w) c)) (store c b w) = Inr w1"
  shows "loop_inv c (p + (int (length b) - int (length pre))) [] rest (with_prev c 0 w1)"
proof -
  have c: "c < length (wClients w)" and io: "at_pos (clIoBuf (client_of w c)) p bs"
    using assms(1) by (simp_all add: loop_inv_def)
  have k: "length (wClients w1) = length (wClients w)" "clIoBuf (client_of w1 c) = clIoBuf (client_of w c)"
    "clPacketBuf (client_of w1 c) = clPacketBuf (client_of (store c b w) c)"
    using keeps_buffers [OF assms(4)] c by (simp_all add: store_def buffer_simps)
  have lb: "length (clPacketBuf (client_of (store c b w) c)) = MAX_PACKET_SIZE"
    using assms(1,3) c by (simp add: store_def buffer_simps loop_inv_def whole_def)
  have pre: "length pre \<le> length b"
    using begun_prefix_of_whole [OF _ _ assms(3), of pre bs rest] assms(1,2)
    by (cases "pre = []") (auto simp: loop_inv_def)
  have "b = take (length b) (pre @ bs)" using assms(2) by simp
  then have b': "b = pre @ take (length b - length pre) bs" using pre by simp
  then have bs: "bs = take (length b - length pre) bs @ rest" using assms(2) by (metis append.assoc same_append_eq)
  then have len: "int (length (take (length b - length pre) bs)) = int (length b) - int (length pre)"
    using b' by (metis length_append of_nat_add add_diff_cancel_left')
  have "at_pos (clIoBuf (client_of w c)) (p + (int (length b) - int (length pre))) rest"
    using at_pos_prefix(2) io bs len by metis
  then show ?thesis using c k lb by (simp add: loop_inv_def buffer_simps begun_def)
qed

lemma construct_loop_hand_over:
  assumes "loop_inv c p pre bs w" and "pre @ bs = concat ps @ t" and "\<forall>b \<in> set ps. whole b"
    and "begun t" and "bs = [] \<longrightarrow> pre = []"
  shows "construct_loop process c p (int (length bs)) (arg_size pre) w = Some (hand_over process c ps t w)"
  using assms
proof (induction ps arbitrary: p pre bs w)
  case Nil
  show ?case
  proof (cases "bs = []")
    case True
    then show ?thesis using Nil by (subst construct_loop.simps) simp
  next
    case False
    then have ne: "pre @ bs \<noteq> []" by simp
    have bg: "begun (pre @ bs)" using Nil.prems by simp
    show ?thesis using False Nil.prems(2) ne step_incomplete [OF Nil.prems(1) bg ne]
      by (subst construct_loop.simps, simp, subst construct_loop.simps) simp
  qed
next
  case (Cons b ps)
  have wb: "whole b" using Cons.prems(3) by simp
  have eq: "pre @ bs = b @ (concat ps @ t)" using Cons.prems(2) by simp
  have "pre @ bs \<noteq> []" using eq wb by (auto simp: whole_def)
  then have ne: "bs \<noteq> []" using Cons.prems(5) by auto
  note st = step_complete [OF Cons.prems(1) eq wb]
  show ?case
  proof (cases "process c (clPacketBuf (client_of (store c b w) c)) (store c b w)")
    case (Inl e)
    then show ?thesis using ne st by (subst construct_loop.simps) (simp add: Let_def)
  next
    case (Inr w1)
    have "construct_loop process c (p + (int (length b) - int (length pre))) (int (length (concat ps @ t)))
        (arg_size []) (with_prev c 0 w1) = Some (hand_over process c ps t (with_prev c 0 w1))"
      using loop_inv_next [OF Cons.prems(1) eq wb Inr] Cons.prems(3,4) by (intro Cons.IH) auto
    then show ?thesis using ne st Inr
      by (subst construct_loop.simps) (simp add: Let_def arg_size_def)
  qed
qed

text \<open>One piece of the stream: it is put into the receive buffer and the loop begins.\<close>

lemma receive_start:
  assumes "buffers_ok c w" and "length bytes \<le> MAX_BUF_SIZE"
  defines "w0 \<equiv> set_client c ((client_of w c)\<lparr>clIoBuf := bytes @ drop (length bytes) (clIoBuf (client_of w c))\<rparr>) w"
  shows "loop_inv c 0 (pending c w) bytes w0"
    and "receive process c bytes w = construct_loop process c 0 (int (length bytes)) (arg_size (pending c w)) w0"
proof -
  have c: "c < length (wClients w)" using assms(1) by (simp add: buffers_ok_def)
  have cl: "client_of w0 c = (client_of w c)\<lparr>clIoBuf := bytes @ drop (length bytes) (clIoBuf (client_of w c))\<rparr>"
    using c by (simp add: w0_def client_of_set_client)
  have len: "length (wClients w0) = length (wClients w)" by (simp add: w0_def)
  have pt: "take (length (pending c w)) (clPacketBuf (client_of w c)) = pending c w"
    using assms(1) by (simp add: buffers_ok_def pending_def min_def split: if_splits)
  show "loop_inv c 0 (pending c w) bytes w0"
    using assms(1,2) c len pt by (simp add: loop_inv_def buffers_ok_def cl at_pos_def)
  have size: "read_size (clPacketBuf (client_of w0 c)) 0 = Inr (size_field (pending c w))"
    if "pending c w \<noteq> []"
  proof -
    have "2 \<le> length (pending c w)" using begun_size [of "pending c w"] that assms(1) by (simp add: buffers_ok_def)
    moreover have "at_pos (clPacketBuf (client_of w0 c)) 0 (pending c w)"
      using assms(1) pt by (simp add: at_pos_def cl buffers_ok_def pending_def)
    ultimately show ?thesis by (intro read_size_at)
  qed
  have prev: "clPrevSize (client_of w0 c) = int (length (pending c w))"
    using assms(1) cl by (simp add: buffers_ok_def)
  show "receive process c bytes w = construct_loop process c 0 (int (length bytes)) (arg_size (pending c w)) w0"
    using size prev by (simp add: receive_def w0_def [symmetric] PacketConstruct_def arg_size_def)
qed

lemma receive_hand_over:
  assumes "buffers_ok c w" and "bytes \<noteq> []" and "length bytes \<le> MAX_BUF_SIZE"
    and "pending c w @ bytes = concat ps @ t" and "\<forall>b \<in> set ps. whole b" and "begun t"
  shows "receive process c bytes w = Some (hand_over process c ps t
    (set_client c ((client_of w c)\<lparr>clIoBuf := bytes @ drop (length bytes) (clIoBuf (client_of w c))\<rparr>) w))"
  using receive_start [OF assms(1,3)] construct_loop_hand_over [OF _ assms(4,5,6)] assms(2) by auto

text \<open>Bytes after complete packets: the loop goes on with them when the packets are handled.\<close>

lemma construct_loop_after:
  assumes "loop_inv c p pre bs w" and "pre @ bs = concat ps @ t" and "\<forall>b \<in> set ps. whole b" and "bs = [] \<longrightarrow> pre = []"
    and "ps = [] \<longrightarrow> pre = []" and "hand_over process c ps [] w = Inr w1"
  shows "\<exists>p'. construct_loop process c p (int (length bs)) (arg_size pre) w = construct_loop process c p' (int (length t)) 0 w1 \<and>
    loop_inv c p' [] t w1"
  using assms
proof (induction ps arbitrary: p pre bs w)
  case Nil
  then show ?case by (auto simp: arg_size_def)
next
  case (Cons b ps)
  have wb: "whole b" using Cons.prems(3) by simp
  have eq: "pre @ bs = b @ (concat ps @ t)" using Cons.prems(2) by simp
  have ne: "bs \<noteq> []" using eq wb Cons.prems(4) by (auto simp: whole_def)
  obtain w2 where w2: "process c (clPacketBuf (client_of (store c b w) c)) (store c b w) = Inr w2"
    "hand_over process c ps [] (with_prev c 0 w2) = Inr w1"
    using Cons.prems(6) by (auto simp: Let_def rbind_Inr_iff)
  have "\<exists>p'. construct_loop process c (p + (int (length b) - int (length pre))) (int (length (concat ps @ t))) (arg_size [])
      (with_prev c 0 w2) = construct_loop process c p' (int (length t)) 0 w1 \<and> loop_inv c p' [] t w1"
    using loop_inv_next [OF Cons.prems(1) eq wb w2(1)] Cons.prems(3) w2(2) by (intro Cons.IH) auto
  then show ?case using ne step_complete [OF Cons.prems(1) eq wb] w2(1)
    by (subst construct_loop.simps) (simp add: arg_size_def)
qed

text \<open>
  A size field of 0 at the position of the loop and nothing pending: the handler gets what the packet
  buffer held before, and the loop is where it was.
\<close>

lemma step_zero:
  assumes "loop_inv c p [] bs w" and "2 \<le> length bs" and "size_field bs = 0"
    and "process c (clPacketBuf (client_of w c)) w = Inr w1"
  shows "construct_step process c p (int (length bs)) 0 w = Inr (p, int (length bs), 0, with_prev c 0 w1)"
    and "loop_inv c p [] bs (with_prev c 0 w1)"
proof -
  have c: "c < length (wClients w)" and prev: "clPrevSize (client_of w c) = 0" and io: "at_pos (clIoBuf (client_of w c)) p bs"
    using assms(1) by (simp_all add: loop_inv_def)
  have "copy_into (clPacketBuf (client_of w c)) 0 (clIoBuf (client_of w c)) p 0 = Inr (clPacketBuf (client_of w c))"
    using io by (auto simp: copy_into_def at_pos_def)
  then show "construct_step process c p (int (length bs)) 0 w = Inr (p, int (length bs), 0, with_prev c 0 w1)"
    using read_size_at [OF io assms(2)] assms(3,4) prev by (simp add: construct_step_def Let_def with_packet_buf_def)
  show "loop_inv c p [] bs (with_prev c 0 w1)"
    using assms(1) keeps_buffers [OF assms(4) c] by (simp add: loop_inv_def buffer_simps)
qed

end

section \<open>Packets of size zero\<close>

text \<open>A loop whose turns change nothing but the state of the server, within \<open>Q\<close>, never returns.\<close>

lemma never_returns:
  assumes turn: "\<And>v. Q v \<Longrightarrow> \<exists>v'. construct_step process c p r 0 v = Inr (p, r, 0, v') \<and> Q v'" and r: "0 < r" and Q: "Q w"
  shows "construct_loop process c p r 0 w = None"
proof -
  have "\<not> (pr = process \<and> d = c \<and> q = p \<and> s = r \<and> z = 0 \<and> Q w)"
    if "construct_loop pr d q s z w = Some y" for pr d q s z w y
  proof (rule construct_loop.raw_induct [where P = "\<lambda>pr d q s z w y. \<not> (pr = process \<and> d = c \<and> q = p \<and> s = r \<and> z = 0 \<and> Q w)", OF _ that])
    fix f pr d q s z w y
    assume ih: "\<And>pr d q s z w y. f pr d q s z w = Some y \<Longrightarrow> \<not> (pr = process \<and> d = c \<and> q = p \<and> s = r \<and> z = 0 \<and> Q w)"
      and body: "(if (0 :: int) < s then case construct_step pr d q s z w of Inl e \<Rightarrow> Some (Inl e)
         | Inr (p', rest', size', w') \<Rightarrow> f pr d p' rest' size' w' else Some (Inr w)) = Some y"
    show "\<not> (pr = process \<and> d = c \<and> q = p \<and> s = r \<and> z = 0 \<and> Q w)"
    proof
      assume st: "pr = process \<and> d = c \<and> q = p \<and> s = r \<and> z = 0 \<and> Q w"
      then obtain v' where v': "construct_step process c p r 0 w = Inr (p, r, 0, v')" "Q v'" using turn by blast
      then have "f process c p r 0 v' = Some y" using body st r by simp
      then show False using ih v'(2) by blast
    qed
  qed
  then show ?thesis using Q by (cases "construct_loop process c p r 0 w") auto
qed

context packet_handler
begin

lemma zero_size_loops:
  assumes inv: "loop_inv c p [] bs w" and bs: "2 \<le> length bs" "size_field bs = 0" and Q: "Q w"
    and step: "\<And>v. Q v \<Longrightarrow> \<exists>v'. process c (clPacketBuf (client_of w c)) v = Inr v' \<and> Q (with_prev c 0 v')"
  shows "construct_loop process c p (int (length bs)) 0 w = None"
proof -
  let ?Q = "\<lambda>v. loop_inv c p [] bs v \<and> clPacketBuf (client_of v c) = clPacketBuf (client_of w c) \<and> Q v"
  have "\<exists>v'. construct_step process c p (int (length bs)) 0 v = Inr (p, int (length bs), 0, v') \<and> ?Q v'" if v: "?Q v" for v
  proof -
    obtain v' where v': "process c (clPacketBuf (client_of v c)) v = Inr v'" "Q (with_prev c 0 v')" using step v by auto
    note z = step_zero [OF conjunct1 [OF v] bs v'(1)]
    have c: "c < length (wClients v)" using v by (simp add: loop_inv_def)
    have "clPacketBuf (client_of (with_prev c 0 v') c) = clPacketBuf (client_of w c)"
      using keeps_buffers [OF v'(1) c] v c by (simp add: buffer_simps)
    then show ?thesis using z v'(2) by blast
  qed
  moreover have "0 < int (length bs)" using bs(1) by (cases bs) simp_all
  ultimately show ?thesis using never_returns [where Q = ?Q] inv Q by blast
qed

end

end
