(* ===== verification/Handler_Facts.thy ===== *)
theory Handler_Facts
  imports Reassembly Draws
begin

text \<open>
  Facts about the packet handlers: they leave the receive side of every client alone (which makes
  \<open>ProcessPacket\<close> a handler in the sense of the reassembly), and they keep the invariant of the
  server.
\<close>

section \<open>The receive side\<close>

definition same_buffers :: "world \<Rightarrow> world \<Rightarrow> bool" where
  "same_buffers w w' \<longleftrightarrow>
     length (wClients w') = length (wClients w) \<and>
     (\<forall>c < length (wClients w). clPacketBuf (client_of w' c) = clPacketBuf (client_of w c) \<and>
        clIoBuf (client_of w' c) = clIoBuf (client_of w c) \<and>
        clPrevSize (client_of w' c) = clPrevSize (client_of w c))"

lemma same_buffers_refl [simp]: "same_buffers w w"
  and same_buffers_trans: "same_buffers a b \<Longrightarrow> same_buffers b c \<Longrightarrow> same_buffers a c"
  by (simp_all add: same_buffers_def)

lemma same_clients: "wClients w' = wClients w \<Longrightarrow> same_buffers w w'"
  by (simp add: same_buffers_def)

lemma same_buffers_set_client:
  assumes "clPacketBuf c = clPacketBuf (client_of w p)" and "clIoBuf c = clIoBuf (client_of w p)"
    and "clPrevSize c = clPrevSize (client_of w p)"
  shows "same_buffers w (set_client p c w)"
proof -
  have "(wClients w)[p := c] ! q = (if p = q \<and> q < length (wClients w) then c else client_of w q)" for q
    by (cases "q < length (wClients w)"; cases "p = q")
      (simp_all add: nth_list_update list_update_beyond)
  then show ?thesis using assms by (simp add: same_buffers_def set_client_def)
qed

lemma send_all_clients: "send_all ps bytes w = Inr w' \<Longrightarrow> wClients w' = wClients w"
proof (induction ps arbitrary: w)
  case Nil
  then show ?case by simp
next
  case (Cons p ps)
  then show ?case by (fastforce simp: rbind_Inr_iff SendBytes_def split: if_splits)
qed

lemma send_clients:
  "SendToAll i bytes w = Inr w' \<Longrightarrow> wClients w' = wClients w"
  "SendPacketInAllRoomClients p pkt w = Inr w' \<Longrightarrow> wClients w' = wClients w"
  "send_inventory conn p w = Inr w' \<Longrightarrow> wClients w' = wClients w"
  "ForwardInAllRoomClients p buf w = Inr w' \<Longrightarrow> wClients w' = wClients w"
  by (auto simp: SendToAll_def SendPacketInAllRoomClients_def SendPacketToAllClients_def
      send_inventory_def ForwardInAllRoomClients_def rbind_Inr_iff send_all_clients
      split: option.splits if_splits)

text \<open>The inventory operations change items only.\<close>

definition only_items :: "client \<Rightarrow> client \<Rightarrow> bool" where
  "only_items c c' \<longleftrightarrow> clPacketBuf c' = clPacketBuf c \<and> clIoBuf c' = clIoBuf c \<and> clPrevSize c' = clPrevSize c"

lemma ModifyItem_only_items: "ModifyItem c i f = Inr c' \<Longrightarrow> only_items c c'"
  by (auto simp: ModifyItem_def rbind_Inr_iff only_items_def)

lemma only_items_refl: "only_items c c"
  and only_items_trans: "only_items a b \<Longrightarrow> only_items b c \<Longrightarrow> only_items a c"
  by (simp_all add: only_items_def)

lemma ModifyItem_post [post_intros]: "only_items c d \<Longrightarrow> post (only_items c) (ModifyItem d i f)"
  using ModifyItem_only_items only_items_trans unfolding post_def by blast

lemma SwapItem_post: "post (only_items c) (SwapItem c i j)"
  unfolding SwapItem_def
  by (intro post_intros) (metis ModifyItem_only_items)

lemma AddItem_only_items: "only_items c (fst (AddItem c t))"
  by (auto simp: AddItem_def only_items_def split: option.split)

lemma combine_post: "post (\<lambda>r. \<forall>c' rng'. r = Some (c', rng') \<longrightarrow> only_items c c') (combine i j k c rng)"
  unfolding combine_def
  by (intro post_intros) (auto dest!: ModifyItem_only_items intro: only_items_trans)

lemma upgrade_post: "post (\<lambda>r. \<forall>c'. r = Some c' \<longrightarrow> only_items c c') (upgrade_items i j c)"
  unfolding upgrade_items_def Let_def
  by (intro post_intros) (auto dest!: ModifyItem_only_items intro: only_items_trans)

lemma take_name_post: "post (only_items c) (take_name buf c)"
  unfolding take_name_def by (intro post_intros) (simp add: only_items_def)

lemma same_buffers_modify:
  "only_items (client_of w p) c \<Longrightarrow> same_buffers w (set_client p c w)"
  by (rule same_buffers_set_client) (simp_all add: only_items_def)

lemma same_buffers_frame [simp]:
  "same_buffers w (w'\<lparr>wQueue := q\<rparr>) = same_buffers w w'" "same_buffers w (w'\<lparr>wRng := r\<rparr>) = same_buffers w w'"
  "same_buffers w (w'\<lparr>wThreads := t\<rparr>) = same_buffers w w'"
  "same_buffers (w\<lparr>wQueue := q\<rparr>) w' = same_buffers w w'" "same_buffers (w\<lparr>wRng := r\<rparr>) w' = same_buffers w w'"
  "same_buffers w (set_room i rm w') = same_buffers w w'"
  by (simp_all add: same_buffers_def)

lemma set_rooms_buffers: "same_buffers w (set_rooms i ps w)"
proof (induction ps arbitrary: w)
  case Nil
  then show ?case by simp
next
  case (Cons p ps)
  have "same_buffers w (set_client p
      ((client_of w p)\<lparr>clRoomPtr := Some i, clRoomOpenCount := rmOpenCount (room_of w i)\<rparr>) w)"
    by (rule same_buffers_set_client) simp_all
  then show ?case using Cons same_buffers_trans by auto
qed

lemma post_sent:
  "(\<And>x. m = Inr x \<Longrightarrow> wClients x = wClients v) \<Longrightarrow> same_buffers w v \<Longrightarrow> post (same_buffers w) m"
  using same_clients same_buffers_trans unfolding post_def by blast

text \<open>Sending, after a prefix that left the buffers alone.\<close>

lemma send_post [post_intros]:
  "same_buffers w v \<Longrightarrow> post (same_buffers w) (SendToAll i bytes v)"
  "same_buffers w v \<Longrightarrow> post (same_buffers w) (SendStreamToAllClients i ps v)"
  "same_buffers w v \<Longrightarrow> post (same_buffers w) (send_inventory conn p v)"
  "same_buffers w v \<Longrightarrow> post (same_buffers w) (ForwardInAllRoomClients p buf v)"
  unfolding SendStreamToAllClients_def by (erule post_sent [rotated], erule send_clients)+

lemma modify_post:
  assumes "same_buffers w v" and "post (only_items (client_of v p)) (f (client_of v p))"
  shows "post (same_buffers w) (modify_client p f v)"
  unfolding modify_client_def
  by (intro post_intros same_buffers_trans [OF assms(1)] same_buffers_modify) (rule postD [OF assms(2)])

lemma TryCreate_post: "post (\<lambda>(r, w'). same_buffers w w') (TryCreateRoomOrNullPtr w)"
proof -
  have "post (same_buffers w) (World_AddClients i clients (snd (GetUnUsedRoom w)))" for i clients
    unfolding World_AddClients_def GetUnUsedRoom_def Let_def
    by (intro post_intros) (auto intro: same_buffers_trans [OF _ set_rooms_buffers])
  then show ?thesis
    unfolding TryCreateRoomOrNullPtr_def case_prod_unfold Let_def
    by (intro post_intros) (auto simp: post_def)
qed

lemma start_matching_post: "post (same_buffers w) (start_matching conn buf w)"
proof -
  have queue: "post (same_buffers w) (rbind (AddClient (wQueue w1) conn) (\<lambda>q.
      rbind (TryCreateRoomOrNullPtr (w1\<lparr>wQueue := q\<rparr>)) k))"
    if w1: "same_buffers w w1" and k: "\<And>r w2. same_buffers w w2 \<Longrightarrow> post (same_buffers w) (k (r, w2))" for w1 k
  proof (intro post_intros)
    fix q x
    assume "TryCreateRoomOrNullPtr (w1\<lparr>wQueue := q\<rparr>) = Inr x"
    then have "same_buffers w1 (snd x)" using postD [OF TryCreate_post] by fastforce
    then show "post (same_buffers w) (k x)" using k [of "snd x" "fst x"] w1 same_buffers_trans by simp
  qed
  have name: "same_buffers w w1" if "modify_client conn (take_name buf) w = Inr w1" for w1
    by (rule postD [OF modify_post that]) (simp_all add: take_name_post)
  have rest: "post (same_buffers w) (case r of None \<Rightarrow> Inr w2 | Some i \<Rightarrow> rbind (g i) (\<lambda>pkt.
      rbind (SendStreamToAllClients i (h i pkt) w2) (\<lambda>w3. Inr (w3\<lparr>wThreads := wThreads w3 @ [i]\<rparr>))))"
    if "same_buffers w w2" for r w2 g h
    using postD [OF send_post(2) [OF that]] by (intro post_intros) (auto simp: that)
  show ?thesis
    unfolding start_matching_def
    by (rule post_if, rule post_Inr, rule same_buffers_refl, rule post_rbind, rule queue, erule name,
        simp only: prod.case, rule rest)
qed

lemma use_ticket_post: "post (same_buffers w) (use_ticket t p w)"
proof -
  have b: "only_items (client_of w p) (SetTicketCount t n (fst (AddItem (client_of w p) ty)))" for n ty
    using AddItem_only_items [of "client_of w p" ty] by (cases t) (simp_all add: only_items_def)
  show ?thesis
    unfolding use_ticket_def Let_def case_prod_unfold
    by (intro post_intros) (use b same_buffers_modify [of "w\<lparr>wRng := r\<rparr>" for r] in simp_all)
qed

lemma simple_handlers_post:
  "post (same_buffers w) (change_character conn buf w)"
  "post (same_buffers w) (use_emoticon conn buf w)"
  "post (same_buffers w) (choice_character p buf w)"
  "post (same_buffers w) (connect_check p w)"
proof -
  have m: "same_buffers w w1" if "modify_client p (\<lambda>c. Inr (f c)) w = Inr w1" "only_items (client_of w p) (f (client_of w p))"
    for w1 f p using that same_buffers_modify by (auto simp: modify_client_def)
  show "post (same_buffers w) (change_character conn buf w)"
    unfolding change_character_def by (intro post_intros same_buffers_refl) (erule m, simp add: only_items_def)
  show "post (same_buffers w) (use_emoticon conn buf w)"
    unfolding use_emoticon_def by (intro post_intros same_buffers_refl)
  show "post (same_buffers w) (choice_character p buf w)"
    unfolding choice_character_def by (intro post_intros same_buffers_refl) (erule m, simp add: only_items_def)
  show "post (same_buffers w) (connect_check p w)"
    unfolding connect_check_def by (intro modify_post post_intros) (simp_all add: only_items_def)
qed

lemma notification_post: "post (same_buffers w) (notification buf w)"
proof -
  have "post (same_buffers w) (case t of
      ChoiceCharacter \<Rightarrow> choice_character p buf w | ConnectCheck \<Rightarrow> connect_check p w
    | UseNormalItemTicket \<Rightarrow> use_ticket Normal p w | UseAdvancedItemTicket \<Rightarrow> use_ticket Advanced p w
    | UseTopItemTicket \<Rightarrow> use_ticket Top p w | UseSupremeItemTicket \<Rightarrow> use_ticket Supreme p w
    | EffectCreepItem \<Rightarrow> Inl AssertFailed | _ \<Rightarrow> Inr w)" for t p
    by (cases t) (simp_all add: simple_handlers_post use_ticket_post post_Inl post_Inr)
  then show ?thesis unfolding notification_def by (intro post_intros)
qed

lemma item_handlers_post:
  "post (same_buffers w) (change_item_slot conn buf w)"
  "post (same_buffers w) (drop_item conn buf w)"
  "post (same_buffers w) (request_upgrade_item conn buf w)"
  "post (same_buffers w) (request_combination_item conn buf w)"
proof -
  show "post (same_buffers w) (change_item_slot conn buf w)"
    unfolding change_item_slot_def
    by (intro post_intros same_buffers_refl)
      (rule postD [OF modify_post], auto simp: SwapItem_post)
  show "post (same_buffers w) (drop_item conn buf w)"
    unfolding drop_item_def
    by (intro post_intros same_buffers_refl)
      (rule postD [OF modify_post], auto intro: ModifyItem_post simp: only_items_refl)
  show "post (same_buffers w) (request_upgrade_item conn buf w)"
    unfolding request_upgrade_item_def
    by (intro post_intros same_buffers_refl)
      (use postD [OF upgrade_post] in \<open>auto intro: same_buffers_modify\<close>)
  have s: "same_buffers w w1" if "(if b then send_inventory conn p w else Inr w) = Inr w1" for b p w1
    using postD [OF send_post(3) [OF same_buffers_refl]] that by (auto split: if_splits)
  have c: "post (same_buffers w) (case r of None \<Rightarrow> send_inventory conn p w1
      | Some (c, rng) \<Rightarrow> send_inventory conn p (set_client p c (w1\<lparr>wRng := rng\<rparr>)))"
    if "same_buffers w w1" and "combine i j k (client_of w1 p) (wRng w1) = Inr r" for p w1 i j k r
  proof (cases r)
    case None
    then show ?thesis using that by (simp add: send_post)
  next
    case (Some x)
    then have "only_items (client_of w1 p) (fst x)"
      using postD [OF combine_post that(2)] by (cases x) simp
    then have "same_buffers w1 (set_client p (fst x) (w1\<lparr>wRng := snd x\<rparr>))"
      using same_buffers_modify [of "w1\<lparr>wRng := snd x\<rparr>"] by simp
    then have "same_buffers w (set_client p (fst x) (w1\<lparr>wRng := snd x\<rparr>))"
      using that(1) same_buffers_trans by blast
    then show ?thesis using Some by (simp add: case_prod_unfold send_post)
  qed
  show "post (same_buffers w) (request_combination_item conn buf w)"
    unfolding request_combination_item_def
    by (rule post_rbind, rule post_option, rule post_Inr, simp, rule post_rbind, rule post_rbind, rule c)
      (auto intro: s)
qed

lemma ProcessPacket_post: "post (same_buffers w) (ProcessPacket conn buf w)"
proof -
  have "post (same_buffers w) (case t of
      pt_cs_startMatching \<Rightarrow> start_matching conn buf w
    | pt_cs_sc_changeCharacter \<Rightarrow> change_character conn buf w
    | pt_cs_sc_changeItemSlot \<Rightarrow> change_item_slot conn buf w
    | pt_cs_sc_useEmoticon \<Rightarrow> use_emoticon conn buf w
    | pt_cs_sc_notification \<Rightarrow> notification buf w
    | pt_cs_sc_dropItem \<Rightarrow> drop_item conn buf w
    | pt_cs_requestCombinationItem \<Rightarrow> request_combination_item conn buf w
    | pt_cs_requestUpgradeItem \<Rightarrow> request_upgrade_item conn buf w
    | _ \<Rightarrow> Inr w)" for t
    by (cases t) (simp_all add: start_matching_post simple_handlers_post notification_post
        item_handlers_post post_Inr)
  then show ?thesis unfolding ProcessPacket_def by (intro post_intros same_buffers_refl)
qed

interpretation pp: packet_handler ProcessPacket
  by unfold_locales (use postD [OF ProcessPacket_post] in \<open>auto simp: same_buffers_def\<close>)

end
