(* ===== verification/Handler_Invariant.thy ===== *)
theory Handler_Invariant
  imports World_Facts Trades Handler_Facts
begin

text \<open>
  Whatever bytes a client sends, the handlers keep the invariant of the server as long as they
  stay inside the defined behaviour; and for a packet whose fields are in range they do.
\<close>

section \<open>Parts of the handlers\<close>

definition sent_only :: "world \<Rightarrow> world \<Rightarrow> bool" where
  "sent_only w w' \<longleftrightarrow> w' = w\<lparr>wSent := wSent w'\<rparr>"

lemma sent_only_refl [simp]: "sent_only w w"
  by (simp add: sent_only_def)

lemma world_ok_sent: "sent_only w w' \<Longrightarrow> world_ok w \<Longrightarrow> world_ok w'"
  unfolding sent_only_def by (metis world_ok_frame(1))

lemma SendBytes_sent: "SendBytes n bytes w = Inr w' \<Longrightarrow> sent_only w w'"
  by (auto simp: SendBytes_def rbind_Inr_iff sent_only_def split: if_splits)

lemma sent_only_trans: "sent_only a b \<Longrightarrow> sent_only b c \<Longrightarrow> sent_only a c"
  unfolding sent_only_def by (metis world.surjective world.update_convs(5))

lemma send_all_sent: "send_all ps bytes w = Inr w' \<Longrightarrow> sent_only w w'"
proof (induction ps arbitrary: w)
  case Nil
  then show ?case by simp
next
  case (Cons p ps)
  then show ?case by (auto simp: rbind_Inr_iff intro: sent_only_trans SendBytes_sent)
qed

lemma send_sent:
  "SendToAll i bytes w = Inr w' \<Longrightarrow> sent_only w w'"
  "SendPacketInAllRoomClients p pkt w = Inr w' \<Longrightarrow> sent_only w w'"
  "send_inventory conn p w = Inr w' \<Longrightarrow> sent_only w w'"
  "ForwardInAllRoomClients p buf w = Inr w' \<Longrightarrow> sent_only w w'"
  by (auto simp: SendToAll_def SendPacketInAllRoomClients_def SendPacketToAllClients_def
      send_inventory_def ForwardInAllRoomClients_def rbind_Inr_iff intro: send_all_sent
      split: option.splits if_splits)

definition keeps_ok :: "world \<Rightarrow> world \<Rightarrow> bool" where
  "keeps_ok w w' \<longleftrightarrow> world_ok w' \<and> length (wClients w') = length (wClients w) \<and>
     length (wRooms w') = length (wRooms w)"

lemma keeps_ok_sent: "sent_only v w' \<Longrightarrow> keeps_ok w v \<Longrightarrow> keeps_ok w w'"
  unfolding keeps_ok_def using world_ok_sent [of v w'] unfolding sent_only_def
  by (metis world.select_convs(1,2) world.surjective world.update_convs(5))

lemma keeps_ok_refl: "world_ok w \<Longrightarrow> keeps_ok w w"
  by (simp add: keeps_ok_def)

lemma send_keeps:
  "keeps_ok w v \<Longrightarrow> post (keeps_ok w) (SendToAll i bytes v)"
  "keeps_ok w v \<Longrightarrow> post (keeps_ok w) (SendStreamToAllClients i ps v)"
  "keeps_ok w v \<Longrightarrow> post (keeps_ok w) (send_inventory conn p v)"
  "keeps_ok w v \<Longrightarrow> post (keeps_ok w) (ForwardInAllRoomClients p buf v)"
  unfolding post_def SendStreamToAllClients_def using send_sent keeps_ok_sent by blast+

lemma client_ok_items:
  assumes "client_ok n p c" and "inventory_ok c'" and "not_items c' = not_items c"
  shows "client_ok n p c'"
  using assms by (simp add: client_ok_def not_itemsD [OF assms(3)] not_itemsD' [OF assms(3)])

lemma keeps_ok_set:
  assumes "keeps_ok w v" and "p < length (wClients v)" and "client_ok (length (wRooms v)) p c"
  shows "keeps_ok w (set_client p c v)"
  using assms world_ok_set_client by (simp add: keeps_ok_def)

lemma modify_keeps:
  assumes "keeps_ok w v" and "p < length (wClients v)"
    and "post (client_ok (length (wRooms v)) p) (f (client_of v p))"
  shows "post (keeps_ok w) (modify_client p f v)"
  unfolding modify_client_def
  by (intro post_intros keeps_ok_set assms(1,2)) (rule postD [OF assms(3)])

lemma keeps_client: "keeps_ok w v \<Longrightarrow> p < length (wClients v) \<Longrightarrow> client_ok (length (wRooms v)) p (client_of v p)"
  by (rule world_ok_client) (simp_all add: keeps_ok_def)

lemma packet_client_ok: "packet_client buf w = Inr p \<Longrightarrow> p < length (wClients w)"
  by (simp add: packet_client_def client_idx_ok)

lemma client_ok_inventory: "client_ok n p c \<Longrightarrow> inventory_ok c"
  by (simp add: client_ok_def)

text \<open>The operations on one client.\<close>

lemma SwapItem_client_ok: "client_ok n p c \<Longrightarrow> post (client_ok n p) (SwapItem c i j)"
  unfolding post_def using client_ok_items SwapItem_ok SwapItem_Slots(3)
  by (blast dest: client_ok_inventory intro: inventory_ok_shape)

lemma empty_client_ok:
  assumes "client_ok n p c"
  shows "post (client_ok n p) (ModifyItem c i SetEmptyItem)"
proof -
  have ok: "inventory_ok c" and sh: "inv_shape c"
    using assms client_ok_inventory inventory_ok_shape by blast+
  show ?thesis unfolding post_def
    using client_ok_items [OF assms] inventory_ok_modify [OF ok] inv.modi_rest [OF sh] by auto
qed

lemma wcscpy_length: "wcscpy dst src = Inr r \<Longrightarrow> length r = length dst"
proof -
  have "first_null cs = Some n \<Longrightarrow> n < length cs" for cs n
    by (induction cs arbitrary: n) (auto split: if_splits)
  then show "wcscpy dst src = Inr r \<Longrightarrow> length r = length dst"
    by (fastforce simp: wcscpy_def split: option.splits if_splits)
qed

lemma take_name_client_ok: "client_ok n p c \<Longrightarrow> post (client_ok n p) (take_name buf c)"
  unfolding take_name_def
  by (intro post_intros)
    (auto dest!: wcscpy_length simp: client_ok_def inventory_ok_def inv_shape_def Slots_def)

lemma combine_client_ok:
  "client_ok n p c \<Longrightarrow> combine i j k c rng = Inr (Some (c', rng')) \<Longrightarrow> client_ok n p c'"
  using combine_keeps client_ok_items client_ok_inventory by blast

lemma upgrade_client_ok:
  "client_ok n p c \<Longrightarrow> upgrade_items i j c = Inr (Some c') \<Longrightarrow> client_ok n p c'"
  using upgrade_keeps client_ok_items client_ok_inventory by blast

section \<open>Filling a room\<close>

lemma find_unused_Some:
  "find_unused rs = Some i \<Longrightarrow> i < length rs \<and> \<not> rmIsRun (rs ! i) \<and> rmIsFinishThread (rs ! i)"
  by (induction rs arbitrary: i) (auto split: if_splits)

lemma find_unused_None: "find_unused rs = None \<longleftrightarrow> (\<forall>r \<in> set rs. rmIsRun r \<or> \<not> rmIsFinishThread r)"
  by (induction rs) auto

lemma room_ok_open: "room_ok n r \<Longrightarrow> room_ok n (AddOpenCount r)"
  by (simp add: room_ok_def AddOpenCount_def)

lemma GetUnUsedRoom_ok:
  assumes ok: "world_ok w" and r: "GetUnUsedRoom w = (i, w1)"
  shows "i < length (wRooms w) \<and> keeps_ok w w1 \<and> wQueue w1 = wQueue w \<and> wClients w1 = wClients w \<and>
    (rmIsRun (room_of w1 i) \<or> \<not> rmIsFinishThread (room_of w1 i))"
proof (cases "find_unused (wRooms w)")
  case None
  have ne: "wRooms w \<noteq> []" using ok by (simp add: world_ok_def)
  then have i: "i < length (wRooms w)" "w1 = set_room i (AddOpenCount (room_of w i)) w"
    using r None by (auto simp: GetUnUsedRoom_def Let_def)
  have "room_of w i \<in> set (wRooms w)" using i(1) by simp
  then have "rmIsRun (room_of w i) \<or> \<not> rmIsFinishThread (room_of w i)"
    using None by (simp only: find_unused_None)
  then show ?thesis
    using i world_ok_set_room [OF ok i(1)] room_ok_open [OF world_ok_room [OF ok i(1)]]
    by (simp add: keeps_ok_def room_of_set_room AddOpenCount_def)
next
  case (Some k)
  then have i: "i < length (wRooms w)" "w1 = set_room i (AddOpenCount ((room_of w i)\<lparr>rmIsRun := True\<rparr>)) w"
    using r find_unused_Some [OF Some] by (auto simp: GetUnUsedRoom_def Let_def)
  have "room_ok (length (wClients w)) (AddOpenCount ((room_of w i)\<lparr>rmIsRun := True\<rparr>))"
    using world_ok_room [OF ok i(1)] by (simp add: room_ok_def AddOpenCount_def)
  then show ?thesis
    using i world_ok_set_room [OF ok i(1)]
    by (simp add: keeps_ok_def room_of_set_room AddOpenCount_def)
qed

lemma set_rooms_keeps:
  assumes "keeps_ok w v" and "i < length (wRooms v)" and "\<forall>p \<in> set ps. p < length (wClients v)"
  shows "keeps_ok w (set_rooms i ps v)"
  using assms
proof (induction ps arbitrary: v)
  case Nil
  then show ?case by simp
next
  case (Cons p ps)
  let ?c = "(client_of v p)\<lparr>clRoomPtr := Some i, clRoomOpenCount := rmOpenCount (room_of v i)\<rparr>"
  have "client_ok (length (wRooms v)) p (client_of v p)"
    using keeps_client [OF Cons.prems(1)] Cons.prems(3) by simp
  then have "client_ok (length (wRooms v)) p ?c" using Cons.prems(2)
    by (simp add: client_ok_def inventory_ok_def inv_shape_def Slots_def)
  then have "keeps_ok w (set_client p ?c v)"
    using keeps_ok_set [OF Cons.prems(1)] Cons.prems(3) by simp
  then show ?case using Cons by simp
qed

lemma set_rooms_rooms [simp]: "wRooms (set_rooms i ps w) = wRooms w"
  and set_rooms_length [simp]: "length (wClients (set_rooms i ps w)) = length (wClients w)"
  and set_rooms_queue [simp]: "wQueue (set_rooms i ps w) = wQueue w"
  by (induction ps arbitrary: w) simp_all

text \<open>A room that ends up with eight members at most is a good room.\<close>

lemma World_AddClients_ok:
  assumes ok: "keeps_ok w v" and i: "i < length (wRooms v)" and ps: "\<forall>p \<in> set ps. p < length (wClients v)"
    and run: "rmIsRun (room_of v i) \<or> \<not> rmIsFinishThread (room_of v i)"
    and add: "World_AddClients i ps v = Inr v'" and le: "length (rmClients (room_of v' i)) \<le> MAX_ROOM_PLAYER"
  shows "keeps_ok w v'"
proof (cases "rmSize (room_of v i) = MAX_ROOM_PLAYER")
  case True
  then show ?thesis using add ok by (simp add: World_AddClients_def Room_AddClients_def)
next
  case False
  then obtain bm where v': "v' = set_rooms i ps (set_room i ((room_of v i)
      \<lparr>rmSize := usize (int (rmSize (room_of v i)) + int (length ps)),
       rmClients := rmClients (room_of v i) @ ps, rmBattleManager := bm\<rparr>) v)" (is "_ = set_rooms i ps (set_room i ?r v)")
    using add by (auto simp: World_AddClients_def Room_AddClients_def rbind_Inr_iff)
  have "length (rmClients (room_of v i)) + length ps \<le> 8"
    using le i by (simp add: v' room_of_set_room)
  moreover have "room_ok (length (wClients v)) (room_of v i)"
    using ok i by (intro world_ok_room) (simp_all add: keeps_ok_def)
  ultimately have "room_ok (length (wClients v)) ?r"
    using ps run by (auto simp: room_ok_def usize_def nat_add_distrib)
  then have "keeps_ok w (set_room i ?r v)"
    using ok i world_ok_set_room by (simp add: keeps_ok_def)
  then show ?thesis unfolding v' using i ps by (intro set_rooms_keeps) simp_all
qed

lemma TryCreate_ok:
  assumes ok: "world_ok w" and tc: "TryCreateRoomOrNullPtr w = Inr (r, w')"
  shows "case r of None \<Rightarrow> keeps_ok w w'
     | Some i \<Rightarrow> i < length (wRooms w) \<and>
         (length (rmClients (room_of w' i)) \<le> MAX_ROOM_PLAYER \<longrightarrow> keeps_ok w w')"
proof (cases "length (queue_list (wQueue w)) < MAX_ROOM_PLAYER")
  case True
  then have "TakeRoomClients (wQueue w) = Inr (None, wQueue w)"
    using sq.take_few ok by (simp add: world_ok_def)
  then show ?thesis using tc ok by (auto simp: TryCreateRoomOrNullPtr_def keeps_ok_def)
next
  case False
  then obtain q where q: "TakeRoomClients (wQueue w) = Inr (Some (take MAX_ROOM_PLAYER (queue_list (wQueue w))), q)"
    "queue_good q" "queue_list q = drop MAX_ROOM_PLAYER (queue_list (wQueue w))"
    using sq.take_members [of "wQueue w"] ok by (auto simp: world_ok_def not_less)
  let ?ps = "take MAX_ROOM_PLAYER (queue_list (wQueue w))"
  obtain i w1 where g: "GetUnUsedRoom w = (i, w1)" by (cases "GetUnUsedRoom w")
  obtain w2 where w2: "World_AddClients i ?ps w1 = Inr w2" "r = Some i" "w' = w2\<lparr>wQueue := q\<rparr>"
    using tc q(1) g by (auto simp: TryCreateRoomOrNullPtr_def rbind_Inr_iff)
  note u = GetUnUsedRoom_ok [OF ok g]
  have mem: "\<forall>p \<in> set (queue_list (wQueue w)). p < length (wClients w)" using ok by (simp add: world_ok_def)
  then have ps: "\<forall>p \<in> set ?ps. p < length (wClients w1)" using u by (auto dest: in_set_takeD)
  have "keeps_ok w w'" if "length (rmClients (room_of w' i)) \<le> MAX_ROOM_PLAYER"
  proof -
    have "keeps_ok w w2"
      by (rule World_AddClients_ok [OF _ _ ps _ w2(1)]) (use u that w2(3) in \<open>auto simp: keeps_ok_def\<close>)
    moreover have "set (queue_list q) \<subseteq> {..<length (wClients w)}"
      using mem q(3) by (auto dest: in_set_dropD)
    ultimately show ?thesis using q(2) world_ok_queue [of w2 q] w2(3) by (auto simp: keeps_ok_def)
  qed
  then show ?thesis using u w2(2) by simp
qed

section \<open>Tickets\<close>

text \<open>The tiers a ticket can draw from.\<close>

fun ticket_tiers :: "EItemTicketType \<Rightarrow> nat set" where
  "ticket_tiers Normal = {0, 1, 2, 3, 4}"
| "ticket_tiers Advanced = {1, 2}"
| "ticket_tiers Top = {2, 3}"
| "ticket_tiers Supreme = {4}"

lemma ticket_tiers_less: "k \<in> ticket_tiers t \<Longrightarrow> k < 5"
  by (cases t) auto

lemma ticket_draw_none: "TicketCount t (client_of w p) = 0 \<Longrightarrow> ticket_draw t p w = Inr (EMPTY_ITEM, wRng w)"
  by (cases t) (simp_all add: GetRandomItemTypeOfNormalItemTicket_def
      GetRandomItemTypeOfAdvancedItemTicket_def GetRandomItemTypeOfTopItemTicket_def
      GetRandomItemTypeOfSupremeItemTicket_def)

lemma ticket_draw_some:
  assumes "world_ok w" and "p < length (wClients w)" and "clRoomPtr (client_of w p) = Some i"
    and "TicketCount t (client_of w p) \<noteq> 0"
  shows "\<exists>ty rng k. ticket_draw t p w = Inr (ty, rng) \<and> k \<in> ticket_tiers t \<and> ty \<in> set (tier_types k)"
proof (cases t)
  case Normal
  have "i < length (wRooms w)" using world_ok_roomptr [OF assms(1,2,3)] .
  then have "0 \<le> rmRound (room_of w i)" using world_ok_room [OF assms(1)] by (simp add: room_ok_def)
  then show ?thesis
    using NormalTicket_result [of "client_of w p" i "\<lambda>i. rmRound (room_of w i)" "wRng w"] assms Normal
    by (fastforce simp: Let_def less5)
next
  case Advanced
  then show ?thesis using AdvancedTicket_result [of "client_of w p" "wRng w"] assms by fastforce
next
  case Top
  then show ?thesis using TopTicket_result [of "client_of w p" "wRng w"] assms by fastforce
next
  case Supreme
  then show ?thesis using SupremeTicket_result [of "client_of w p" "wRng w"] assms by fastforce
qed

lemma inventory_ok_ticket: "inventory_ok (SetTicketCount t n c) = inventory_ok c"
  by (simp add: inventory_ok_def inv_shape_def Slots_def)

lemma client_ok_ticket: "client_ok n p (SetTicketCount t m c) = client_ok n p c"
  by (cases t) (simp_all add: client_ok_def inventory_ok_def inv_shape_def Slots_def)

lemma AddItem_client_ok:
  assumes "client_ok n p c" and "unat ty < 46"
  shows "client_ok n p (fst (AddItem c ty))"
  using assms client_ok_items [OF assms(1)] AddItem_ok AddItem_spec(4)
  by (blast dest: client_ok_inventory intro: inventory_ok_shape)

text \<open>
  A used ticket: one item of one of its tiers enters the first free slot, if there is one, and the
  count goes down by one; everybody in the room is told.
\<close>

lemma use_ticket_spec:
  assumes ok: "world_ok w" and p: "p < length (wClients w)" and i: "clRoomPtr (client_of w p) = Some i"
    and st: "rmCurRoomStatusType (room_of w i) = St_ReadyStage" and ne: "TicketCount t (client_of w p) \<noteq> 0"
  shows "\<exists>w' ty k bytes. use_ticket t p w = Inr w' \<and> keeps_ok w w' \<and>
    k \<in> ticket_tiers t \<and> ty \<in> set (tier_types k) \<and>
    wClients w' = (wClients w)[p := SetTicketCount t (i32 (TicketCount t (client_of w p) - 1))
      (fst (AddItem (client_of w p) ty))] \<and>
    wRooms w' = wRooms w \<and> wQueue w' = wQueue w \<and>
    wSent w' = wSent w @ map (\<lambda>q. (q, bytes)) (rmClients (room_of w i))"
proof -
  let ?c = "client_of w p"
  obtain ty rng k where d: "ticket_draw t p w = Inr (ty, rng)" "k \<in> ticket_tiers t" "ty \<in> set (tier_types k)"
    using ticket_draw_some [OF ok p i ne] by blast
  have ty: "ty \<noteq> 0" "unat ty < 46" using tier_types_tier [OF ticket_tiers_less [OF d(2)] d(3)] by auto
  define c1 where "c1 = fst (AddItem ?c ty)"
  have c1: "client_ok (length (wRooms w)) p c1"
    unfolding c1_def using world_ok_client [OF ok p] ty(2) by (rule AddItem_client_ok)
  have tc: "TicketCount t c1 = TicketCount t ?c"
    unfolding c1_def by (intro not_itemsD(6) AddItem_spec(4) inventory_ok_shape world_ok_inventory ok p)
  define c2 where "c2 = SetTicketCount t (i32 (TicketCount t ?c - 1)) c1"
  define w1 where "w1 = set_client p c2 (w\<lparr>wRng := rng\<rparr>)"
  define ps where "ps = [sc_InventoryInfoPacket c1, sc_SetItemTicketPacket (clNetworkID c1) t (TicketCount t c2)]"
  have w1: "world_ok w1" unfolding w1_def
    using ok p c1 by (intro world_ok_set_client) (simp_all add: c2_def client_ok_ticket)
  have iw: "i < length (wRooms w1)" using world_ok_roomptr [OF ok p i] by (simp add: w1_def)
  have "packet_ok (sc_InventoryInfoPacket c1)" using c1 client_ok_inventory packet_ok_Inventory by blast
  then have "length (stream ps) \<le> MAX_BUF_SIZE"
    using packet_sizeof_bounds [of "sc_InventoryInfoPacket c1"] packet_sizeof_bounds [of "ps ! 1"]
    by (simp add: stream_def ps_def length_Packet_Write sc_SetItemTicketPacket_def)
  then have "use_ticket t p w = Inr (delivered i (stream ps) w1)"
    using SendToAll_ok [OF w1 iw, of "stream ps"] i st d(1) ty(1)
    by (simp add: use_ticket_def Let_def case_prod_unfold c1_def [symmetric] tc c2_def [symmetric]
        w1_def [symmetric] ps_def [symmetric] SendStreamToAllClients_def)
  then show ?thesis using d w1
    by (intro exI [of _ "delivered i (stream ps) w1"] exI [of _ ty] exI [of _ k] exI [of _ "stream ps"])
      (simp add: keeps_ok_def delivered_def w1_def set_client_def c2_def c1_def)
qed

text \<open>Without a room, outside the ready stage and without a ticket nothing happens.\<close>

lemma use_ticket_refused:
  assumes "world_ok w" and "p < length (wClients w)"
    and "room_status p w \<noteq> Some St_ReadyStage \<or> TicketCount t (client_of w p) = 0"
  shows "use_ticket t p w = Inr w"
  using assms ticket_draw_none [of t w p]
  by (auto simp: use_ticket_def room_status_def split: option.split)

lemma use_ticket_keeps:
  assumes "world_ok w" and "p < length (wClients w)"
  shows "post (keeps_ok w) (use_ticket t p w)"
proof (cases "room_status p w \<noteq> Some St_ReadyStage \<or> TicketCount t (client_of w p) = 0")
  case True
  then show ?thesis using use_ticket_refused [OF assms] assms keeps_ok_refl by (simp add: post_def)
next
  case False
  then obtain i where "clRoomPtr (client_of w p) = Some i" "rmCurRoomStatusType (room_of w i) = St_ReadyStage"
    by (auto simp: room_status_def)
  then show ?thesis using use_ticket_spec [OF assms] False by (fastforce simp: post_def)
qed

section \<open>The handlers\<close>

lemma start_matching_keeps:
  assumes "world_ok w" and "conn < length (wClients w)"
  shows "post (keeps_ok w) (start_matching conn buf w)"
proof -
  have name: "keeps_ok w w1" if "modify_client conn (take_name buf) w = Inr w1" for w1
    using postD [OF modify_keeps that] keeps_ok_refl assms take_name_client_ok world_ok_client by blast
  have add: "keeps_ok w (w1\<lparr>wQueue := q\<rparr>)"
    if w1: "keeps_ok w w1" and q: "AddClient (wQueue w1) conn = Inr q" for w1 q
  proof -
    have "queue_good q" "queue_list q = queue_list (wQueue w1) @ [conn]"
      using sq.enq_members [of "wQueue w1" conn] q w1 by (auto simp: keeps_ok_def world_ok_def)
    moreover have "\<forall>p \<in> set (queue_list (wQueue w1)). p < length (wClients w1)"
      using w1 by (metis keeps_ok_def world_ok_def)
    ultimately show ?thesis using w1 assms(2) world_ok_queue [of w1 q] by (auto simp: keeps_ok_def)
  qed
  have rest: "post (keeps_ok w) (case r of None \<Rightarrow> Inr w2 | Some i \<Rightarrow>
      rbind (sc_ConnectRoomPacket (map (client_of w2) (rmClients (room_of w2 i)))) (\<lambda>pkt.
        rbind (SendStreamToAllClients i (h i pkt) w2) (\<lambda>w3. Inr (w3\<lparr>wThreads := wThreads w3 @ [i]\<rparr>))))"
    if v: "keeps_ok w v" and t: "TryCreateRoomOrNullPtr v = Inr (r, w2)" for v r w2 h
  proof (cases r)
    case None
    then show ?thesis using TryCreate_ok [OF _ t] v by (simp add: keeps_ok_def post_Inr)
  next
    case (Some i)
    have "keeps_ok w w3" if "sc_ConnectRoomPacket (map (client_of w2) (rmClients (room_of w2 i))) = Inr pkt"
      "SendStreamToAllClients i (h i pkt) w2 = Inr w3" for pkt w3
    proof -
      have "length (rmClients (room_of w2 i)) \<le> MAX_ROOM_PLAYER"
        using that(1) by (auto simp: sc_ConnectRoomPacket_def split: if_splits)
      then have "keeps_ok w w2" using TryCreate_ok [OF _ t] v Some by (simp add: keeps_ok_def)
      then show ?thesis by (rule postD [OF send_keeps(2) that(2)])
    qed
    then show ?thesis by (auto simp: Some post_def rbind_Inr_iff keeps_ok_def)
  qed
  show ?thesis
    unfolding start_matching_def
    by (rule post_if, rule post_Inr, rule keeps_ok_refl [OF assms(1)], (rule post_rbind)+, rule post_prod,
        rule rest, erule add [OF name]) simp_all
qed

lemma room_status_None: "room_status p w = None \<longleftrightarrow> clRoomPtr (client_of w p) = None"
  by (simp add: room_status_def)

lemma simple_handlers_keep:
  assumes "world_ok w" and "conn < length (wClients w)"
  shows "post (keeps_ok w) (change_character conn buf w)"
    and "post (keeps_ok w) (use_emoticon conn buf w)"
    and "post (keeps_ok w) (choice_character conn buf w)"
    and "post (keeps_ok w) (connect_check conn w)"
proof -
  have m: "post (keeps_ok w) (modify_client conn (\<lambda>c. Inr (f c)) w)"
    if "client_ok (length (wRooms w)) conn (f (client_of w conn))" for f
    using modify_keeps [OF keeps_ok_refl assms(2)] assms that by (simp add: post_Inr)
  have c: "client_ok (length (wRooms w)) conn (client_of w conn)" using assms by (rule world_ok_client)
  show "post (keeps_ok w) (change_character conn buf w)"
    unfolding change_character_def
    by (intro post_intros keeps_ok_refl assms send_keeps, rule postD [OF m], rule client_ok_cong [OF c]) simp_all
  show "post (keeps_ok w) (use_emoticon conn buf w)"
    unfolding use_emoticon_def by (intro post_intros keeps_ok_refl assms send_keeps)
  show "post (keeps_ok w) (choice_character conn buf w)"
    unfolding choice_character_def
    by (intro post_intros keeps_ok_refl assms send_keeps, rule postD [OF m], rule client_ok_cong [OF c]) simp_all
  show "post (keeps_ok w) (connect_check conn w)"
    unfolding connect_check_def by (rule m, rule client_ok_cong [OF c]) simp_all
qed

lemma notification_keeps:
  assumes "world_ok w"
  shows "post (keeps_ok w) (notification buf w)"
proof -
  have "post (keeps_ok w) (case t of
      ChoiceCharacter \<Rightarrow> choice_character p buf w | ConnectCheck \<Rightarrow> connect_check p w
    | UseNormalItemTicket \<Rightarrow> use_ticket Normal p w | UseAdvancedItemTicket \<Rightarrow> use_ticket Advanced p w
    | UseTopItemTicket \<Rightarrow> use_ticket Top p w | UseSupremeItemTicket \<Rightarrow> use_ticket Supreme p w
    | EffectCreepItem \<Rightarrow> Inl AssertFailed | _ \<Rightarrow> Inr w)" if "p < length (wClients w)" for t p
    by (cases t) (simp_all add: assms that simple_handlers_keep use_ticket_keeps post_Inl post_Inr keeps_ok_refl)
  then show ?thesis unfolding notification_def by (intro post_intros) (auto dest: packet_client_ok)
qed

lemma item_handlers_keep:
  assumes ok: "world_ok w" and conn: "conn < length (wClients w)"
  shows "post (keeps_ok w) (change_item_slot conn buf w)"
    and "post (keeps_ok w) (drop_item conn buf w)"
    and "post (keeps_ok w) (request_upgrade_item conn buf w)"
    and "post (keeps_ok w) (request_combination_item conn buf w)"
proof -
  note c = world_ok_client [OF ok]
  note r = keeps_ok_refl [OF ok]
  have swap: "keeps_ok w w1" if "modify_client conn (\<lambda>c. SwapItem c i j) w = Inr w1" for i j w1
    by (rule postD [OF modify_keeps [OF r conn] that]) (rule SwapItem_client_ok [OF c [OF conn]])
  show "post (keeps_ok w) (change_item_slot conn buf w)"
    unfolding change_item_slot_def by (intro post_intros send_keeps r) (rule swap)
  have drop: "keeps_ok w w1" if "packet_client buf w = Inr p" "modify_client p (\<lambda>c. ModifyItem c i SetEmptyItem) w = Inr w1" for p i w1
    by (rule postD [OF modify_keeps [OF r packet_client_ok [OF that(1)]] that(2)])
      (rule empty_client_ok [OF c [OF packet_client_ok [OF that(1)]]])
  show "post (keeps_ok w) (drop_item conn buf w)"
    unfolding drop_item_def by (intro post_intros send_keeps r) (rule drop)
  show "post (keeps_ok w) (request_upgrade_item conn buf w)"
    unfolding request_upgrade_item_def
    by (intro post_intros send_keeps r keeps_ok_set)
      (auto dest: packet_client_ok intro: upgrade_client_ok c)
  have s: "keeps_ok w w1" if "(if b then send_inventory conn p w else Inr w) = Inr w1" for b p w1
    using that postD [OF send_keeps(3) [OF r]] r by (auto split: if_splits)
  have comb: "post (keeps_ok w) (case x of None \<Rightarrow> send_inventory conn p w1
      | Some (c, rng) \<Rightarrow> send_inventory conn p (set_client p c (w1\<lparr>wRng := rng\<rparr>)))"
    if p: "packet_client buf w = Inr p" and w1: "keeps_ok w w1"
      and x: "combine i j k (client_of w1 p) (wRng w1) = Inr x" for p w1 i j k x
  proof (cases x)
    case None
    then show ?thesis using w1 by (simp add: send_keeps)
  next
    case (Some y)
    have pw: "p < length (wClients w1)" using packet_client_ok [OF p] w1 by (simp add: keeps_ok_def)
    have "client_ok (length (wRooms w1)) p (fst y)"
      using combine_client_ok [OF keeps_client [OF w1 pw]] x Some by (metis prod.collapse)
    moreover have "keeps_ok w (w1\<lparr>wRng := snd y\<rparr>)" using w1 by (simp add: keeps_ok_def)
    ultimately have "keeps_ok w (set_client p (fst y) (w1\<lparr>wRng := snd y\<rparr>))"
      using pw by (intro keeps_ok_set) simp_all
    then show ?thesis using Some by (simp add: case_prod_unfold send_keeps)
  qed
  show "post (keeps_ok w) (request_combination_item conn buf w)"
    unfolding request_combination_item_def
    by (rule post_rbind, rule post_option, rule post_Inr, rule r, rule post_rbind, rule post_rbind, rule comb)
      (auto intro: s)
qed

lemma ProcessPacket_keeps:
  assumes "world_ok w" and "conn < length (wClients w)"
  shows "post (keeps_ok w) (ProcessPacket conn buf w)"
proof -
  have "post (keeps_ok w) (case t of
      pt_cs_startMatching \<Rightarrow> start_matching conn buf w
    | pt_cs_sc_changeCharacter \<Rightarrow> change_character conn buf w
    | pt_cs_sc_changeItemSlot \<Rightarrow> change_item_slot conn buf w
    | pt_cs_sc_useEmoticon \<Rightarrow> use_emoticon conn buf w
    | pt_cs_sc_notification \<Rightarrow> notification buf w
    | pt_cs_sc_dropItem \<Rightarrow> drop_item conn buf w
    | pt_cs_requestCombinationItem \<Rightarrow> request_combination_item conn buf w
    | pt_cs_requestUpgradeItem \<Rightarrow> request_upgrade_item conn buf w
    | _ \<Rightarrow> Inr w)" for t
    by (cases t) (simp_all add: assms start_matching_keeps simple_handlers_keep notification_keeps
        item_handlers_keep post_Inr keeps_ok_refl)
  then show ?thesis unfolding ProcessPacket_def by (intro post_intros keeps_ok_refl assms)
qed

end
