(* ===== verification/Handler_Defined.thy ===== *)
theory Handler_Defined
  imports Handler_Invariant
begin

text \<open>
  The packets on which the handlers stay inside the defined behaviour: those whose identifier
  names a client, whose slots exist, whose name ends within the field and whose size fits the
  buffer.  On them every handler returns.
\<close>

definition names_client :: "u8 list \<Rightarrow> world \<Rightarrow> bool" where
  "names_client buf w \<longleftrightarrow> 0 \<le> rd_i32 buf 3 \<and> nat (rd_i32 buf 3) < length (wClients w)"

definition slots_exist :: "u8 list \<Rightarrow> nat \<Rightarrow> bool" where
  "slots_exist buf n \<longleftrightarrow> (\<forall>k < n. unat (rd_u8 buf (7 + k)) < 16)"

text \<open>A request to be matched: the name ends, and a room is free when it is the eighth.\<close>

definition can_match :: "u8 list \<Rightarrow> world \<Rightarrow> bool" where
  "can_match buf w \<longleftrightarrow>
     (case first_null (rd_u16s (drop 7 buf)) of None \<Rightarrow> False | Some n \<Rightarrow> n < MAX_USER_NAME_LENGTH) \<and>
     (length (queue_list (wQueue w)) < MAX_ROOM_PLAYER - 1 \<or> find_unused (wRooms w) \<noteq> None)"

definition in_range :: "nat \<Rightarrow> u8 list \<Rightarrow> world \<Rightarrow> bool" where
  "in_range conn buf w \<longleftrightarrow>
     (case rd_type buf of
        None \<Rightarrow> True
      | Some t \<Rightarrow>
          (case t of
             pt_cs_startMatching \<Rightarrow> clRoomPtr (client_of w conn) \<noteq> None \<or> can_match buf w
           | pt_cs_sc_changeCharacter \<Rightarrow> names_client buf w \<and> rd_u16 buf 0 \<le> MAX_PACKET_SIZE
           | pt_cs_sc_changeItemSlot \<Rightarrow> names_client buf w \<and> slots_exist buf 2
           | pt_cs_sc_useEmoticon \<Rightarrow> rd_u16 buf 0 \<le> MAX_PACKET_SIZE
           | pt_cs_sc_notification \<Rightarrow> names_client buf w \<and> rd_u16 buf 0 \<le> MAX_PACKET_SIZE \<and>
               of_num notification_types (rd_u8 buf 7) \<notin> {None, Some EffectCreepItem}
           | pt_cs_sc_dropItem \<Rightarrow> names_client buf w \<and> slots_exist buf 1
           | pt_cs_requestCombinationItem \<Rightarrow> names_client buf w \<and> slots_exist buf 3
           | pt_cs_requestUpgradeItem \<Rightarrow> names_client buf w \<and> slots_exist buf 2
           | _ \<Rightarrow> True))"

definition defined :: "'a result \<Rightarrow> bool" where
  "defined m \<longleftrightarrow> (\<exists>x. m = Inr x)"

lemma defined_Inr [simp]: "defined (Inr x)"
  by (simp add: defined_def)

lemma defined_rbind: "defined (rbind m f) \<longleftrightarrow> (\<exists>x. m = Inr x \<and> defined (f x))"
  by (auto simp: defined_def rbind_Inr_iff)

section \<open>Sending\<close>

lemma names_client_ok:
  "names_client buf w \<Longrightarrow> packet_client buf w = Inr (nat (rd_i32 buf 3)) \<and> nat (rd_i32 buf 3) < length (wClients w)"
  by (simp add: names_client_def packet_client_def client_idx_def)

lemma slots_exist_nth: "slots_exist buf n \<Longrightarrow> k < n \<Longrightarrow> unat (rd_u8 buf (7 + k)) < 16"
  by (simp add: slots_exist_def)

lemma send_inventory_defined:
  assumes "world_ok w" and "conn < length (wClients w)" and "p < length (wClients w)"
  shows "defined (send_inventory conn p w)"
  unfolding send_inventory_def
  by (simp add: SendPacketInAllRoomClients_ok [OF assms(1,2)] packet_ok_Inventory
      world_ok_inventory [OF assms(1,3)])

lemma Forward_defined:
  assumes "world_ok w" and "conn < length (wClients w)" and "length buf = MAX_PACKET_SIZE"
    and "rd_u16 buf 0 \<le> MAX_PACKET_SIZE"
  shows "defined (ForwardInAllRoomClients conn buf w)"
proof (cases "clRoomPtr (client_of w conn)")
  case None
  then show ?thesis by (simp add: ForwardInAllRoomClients_def)
next
  case (Some i)
  have "packet_bytes buf = Inr (take (rd_u16 buf 0) buf)"
    using assms(3,4) by (simp add: packet_bytes_def sized_def)
  moreover have "length (take (rd_u16 buf 0) buf) \<le> MAX_BUF_SIZE" using assms(3) by simp
  ultimately show ?thesis
    using SendToAll_ok [OF assms(1) world_ok_roomptr [OF assms(1,2) Some]] Some
    by (simp add: ForwardInAllRoomClients_def)
qed

section \<open>The handlers that keep to one client\<close>

lemma set_client_world_ok:
  assumes "world_ok w" and "p < length (wClients w)" and "inventory_ok c" and "not_items c = not_items (client_of w p)"
  shows "world_ok (set_client p c w)"
  using world_ok_set_client [OF assms(1,2)] client_ok_items [OF world_ok_client [OF assms(1,2)]] assms(3,4)
  by simp

lemma room_of_client: "room_status p w = Some st \<Longrightarrow> \<exists>i. clRoomPtr (client_of w p) = Some i"
  by (auto simp: room_status_def)

lemma change_item_slot_defined:
  assumes ok: "world_ok w" and conn: "conn < length (wClients w)"
    and nc: "names_client buf w" and se: "slots_exist buf 2"
  shows "defined (change_item_slot conn buf w)"
proof -
  let ?p = "nat (rd_i32 buf 3)" and ?c = "client_of w conn"
  have p: "packet_client buf w = Inr ?p" "?p < length (wClients w)" using names_client_ok [OF nc] by auto
  have c: "inventory_ok ?c" using ok conn by (rule world_ok_inventory)
  obtain c' where c': "SwapItem ?c (rd_u8 buf 7) (rd_u8 buf 8) = Inr c'"
    using SwapItem_defined [OF inventory_ok_shape [OF c]] slots_exist_nth [OF se, of 0]
      slots_exist_nth [OF se, of 1] by auto
  have "world_ok (set_client conn c' w)"
    using set_client_world_ok [OF ok conn SwapItem_ok [OF c c']]
      SwapItem_Slots(3) [OF inventory_ok_shape [OF c] c'] by blast
  then have "defined (send_inventory conn ?p (set_client conn c' w))"
    by (rule send_inventory_defined) (use conn p in simp_all)
  then show ?thesis using send_inventory_defined [OF ok conn p(2)] c'
    by (auto simp: change_item_slot_def p(1) modify_client_def split: option.split)
qed

lemma drop_item_defined:
  assumes ok: "world_ok w" and conn: "conn < length (wClients w)"
    and nc: "names_client buf w" and se: "slots_exist buf 1"
  shows "defined (drop_item conn buf w)"
proof -
  let ?p = "nat (rd_i32 buf 3)" and ?i = "rd_u8 buf 7"
  have p: "packet_client buf w = Inr ?p" "?p < length (wClients w)" using names_client_ok [OF nc] by auto
  have c: "inventory_ok (client_of w ?p)" using ok p(2) by (rule world_ok_inventory)
  have i: "unat ?i < 16" using slots_exist_nth [OF se, of 0] by simp
  obtain c' where c': "ModifyItem (client_of w ?p) ?i SetEmptyItem = Inr c'" "inventory_ok c'"
    "not_items c' = not_items (client_of w ?p)" using empty_slot [OF c i] by blast
  have "world_ok (set_client ?p c' w)" using set_client_world_ok [OF ok p(2) c'(2,3)] .
  then have "defined (send_inventory conn ?p (set_client ?p c' w))"
    by (rule send_inventory_defined) (use conn p in simp_all)
  moreover have "GetItem (client_of w ?p) ?i = Inr (Slots (client_of w ?p) ! unat ?i)"
    using i ok_length [OF c] by (simp add: look_slot [OF c] at_idx_def)
  ultimately show ?thesis using send_inventory_defined [OF ok conn p(2)] c'(1)
    by (auto simp: drop_item_def p(1) modify_client_def split: option.split)
qed

lemma request_upgrade_defined:
  assumes ok: "world_ok w" and conn: "conn < length (wClients w)"
    and nc: "names_client buf w" and se: "slots_exist buf 2"
  shows "defined (request_upgrade_item conn buf w)"
proof -
  let ?p = "nat (rd_i32 buf 3)" and ?i = "rd_u8 buf 7" and ?j = "rd_u8 buf 8"
  have p: "packet_client buf w = Inr ?p" "?p < length (wClients w)" using names_client_ok [OF nc] by auto
  have c: "inventory_ok (client_of w ?p)" using ok p(2) by (rule world_ok_inventory)
  have ij: "unat ?i < 16" "unat ?j < 16"
    using slots_exist_nth [OF se, of 0] slots_exist_nth [OF se, of 1] by simp_all
  have "defined (upgrade_items ?i ?j (client_of w ?p))"
    using upgrade_items_spec [OF c ij] by (auto split: if_splits)
  moreover have "defined (send_inventory conn ?p (set_client ?p c' w))"
    if "upgrade_items ?i ?j (client_of w ?p) = Inr (Some c')" for c'
    using set_client_world_ok [OF ok p(2)] upgrade_keeps [OF c that] conn p(2)
    by (intro send_inventory_defined) auto
  ultimately show ?thesis using send_inventory_defined [OF ok conn p(2)]
    by (auto simp: request_upgrade_item_def p(1) defined_rbind defined_def [of "upgrade_items _ _ _"]
        split: option.split)
qed

lemma request_combination_defined:
  assumes ok: "world_ok w" and conn: "conn < length (wClients w)"
    and nc: "names_client buf w" and se: "slots_exist buf 3"
  shows "defined (request_combination_item conn buf w)"
proof -
  let ?p = "nat (rd_i32 buf 3)" and ?i = "rd_u8 buf 7" and ?j = "rd_u8 buf 8" and ?k = "rd_u8 buf 9"
  have p: "packet_client buf w = Inr ?p" "?p < length (wClients w)" using names_client_ok [OF nc] by auto
  have ijk: "unat ?i < 16" "unat ?j < 16" "unat ?k < 16"
    using slots_exist_nth [OF se, of 0] slots_exist_nth [OF se, of 1] slots_exist_nth [OF se, of 2] by simp_all
  have rest: "defined (rbind (combine ?i ?j ?k (client_of w1 ?p) (wRng w1)) (\<lambda>r. case r of
      None \<Rightarrow> send_inventory conn ?p w1
    | Some (c, rng) \<Rightarrow> send_inventory conn ?p (set_client ?p c (w1\<lparr>wRng := rng\<rparr>))))"
    if w1: "keeps_ok w w1" for w1
  proof -
    have ok1: "world_ok w1" and p1: "?p < length (wClients w1)" and conn1: "conn < length (wClients w1)"
      using w1 p(2) conn by (simp_all add: keeps_ok_def)
    have c: "inventory_ok (client_of w1 ?p)" using ok1 p1 by (rule world_ok_inventory)
    have "defined (combine ?i ?j ?k (client_of w1 ?p) (wRng w1))"
      using combine_spec [OF c ijk] combine_refused [OF c ijk] by (auto simp: defined_def)
    moreover have "defined (send_inventory conn ?p (set_client ?p c' (w1\<lparr>wRng := rng\<rparr>)))"
      if "combine ?i ?j ?k (client_of w1 ?p) (wRng w1) = Inr (Some (c', rng))" for c' rng
      using set_client_world_ok [of "w1\<lparr>wRng := rng\<rparr>" ?p c'] ok1 p1 conn1 combine_keeps [OF c that]
      by (intro send_inventory_defined) simp_all
    ultimately show ?thesis using send_inventory_defined [OF ok1 conn1 p1]
      by (auto simp: defined_rbind defined_def [of "combine _ _ _ _ _"] split: option.split)
  qed
  have "\<exists>w1. (if b then send_inventory conn ?p w else Inr w) = Inr w1 \<and> keeps_ok w w1" for b
    using send_inventory_defined [OF ok conn p(2)] keeps_ok_refl [OF ok] postD [OF send_keeps(3)]
    by (auto simp: defined_def)
  then obtain w1 where w1: "(if b then send_inventory conn ?p w else Inr w) = Inr (w1 b)" "keeps_ok w (w1 b)" for b
    by metis
  show ?thesis
    by (cases "room_status ?p w")
      (simp_all only: request_combination_item_def p(1) rbind_simps option.case defined_Inr w1(1) rest [OF w1(2)])
qed

section \<open>Matching\<close>

lemma connect_users_defined:
  assumes "\<forall>c \<in> set cs. length (clName c) = 11 \<and> clName c ! 10 = 0"
  shows "\<exists>us. connect_users cs = Inr us \<and> length us = length cs \<and> (\<forall>u \<in> set us. length (uiName u) = 11)"
  using assms
proof (induction cs)
  case Nil
  then show ?case by simp
next
  case (Cons c cs)
  have fn: "xs ! n = 0 \<Longrightarrow> n < length xs \<Longrightarrow> \<exists>m \<le> n. first_null xs = Some m" for xs :: "u16 list" and n
  proof (induction xs arbitrary: n)
    case Nil
    then show ?case by simp
  next
    case (Cons x xs)
    then show ?case
    proof (cases n)
      case (Suc k)
      then obtain m where "m \<le> k" "first_null xs = Some m" using Cons by auto
      then show ?thesis using Suc by (cases "x = 0") auto
    qed auto
  qed
  obtain m where "first_null (clName c) = Some m" "m \<le> 10"
    using fn [of "clName c" 10] Cons.prems by auto
  then have "wcscpy (replicate MAX_USER_NAME_LENGTH 0) (clName c) =
      Inr (take (Suc m) (clName c) @ drop (Suc m) (replicate 11 0))" by (simp add: wcscpy_def)
  then show ?case using Cons \<open>m \<le> 10\<close> by auto
qed

lemma ConnectRoom_defined:
  assumes "world_ok w" and "\<forall>p \<in> set ps. p < length (wClients w)" and "length ps \<le> MAX_ROOM_PLAYER"
  shows "\<exists>pkt. sc_ConnectRoomPacket (map (client_of w) ps) = Inr pkt \<and> packet_ok pkt"
proof -
  have "\<forall>c \<in> set (map (client_of w) ps). length (clName c) = 11 \<and> clName c ! 10 = 0"
    using world_ok_client [OF assms(1)] assms(2) by (simp add: client_ok_def)
  then obtain us where "connect_users (map (client_of w) ps) = Inr us" "length us = length ps"
    "\<forall>u \<in> set us. length (uiName u) = 11" using connect_users_defined [of "map (client_of w) ps"] by auto
  then show ?thesis using assms(3) by (auto simp: sc_ConnectRoomPacket_def list_all_iff)
qed

lemma take_name_defined:
  assumes "can_match buf w" and "client_ok n p c"
  shows "defined (take_name buf c)"
  using assms by (auto simp: can_match_def take_name_def defined_rbind wcscpy_def client_ok_def split: option.splits)

text \<open>With a free room, the eight clients that leave the queue are its members afterwards.\<close>

lemma TryCreate_full:
  assumes ok: "world_ok w" and len: "MAX_ROOM_PLAYER \<le> length (queue_list (wQueue w))"
    and free: "find_unused (wRooms w) = Some i"
  shows "\<exists>w'. TryCreateRoomOrNullPtr w = Inr (Some i, w') \<and> keeps_ok w w' \<and>
    rmClients (room_of w' i) = take MAX_ROOM_PLAYER (queue_list (wQueue w)) \<and>
    queue_list (wQueue w') = drop MAX_ROOM_PLAYER (queue_list (wQueue w))"
proof -
  let ?ps = "take MAX_ROOM_PLAYER (queue_list (wQueue w))"
  obtain q where q: "TakeRoomClients (wQueue w) = Inr (Some ?ps, q)"
    "queue_list q = drop MAX_ROOM_PLAYER (queue_list (wQueue w))"
    using sq.take_members [of "wQueue w"] ok len by (auto simp: world_ok_def)
  obtain w1 where g: "GetUnUsedRoom w = (i, w1)" "room_of w1 i = AddOpenCount ((room_of w i)\<lparr>rmIsRun := True\<rparr>)"
    "i < length (wRooms w1)"
    using find_unused_Some [OF free] free by (simp add: GetUnUsedRoom_def Let_def room_of_set_room)
  have "room_ok (length (wClients w)) (room_of w i)"
    using world_ok_room [OF ok] find_unused_Some [OF free] by blast
  then have e: "rmClients (room_of w i) = []" "rmSize (room_of w i) = 0"
    using find_unused_Some [OF free] by (auto simp: room_ok_def)
  have "defined (BattleManager_SetClients (client_of w1) ?ps)"
    using len by (simp add: BattleManager_SetClients_def)
  then obtain w2 where w2: "World_AddClients i ?ps w1 = Inr w2" "rmClients (room_of w2 i) = ?ps"
    using e g(2,3)
    by (auto simp: World_AddClients_def Room_AddClients_def AddOpenCount_def defined_def room_of_set_room)
  have "TryCreateRoomOrNullPtr w = Inr (Some i, w2\<lparr>wQueue := q\<rparr>)"
    using q(1) g(1) w2(1) by (simp add: TryCreateRoomOrNullPtr_def)
  then show ?thesis using TryCreate_ok [OF ok] w2(2) q(2) by fastforce
qed

lemma start_matching_defined:
  assumes ok: "world_ok w" and conn: "conn < length (wClients w)"
    and cm: "clRoomPtr (client_of w conn) \<noteq> None \<or> can_match buf w"
  shows "defined (start_matching conn buf w)"
proof (cases "clRoomPtr (client_of w conn) \<noteq> None")
  case True
  then show ?thesis by (simp add: start_matching_def)
next
  case False
  then have cm: "can_match buf w" using cm by simp
  have c: "client_ok (length (wRooms w)) conn (client_of w conn)" using ok conn by (rule world_ok_client)
  obtain c1 where c1: "take_name buf (client_of w conn) = Inr c1"
    using take_name_defined [OF cm c] by (auto simp: defined_def)
  define w1 where "w1 = set_client conn c1 w"
  have w1: "world_ok w1" unfolding w1_def
    by (rule world_ok_set_client [OF ok conn postD [OF take_name_client_ok [OF c] c1]])
  obtain q where q: "AddClient (wQueue w) conn = Inr q" "queue_good q"
    "queue_list q = queue_list (wQueue w) @ [conn]"
    using sq.enq_members [of "wQueue w" conn] ok by (auto simp: world_ok_def)
  define w2 where "w2 = w1\<lparr>wQueue := q\<rparr>"
  have mem: "\<forall>p \<in> set (queue_list (wQueue w)). p < length (wClients w)" using ok by (simp add: world_ok_def)
  then have w2: "world_ok w2" unfolding w2_def
    using w1 q conn by (intro world_ok_queue) (auto simp: w1_def)
  have run: "start_matching conn buf w = rbind (TryCreateRoomOrNullPtr w2) (\<lambda>(room, w3). case room of
      None \<Rightarrow> Inr w3 | Some i \<Rightarrow>
        rbind (sc_ConnectRoomPacket (map (client_of w3) (rmClients (room_of w3 i)))) (\<lambda>pkt.
          rbind (SendStreamToAllClients i [SetChoiceCharacterTime (of_nat CHOICE_CHARACTER_TIME), pkt] w3)
            (\<lambda>w4. Inr (w4\<lparr>wThreads := wThreads w4 @ [i]\<rparr>))))"
    using False c1 q(1) by (simp add: start_matching_def modify_client_def w2_def w1_def)
  show ?thesis
  proof (cases "length (queue_list (wQueue w)) < MAX_ROOM_PLAYER - 1")
    case True
    then have "length (queue_list (wQueue w2)) < MAX_ROOM_PLAYER" using q(3) by (simp add: w2_def)
    then have "TakeRoomClients (wQueue w2) = Inr (None, wQueue w2)"
      using sq.take_few w2 by (simp add: world_ok_def)
    then show ?thesis by (simp add: run TryCreateRoomOrNullPtr_def)
  next
    case full: False
    then obtain i where i: "find_unused (wRooms w2) = Some i"
      using cm by (auto simp: can_match_def w2_def w1_def)
    have "MAX_ROOM_PLAYER \<le> length (queue_list (wQueue w2))" using full q(3) by (simp add: w2_def)
    then obtain w3 where w3: "TryCreateRoomOrNullPtr w2 = Inr (Some i, w3)" "keeps_ok w2 w3"
      "rmClients (room_of w3 i) = take MAX_ROOM_PLAYER (queue_list (wQueue w2))"
      using TryCreate_full [OF w2 _ i] by blast
    have ok3: "world_ok w3" and i3: "i < length (wRooms w3)"
      using w3(2) find_unused_Some [OF i] by (simp_all add: keeps_ok_def)
    have "\<forall>p \<in> set (rmClients (room_of w3 i)). p < length (wClients w3)"
      using world_ok_members [OF ok3 i3] by blast
    then obtain pkt where pkt: "sc_ConnectRoomPacket (map (client_of w3) (rmClients (room_of w3 i))) = Inr pkt"
      "packet_ok pkt" using ConnectRoom_defined [OF ok3] w3(3) by fastforce
    have "length (stream [SetChoiceCharacterTime (of_nat CHOICE_CHARACTER_TIME), pkt]) \<le> MAX_BUF_SIZE"
      using packet_sizeof_bounds [of pkt] pkt(2) by (simp add: stream_def length_Packet_Write)
    then have "defined (SendStreamToAllClients i [SetChoiceCharacterTime (of_nat CHOICE_CHARACTER_TIME), pkt] w3)"
      unfolding SendStreamToAllClients_def using SendToAll_ok [OF ok3 i3] by simp
    then show ?thesis by (auto simp: run w3(1) pkt(1) defined_rbind) (auto simp: defined_def)
  qed
qed

section \<open>The dispatch\<close>

lemma notification_defined:
  assumes ok: "world_ok w" and nc: "names_client buf w" and buf: "length buf = MAX_PACKET_SIZE" "rd_u16 buf 0 \<le> MAX_PACKET_SIZE"
    and t: "of_num notification_types (rd_u8 buf 7) = Some t" "t \<noteq> EffectCreepItem"
  shows "defined (notification buf w)"
proof -
  let ?p = "nat (rd_i32 buf 3)"
  have p: "packet_client buf w = Inr ?p" "?p < length (wClients w)" using names_client_ok [OF nc] by auto
  have ch: "defined (choice_character ?p buf w)"
  proof -
    have "keeps_ok w (set_client ?p ((client_of w ?p)\<lparr>clIsChoiceCharacter := True\<rparr>) w)"
      by (rule keeps_ok_set [OF keeps_ok_refl [OF ok] p(2)], rule client_ok_cong [OF world_ok_client [OF ok p(2)]])
        simp_all
    then have "defined (ForwardInAllRoomClients ?p buf
        (set_client ?p ((client_of w ?p)\<lparr>clIsChoiceCharacter := True\<rparr>) w))"
      using Forward_defined [OF _ _ buf] p(2) by (simp add: keeps_ok_def)
    then show ?thesis by (simp add: choice_character_def modify_client_def)
  qed
  have ticket: "defined (use_ticket k ?p w)" for k
  proof (cases "room_status ?p w \<noteq> Some St_ReadyStage \<or> TicketCount k (client_of w ?p) = 0")
    case True
    then show ?thesis using use_ticket_refused [OF ok p(2)] by simp
  next
    case False
    then obtain i where "clRoomPtr (client_of w ?p) = Some i" "rmCurRoomStatusType (room_of w i) = St_ReadyStage"
      by (auto simp: room_status_def)
    then show ?thesis using use_ticket_spec [OF ok p(2)] False by (fastforce simp: defined_def)
  qed
  show ?thesis using ch ticket t
    by (cases t) (simp_all add: notification_def p(1) connect_check_def modify_client_def)
qed

lemma change_character_defined:
  assumes ok: "world_ok w" and conn: "conn < length (wClients w)" and nc: "names_client buf w"
    and buf: "length buf = MAX_PACKET_SIZE" "rd_u16 buf 0 \<le> MAX_PACKET_SIZE"
  shows "defined (change_character conn buf w)"
proof -
  let ?w1 = "set_client conn ((client_of w conn)\<lparr>clCharacterType := rd_u8 buf 7\<rparr>) w"
  have "keeps_ok w ?w1"
    by (rule keeps_ok_set [OF keeps_ok_refl [OF ok] conn], rule client_ok_cong [OF world_ok_client [OF ok conn]])
      simp_all
  then have "defined (ForwardInAllRoomClients conn buf ?w1)"
    using Forward_defined [OF _ _ buf] conn by (simp add: keeps_ok_def)
  then show ?thesis using names_client_ok [OF nc] by (simp add: change_character_def modify_client_def)
qed

lemma ProcessPacket_defined:
  assumes ok: "world_ok w" and conn: "conn < length (wClients w)" and buf: "length buf = MAX_PACKET_SIZE"
    and r: "in_range conn buf w"
  shows "defined (ProcessPacket conn buf w)"
proof (cases "rd_type buf")
  case None
  then show ?thesis by (simp add: ProcessPacket_def)
next
  case (Some t)
  have emo: "defined (use_emoticon conn buf w)" if "rd_u16 buf 0 \<le> MAX_PACKET_SIZE"
    using Forward_defined [OF ok conn buf that] by (simp add: use_emoticon_def)
  note defs = start_matching_defined [OF ok conn] change_character_defined [OF ok conn _ buf]
    change_item_slot_defined [OF ok conn] drop_item_defined [OF ok conn]
    request_combination_defined [OF ok conn] request_upgrade_defined [OF ok conn]
  show ?thesis
  proof (cases "t = pt_cs_sc_notification")
    case True
    then show ?thesis using r Some notification_defined [OF ok _ buf]
      by (auto simp: ProcessPacket_def in_range_def)
  next
    case False
    then show ?thesis using r Some defs emo
      by (cases t) (simp_all add: ProcessPacket_def in_range_def)
  qed
qed

section \<open>The receive loop\<close>

lemma copy_into_length: "copy_into dst d src s n = Inr r \<Longrightarrow> length r = length dst"
  by (auto simp: copy_into_def min_def nat_add_distrib split: if_splits)

lemma with_prev_keeps: "keeps_ok w v \<Longrightarrow> c < length (wClients v) \<Longrightarrow> keeps_ok w (with_prev c n v)"
  unfolding with_prev_def
  by (intro keeps_ok_set) (auto intro: client_ok_cong dest: keeps_client)

lemma with_packet_buf_keeps:
  "keeps_ok w v \<Longrightarrow> c < length (wClients v) \<Longrightarrow> length b = MAX_PACKET_SIZE \<Longrightarrow>
     keeps_ok w (with_packet_buf c b v)"
  unfolding with_packet_buf_def
  by (intro keeps_ok_set)
    (auto dest!: keeps_client simp: client_ok_def inventory_ok_def inv_shape_def Slots_def)

lemma construct_step_keeps:
  assumes ok: "keeps_ok w v" and c: "c < length (wClients v)"
    and st: "construct_step ProcessPacket c p restByte packetSize v = Inr (p', r', s', v')"
  shows "keeps_ok w v'"
proof -
  have pb: "length (clPacketBuf (client_of v c)) = MAX_PACKET_SIZE" using keeps_client [OF ok c] by (simp add: client_ok_def)
  have proc: "keeps_ok w (with_prev c 0 w1)"
    if b: "copy_into (clPacketBuf (client_of v c)) d io x n = Inr b" and w1: "ProcessPacket c b (with_packet_buf c b v) = Inr w1"
    for b d io x n w1
  proof -
    have k: "keeps_ok w (with_packet_buf c b v)"
      using with_packet_buf_keeps [OF ok c] copy_into_length [OF b] pb by simp
    then have "keeps_ok (with_packet_buf c b v) w1"
      using postD [OF ProcessPacket_keeps w1] c by (simp add: keeps_ok_def buffer_simps)
    then have "keeps_ok w w1" "c < length (wClients w1)" using k c by (simp_all add: keeps_ok_def buffer_simps)
    then show ?thesis by (rule with_prev_keeps)
  qed
  have keep: "keeps_ok w (with_prev c m (with_packet_buf c b v))"
    if "copy_into (clPacketBuf (client_of v c)) d io x n = Inr b" for b d io x n m
    using with_prev_keeps [OF with_packet_buf_keeps [OF ok c]] copy_into_length [OF that] pb c by (simp add: buffer_simps)
  show ?thesis using st proc keep
    by (auto simp: construct_step_def Let_def rbind_Inr_iff split: if_splits)
qed

lemma construct_loop_keeps:
  assumes "construct_loop ProcessPacket c p restByte packetSize v = Some (Inr v')"
    and "keeps_ok w v" and "c < length (wClients v)"
  shows "keeps_ok w v'"
proof -
  have "process = ProcessPacket \<longrightarrow> keeps_ok w v \<longrightarrow> c < length (wClients v) \<longrightarrow> (\<forall>v'. y = Inr v' \<longrightarrow> keeps_ok w v')"
    if "construct_loop process c p restByte packetSize v = Some y" for process y
  proof (rule construct_loop.raw_induct [where P = "\<lambda>process c p r s v y. process = ProcessPacket \<longrightarrow>
      keeps_ok w v \<longrightarrow> c < length (wClients v) \<longrightarrow> (\<forall>v'. y = Inr v' \<longrightarrow> keeps_ok w v')", OF _ that])
    fix f process c p restByte packetSize v y
    assume ih: "\<And>process c p r s v y. f process c p r s v = Some y \<Longrightarrow> process = ProcessPacket \<longrightarrow>
        keeps_ok w v \<longrightarrow> c < length (wClients v) \<longrightarrow> (\<forall>v'. y = Inr v' \<longrightarrow> keeps_ok w v')"
      and body: "(if (0 :: int) < restByte
        then case construct_step process c p restByte packetSize v of
               Inl e \<Rightarrow> Some (Inl e)
             | Inr (p', rest', size', w') \<Rightarrow> f process c p' rest' size' w'
        else Some (Inr v)) = Some y"
    show "process = ProcessPacket \<longrightarrow> keeps_ok w v \<longrightarrow> c < length (wClients v) \<longrightarrow> (\<forall>v'. y = Inr v' \<longrightarrow> keeps_ok w v')"
    proof (intro impI)
      assume pr: "process = ProcessPacket" and ok: "keeps_ok w v" and c: "c < length (wClients v)"
      show "\<forall>v'. y = Inr v' \<longrightarrow> keeps_ok w v'"
      proof (cases "0 < restByte")
        case False
        then show ?thesis using body ok by auto
      next
        case True
        show ?thesis
        proof (cases "construct_step process c p restByte packetSize v")
          case (Inl e)
          then show ?thesis using True body by auto
        next
          case (Inr x)
          obtain p' r' s' w1 where x: "x = (p', r', s', w1)" by (cases x)
          have k: "keeps_ok w w1" using construct_step_keeps [OF ok c] Inr x pr by simp
          moreover have "c < length (wClients w1)" using k ok c by (simp add: keeps_ok_def)
          ultimately show ?thesis using ih [of process c p' r' s' w1 y] True body Inr x pr by simp
        qed
      qed
    qed
  qed
  then show ?thesis using assms by blast
qed

lemma receive_keeps:
  assumes "world_ok w" and "c < length (wClients w)" and "receive ProcessPacket c bytes w = Some (Inr w')"
  shows "keeps_ok w w'"
proof -
  define w0 where "w0 = set_client c ((client_of w c)\<lparr>clIoBuf := bytes @ drop (length bytes) (clIoBuf (client_of w c))\<rparr>) w"
  have "keeps_ok w w0" unfolding w0_def
    by (rule keeps_ok_set [OF keeps_ok_refl [OF assms(1)] assms(2)], rule client_ok_cong [OF world_ok_client [OF assms(1,2)]])
      simp_all
  moreover have "c < length (wClients w0)" using assms(2) by (simp add: w0_def)
  ultimately show ?thesis
    using assms(3) construct_loop_keeps
    by (auto simp: receive_def PacketConstruct_def w0_def [symmetric] split: if_splits sum.splits)
qed

end
