(* ===== verification/Packet_Codec.thy ===== *)
theory Packet_Codec
  imports World
begin

text \<open>
  The bytes of a packet determine the packet, and the bytes of a stream of packets the packets: the
  client can read back what the server writes.
\<close>

section \<open>Fields\<close>

lemma int_bytes_inj: "in_i32 n \<Longrightarrow> in_i32 m \<Longrightarrow> int_bytes 4 n = int_bytes 4 m \<Longrightarrow> n = m"
  by (metis bytes_sint32_int_bytes)

lemma word16_bytes_inj [simp]: "word16_bytes v = word16_bytes w \<longleftrightarrow> v = w"
proof
  assume "word16_bytes v = word16_bytes w"
  then have "bytes_uint (int_bytes 2 (uint v)) = bytes_uint (int_bytes 2 (uint w))" by (simp add: word16_bytes_def)
  then have "uint v = uint w"
    using uint_lt2p [of v] uint_lt2p [of w] by (simp add: bytes_uint_int_bytes)
  then show "v = w" by (metis word_of_int_uint)
qed simp

lemma u32_bytes_inj: "int_bytes 4 (uint (v :: u32)) = int_bytes 4 (uint w) \<Longrightarrow> v = w"
proof -
  assume "int_bytes 4 (uint v) = int_bytes 4 (uint w)"
  then have "bytes_uint (int_bytes 4 (uint v)) = bytes_uint (int_bytes 4 (uint w))" by simp
  then have "uint v = uint w"
    using uint_lt2p [of v] uint_lt2p [of w] by (simp add: bytes_uint_int_bytes)
  then show "v = w" by (metis word_of_int_uint)
qed

lemma bool_byte_inj [simp]: "bool_byte a = bool_byte b \<longleftrightarrow> a = b"
  by (auto simp: bool_byte_def split: if_splits)

lemma slot_bytes_inj [simp]: "slot_bytes s = slot_bytes t \<longleftrightarrow> s = t"
  by (cases s; cases t) (auto simp: slot_bytes_def)

text \<open>Lists of fields of one width.\<close>

lemma concat_map_inj:
  assumes "length xs = length ys" and "\<And>x. x \<in> set xs \<union> set ys \<Longrightarrow> length (f x) = k"
    and "\<And>x y. x \<in> set xs \<Longrightarrow> y \<in> set ys \<Longrightarrow> f x = f y \<Longrightarrow> x = y"
    and "concat (map f xs) = concat (map f ys)"
  shows "xs = ys"
  using assms
proof (induction xs ys rule: list_induct2)
  case Nil
  then show ?case by simp
next
  case (Cons x xs y ys)
  have "length (f x) = length (f y)" using Cons.prems(1) by simp
  then have "f x = f y \<and> concat (map f xs) = concat (map f ys)" using Cons.prems(3) by simp
  moreover have "xs = ys" using Cons.IH Cons.prems calculation by auto
  ultimately show ?case using Cons.prems(2) [of x y] by simp
qed

text \<open>The signed fields of a packet; a packet of the server holds 32-bit values there.\<close>

fun packet_ints :: "packet \<Rightarrow> int list" where
  "packet_ints (StartMatching n _) = [n]"
| "packet_ints (ConnectRoom us) = map uiNetworkID us"
| "packet_ints (AddNewItem n _ _) = [n]"
| "packet_ints (ChangeItemSlot n _ _) = [n]"
| "packet_ints (UpgradeItem n _ _) = [n]"
| "packet_ints (ChangeCharacter n _) = [n]"
| "packet_ints (BattleInfo ops qs) = ops @ map iqNetworkID qs"
| "packet_ints (UseEmoticon n _) = [n]"
| "packet_ints (Notification n _) = [n]"
| "packet_ints (UpdateCharacterInfo n _ _ _ _) = [n]"
| "packet_ints (DropItem n _) = [n]"
| "packet_ints (RequestCombinationItem n _ _ _) = [n]"
| "packet_ints (SetItemTicket n _ _) = [n]"
| "packet_ints (ActiveItem n _) = [n]"
| "packet_ints (BattleOpponents ops) = ops"
| "packet_ints (SetHamburgerType n _ _) = [n]"
| "packet_ints (MagicStickInfo n _) = [n]"
| "packet_ints (RequestUpgradeItem n _ _) = [n]"
| "packet_ints (DoctorToolInfo n _ _ _) = [n]"
| "packet_ints (BattleAvatarInfo p) = [paNetworkID p]"
| "packet_ints (InventoryInfo n _ _) = [n]"
| "packet_ints _ = []"

definition ints_ok :: "packet \<Rightarrow> bool" where
  "ints_ok p \<longleftrightarrow> list_all in_i32 (packet_ints p)"

section \<open>The bytes of the structures\<close>

lemma user_bytes_inj:
  assumes "in_i32 (uiNetworkID u)" and "in_i32 (uiNetworkID v)"
    and "length (uiName u) = length (uiName v)" and "user_bytes u = user_bytes v"
  shows "u = v"
proof -
  have "uiNetworkID u = uiNetworkID v" and "concat (map word16_bytes (uiName u)) = concat (map word16_bytes (uiName v))"
    using assms int_bytes_inj by (auto simp: user_bytes_def simp del: int_bytes.simps)
  moreover from this(2) have "uiName u = uiName v"
    by (intro concat_map_inj [of _ _ word16_bytes 2]) (simp_all add: assms(3))
  ultimately show ?thesis by (cases u; cases v) simp
qed

lemma avatar_info_inj:
  assumes "in_i32 (paNetworkID p)" and "in_i32 (paNetworkID q)" and "avatar_info_bytes p = avatar_info_bytes q"
  shows "p = q"
proof -
  have "paNetworkID p = paNetworkID q" "paDefensive p = paDefensive q"
    "paMaxHp p = paMaxHp q" "paHp p = paHp q" "paBleeding p = paBleeding q"
    using assms int_bytes_inj u32_bytes_inj by (auto simp: avatar_info_bytes_def simp del: int_bytes.simps)
  then show ?thesis
    using assms(3) by (cases p; cases q) (simp add: avatar_info_bytes_def del: int_bytes.simps)
qed

lemma enum_bytes_inj:
  "num_of notification_types s = num_of notification_types t \<Longrightarrow> s = t"
proof -
  assume a: "num_of notification_types s = num_of notification_types t"
  have len: "length notification_types < 256" by (simp add: notification_types_def)
  have "Some s = of_num notification_types (num_of notification_types s)"
    by (rule of_num_num_of [OF notification_types_all len, symmetric])
  also have "\<dots> = Some t" unfolding a by (rule of_num_num_of [OF notification_types_all len])
  finally show "s = t" by simp
qed

lemma ticket_byte_inj: "(of_nat (ticket_num s) :: u8) = of_nat (ticket_num t) \<Longrightarrow> s = t"
  by (cases s; cases t; simp)

lemma hamburger_byte_inj: "(of_nat (hamburger_num f) :: u8) = of_nat (hamburger_num g) \<Longrightarrow> f = g"
  by (cases f; cases g; simp)

lemma creep_byte_inj: "(of_nat (creep_num c) :: u8) = of_nat (creep_num d) \<Longrightarrow> c = d"
  by (cases c; cases d; simp)

lemma slots_inj:
  assumes "slots_ok us uns" and "slots_ok vs vns"
    and "concat (map slot_bytes us) @ concat (map slot_bytes uns) = concat (map slot_bytes vs) @ concat (map slot_bytes vns)"
  shows "us = vs \<and> uns = vns"
proof -
  have len: "length (concat (map slot_bytes us)) = length (concat (map slot_bytes vs))"
    using assms(1,2) by (simp add: length_concat_const [of _ _ 2] slots_ok_def)
  have "concat (map slot_bytes us) = concat (map slot_bytes vs)" "concat (map slot_bytes uns) = concat (map slot_bytes vns)"
    using assms(3) len by simp_all
  then show ?thesis using assms(1,2)
    by (auto simp: slots_ok_def intro!: concat_map_inj [of _ _ slot_bytes 2])
qed

lemma queues_inj:
  fixes qs rs :: "ItemQueueInfo list"
  assumes "list_all (\<lambda>q. length (iqItemQueue q) = 60) qs" "list_all (\<lambda>q. length (iqItemQueue q) = 60) rs"
    and "length qs = length rs" and "list_all in_i32 (map iqNetworkID qs)" "list_all in_i32 (map iqNetworkID rs)"
    and "concat (map (\<lambda>q. int_bytes 4 (iqNetworkID q) @ iqItemQueue q) qs) =
      concat (map (\<lambda>q. int_bytes 4 (iqNetworkID q) @ iqItemQueue q) rs)"
  shows "qs = rs"
proof (rule concat_map_inj [OF assms(3) _ _ assms(6)])
  fix x y assume "x \<in> set qs" "y \<in> set rs"
    and e: "int_bytes 4 (iqNetworkID x) @ iqItemQueue x = int_bytes 4 (iqNetworkID y) @ iqItemQueue y"
  then have "in_i32 (iqNetworkID x)" "in_i32 (iqNetworkID y)" using assms(4,5) by (simp_all add: list_all_iff)
  then have "iqNetworkID x = iqNetworkID y" "iqItemQueue x = iqItemQueue y"
    using e int_bytes_inj by (auto simp del: int_bytes.simps)
  then show "x = y" by (cases x; cases y) simp
qed (use assms(1,2) in \<open>auto simp: list_all_iff\<close>)

lemma ints_inj:
  assumes "length xs = length ys" and "list_all in_i32 xs" and "list_all in_i32 ys"
    and "concat (map (int_bytes 4) xs) = concat (map (int_bytes 4) ys)"
  shows "xs = ys"
  by (rule concat_map_inj [OF assms(1) _ _ assms(4)])
    (use assms(2,3) int_bytes_inj in \<open>auto simp: list_all_iff simp del: int_bytes.simps\<close>)

lemma users_inj:
  assumes "length us = length vs" and "list_all in_i32 (map uiNetworkID us)" "list_all in_i32 (map uiNetworkID vs)"
    and "list_all (\<lambda>u. length (uiName u) = 11) us" "list_all (\<lambda>u. length (uiName u) = 11) vs"
    and "concat (map user_bytes us) = concat (map user_bytes vs)"
  shows "us = vs"
  by (rule concat_map_inj [OF assms(1) _ _ assms(6)])
    (use assms(2-5) in \<open>auto simp: list_all_iff length_user_bytes intro: user_bytes_inj\<close>)

section \<open>Packets\<close>

lemmas body_inj = int_bytes_inj u32_bytes_inj enum_bytes_inj ticket_byte_inj hamburger_byte_inj creep_byte_inj
  avatar_info_inj slots_inj ints_inj users_inj queues_inj

lemma packet_body_inj:
  assumes "packet_ok p" and "packet_ok q" and "ints_ok p" and "ints_ok q"
    and "packet_type p = packet_type q" and "packet_body p = packet_body q"
  shows "p = q"
proof (cases p)
  case (StartMatching n nm)
  then obtain m nm' where q: "q = StartMatching m nm'" using assms(5) by (cases q) auto
  have "nm = nm'" using assms StartMatching q
    by (intro concat_map_inj [of _ _ word16_bytes 2]) (auto simp del: int_bytes.simps)
  then show ?thesis using assms StartMatching q int_bytes_inj by (auto simp: ints_ok_def simp del: int_bytes.simps)
next
  case (BattleInfo ops qs)
  then obtain ops' qs' where q: "q = BattleInfo ops' qs'" using assms(5) by (cases q) auto
  have "length (concat (map (int_bytes 4) ops)) = length (concat (map (int_bytes 4) ops'))"
    using assms(1,2) BattleInfo q by (simp add: length_concat_const [of _ _ 4])
  then show ?thesis using assms BattleInfo q
    by (auto simp: ints_ok_def simp del: int_bytes.simps intro: ints_inj queues_inj)
next
  case (UpdateCharacterInfo n hp ahp us uns)
  then show ?thesis using assms slots_inj int_bytes_inj
    by (cases q) (auto simp: ints_ok_def simp del: int_bytes.simps)
next
  case (InventoryInfo n us uns)
  then show ?thesis using assms slots_inj int_bytes_inj
    by (cases q) (auto simp: ints_ok_def simp del: int_bytes.simps)
next
  case (ConnectRoom us)
  then show ?thesis using assms by (cases q) (auto simp: ints_ok_def intro: users_inj)
next
  case (BattleOpponents ops)
  then show ?thesis using assms by (cases q) (auto simp: ints_ok_def simp del: int_bytes.simps intro: ints_inj)
next
  case (BattleAvatarInfo b)
  then show ?thesis using assms by (cases q) (auto simp: ints_ok_def intro: avatar_info_inj)
qed (use assms int_bytes_inj enum_bytes_inj ticket_byte_inj hamburger_byte_inj creep_byte_inj in
    \<open>cases q; auto simp: ints_ok_def simp del: int_bytes.simps\<close>)+

lemma Packet_Write_prefix:
  assumes "packet_ok p" and "packet_ok q" and "ints_ok p" and "ints_ok q"
    and "Packet_Write p @ s = Packet_Write q @ t"
  shows "p = q \<and> s = t"
proof -
  have "packet_sizeof p = packet_sizeof q" using assms(1,2,5) rd_size by metis
  then have len: "length (Packet_Write p) = length (Packet_Write q)"
    by (simp add: length_Packet_Write assms(1,2))
  have ty: "packet_type p = packet_type q" using rd_type_Write [of p s] rd_type_Write [of q t] assms(5) by simp
  have w: "Packet_Write p = Packet_Write q" "s = t" using assms(5) len by simp_all
  then have "packet_body p = packet_body q" by (simp add: Packet_Write_def del: int_bytes.simps)
  then show ?thesis using packet_body_inj [OF assms(1-4) ty] w(2) by simp
qed

lemma stream_inj:
  assumes "\<forall>p \<in> set ps \<union> set qs. packet_ok p \<and> ints_ok p" and "stream ps = stream qs"
  shows "ps = qs"
  using assms
proof (induction ps arbitrary: qs)
  case Nil
  then show ?case
  proof (cases qs)
    case (Cons q qs')
    then have "Packet_Write q = []" using Nil.prems(2) by (simp add: stream_def)
    then show ?thesis by (simp add: Packet_Write_def)
  qed simp
next
  case (Cons p ps)
  show ?case
  proof (cases qs)
    case Nil
    then have "Packet_Write p = []" using Cons.prems(2) by (simp add: stream_def)
    then show ?thesis by (simp add: Packet_Write_def)
  next
    case q: (Cons q qs')
    then have "Packet_Write p @ stream ps = Packet_Write q @ stream qs'" using Cons.prems(2) by (simp add: stream_def)
    then have "p = q \<and> stream ps = stream qs'" using Cons.prems(1) q by (intro Packet_Write_prefix) auto
    then show ?thesis using Cons.IH [of qs'] Cons.prems(1) q by simp
  qed
qed

end
