(* ===== verification/Component_Properties.thy ===== *)
theory Component_Properties
  imports Item_Facts Matching Server_Queue Trades Handler_Defined Packet_Codec
begin

text \<open>
  The properties of the single components: the packets, the reassembly of the byte stream, the
  inventory and its random draws, the matching queue, the drawing of opponents, the arithmetic of
  a battle and the items.  Each is followed by a witness at a concrete input.
\<close>

section \<open>Inventory\<close>

text \<open>A client for the witnesses: three items in the bag, one of them twice.\<close>

definition sample :: client where
  "sample = (Client_new 0)\<lparr>clUnUsingItems :=
     [\<lparr>mType = 1, mActivePercent = 0, mUpgrade = 0, mSlot = 6\<rparr>,
      \<lparr>mType = 1, mActivePercent = 0, mUpgrade = 0, mSlot = 7\<rparr>,
      \<lparr>mType = 8, mActivePercent = 0, mUpgrade = 0, mSlot = 8\<rparr>] @
     map (\<lambda>i. Item_new\<lparr>mSlot := of_nat (i + 9)\<rparr>) [0..<7],
     clRoomPtr := Some 0, clNormalItemTicketCount := 1\<rparr>"

lemma sample_kinds: "map kind (Slots sample) =
    [(0, 0), (0, 0), (0, 0), (0, 0), (0, 0), (0, 0), (1, 0), (1, 0), (8, 0), (0, 0), (0, 0), (0, 0),
     (0, 0), (0, 0), (0, 0), (0, 0)]"
  by code_simp

lemma sample_ok: "inventory_ok sample"
  by code_simp

lemma sample_room: "clRoomPtr sample = Some 0" "clNormalItemTicketCount sample = 1"
  by (simp_all add: sample_def)

lemma entry_of_eq: "entry_of its = (\<lambda>j. \<lparr>siIndex = int j, siItem = its ! j\<rparr>)"
  by (rule ext) (simp add: entry_of_def)

lemma item_eqI: "kind x = kind y \<Longrightarrow> place x = place y \<Longrightarrow> x = (y :: item)"
  by (cases x; cases y) (simp add: kind_def place_def)

lemma client_eqI:
  assumes "inventory_ok c" and "inventory_ok c'" and "kinds c = kinds c'" and "not_items c = not_items c'"
  shows "c = c'"
proof -
  have len: "length (Slots c) = 16" "length (Slots c') = 16" using assms(1,2) ok_length by auto
  have pl: "map place (Slots c) = map place (Slots c')" using assms(1,2) by (simp add: inventory_ok_def)
  have "Slots c ! i = Slots c' ! i" if "i < 16" for i
    using that len arg_cong [OF assms(3), of "\<lambda>xs. xs ! i"] arg_cong [OF pl, of "\<lambda>xs. xs ! i"]
    by (intro item_eqI) simp_all
  then have "Slots c = Slots c'" using len by (simp add: list_eq_iff_nth_eq)
  then have "clUsingItems c = clUsingItems c'" "clUnUsingItems c = clUnUsingItems c'"
    using assms(1,2) by (auto simp: Slots_def inventory_ok_def inv_shape_def)
  moreover have "(not_items c)\<lparr>clUsingItems := clUsingItems c, clUnUsingItems := clUnUsingItems c\<rparr> = c" for c
    by (simp add: not_items_def)
  ultimately show ?thesis using assms(4) by metis
qed

text \<open>
  C35 (swap). Exchanging two slots exchanges the kinds (type and upgrade) of their items, leaves the
  slot numbers and activation percentages where they are, and is undone by a second exchange; a
  slot number of 16 or more is out of bounds.
\<close>

theorem swap_items:
  assumes "inventory_ok c"
  shows "if unat i < 16 \<and> unat j < 16
     then \<exists>c'. SwapItem c i j = Inr c' \<and> inventory_ok c' \<and> not_items c' = not_items c \<and>
       kinds c' = (kinds c)[unat j := kinds c ! unat i, unat i := kinds c ! unat j] \<and>
       SwapItem c' i j = Inr c
     else SwapItem c i j = Inl OutOfBounds"
proof (cases "unat i < 16 \<and> unat j < 16")
  case True
  note sh = inventory_ok_shape [OF assms]
  obtain c' where c': "SwapItem c i j = Inr c'" using SwapItem_defined [OF sh] True by blast
  note ok' = SwapItem_ok [OF assms c']
  note sl = SwapItem_Slots [OF sh c']
  have len: "length (kinds c) = 16" using ok_length [OF assms] by simp
  have k: "kinds c' = (kinds c)[unat j := kinds c ! unat i, unat i := kinds c ! unat j]"
    using True len by (simp add: SwapItem_kinds [OF sh c'])
  obtain c'' where c'': "SwapItem c' i j = Inr c''" using SwapItem_defined [OF sl(2)] True by blast
  have "kinds c'' = (kinds c')[unat j := kinds c' ! unat i, unat i := kinds c' ! unat j]"
    using True ok_length [OF ok'] by (simp add: SwapItem_kinds [OF sl(2) c''])
  also have "\<dots> = kinds c" unfolding k using True len
    by (cases "unat i = unat j") (simp_all add: nth_list_update list_update_swap)
  finally have "c'' = c"
    using client_eqI [OF SwapItem_ok [OF ok' c''] assms] SwapItem_Slots(3) [OF sl(2) c''] sl(3) by simp
  then show ?thesis using True c' ok' sl(3) k c'' by simp
next
  case False
  then have "unat i < 16 \<Longrightarrow> \<not> unat j < 16" by simp
  then have "SwapItem c i j = Inl OutOfBounds"
    using ok_length [OF assms] by (cases "unat i < 16") (simp_all add: SwapItem_def look_slot [OF assms] at_idx_def)
  then show ?thesis using False by simp
qed

theorem swap_items_witness:
  "\<exists>c'. SwapItem sample 0 8 = Inr c' \<and> kinds c' ! 0 = (8, 0) \<and> SwapItem c' 0 8 = Inr sample"
  using swap_items [OF sample_ok, of 0 8] by (auto simp: sample_kinds)

text \<open>
  C36 (add). A new item enters the first free slot, the bag before the field, with upgrade 0, and
  the number of that slot is returned; a full inventory stays as it is and 16 is returned.
\<close>

theorem add_item:
  assumes "inventory_ok c" and "unat t < 46"
  shows "inventory_ok (fst (AddItem c t)) \<and> not_items (fst (AddItem c t)) = not_items c \<and>
    (case List.find (\<lambda>s. fst (kinds c ! s) = 0) ([6..<16] @ [0..<6]) of
       None \<Rightarrow> AddItem c t = (c, 16)
     | Some k \<Rightarrow> snd (AddItem c t) = of_nat k \<and> kinds (fst (AddItem c t)) = (kinds c)[k := (t, 0)])"
proof -
  note sh = inventory_ok_shape [OF assms(1)]
  have ff: "first_free c = List.find (\<lambda>s. fst (kinds c ! s) = 0) ([6..<16] @ [0..<6])"
    unfolding first_free_kinds [OF sh] by (simp only: search_order_def)
  note spec = AddItem_spec [OF sh, of t]
  have "case first_free c of None \<Rightarrow> AddItem c t = (c, 16)
     | Some k \<Rightarrow> snd (AddItem c t) = of_nat k \<and> kinds (fst (AddItem c t)) = (kinds c)[k := (t, 0)]"
  proof (cases "first_free c")
    case None
    then have "find_empty (clUnUsingItems c) = None" "find_empty (clUsingItems c) = None"
      using first_free_eq [OF sh] by (auto split: option.splits)
    then have "AddItem c t = (c, 16)" by (simp add: AddItem_def)
    then show ?thesis using None by simp
  next
    case (Some k)
    then have k: "k < 16" "mType (Slots c ! k) = 0" using first_free_Some by auto
    then have "mUpgrade (Slots c ! k) = 0" using inventory_ok_item [OF assms(1)] by (simp add: item_ok_def)
    then have "kinds (fst (AddItem c t)) = (kinds c)[k := (t, 0)]"
      using Some by (simp add: spec(2) map_update kind_def)
    then show ?thesis using Some by (simp add: spec(1) FindEmptyItemSlotIndex_eq [OF sh])
  qed
  then show ?thesis using AddItem_ok [OF assms] spec(4) by (simp add: ff)
qed

theorem add_item_witness:
  "inventory_ok (fst (AddItem sample 5)) \<and> snd (AddItem sample 5) = 9"
  using add_item [OF sample_ok, of 5] unfolding sample_kinds
  by (simp add: upt_rec)

text \<open>
  C25 (default). When nothing is equipped and the bag is not empty, the first item of each type in
  the bag moves to the field, in order, up to six; otherwise nothing happens.  No item is lost or
  made, and the call always returns.
\<close>

theorem default_equipment:
  assumes "inventory_ok c"
  shows "\<exists>b c'. TrySetDefaultUsingItem c = Inr (b, c') \<and> inventory_ok c' \<and>
     (b \<longleftrightarrow> (\<forall>t \<in> set (field_types c). t = 0) \<and> (\<exists>it \<in> set (clUnUsingItems c). mType it \<noteq> 0)) \<and>
     (if b then (let eq = take 6 (firsts (filter (\<lambda>t. t \<noteq> 0) (map mType (clUnUsingItems c))))
                 in field_types c' = eq @ replicate (6 - length eq) 0) else c' = c) \<and>
     not_items c' = not_items c \<and> mset (kinds c') = mset (kinds c)"
proof -
  obtain b c' where "TrySetDefaultUsingItem c = Inr (b, c')"
    "b \<longleftrightarrow> (\<forall>t \<in> set (field_types c). t = 0) \<and> (\<exists>it \<in> set (clUnUsingItems c). mType it \<noteq> 0)"
    "b \<longrightarrow> (let eq = take 6 (firsts (filter (\<lambda>t. t \<noteq> 0) (map mType (clUnUsingItems c))))
       in field_types c' = eq @ replicate (6 - length eq) 0)"
    "\<not> b \<longrightarrow> c' = c" "not_items c' = not_items c" "mset (kinds c') = mset (kinds c)" "inventory_ok c'"
    using TrySetDefaultUsingItem_spec [OF inventory_ok_shape [OF assms]] assms by blast
  then show ?thesis by (intro exI [of _ b] exI [of _ c']) (auto simp: Let_def)
qed

theorem default_equipment_witness:
  "\<exists>c'. TrySetDefaultUsingItem sample = Inr (True, c') \<and> field_types c' = [1, 8, 0, 0, 0, 0] \<and>
    mset (kinds c') = mset (kinds sample)"
proof -
  obtain b c' where c': "TrySetDefaultUsingItem sample = Inr (b, c')" "mset (kinds c') = mset (kinds sample)"
    "b \<longleftrightarrow> (\<forall>t \<in> set (field_types sample). t = 0) \<and> (\<exists>it \<in> set (clUnUsingItems sample). mType it \<noteq> 0)"
    "if b then (let eq = take 6 (firsts (filter (\<lambda>t. t \<noteq> 0) (map mType (clUnUsingItems sample))))
       in field_types c' = eq @ replicate (6 - length eq) 0) else c' = sample"
    using default_equipment [OF sample_ok] by blast
  have bag: "map mType (clUnUsingItems sample) = [1, 1, 8, 0, 0, 0, 0, 0, 0, 0]" by code_simp
  have "(\<forall>t \<in> set (field_types sample). t = 0) \<and> (\<exists>it \<in> set (clUnUsingItems sample). mType it \<noteq> 0)" by code_simp
  then have b using c'(3) by blast
  moreover have "(let eq = take 6 (firsts (filter (\<lambda>t. t \<noteq> 0) [1, 1, 8, 0, 0, 0, 0, 0, 0, 0 :: u8]))
      in eq @ replicate (6 - length eq) 0) = [1, 8, 0, 0, 0, 0]" by code_simp
  ultimately show ?thesis using c'(1,2,4) unfolding bag by (simp add: Let_def)
qed

text \<open>
  \<open>SetItem\<close> writes the type into a slot that exists and ignores a number above 16; the
  number 16 itself passes its guard and is out of bounds.
\<close>

theorem set_item_guard:
  assumes "inventory_ok c"
  shows "if unat i < 16 then \<exists>c'. SetItem c i t = Inr c' \<and> map mType (Slots c') = (map mType (Slots c))[unat i := t]
     else if i = 16 then SetItem c i t = Inl OutOfBounds else SetItem c i t = Inr c"
proof -
  have "i = 16 \<longleftrightarrow> unat i = 16" by (simp add: word_unat_eq_iff)
  then show ?thesis
    using SetItem_cases [OF inventory_ok_shape [OF assms], of i t] by (auto simp: map_update not_less)
qed

theorem set_item_guard_witness: "SetItem sample 16 1 = Inl OutOfBounds"
  using set_item_guard [OF sample_ok, of 16 1] by simp

section \<open>Upgrading and combining\<close>



text \<open>
  C17 (combine). Combining three items empties their slots and puts one new item, not upgraded, into
  the first free slot; its type belongs to a tier between the lowest and the highest of the three.
\<close>

theorem combine_effect:
  assumes "inventory_ok c" and "unat i < 16" "unat j < 16" "unat k < 16"
  shows "if fst (kinds c ! unat i) = 0 \<or> fst (kinds c ! unat j) = 0 \<or> fst (kinds c ! unat k) = 0
     then combine i j k c rng = Inr None
     else \<exists>c' rng' t m s. combine i j k c rng = Inr (Some (c', rng')) \<and> inventory_ok c' \<and>
       not_items c' = not_items c \<and> t \<in> set (tier_types m) \<and>
       Min {tier_at c i, tier_at c j, tier_at c k} \<le> m \<and> m \<le> Max {tier_at c i, tier_at c j, tier_at c k} \<and>
       (let emptied = (kinds c)[unat i := (0, 0), unat j := (0, 0), unat k := (0, 0)]
        in List.find (\<lambda>s. fst (emptied ! s) = 0) search_order = Some s \<and> kinds c' = emptied[s := (t, 0)])"
proof -
  have fk: "fst (kinds c ! unat x) = mType (Slots c ! unat x)" if "unat x < 16" for x
    using that ok_length [OF assms(1)] by (simp add: kind_def)
  show ?thesis
    using combine_spec [OF assms, of rng] combine_refused [OF assms, of rng] fk [OF assms(2)] fk [OF assms(3)]
      fk [OF assms(4)]
    by (auto simp: min.assoc max.assoc max.commute max.left_commute)
qed

theorem combine_effect_witness:
  "\<exists>c' rng' t. combine 6 7 8 sample [] = Inr (Some (c', rng')) \<and> kinds c' ! 7 = (0, 0) \<and> kinds c' ! 6 = (t, 0)"
  using combine_effect [OF sample_ok, of 6 7 8 "[]"]
  by (auto simp: sample_kinds Let_def search_order_def upt_rec)

lemma length_filter_update:
  "n < length xs \<Longrightarrow> length (filter P (xs[n := x])) + (if P (xs ! n) then 1 else 0) =
     length (filter P xs) + (if P x then 1 else 0)"
proof (induction xs arbitrary: n)
  case Nil
  then show ?case by simp
next
  case (Cons y ys)
  show ?case
  proof (cases n)
    case 0
    then show ?thesis by simp
  next
    case (Suc m)
    then show ?thesis using Cons.IH [of m] Cons.prems by (cases "P y") simp_all
  qed
qed

text \<open>
  C38 (thrice). The three slot numbers of a combination are not checked to be different: naming one
  slot three times empties this slot only and puts a new item of the same tier, not upgraded, into the first
  free slot, so that one item is paid for it and the number of items does not go down.
\<close>

theorem combine_one_slot:
  assumes "inventory_ok c" and "unat i < 16" and "fst (kinds c ! unat i) \<noteq> 0"
  shows "\<exists>c' rng' t s. combine i i i c rng = Inr (Some (c', rng')) \<and> not_items c' = not_items c \<and>
    t \<in> set (tier_types (tier_at c i)) \<and> t \<noteq> 0 \<and>
    List.find (\<lambda>s. fst ((kinds c)[unat i := (0, 0)] ! s) = 0) search_order = Some s \<and>
    kinds c' = (kinds c)[unat i := (0, 0), s := (t, 0)] \<and>
    length (filter (\<lambda>k. fst k \<noteq> 0) (kinds c')) = length (filter (\<lambda>k. fst k \<noteq> 0) (kinds c))"
proof -
  let ?em = "(kinds c)[unat i := (0, 0)]"
  have len: "length (kinds c) = 16" using ok_length [OF assms(1)] by simp
  have ne: "mType (Slots c ! unat i) \<noteq> 0" using assms(2,3) len by (simp add: kind_def)
  obtain c' rng' t m s where c': "combine i i i c rng = Inr (Some (c', rng'))" "tier_at c i \<le> m" "m \<le> tier_at c i"
    "t \<in> set (tier_types m)" "List.find (\<lambda>s. fst (?em ! s) = 0) search_order = Some s"
    "kinds c' = ?em[s := (t, 0)]" "not_items c' = not_items c"
    using combine_spec [OF assms(1) assms(2) assms(2) assms(2) ne ne ne, of rng] by (auto simp: Let_def)
  have m: "m = tier_at c i" using c'(2,3) by simp
  have t: "t \<noteq> 0" using tier_types_tier [of m t] c'(4) m by (simp add: tier_at_def tier_num_less)
  have s: "s < 16" "fst (?em ! s) = 0"
    using find_Some_props [OF c'(5)] by (auto simp: search_order_def)
  have "length (filter (\<lambda>k. fst k \<noteq> 0) ?em) + 1 = length (filter (\<lambda>k. fst k \<noteq> 0) (kinds c))"
    using length_filter_update [of "unat i" "kinds c" "\<lambda>k. fst k \<noteq> 0" "(0, 0)"] assms(2,3) len by simp
  moreover have "length (filter (\<lambda>k. fst k \<noteq> 0) (kinds c')) = length (filter (\<lambda>k. fst k \<noteq> 0) ?em) + 1"
    unfolding c'(6) using length_filter_update [of s ?em "\<lambda>k. fst k \<noteq> 0" "(t, 0)"] s t len by simp
  ultimately have "length (filter (\<lambda>k. fst k \<noteq> 0) (kinds c')) = length (filter (\<lambda>k. fst k \<noteq> 0) (kinds c))" by simp
  moreover have "t \<in> set (tier_types (tier_at c i))" using c'(4) m by simp
  ultimately show ?thesis using c'(1,5,6,7) t by blast
qed

theorem combine_one_slot_witness:
  "\<exists>c' rng' t. combine 8 8 8 sample [] = Inr (Some (c', rng')) \<and> t \<in> set (tier_types (tier_at sample 8)) \<and>
    kinds c' ! 8 = (t, 0) \<and> length (filter (\<lambda>k. fst k \<noteq> 0) (kinds c')) = 3"
proof -
  have f: "List.find (\<lambda>s. fst ((kinds sample)[8 := (0, 0)] ! s) = 0) search_order = Some 8"
    by (simp add: sample_kinds search_order_def upt_rec)
  show ?thesis using combine_one_slot [OF sample_ok, of 8 "[]"] f by (auto simp: sample_kinds numeral_3_eq_3)
qed

section \<open>Random draws\<close>

text \<open>
  C34 (weights). A normal ticket in a room gives an item of the tier its first raw number falls on, of a hundred
  equally frequent values; each of the five tiers gets exactly as many of them as the table gives it in the row of
  the round, from the sixth round on the last one.
\<close>

theorem normal_ticket_weights:
  assumes "clRoomPtr c = Some r" and "0 \<le> room_round r" and "clNormalItemTicketCount c \<noteq> 0"
  shows "\<exists>share. (\<forall>n rest. \<exists>t rng'. GetRandomItemTypeOfNormalItemTicket room_round c (n # rest) = Inr (t, rng') \<and>
      share (n mod 100) < 5 \<and> t \<in> set (tier_types (share (n mod 100)))) \<and>
    (\<forall>k < 5. int (card {x. x < 100 \<and> share x = k}) = sItemProbability ! nat (min (room_round r) 5) ! k)"
proof -
  let ?row = "sItemProbability ! nat (min (room_round r) 5)"
  let ?share = "\<lambda>x. tier_loop (int x) ?row 0"
  have row: "row_ok ?row" using sItemProbability_rows by simp
  have "\<exists>t rng'. GetRandomItemTypeOfNormalItemTicket room_round c (n # rest) = Inr (t, rng') \<and>
      ?share (n mod 100) < 5 \<and> t \<in> set (tier_types (?share (n mod 100)))" for n rest
  proof -
    have "fst (Random_draw 0 99 (n # rest)) = int (n mod 100)" by (simp add: Random_draw_def Let_def zmod_int)
    then show ?thesis using NormalTicket_result [of c r room_round "n # rest"] assms by (auto simp: Let_def)
  qed
  moreover have "int (card {x. x < 100 \<and> ?share x = k}) = ?row ! k" if "k < 5" for k
  proof -
    have "r \<in> int ` {x. x < 100 \<and> ?share x = k}" if "0 \<le> r" "r < int 100" "tier_loop r ?row 0 = k" for r
      using that by (intro image_eqI [of _ _ "nat r"]) simp_all
    then have "{r. 0 \<le> r \<and> r < int 100 \<and> tier_loop r ?row 0 = k} = int ` {x. x < 100 \<and> ?share x = k}" by auto
    then have "int (card {x. x < 100 \<and> ?share x = k}) = int (card {r. 0 \<le> r \<and> r < int 100 \<and> tier_loop r ?row 0 = k})"
      by (simp add: card_image)
    also have "\<dots> = ?row ! k" using row that by (intro tier_loop_card) (simp_all add: row_ok_def)
    finally show ?thesis .
  qed
  ultimately show ?thesis by (intro exI [of _ ?share]) simp
qed

text \<open>In the sixth round four numbers of a hundred give an item of the highest tier.\<close>

theorem normal_ticket_weights_witness:
  "\<exists>share. (\<forall>n rest. \<exists>t rng'. GetRandomItemTypeOfNormalItemTicket (\<lambda>_. 9) sample (n # rest) = Inr (t, rng') \<and>
      t \<in> set (tier_types (share (n mod 100)))) \<and> int (card {x. x < 100 \<and> share x = (4::nat)}) = 4"
proof -
  have row: "sItemProbability ! nat (min 9 5) ! 4 = 4" by (simp add: sItemProbability_def)
  obtain share where share: "\<forall>n rest. \<exists>t rng'. GetRandomItemTypeOfNormalItemTicket (\<lambda>_. 9) sample (n # rest) = Inr (t, rng') \<and>
      share (n mod 100) < 5 \<and> t \<in> set (tier_types (share (n mod 100)))"
    "\<forall>k < 5. int (card {x. x < 100 \<and> share x = k}) = sItemProbability ! nat (min 9 5) ! k"
    using normal_ticket_weights [of sample 0 "\<lambda>_. 9"] sample_room by auto
  have "int (card {x. x < 100 \<and> share x = 4}) = 4" using share(2) [rule_format, of 4] row by simp
  then show ?thesis using share(1) by blast
qed

text \<open>
  A normal ticket, with one left and in a room, returns an item of the tier its first
  draw falls on in the row of the round; without a ticket it returns none and draws nothing.
\<close>

theorem normal_ticket_draw:
  assumes "clRoomPtr c = Some r" and "0 \<le> room_round r"
  shows "if clNormalItemTicketCount c = 0
     then GetRandomItemTypeOfNormalItemTicket room_round c rng = Inr (EMPTY_ITEM, rng)
     else \<exists>t rng'. GetRandomItemTypeOfNormalItemTicket room_round c rng = Inr (t, rng') \<and>
       t \<in> set (tier_types (tier_loop (fst (Random_draw 0 99 rng))
         (sItemProbability ! nat (min (room_round r) 5)) 0))"
  using NormalTicket_result [of c r room_round rng] assms
  by (auto simp: GetRandomItemTypeOfNormalItemTicket_def Let_def)

theorem normal_ticket_draw_witness:
  "\<exists>t rng'. GetRandomItemTypeOfNormalItemTicket (\<lambda>_. 5) sample [99] = Inr (t, rng') \<and> t \<in> set (tier_types 4)"
proof -
  have "tier_loop 99 (sItemProbability ! 5) 0 = 4" by (simp add: sItemProbability_def)
  then show ?thesis
    using normal_ticket_draw [of sample 0 "\<lambda>_. 5" "[99]"]
    by (simp add: sample_room Random_draw_def)
qed

text \<open>
  C26 (order). The activation order of a client lists each of its six equipped slots exactly once,
  whatever is drawn.
\<close>

theorem active_order_complete:
  assumes "inventory_ok c"
  shows "\<exists>js. distinct js \<and> set js = {0..<6} \<and>
    fst (GetItemActiveQueue c rng) = map (\<lambda>j. \<lparr>siIndex = int j, siItem = clUsingItems c ! j\<rparr>) js"
proof -
  have f: "free_slots (replicate 6 False) = {0..<6}" by (auto simp: free_slots_def)
  have "\<exists>js. distinct js \<and> set js = free_slots (replicate 6 False) \<and>
    fst (active_queue_loop 6 (clUsingItems c) (replicate 6 False) [] rng) = [] @ map (entry_of (clUsingItems c)) js"
    using inventory_ok_weights [OF assms] by (intro active_queue_loop_perm) (simp_all add: f)
  then show ?thesis by (simp add: f GetItemActiveQueue_def entry_of_eq)
qed

theorem active_order_complete_witness:
  "\<exists>js. distinct js \<and> set js = {0..<6} \<and>
    fst (GetItemActiveQueue sample [7, 3]) = map (\<lambda>j. \<lparr>siIndex = int j, siItem = clUsingItems sample ! j\<rparr>) js"
  using active_order_complete [OF sample_ok, of "[7, 3]"] .

text \<open>C27 (reach). Every order of the six slots is drawn for some values of the generator.\<close>

theorem active_order_reachable:
  assumes "inventory_ok c" and "distinct js" and "set js = {0..<6}"
  shows "\<exists>rng. GetItemActiveQueue c rng =
    (map (\<lambda>j. \<lparr>siIndex = int j, siItem = clUsingItems c ! j\<rparr>) js, [])"
proof -
  have f: "free_slots (replicate 6 False) = {0..<6}" by (auto simp: free_slots_def)
  have len: "length js = 6" using distinct_card [OF assms(2)] assms(3) by simp
  have "\<exists>rng. active_queue_loop (length js) (clUsingItems c) (replicate 6 False) [] rng =
      ([] @ map (entry_of (clUsingItems c)) js, [])"
    using inventory_ok_weights [OF assms(1)] assms(2,3) by (intro active_queue_loop_reach) (simp_all add: f)
  then show ?thesis by (simp add: len GetItemActiveQueue_def entry_of_eq)
qed

theorem active_order_reachable_witness:
  "\<exists>rng. map siIndex (fst (GetItemActiveQueue sample rng)) = [5, 4, 3, 2, 1, 0]"
proof -
  have "set [5, 4, 3, 2, 1, 0] = set [0..<6::nat]" by (simp add: upt_rec numeral_eq_Suc insert_commute)
  then obtain rng where "GetItemActiveQueue sample rng =
      (map (\<lambda>j. \<lparr>siIndex = int j, siItem = clUsingItems sample ! j\<rparr>) [5, 4, 3, 2, 1, 0], [])"
    using active_order_reachable [OF sample_ok, of "[5, 4, 3, 2, 1, 0]"] by auto
  then show ?thesis by (intro exI [of _ rng]) simp
qed

section \<open>The matching queue\<close>

text \<open>
  C11 (queue). The queue of linked nodes implements a list of clients: while fewer than eight wait, a
  request appends its client; the eighth empties the queue and gets all eight, in the order of
  their arrival.  The pointers stay consistent and no freed node is followed.
\<close>

theorem matching_request:
  assumes "queue_good q" and "length (queue_list q) < MAX_ROOM_PLAYER"
  shows "\<exists>r q'. rbind (AddClient q c) TakeRoomClients = Inr (r, q') \<and> queue_good q' \<and>
    (if length (queue_list q) < MAX_ROOM_PLAYER - 1
     then r = None \<and> queue_list q' = queue_list q @ [c]
     else r = Some (queue_list q @ [c]) \<and> queue_list q' = [])"
  using sq.request_spec [of q c] assms unfolding sq.waiting_def sq.request_def by blast

theorem matching_request_witness:
  "\<exists>r q'. rbind (AddClient ServerQueue_new 3) TakeRoomClients = Inr (r, q') \<and> r = None \<and> queue_list q' = [3]"
  using matching_request [of ServerQueue_new 3] sq.empty_members by auto

text \<open>
  C12 (leave). A client that leaves is taken out of the queue where it stands first; the others keep
  their order, and a client that does not wait changes nothing.
\<close>

theorem queue_leave:
  assumes "queue_good q"
  shows "\<exists>q'. RemoveClient q c = Inr q' \<and> queue_good q' \<and> queue_list q' = remove1 c (queue_list q) \<and>
    QueueClients q' = Inr (queue_list q')"
proof -
  obtain q' where q': "RemoveClient q c = Inr q'" "queue_good q'" "queue_list q' = remove1 c (queue_list q)"
    using sq.del_members [OF assms] by blast
  obtain xs where xs: "queue_rep q' xs" using q'(2) by (auto simp: queue_good_def)
  then have "QueueClients q' = Inr (map snd xs)"
    using collect_seg [of "sqHeap q'" "sqClientQueue q'" None xs None] by (simp add: QueueClients_def queue_rep_def)
  then show ?thesis using q' queue_list_rep [OF xs] by auto
qed

theorem queue_leave_witness:
  "\<exists>q q'. AddClient ServerQueue_new 5 = Inr q \<and> RemoveClient q 5 = Inr q' \<and> queue_list q' = []"
proof -
  obtain q where "AddClient ServerQueue_new 5 = Inr q" "queue_good q" "queue_list q = [5]"
    using sq.enq_members [of ServerQueue_new 5] sq.empty_members by auto
  then show ?thesis using queue_leave [of q 5] by auto
qed

section \<open>Opponents\<close>

lemma draw_pairs:
  assumes "manager_ok S K bm" and "ids_ok cl S" and "K < INT64_MAX" and "card S \<noteq> 1"
  shows "\<exists>ps bm' rng' order. GetBattleOpponent cl bm rng = Inr (flat ps, bm', rng') \<and>
    manager_ok S (Suc K) bm' \<and> distinct order \<and> set order = S \<and> length ps = (card S + 1) div 2 \<and>
    mset (filter (\<lambda>x. 0 \<le> x) (flat ps)) = mset (map (\<lambda>p. clNetworkID (cl p)) order) \<and>
    length (filter (\<lambda>x. x < 0) (flat ps)) = card S mod 2 \<and>
    (\<forall>(a, b) \<in> set ps. owner a \<noteq> owner b) \<and>
    (\<forall>x \<in> set (flat ps). owner x \<in> (\<lambda>p. clNetworkID (cl p)) ` S)"
proof -
  obtain ps bm' rng' order where r: "GetBattleOpponent cl bm rng = Inr (flat ps, bm', rng')"
    "manager_ok S (Suc K) bm'" "distinct order" "set order = S" "pairs_ok cl order [] ps"
    using GetBattleOpponent_ok [OF assms, of rng] by blast
  have "length order = card S" using distinct_card [OF r(3)] r(4) by simp
  then show ?thesis using r
    by (intro exI [of _ ps] exI [of _ bm'] exI [of _ rng'] exI [of _ order]) (simp add: pairs_ok_def)
qed

text \<open>
  C13 (opponents). For a room whose members are \<open>S\<close> (not a single one) the draw returns pairs in which
  every member appears exactly once as itself; only in an odd room one more entry is the ghost of a
  member, and nobody meets the own ghost.  The histories stay consistent, a count of fights grows by one
  at most, and the next round can be drawn in the same way.
\<close>

theorem draw_opponents:
  assumes "manager_ok S K bm" and "ids_ok cl S" and "K < INT64_MAX" and "card S \<noteq> 1"
  shows "\<exists>ps bm' rng' order. GetBattleOpponent cl bm rng = Inr (flat ps, bm', rng') \<and>
    manager_ok S (Suc K) bm' \<and> distinct order \<and> set order = S \<and> length ps = (card S + 1) div 2 \<and>
    mset (filter (\<lambda>x. 0 \<le> x) (flat ps)) = mset (map (\<lambda>p. clNetworkID (cl p)) order) \<and>
    length (filter (\<lambda>x. x < 0) (flat ps)) = card S mod 2 \<and>
    (\<forall>(a, b) \<in> set ps. owner a \<noteq> owner b) \<and>
    (\<forall>x \<in> set (flat ps). owner x \<in> (\<lambda>p. clNetworkID (cl p)) ` S)"
  by (rule draw_pairs [OF assms])

text \<open>Eight fresh clients for the witnesses.\<close>

definition eight :: "nat \<Rightarrow> client" where
  "eight p = Client_new (int p)"

lemma eight_ids: "ids_ok eight S"
  by (simp add: ids_ok_def eight_def Client_new_def inj_on_def)

theorem draw_opponents_witness:
  "\<exists>bm ps bm' rng'. BattleManager_SetClients eight [0..<8] = Inr bm \<and>
    GetBattleOpponent eight bm [5, 4] = Inr (flat ps, bm', rng') \<and> length ps = 4"
proof -
  obtain bm where bm: "BattleManager_SetClients eight [0..<8] = Inr bm" "manager_ok {0..<8} 0 bm"
    using manager_ok_SetClients [of "[0..<8]" eight] eight_ids by auto
  then show ?thesis
    using draw_opponents [OF bm(2) eight_ids, of "[5, 4]"] by (auto simp: INT64_MAX_def)
qed

text \<open>
  C29 (leaver). Taking a member out keeps the manager of the others consistent, with the same bound on the
  counts of their fights; and unless a single one is left, the next draw pairs the remaining members as
  before: each of them appears exactly once as itself, a copy fills an odd room, nobody meets the own
  copy, and the one that left does not appear.
\<close>

theorem opponents_after_leave:
  assumes "manager_ok S K bm" and "ids_ok cl S" and "p \<in> S" and "K < INT64_MAX" and "card (S - {p}) \<noteq> 1"
  defines "bm0 \<equiv> BattleManager_RemoveClient cl (clNetworkID (cl p)) bm"
  shows "manager_ok (S - {p}) K bm0 \<and>
    (\<exists>ps bm' rng' order. GetBattleOpponent cl bm0 rng = Inr (flat ps, bm', rng') \<and>
      manager_ok (S - {p}) (Suc K) bm' \<and> distinct order \<and> set order = S - {p} \<and> length ps = card S div 2 \<and>
      mset (filter (\<lambda>x. 0 \<le> x) (flat ps)) = mset (map (\<lambda>p. clNetworkID (cl p)) order) \<and>
      length (filter (\<lambda>x. x < 0) (flat ps)) = card (S - {p}) mod 2 \<and>
      (\<forall>(a, b) \<in> set ps. owner a \<noteq> owner b) \<and>
      (\<forall>x \<in> set (flat ps). owner x \<in> (\<lambda>p. clNetworkID (cl p)) ` (S - {p})))"
proof -
  have m: "manager_ok (S - {p}) K bm0"
    unfolding bm0_def using manager_ok_RemoveClient [OF assms(1) _ assms(3), of cl] assms(2) by (simp add: ids_ok_def)
  have "finite S" using assms(1) unfolding manager_ok_def by (metis List.finite_set)
  then have "card S = Suc (card (S - {p}))" using assms(3) by (metis card.remove)
  moreover have "ids_ok cl (S - {p})" using assms(2) by (auto simp: ids_ok_def intro: inj_on_subset)
  ultimately show ?thesis using m draw_pairs [OF m _ assms(4,5), of cl rng] by simp
qed

theorem opponents_after_leave_witness:
  "\<exists>bm ps bm' rng'. BattleManager_SetClients eight [0..<8] = Inr bm \<and>
    GetBattleOpponent eight (BattleManager_RemoveClient eight (clNetworkID (eight 2)) bm) [5, 4] = Inr (flat ps, bm', rng') \<and>
    length ps = 4 \<and> length (filter (\<lambda>x. x < 0) (flat ps)) = 1"
proof -
  obtain bm where bm: "BattleManager_SetClients eight [0..<8] = Inr bm" "manager_ok {0..<8} 0 bm"
    using manager_ok_SetClients [of "[0..<8]" eight] eight_ids by auto
  have c: "card ({0..<8} - {2 :: nat}) = 7" "card {0..<8 :: nat} = 8" by simp_all
  obtain ps bm' rng' where "GetBattleOpponent eight (BattleManager_RemoveClient eight (clNetworkID (eight 2)) bm) [5, 4] = Inr (flat ps, bm', rng')"
    "length ps = card {0..<8 :: nat} div 2" "length (filter (\<lambda>x. x < 0) (flat ps)) = card ({0..<8} - {2 :: nat}) mod 2"
    using opponents_after_leave [OF bm(2) eight_ids, of 2 "[5, 4]"] c(1) by (fastforce simp: INT64_MAX_def)
  then show ?thesis using bm(1) unfolding c by (intro exI [of _ bm] exI [of _ ps] exI [of _ bm'] exI [of _ rng']) simp
qed

text \<open>Members who have fought each other equally often meet in the order in which the shuffle leaves them.\<close>

fun in_twos :: "'a list \<Rightarrow> 'a set list" where
  "in_twos (x # y # xs) = {x, y} # in_twos xs"
| "in_twos xs = []"

lemma min_loop_first: "(\<forall>b \<in> set (b # bs). cnt b = n) \<Longrightarrow> n < m \<Longrightarrow> min_loop cnt (b # bs) 0 None m = Some 0"
proof -
  assume "\<forall>b \<in> set (b # bs). cnt b = n" "n < m"
  then have "min_loop cnt bs 0 None n = None" by (simp add: min_loop_None)
  then show ?thesis using \<open>\<forall>b \<in> set (b # bs). cnt b = n\<close> \<open>n < m\<close> by (simp add: min_loop_Cons del: min_loop.simps(2))
qed

lemma loop_in_order:
  assumes "even (length us)" and "\<forall>b \<in> set us. \<forall>p. GetBattleCount b p = 0"
  shows "\<exists>ps mat' rng'. opponent_loop cl us mat lst rng = Inr (lst @ flat ps, mat', rng') \<and>
    map (\<lambda>(a, b). {a, b}) ps = in_twos (map (\<lambda>b. clNetworkID (cl (biClient b))) us)"
  using assms
proof (induction us arbitrary: mat lst rng rule: induct_list012)
  case 1
  then show ?case by (auto simp: opponent_loop.simps intro: exI [of _ "[]"])
next
  case (2 b)
  then show ?case by simp
next
  case (3 c m us)
  let ?d = "attack_order (cl (biClient c)) (cl (biClient m)) (clNetworkID (cl (biClient c))) (clNetworkID (cl (biClient m))) rng"
  let ?mat = "mat @ [AddBattleCount m (biClient c), AddBattleCount c (biClient m)]"
  obtain a b where ab: "fst ?d = [a, b]" "{a, b} = {clNetworkID (cl (biClient c)), clNetworkID (cl (biClient m))}"
    using attack_order_cases [of "cl (biClient c)" "cl (biClient m)" "clNetworkID (cl (biClient c))" "clNetworkID (cl (biClient m))" rng]
    by fastforce
  have "min_loop (\<lambda>b. GetBattleCount b (biClient c)) (m # us) 0 None INT64_MAX = Some 0"
    using 3 by (intro min_loop_first [of _ _ _ 0]) (simp_all add: INT64_MAX_def)
  then have step: "opponent_loop cl (c # m # us) mat lst rng = opponent_loop cl us ?mat (lst @ [a, b]) (snd ?d)"
    using ab(1) by (simp add: opponent_loop.simps(2) Let_def del: min_loop.simps)
  obtain ps mat' rng' where r: "opponent_loop cl us ?mat (lst @ [a, b]) (snd ?d) = Inr ((lst @ [a, b]) @ flat ps, mat', rng')"
    "map (\<lambda>(a, b). {a, b}) ps = in_twos (map (\<lambda>b. clNetworkID (cl (biClient b))) us)"
    using "3.IH"(1) [of ?mat "lst @ [a, b]" "snd ?d"] "3.prems" by auto
  then show ?case using step ab(2) by (intro exI [of _ "(a, b) # ps"] exI [of _ mat'] exI [of _ rng']) simp
qed

lemma unfought_count: "info_ok S 0 b \<Longrightarrow> GetBattleCount b p = 0"
  using info_ok_count [of S 0 b p] by simp

text \<open>
  C28 (chance). When the members of an even room have not fought yet, every division of them into pairs is
  drawn for some values of the generator: whatever the order of the members, there are values for which its
  first and second are opponents, its third and fourth, and so on.
\<close>

theorem every_pairing_drawn:
  assumes "manager_ok S 0 bm" and "distinct order" and "set order = S" and "even (card S)"
  shows "\<exists>rng ps bm' rng'. GetBattleOpponent cl bm rng = Inr (flat ps, bm', rng') \<and>
    map (\<lambda>(a, b). {a, b}) ps = in_twos (map (\<lambda>p. clNetworkID (cl p)) order)"
proof -
  let ?us = "bmUnMatching bm"
  have us: "distinct (map biClient ?us)" "set (map biClient ?us) = S" "\<forall>b \<in> set ?us. info_ok S 0 b" "bmMatching bm = []"
    using assms(1) by (simp_all add: manager_ok_def)
  then have "\<forall>p \<in> set order. \<exists>b \<in> set ?us. biClient b = p" using assms(3) by auto
  then obtain f where f: "\<And>p. p \<in> set order \<Longrightarrow> f p \<in> set ?us \<and> biClient (f p) = p" by metis
  let ?ys = "map f order"
  have names: "map biClient ?ys = order" using f by (simp add: map_idI)
  have "f (biClient b) = b" if "b \<in> set ?us" for b
    using that f [of "biClient b"] us(1,2) assms(3) by (auto simp: distinct_map inj_on_def)
  then have "set ?ys = set ?us" using f us(2) assms(3) by (auto simp: image_iff)
  moreover have "distinct ?ys" using names assms(2) by (metis distinct_map)
  moreover have "distinct ?us" using us(1) by (simp add: distinct_map)
  ultimately have ms: "mset ?ys = mset ?us" by (metis set_eq_iff_mset_eq_distinct)
  obtain rng where rng: "shuffle_loop (length ?ys) ?us rng = (?ys, [])" using shuffle_loop_reach [OF ms] by blast
  have "length ?ys = length ?us" using mset_eq_length [OF ms] .
  then have sh: "shuffle_vec ?us rng = (?ys, [])" using rng by (simp add: shuffle_vec_def)
  have "even (length ?ys)" using distinct_card [OF assms(2)] assms(3,4) by simp
  moreover have "\<forall>b \<in> set ?ys. \<forall>p. GetBattleCount b p = 0"
    using \<open>set ?ys = set ?us\<close> us(3) unfought_count by blast
  ultimately obtain ps mat' rng' where r: "opponent_loop cl ?ys [] [] [] = Inr ([] @ flat ps, mat', rng')"
    "map (\<lambda>(a, b). {a, b}) ps = in_twos (map (\<lambda>b. clNetworkID (cl (biClient b))) ?ys)"
    using loop_in_order by blast
  have m: "map (\<lambda>b. clNetworkID (cl (biClient b))) ?ys = map (\<lambda>p. clNetworkID (cl p)) order" using f by simp
  have "GetBattleOpponent cl bm rng = Inr (flat ps, \<lparr>bmUnMatching = mat', bmMatching = []\<rparr>, rng')"
    using r(1) us(4) sh by (simp add: GetBattleOpponent_def)
  then show ?thesis using r(2) unfolding m by blast
qed

theorem every_pairing_drawn_witness:
  "\<exists>bm rng ps bm' rng'. BattleManager_SetClients eight [0..<8] = Inr bm \<and>
    GetBattleOpponent eight bm rng = Inr (flat ps, bm', rng') \<and> map (\<lambda>(a, b). {a, b}) ps = [{0, 7}, {1, 6}, {2, 5}, {3, 4}]"
proof -
  obtain bm where bm: "BattleManager_SetClients eight [0..<8] = Inr bm" "manager_ok {0..<8} 0 bm"
    using manager_ok_SetClients [of "[0..<8]" eight] eight_ids by auto
  have s: "set [0, 7, 1, 6, 2, 5, 3, 4] = {0..<8 :: nat}" by auto
  show ?thesis using every_pairing_drawn [OF bm(2) _ s, of eight] bm(1) by (simp add: eight_def Client_new_def)
qed

section \<open>The arithmetic of a battle\<close>

text \<open>
  C16 (damage). The damage of an attack is the given amount plus the attacker's power minus its
  weakening, and never negative; an avatar that ignores the next damage loses only that.  Otherwise
  the defence absorbs first and the hit points take the rest: together they go down by exactly the
  damage, or to zero, and the hit points are untouched as long as the defence holds.
\<close>

theorem damage_absorbed:
  assumes "0 \<le> damage" and "nums_ok k opponent" and "nums_ok m av"
    and "damage + avOffensePower opponent \<le> INT_MAX"
  defines "d \<equiv> max 0 (damage + avOffensePower opponent - avWeakening opponent)"
  shows "let av' = ToDamage damage opponent av
    in if avIsIgnoreNextDamage av then av' = av\<lparr>avIsIgnoreNextDamage := False\<rparr>
       else avHp av' + avDefensive av' = max 0 (avHp av + avDefensive av - d) \<and>
         avDefensive av' = max 0 (avDefensive av - d) \<and> (d \<le> avDefensive av \<longrightarrow> avHp av' = avHp av) \<and>
         av' = av\<lparr>avDefensive := avDefensive av', avHp := avHp av'\<rparr>"
proof -
  have r: "0 \<le> avOffensePower opponent" "0 \<le> avWeakening opponent" "avWeakening opponent \<le> 2147483647"
    "0 \<le> avDefensive av" "avDefensive av \<le> 2147483647" "0 \<le> avHp av" "avHp av \<le> 1000"
    using assms(2,3) by (auto simp: nums_ok_def counter_def INT_MAX_def)
  have d: "0 \<le> d" "d \<le> 2147483647" using assms(1,4) r by (auto simp: d_def INT_MAX_def)
  have "i32 (damage + avOffensePower opponent) = damage + avOffensePower opponent"
    using assms(1,4) r by (intro i32_id) (auto simp: INT_MIN_def)
  moreover have "i32 (damage + avOffensePower opponent - avWeakening opponent) =
      damage + avOffensePower opponent - avWeakening opponent"
    using assms(1,4) r by (intro i32_id) (auto simp: INT_MIN_def)
  moreover have "i32 (d - avDefensive av) = d - avDefensive av" "i32 (avDefensive av - d) = avDefensive av - d"
    using d r by (auto intro!: i32_id simp: INT_MIN_def INT_MAX_def)
  moreover have "i32 (avHp av - max 0 (d - avDefensive av)) = avHp av - max 0 (d - avDefensive av)"
    using d r by (intro i32_id) (auto simp: INT_MIN_def INT_MAX_def)
  ultimately have eq: "ToDamage damage opponent av =
      av\<lparr>avDefensive := max 0 (avDefensive av - d), avHp := max 0 (avHp av - max 0 (d - avDefensive av))\<rparr>"
    if "\<not> avIsIgnoreNextDamage av"
    using that by (simp add: ToDamage_def Let_def d_def [symmetric])
  show ?thesis
  proof (cases "avIsIgnoreNextDamage av")
    case True
    then show ?thesis by (simp add: ToDamage_def Let_def)
  next
    case False
    then show ?thesis using r d by (cases "d \<le> avDefensive av") (simp_all add: eq Let_def max_def)
  qed
qed

text \<open>A fresh avatar with some defence.\<close>

definition fighter :: avatar where
  "fighter = BattleAvatar_new\<lparr>avMaxHp := 100, avHp := 100, avDefensive := 4\<rparr>"

lemma fighter_ok: "nums_ok 0 fighter"
  by (simp add: fighter_def nums_ok_def BattleAvatar_new_def counter_def INT_MAX_def in_i32_0)

theorem damage_absorbed_witness:
  "avHp (ToDamage 5 fighter fighter) = 99 \<and> avDefensive (ToDamage 5 fighter fighter) = 0"
  using damage_absorbed [OF _ fighter_ok fighter_ok, of 5]
  by (simp add: fighter_def BattleAvatar_new_def INT_MAX_def Let_def)

text \<open>
  C14 (item). Activating an item of a well-formed avatar always returns, whatever the item, its
  upgrade and the state of both avatars: the hit points stay between 0 and their maximum, the other
  numbers in their ranges, the count of activations goes up by one, the equipment and the rooms
  stay as they are.  The hair roll (17) and the magic stick (21) ask for the client behind the
  avatar; all other items work without one.
\<close>

theorem item_activation:
  assumes "avatar_ok (fxMe s)" and "avEffectItemCount (fxMe s) < 6" and "avatar_ok (fxOpponents s)"
    and "world_ok (fxWorld s)" and "index < MAX_USING_ITEM_COUNT"
    and "\<forall>p. avClient (fxMe s) = Some p \<longrightarrow> p < length (wClients (fxWorld s))"
    and "avClient (fxMe s) \<noteq> None \<or> (\<forall>it \<in> set (avUsingItem (fxMe s)). mType it \<noteq> 17 \<and> mType it \<noteq> 21)"
  shows "\<exists>s'. ActiveItem index s = Inr (word_of_int (avActiveQueue (fxMe s) ! index), s') \<and>
    avatar_ok (fxMe s') \<and> avatar_ok (fxOpponents s') \<and> world_ok (fxWorld s') \<and>
    avEffectItemCount (fxMe s') = avEffectItemCount (fxMe s) + 1 \<and>
    avUsingItem (fxMe s') = avUsingItem (fxMe s) \<and> avActiveQueue (fxMe s') = avActiveQueue (fxMe s) \<and>
    wRooms (fxWorld s') = wRooms (fxWorld s) \<and> wQueue (fxWorld s') = wQueue (fxWorld s)"
  using ActiveItem_ok [OF assms] by (fastforce simp: avatar_frame_def world_frame_def)

definition arena :: fx where
  "arena = \<lparr>fxMe = fighter\<lparr>avUsingItem := replicate 6 (Item_new\<lparr>mType := 1\<rparr>), avActiveQueue := [0, 1, 2, 3, 4, 5]\<rparr>,
     fxOpponents = fighter\<lparr>avUsingItem := replicate 6 Item_new, avActiveQueue := [0, 1, 2, 3, 4, 5]\<rparr>,
     fxWorld = \<lparr>wClients = [], wRooms = [Room_new], wQueue = ServerQueue_new, wThreads = [], wSent = [],
       wRng = [], wNow = 0\<rparr>\<rparr>"

lemma empty_world_ok: "world_ok (fxWorld arena)"
  using sq.empty_members by (simp add: arena_def world_ok_def room_ok_def Room_new_def)

theorem item_activation_witness:
  "\<exists>s'. ActiveItem 2 arena = Inr (2, s') \<and> avEffectItemCount (fxMe s') = 1"
proof -
  have "avatar_ok (fxMe arena)" "avatar_ok (fxOpponents arena)"
    using fighter_ok
    by (simp_all add: arena_def avatar_ok_def items_ok_def item_ok_def Item_new_def fighter_def BattleAvatar_new_def
        nums_ok_def list_all_iff)
  then show ?thesis
    using item_activation [of arena 2] empty_world_ok
    by (auto simp: arena_def fighter_def BattleAvatar_new_def Item_new_def)
qed



section \<open>Packets and the byte stream\<close>

text \<open>
  C33 (layout). The bytes of a packet are as many as its structure declares, and its size, type and
  client are read back from the front of any buffer that starts with them; no packet exceeds the
  buffers of the server.
\<close>

theorem packet_header:
  assumes "packet_ok p"
  shows "length (Packet_Write p) = packet_sizeof p \<and> packet_sizeof p \<le> MAX_PACKET_SIZE \<and>
    rd_u16 (Packet_Write p @ tail) 0 = length (Packet_Write p) \<and>
    rd_type (Packet_Write p @ tail) = Some (packet_type p) \<and>
    (\<forall>n. packet_networkID p = Some n \<longrightarrow> in_i32 n \<longrightarrow> rd_i32 (Packet_Write p @ tail) 3 = n)"
  using assms packet_sizeof_bounds [of p] rd_size [OF assms, of tail] rd_type_Write [of p tail] rd_networkID [of p _ tail]
  by (auto simp: length_Packet_Write)

theorem packet_header_witness:
  "rd_i32 (Packet_Write (UseEmoticon (- 7) 3) @ [1, 2]) 3 = - 7"
  using packet_header [of "UseEmoticon (- 7) 3" "[1, 2]"] by (simp add: in_i32_def INT_MIN_def INT_MAX_def)

text \<open>
  C30 (stream). The bytes of a stream of packets determine the packets: the receiver can split and
  decode what was written, whatever the packets are.
\<close>

theorem stream_decodes:
  assumes "\<forall>p \<in> set ps \<union> set qs. packet_ok p \<and> ints_ok p" and "stream ps = stream qs"
  shows "ps = qs"
  using stream_inj [OF assms] .

theorem stream_decodes_witness:
  "stream [FadeIn 1, UseEmoticon 4 2] \<noteq> stream [FadeIn 1, UseEmoticon 5 2]"
  using stream_decodes [of "[FadeIn 1, UseEmoticon 4 2]" "[FadeIn 1, UseEmoticon 5 2]"]
  by (auto simp: ints_ok_def in_i32_def INT_MIN_def INT_MAX_def)

text \<open>
  C10 (reassembly). Whatever the pieces in which the bytes of a connection arrive: if the pending
  bytes and the piece together are the complete packets \<open>ps\<close> and the beginning \<open>t\<close> of another, the
  loop returns, \<open>ProcessPacket\<close> has run on exactly these packets in order (stopping at the first
  error), and \<open>t\<close> is pending.  A piece may end anywhere but after the first byte of a size field, where
  the loop reads the second byte from what the buffer held before.
\<close>

theorem reassembly:
  assumes "buffers_ok c w" and "bytes \<noteq> []" and "length bytes \<le> MAX_BUF_SIZE"
    and "pending c w @ bytes = concat ps @ t" and "\<forall>b \<in> set ps. whole b" and "begun t"
  shows "receive ProcessPacket c bytes w = Some (hand_over ProcessPacket c ps t
    (set_client c ((client_of w c)\<lparr>clIoBuf := bytes @ drop (length bytes) (clIoBuf (client_of w c))\<rparr>) w))"
  by (rule pp.receive_hand_over [OF assms])

text \<open>A server with one connected client and one room.\<close>

definition small :: world where
  "small = \<lparr>wClients = [Client_new 0], wRooms = [Room_new], wQueue = ServerQueue_new, wThreads = [], wSent = [],
     wRng = [], wNow = 0\<rparr>"

lemma small_buffers: "buffers_ok 0 small" "pending 0 small = []"
  by (simp_all add: buffers_ok_def pending_def small_def Client_new_def begun_def)

lemma size_field_rd: "int (rd_u16 b 0) = size_field b"
proof -
  have "0 \<le> bytes_uint xs" for xs by (induction xs) auto
  then show ?thesis by (simp add: rd_u16_def size_field_def)
qed

lemma whole_packet: "packet_ok p \<Longrightarrow> whole (Packet_Write p)"
  using size_field_rd [of "Packet_Write p"] rd_size [of p "[]"] packet_sizeof_bounds [of p]
  by (simp add: whole_def length_Packet_Write)

theorem reassembly_witness:
  "receive ProcessPacket 0 (Packet_Write (UseEmoticon 0 3) @ take 4 (Packet_Write (UseEmoticon 0 5))) small =
     Some (hand_over ProcessPacket 0 [Packet_Write (UseEmoticon 0 3)] (take 4 (Packet_Write (UseEmoticon 0 5)))
       (set_client 0 ((client_of small 0)\<lparr>clIoBuf := (Packet_Write (UseEmoticon 0 3) @
          take 4 (Packet_Write (UseEmoticon 0 5))) @ drop 12 (clIoBuf (client_of small 0))\<rparr>) small))"
proof -
  have len: "length (Packet_Write (UseEmoticon 0 n)) = 8" for n by (simp add: length_Packet_Write)
  have "size_field (take 4 (Packet_Write (UseEmoticon 0 5))) = 8"
    using size_field_rd [of "Packet_Write (UseEmoticon 0 5)"] rd_size [of "UseEmoticon 0 5" "[]"]
    by (simp add: size_field_def)
  then have "begun (take 4 (Packet_Write (UseEmoticon 0 5)))" using len by (simp add: begun_def)
  then show ?thesis
    using reassembly [OF small_buffers(1), of _ "[Packet_Write (UseEmoticon 0 3)]"] len whole_packet [of "UseEmoticon 0 3"]
    by (simp add: small_buffers(2) length_Packet_Write Packet_Write_def)
qed

text \<open>What a packet that is no match request needs to be in range does not change.\<close>

lemma in_range_keeps:
  assumes "in_range c buf w" and "rd_type buf \<noteq> Some pt_cs_startMatching" and "length (wClients w') = length (wClients w)"
  shows "in_range c buf w'"
  using assms by (auto simp: in_range_def names_client_def split: option.splits EPacketType.splits)

lemma with_prev_ok: "world_ok w \<Longrightarrow> c < length (wClients w) \<Longrightarrow> world_ok (with_prev c n w)"
  unfolding with_prev_def by (intro world_ok_set_client client_ok_cong [OF world_ok_client]) simp_all

lemma hand_over_ok:
  "world_ok w \<Longrightarrow> c < length (wClients w) \<Longrightarrow> \<forall>b \<in> set ps. whole b \<Longrightarrow> hand_over ProcessPacket c ps [] w = Inr w' \<Longrightarrow> world_ok w'"
proof (induction ps arbitrary: w)
  case Nil
  then show ?case by simp
next
  case (Cons b ps)
  obtain w2 where w2: "ProcessPacket c (clPacketBuf (client_of (store c b w) c)) (store c b w) = Inr w2"
    "hand_over ProcessPacket c ps [] (with_prev c 0 w2) = Inr w'"
    using Cons.prems(4) by (auto simp: Let_def rbind_Inr_iff)
  have "length (clPacketBuf (client_of w c)) = MAX_PACKET_SIZE" "length b \<le> MAX_PACKET_SIZE"
    using world_ok_client [OF Cons.prems(1,2)] Cons.prems(3) by (simp_all add: client_ok_def whole_def)
  then have "world_ok (store c b w)" unfolding store_def with_packet_buf_def
    using Cons.prems(1,2) by (intro world_ok_set_client client_ok_cong [OF world_ok_client]) simp_all
  moreover have c: "c < length (wClients (store c b w))" using Cons.prems(2) by (simp add: store_def with_packet_buf_def)
  ultimately have "world_ok w2 \<and> c < length (wClients w2)"
    using postD [OF ProcessPacket_keeps w2(1)] by (simp add: keeps_ok_def)
  then show ?case using Cons.IH [OF _ _ _ w2(2)] Cons.prems(3) with_prev_ok by (simp add: buffer_simps)
qed

text \<open>
  C39 (zero size). A size field of 0 stops a connection for ever, wherever it stands in the stream: behind any
  complete packets that are handled, the handler gets the packet that the buffer still holds again and
  again, and the loop never returns.  The packet that is still there has to be in range and no match request.
\<close>

theorem zero_size_hangs:
  assumes "world_ok w" and "buffers_ok c w" and "length bytes \<le> MAX_BUF_SIZE"
    and "pending c w @ bytes = concat ps @ 0 # 0 # rest" and "\<forall>b \<in> set ps. whole b"
    and "hand_over ProcessPacket c ps []
      (set_client c ((client_of w c)\<lparr>clIoBuf := bytes @ drop (length bytes) (clIoBuf (client_of w c))\<rparr>) w) = Inr w1"
    and "in_range c (clPacketBuf (client_of w1 c)) w1" and "rd_type (clPacketBuf (client_of w1 c)) \<noteq> Some pt_cs_startMatching"
  shows "receive ProcessPacket c bytes w = None"
proof -
  define w0 where "w0 = set_client c ((client_of w c)\<lparr>clIoBuf := bytes @ drop (length bytes) (clIoBuf (client_of w c))\<rparr>) w"
  let ?buf = "clPacketBuf (client_of w1 c)"
  note st = pp.receive_start [OF assms(2,3), folded w0_def]
  have c: "c < length (wClients w)" using assms(2) by (simp add: buffers_ok_def)
  have bg: "begun (pending c w)" using assms(2) by (simp add: buffers_ok_def)
  have first: "pending c w = []" if "ps = []"
  proof (rule ccontr)
    assume ne: "pending c w \<noteq> []"
    then have "size_field (pending c w @ bytes) = size_field (pending c w)" "0 < size_field (pending c w)"
      using begun_size [OF bg ne] by (simp_all add: size_field_append)
    then show False using assms(4) that by (simp add: size_field_def)
  qed
  have "pending c w = []" if "bytes = []"
  proof (rule ccontr)
    assume ne: "pending c w \<noteq> []"
    then obtain b qs where ps: "ps = b # qs" using first by (cases ps) auto
    have eq: "pending c w @ [] = b @ (concat qs @ 0 # 0 # rest)" using assms(4) that ps by simp
    have "length (pending c w) < length b" using begun_prefix_of_whole [OF bg ne _ eq] assms(5) ps by simp
    then show False using arg_cong [OF eq, of length] by simp
  qed
  then obtain p' where p': "receive ProcessPacket c bytes w = construct_loop ProcessPacket c p' (int (length (0 # 0 # rest))) 0 w1"
    "loop_inv c p' [] (0 # 0 # rest) w1"
    using pp.construct_loop_after [OF st(1) assms(4,5) _ _ assms(6) [folded w0_def]] st(2) first by auto
  have "world_ok w0" unfolding w0_def
    using assms(1) c by (intro world_ok_set_client client_ok_cong [OF world_ok_client]) simp_all
  then have ok: "world_ok w1" using hand_over_ok [of w0 c ps w1] assms(5,6) c by (simp add: w0_def)
  have b: "c < length (wClients w1)" "length ?buf = MAX_PACKET_SIZE" using p'(2) by (simp_all add: loop_inv_def)
  let ?Q = "\<lambda>v. world_ok v \<and> length (wClients v) = length (wClients w1)"
  have "construct_loop ProcessPacket c p' (int (length (0 # 0 # rest))) 0 w1 = None"
  proof (rule pp.zero_size_loops [where Q = ?Q, OF p'(2)])
    fix v assume v: "?Q v"
    then have "in_range c ?buf v" using in_range_keeps [OF assms(7,8)] by simp
    then obtain v' where v': "ProcessPacket c ?buf v = Inr v'"
      using ProcessPacket_defined [of v c ?buf] v b by (auto simp: defined_def)
    then have "keeps_ok v v'" using postD [OF ProcessPacket_keeps v'] v b(1) by simp
    then show "\<exists>v'. ProcessPacket c ?buf v = Inr v' \<and> ?Q (with_prev c 0 v')"
      using v v' b(1) with_prev_ok [of v' c 0] by (auto simp: keeps_ok_def buffer_simps)
  qed (simp_all add: ok size_field_def)
  then show ?thesis using p'(1) by simp
qed

text \<open>An emoticon, and two bytes of zero behind it.\<close>

lemma small_ok: "world_ok small"
proof -
  have "client_ok 1 0 (Client_new 0)"
    using inventory_ok_new [of 0] by (simp add: client_ok_def) (simp add: Client_new_def)
  then show ?thesis
    using sq.empty_members by (simp add: world_ok_def small_def room_ok_def Room_new_def)
qed

theorem zero_size_hangs_witness: "receive ProcessPacket 0 (Packet_Write (UseEmoticon 0 3) @ [0, 0, 8]) small = None"
proof -
  let ?p = "Packet_Write (UseEmoticon 0 3)"
  let ?w = "set_client 0 ((client_of small 0)\<lparr>clIoBuf := (?p @ [0, 0, 8]) @ drop (length (?p @ [0, 0, 8])) (clIoBuf (client_of small 0))\<rparr>) small"
  let ?buf = "?p @ drop (length ?p) (clPacketBuf (client_of ?w 0))" and ?w1 = "with_prev 0 0 (store 0 ?p ?w)"
  have len: "length ?p = 8" by (simp add: length_Packet_Write)
  have ty: "rd_type ?buf = Some pt_cs_sc_useEmoticon" "rd_u16 ?buf 0 = 8"
    using rd_type_Write [of "UseEmoticon 0 3"] rd_size [of "UseEmoticon 0 3"] by simp_all
  have room: "0 < length (wClients ?w)" "clRoomPtr (client_of (store 0 ?p ?w) 0) = None"
    by (simp_all add: small_def store_def with_packet_buf_def client_of_set_client Client_new_def)
  have buf: "clPacketBuf (client_of (store 0 ?p ?w) 0) = ?buf" using room(1) by (simp add: store_def buffer_simps)
  have "ProcessPacket 0 ?buf (store 0 ?p ?w) = Inr (store 0 ?p ?w)" using ty(1) room(2) by (simp add: ProcessPacket_def use_emoticon_def)
  then have h: "hand_over ProcessPacket 0 [?p] [] ?w = Inr ?w1" by (simp only: hand_over.simps Let_def buf rbind_simps if_True simp_thms)
  have b1: "clPacketBuf (client_of ?w1 0) = ?buf" using room(1) buf by (simp add: buffer_simps store_def)
  show ?thesis
    by (rule zero_size_hangs [OF small_ok small_buffers(1) _ _ _ h])
      (use len ty whole_packet [of "UseEmoticon 0 3"] in \<open>simp_all only: b1, simp_all add: small_buffers(2) in_range_def\<close>)
qed

end
