(* ===== verification/Connections.thy ===== *)
theory Connections
  imports Process_Packet Packet_Construct
begin

text \<open>
  Connections: what \<open>Server::WorkerThread\<close> does with the completions of the network, and the main
  thread of \<open>Server::Start\<close>, which tells the waiting clients about the queue every second and looks
  for silent connections every half minute (\<open>Server.cpp\<close>).

  The completion port is a list of completions; whether a socket could be registered with it, and
  what arrives, is part of the completion.
\<close>

section \<open>The state\<close>

text \<open>The objects of the server with the two counters \<open>connectCount\<close> and \<open>currConnectionCount\<close>.\<close>

record server =
  svWorld :: world
  svConnectCount :: nat
  svCurrConnectionCount :: nat

definition server_new :: "nat list \<Rightarrow> int \<Rightarrow> server" where
  "server_new rng now = \<lparr>svWorld = world_new rng now, svConnectCount = 0, svCurrConnectionCount = 0\<rparr>"

definition with_world :: "(world \<Rightarrow> world result) \<Rightarrow> server \<Rightarrow> server result" where
  "with_world f sv = rbind (f (svWorld sv)) (\<lambda>w. Inr (sv\<lparr>svWorld := w\<rparr>))"

section \<open>A new connection\<close>

fun find_free :: "client list \<Rightarrow> nat option" where
  "find_free [] = None"
| "find_free (c # cs) = (if clStatus c = FREE then Some 0 else map_option Suc (find_free cs))"

definition allocate :: "world \<Rightarrow> nat option \<times> world" where
  "allocate w =
     (case find_free (wClients w) of
        None \<Rightarrow> (None, w)
      | Some p \<Rightarrow> (Some p, set_client p ((client_of w p)\<lparr>clStatus := ALLOCATED\<rparr>) w))"

definition NewClientEvent :: "int \<Rightarrow> server \<Rightarrow> server result" where
  "NewClientEvent networkID sv =
     with_world (SendPacket networkID (Packet_Write (Notification networkID ConnectServer)))
       (sv\<lparr>svConnectCount := usize (int (svConnectCount sv) + 1)\<rparr>)"

text \<open>
  A client without a place is turned away; one whose socket cannot be registered too, but it keeps
  the place it was given.
\<close>

definition accept_client :: "nat \<Rightarrow> bool \<Rightarrow> server \<Rightarrow> server result" where
  "accept_client clientSocket registered sv =
     (case allocate (svWorld sv) of
        (None, w) \<Rightarrow> Inr (sv\<lparr>svWorld := w\<rparr>)
      | (Some p, w) \<Rightarrow>
          if \<not> registered then Inr (sv\<lparr>svWorld := w\<rparr>)
          else let w1 = set_client p ((client_of w p)\<lparr>clPrevSize := 0, clSocket := Some clientSocket\<rparr>) w
               in rbind (NewClientEvent (int p) (sv\<lparr>svWorld := w1\<rparr>)) (\<lambda>sv1.
                 let w2 = svWorld sv1
                 in Inr (sv1\<lparr>svWorld := set_client p
                      ((client_of w2 p)\<lparr>clLastConnectCheckPacketTime := wNow w2, clStatus := ACTIVE\<rparr>) w2\<rparr>)))"

section \<open>The worker threads\<close>

text \<open>The operation that completed, with the bytes that arrived or how many were sent.\<close>

datatype completion = Recv nat "u8 list" | Send nat nat | Accept nat bool

fun complete :: "completion \<Rightarrow> server \<Rightarrow> server result option" where
  "complete (Recv userID bytes) sv =
     (if bytes = [] then Some (with_world (Disconnect (int userID) True) sv)
      else map_option (map_sum id (\<lambda>w. sv\<lparr>svWorld := w\<rparr>)) (receive ProcessPacket userID bytes (svWorld sv)))"
| "complete (Send userID io_byte) sv =
     Some (if io_byte = 0 then with_world (Disconnect (int userID) True) sv else Inr sv)"
| "complete (Accept clientSocket registered) sv = Some (accept_client clientSocket registered sv)"

text \<open>One after the other, as long as there are some; handling one may never end.\<close>

fun WorkerThread :: "completion list \<Rightarrow> server \<Rightarrow> server result option" where
  "WorkerThread [] sv = Some (Inr sv)"
| "WorkerThread (c # cs) sv =
     (case complete c sv of
        None \<Rightarrow> None
      | Some (Inl e) \<Rightarrow> Some (Inl e)
      | Some (Inr sv') \<Rightarrow> WorkerThread cs sv')"

section \<open>The main thread\<close>

definition announce :: "server \<Rightarrow> server result" where
  "announce sv = with_world (SendMatchingQueueInfo (svCurrConnectionCount sv)) sv"

text \<open>Every client is looked at in turn; the clock stands still meanwhile.\<close>

fun check_clients :: "nat list \<Rightarrow> server \<Rightarrow> server result" where
  "check_clients [] sv = Inr sv"
| "check_clients (p # ps) sv =
     (let c = client_of (svWorld sv) p
      in if clStatus c = ACTIVE
         then if \<not> IsValidConnect c (wNow (svWorld sv))
              then rbind (with_world (Disconnect (clNetworkID c) True) sv) (\<lambda>sv'. check_clients ps sv')
              else check_clients ps (sv\<lparr>svCurrConnectionCount := usize (int (svCurrConnectionCount sv) + 1)\<rparr>)
         else check_clients ps sv)"

definition check_connections :: "server \<Rightarrow> server result" where
  "check_connections sv =
     check_clients [0..<length (wClients (svWorld sv))] (sv\<lparr>svCurrConnectionCount := 0\<rparr>)"

text \<open>What the other threads do during each second is given.\<close>

fun seconds :: "(server \<Rightarrow> server result) list \<Rightarrow> server \<Rightarrow> server result" where
  "seconds [] sv = Inr sv"
| "seconds (f # fs) sv = rbind (f sv) (\<lambda>sv1. rbind (announce sv1) (\<lambda>sv2. seconds fs sv2))"

text \<open>One round of the loop: \<open>CONNECT_CHECK_INTERVAL\<close> seconds and a check.\<close>

definition main_cycle :: "(nat \<Rightarrow> server \<Rightarrow> server result) \<Rightarrow> server \<Rightarrow> server result" where
  "main_cycle others sv =
     rbind (seconds (map others [0..<nat CONNECT_CHECK_INTERVAL]) sv) check_connections"

end
