(* ===== verification/Connection_Facts.thy ===== *)
theory Connection_Facts
  imports Connections Handler_Defined
begin

text \<open>
  Connections come and go: what accepting one does, what disconnecting one leaves alone, and what
  the check of the main thread finds.
\<close>

section \<open>Disconnecting\<close>

lemma SendPacketInAnother_sent: "SendPacketInAnotherRoomClients p pkt w = Inr w' \<Longrightarrow> sent_only w w'"
  by (auto simp: SendPacketInAnotherRoomClients_def SendPacketToAnotherClients_def SendToOthers_def send_all_sent split: option.splits)

text \<open>The queue without the client, its message sent, and the client taken back.\<close>

lemma Disconnect_form:
  assumes p: "p < length (wClients w)" and b: "clStatus (client_of w p) \<noteq> FREE" and w': "Disconnect (int p) b w = Inr w'"
  shows "\<exists>q s. RemoveClient (wQueue w) p = Inr q \<and>
    w' = Client_Init p (set_client p ((client_of w p)\<lparr>clStatus := ALLOCATED\<rparr>) (w\<lparr>wQueue := q, wSent := s\<rparr>))"
proof -
  obtain q w2 where q: "RemoveClient (wQueue w) p = Inr q"
    and w2: "(if b then SendPacketInAnotherRoomClients p (Notification (int p) DisconnectServer) (w\<lparr>wQueue := q\<rparr>)
       else Inr (w\<lparr>wQueue := q\<rparr>)) = Inr w2"
    and w'': "w' = Client_Init p (set_client p ((client_of w2 p)\<lparr>clStatus := ALLOCATED\<rparr>) w2)"
    using w' p \<open>clStatus _ \<noteq> FREE\<close> by (auto simp: Disconnect_def client_idx_def rbind_Inr_iff Let_def)
  have "sent_only (w\<lparr>wQueue := q\<rparr>) w2" using w2 SendPacketInAnother_sent by (auto split: if_splits)
  then obtain s where "w2 = w\<lparr>wQueue := q, wSent := s\<rparr>" unfolding sent_only_def by blast
  then have "w' = Client_Init p (set_client p ((client_of w p)\<lparr>clStatus := ALLOCATED\<rparr>) (w\<lparr>wQueue := q, wSent := s\<rparr>))"
    using w'' by simp
  then show ?thesis using q by blast
qed

text \<open>Nobody else is touched: the client is reset, and taken out of the queue and its room.\<close>

lemma remove_members:
  assumes "room_ok n r"
  shows "rmClients (Room_RemoveClient cl p r) = remove1 p (rmClients r)"
    and "rmOpenCount (Room_RemoveClient cl p r) = rmOpenCount r"
proof -
  have "usize (int (length (rmClients r)) - 1) = length (remove1 p (rmClients r))" if "p \<in> set (rmClients r)"
    using that assms length_pos_if_in_set [OF that]
    by (simp add: usize_def room_ok_def length_remove1 nat_diff_distrib)
  then show "rmClients (Room_RemoveClient cl p r) = remove1 p (rmClients r)"
    using assms by (auto simp: Room_RemoveClient_def Let_def room_ok_def Room_Init_def remove1_idem)
  show "rmOpenCount (Room_RemoveClient cl p r) = rmOpenCount r"
    by (simp add: Room_RemoveClient_def Let_def Room_Init_def)
qed

lemma Disconnect_effect:
  assumes ok: "world_ok w" and p: "p < length (wClients w)" and st: "clStatus (client_of w p) \<noteq> FREE"
    and w': "Disconnect (int p) b w = Inr w'"
  shows "client_of w' q = (if q = p then Client_reset ((client_of w p)\<lparr>clStatus := ALLOCATED\<rparr>) else client_of w q)"
    and "queue_list (wQueue w') = remove1 p (queue_list (wQueue w))" and "wNow w' = wNow w"
    and "j < length (wRooms w) \<Longrightarrow> rmOpenCount (room_of w' j) = rmOpenCount (room_of w j)"
    and "j < length (wRooms w) \<Longrightarrow> rmClients (room_of w' j) =
      (if clRoomPtr (client_of w p) = Some j then remove1 p (rmClients (room_of w j)) else rmClients (room_of w j))"
proof -
  obtain s v where s: "RemoveClient (wQueue w) p = Inr v"
    "w' = Client_Init p (set_client p ((client_of w p)\<lparr>clStatus := ALLOCATED\<rparr>) (w\<lparr>wQueue := v, wSent := s\<rparr>))"
    using Disconnect_form [OF p st w'] by blast
  note init = Client_Init_def Let_def client_of_set_client room_of_set_room
  show "client_of w' q = (if q = p then Client_reset ((client_of w p)\<lparr>clStatus := ALLOCATED\<rparr>) else client_of w q)"
    and "wNow w' = wNow w"
    using p by (auto simp: s(2) init split: option.split)
  show "queue_list (wQueue w') = remove1 p (queue_list (wQueue w))"
    using sq.del_members [of "wQueue w" p] ok s by (auto simp: world_ok_def)
  assume j: "j < length (wRooms w)"
  note r = remove_members [OF world_ok_room [OF ok]] world_ok_roomptr [OF ok p]
  show "rmOpenCount (room_of w' j) = rmOpenCount (room_of w j)"
    and "rmClients (room_of w' j) =
      (if clRoomPtr (client_of w p) = Some j then remove1 p (rmClients (room_of w j)) else rmClients (room_of w j))"
    using p j r by (auto simp: s(2) init split: option.split)
qed

section \<open>Accepting\<close>

lemma find_free_Some: "find_free cs = Some p \<Longrightarrow> p < length cs \<and> clStatus (cs ! p) = FREE \<and> (\<forall>q < p. clStatus (cs ! q) \<noteq> FREE)"
proof (induction cs arbitrary: p)
  case Nil
  then show ?case by simp
next
  case (Cons c cs)
  then show ?case by (fastforce simp: nth_Cons' less_Suc_eq_0_disj split: if_splits)
qed

lemma find_free_None: "find_free cs = None \<longleftrightarrow> (\<forall>c \<in> set cs. clStatus c \<noteq> FREE)"
  by (induction cs) auto

text \<open>The packet that greets a new client fits, and is sent with the length in its header.\<close>

lemma greeting:
  "length (Packet_Write (Notification n t)) = 8" "packet_bytes (Packet_Write (Notification n t)) = Inr (Packet_Write (Notification n t))"
proof -
  show l: "length (Packet_Write (Notification n t)) = 8" by (simp add: length_Packet_Write)
  show "packet_bytes (Packet_Write (Notification n t)) = Inr (Packet_Write (Notification n t))"
    using l rd_size [of "Notification n t" "[]"] by (simp add: packet_bytes_def sized_def)
qed

text \<open>The client after it was accepted.\<close>

definition connected :: "nat \<Rightarrow> int \<Rightarrow> client \<Rightarrow> client" where
  "connected clientSocket now c = c\<lparr>clPrevSize := 0, clSocket := Some clientSocket,
     clLastConnectCheckPacketTime := now, clStatus := ACTIVE\<rparr>"

lemma accept_client_spec:
  assumes "world_ok (svWorld sv)" and "find_free (wClients (svWorld sv)) = Some p"
  shows "accept_client s True sv = Inr (sv
    \<lparr>svWorld := set_client p (connected s (wNow (svWorld sv)) (client_of (svWorld sv) p))
       ((svWorld sv)\<lparr>wSent := wSent (svWorld sv) @ [(p, Packet_Write (Notification (int p) ConnectServer))]\<rparr>),
     svConnectCount := usize (int (svConnectCount sv) + 1)\<rparr>)"
  using find_free_Some [OF assms(2)] assms(2) greeting [of "int p" ConnectServer]
  by (simp add: accept_client_def allocate_def NewClientEvent_def with_world_def SendPacket_def SendBytes_def
      client_idx_def Let_def client_of_set_client connected_def set_client_def)

lemma accept_client_none:
  "find_free (wClients (svWorld sv)) = None \<Longrightarrow> accept_client s r sv = Inr sv"
  by (simp add: accept_client_def allocate_def)

lemma accept_client_refused:
  "find_free (wClients (svWorld sv)) = Some p \<Longrightarrow>
    accept_client s False sv = Inr (sv\<lparr>svWorld := set_client p ((client_of (svWorld sv) p)\<lparr>clStatus := ALLOCATED\<rparr>) (svWorld sv)\<rparr>)"
  by (simp add: accept_client_def allocate_def)

section \<open>The check\<close>

definition silent :: "int \<Rightarrow> client \<Rightarrow> bool" where
  "silent now c \<longleftrightarrow> clStatus c = ACTIVE \<and> \<not> IsValidConnect c now"

definition alive :: "int \<Rightarrow> client \<Rightarrow> bool" where
  "alive now c \<longleftrightarrow> clStatus c = ACTIVE \<and> IsValidConnect c now"

definition dropped :: "client \<Rightarrow> client" where
  "dropped c = Client_reset (c\<lparr>clStatus := ALLOCATED\<rparr>)"

lemma drop_silent:
  assumes ok: "world_ok (svWorld sv)" and p: "p < length (wClients (svWorld sv))"
    and si: "silent (wNow (svWorld sv)) (client_of (svWorld sv) p)"
  shows "\<exists>w. with_world (Disconnect (clNetworkID (client_of (svWorld sv) p)) True) sv = Inr (sv\<lparr>svWorld := w\<rparr>) \<and>
    keeps_ok (svWorld sv) w \<and> wNow w = wNow (svWorld sv) \<and>
    (\<forall>q. client_of w q = (if q = p then dropped (client_of (svWorld sv) p) else client_of (svWorld sv) q)) \<and>
    queue_list (wQueue w) = remove1 p (queue_list (wQueue (svWorld sv)))"
proof -
  have st: "clStatus (client_of (svWorld sv) p) \<noteq> FREE" using si by (simp add: silent_def)
  obtain w where w: "Disconnect (int p) True (svWorld sv) = Inr w" "keeps_ok (svWorld sv) w"
    using Disconnect_ok [OF ok p, of True] by (auto simp: keeps_ok_def)
  note e = Disconnect_effect [OF ok p st w(1)]
  show ?thesis
    using w e(1-3) world_ok_nid [OF ok p] by (intro exI [of _ w]) (simp add: with_world_def dropped_def)
qed

definition checked :: "nat list \<Rightarrow> server \<Rightarrow> server \<Rightarrow> bool" where
  "checked ps sv sv' \<longleftrightarrow>
     (let w = svWorld sv; w' = svWorld sv'
      in keeps_ok w w' \<and> wNow w' = wNow w \<and>
         (\<forall>q. client_of w' q = (if q \<in> set ps \<and> silent (wNow w) (client_of w q)
           then dropped (client_of w q) else client_of w q)) \<and>
         queue_list (wQueue w') = fold remove1 (filter (\<lambda>p. silent (wNow w) (client_of w p)) ps) (queue_list (wQueue w)) \<and>
         svCurrConnectionCount sv' = svCurrConnectionCount sv + length (filter (\<lambda>p. alive (wNow w) (client_of w p)) ps))"

lemma checked_Cons_silent:
  assumes si: "silent (wNow w) (client_of w p)" and p: "p \<notin> set ps" and sv: "svWorld sv = w"
    and v: "keeps_ok w v" "wNow v = wNow w" "\<And>q. client_of v q = (if q = p then dropped (client_of w p) else client_of w q)"
      "queue_list (wQueue v) = remove1 p (queue_list (wQueue w))"
    and rest: "checked ps (sv\<lparr>svWorld := v\<rparr>) sv'"
  shows "checked (p # ps) sv sv'"
proof -
  have same: "filter (\<lambda>q. f (client_of v q)) ps = filter (\<lambda>q. f (client_of w q)) ps" for f
    using p v(3) by (intro filter_cong) auto
  have na: "\<not> alive (wNow w) (client_of w p)" using si by (simp add: silent_def alive_def)
  have c: "client_of (svWorld sv') q = (if q \<in> set (p # ps) \<and> silent (wNow w) (client_of w q)
      then dropped (client_of w q) else client_of w q)" for q
    using rest v(2) v(3) [of q] si p by (cases "q = p") (simp_all add: checked_def Let_def)
  show ?thesis using rest v(1,2,4) si na c same
    by (simp add: checked_def Let_def sv keeps_ok_def del: remove1.simps)
qed

lemma checked_Cons_alive:
  assumes "alive (wNow (svWorld sv)) (client_of (svWorld sv) p)"
    and "checked ps (sv\<lparr>svCurrConnectionCount := svCurrConnectionCount sv + 1\<rparr>) sv'"
  shows "checked (p # ps) sv sv'"
proof -
  have "\<not> silent (wNow (svWorld sv)) (client_of (svWorld sv) p)" using assms(1) by (simp add: silent_def alive_def)
  then show ?thesis using assms by (auto simp: checked_def Let_def)
qed

lemma checked_Cons_other:
  assumes "clStatus (client_of (svWorld sv) p) \<noteq> ACTIVE" and "checked ps sv sv'"
  shows "checked (p # ps) sv sv'"
proof -
  have "\<not> silent (wNow (svWorld sv)) (client_of (svWorld sv) p)" "\<not> alive (wNow (svWorld sv)) (client_of (svWorld sv) p)"
    using assms(1) by (simp_all add: silent_def alive_def)
  then show ?thesis using assms by (auto simp: checked_def Let_def)
qed

lemma check_clients_spec:
  assumes "world_ok (svWorld sv)" and "distinct ps" and "\<forall>p \<in> set ps. p < length (wClients (svWorld sv))"
    and "svCurrConnectionCount sv + length ps < 2 ^ 64"
  shows "\<exists>sv'. check_clients ps sv = Inr sv' \<and> checked ps sv sv'"
  using assms
proof (induction ps arbitrary: sv)
  case Nil
  then show ?case by (simp add: keeps_ok_def checked_def)
next
  case (Cons p ps)
  let ?w = "svWorld sv"
  consider "silent (wNow ?w) (client_of ?w p)" | "alive (wNow ?w) (client_of ?w p)" | "clStatus (client_of ?w p) \<noteq> ACTIVE"
    by (auto simp: silent_def alive_def)
  then show ?case
  proof cases
    case 1
    obtain w where w: "with_world (Disconnect (clNetworkID (client_of ?w p)) True) sv = Inr (sv\<lparr>svWorld := w\<rparr>)"
      "keeps_ok ?w w" "wNow w = wNow ?w"
      "\<And>q. client_of w q = (if q = p then dropped (client_of ?w p) else client_of ?w q)"
      "queue_list (wQueue w) = remove1 p (queue_list (wQueue ?w))"
      using drop_silent [OF Cons.prems(1) _ 1] Cons.prems(3) by auto
    have run: "check_clients (p # ps) sv = check_clients ps (sv\<lparr>svWorld := w\<rparr>)"
      using 1 w(1) by (simp add: silent_def Let_def)
    obtain sv' where "check_clients ps (sv\<lparr>svWorld := w\<rparr>) = Inr sv'" "checked ps (sv\<lparr>svWorld := w\<rparr>) sv'"
      using Cons.IH [of "sv\<lparr>svWorld := w\<rparr>"] Cons.prems w(2) by (auto simp: keeps_ok_def)
    then show ?thesis using run checked_Cons_silent [OF 1 _ refl w(2-5)] Cons.prems(2) by auto
  next
    case 2
    then have n: "usize (int (svCurrConnectionCount sv) + 1) = svCurrConnectionCount sv + 1"
      using Cons.prems(4) by (simp add: usize_def nat_add_distrib)
    have run: "check_clients (p # ps) sv = check_clients ps (sv\<lparr>svCurrConnectionCount := svCurrConnectionCount sv + 1\<rparr>)"
      using 2 n by (simp add: alive_def Let_def)
    show ?thesis unfolding run
      using Cons.IH [of "sv\<lparr>svCurrConnectionCount := svCurrConnectionCount sv + 1\<rparr>"] Cons.prems checked_Cons_alive [OF 2] by force
  next
    case 3
    have run: "check_clients (p # ps) sv = check_clients ps sv" using 3 by (simp add: Let_def)
    show ?thesis unfolding run using Cons.IH [of sv] Cons.prems checked_Cons_other [OF 3] by force
  qed
qed

lemma check_connections_spec:
  assumes "world_ok (svWorld sv)" and "length (wClients (svWorld sv)) < 2 ^ 64"
  shows "\<exists>sv'. check_connections sv = Inr sv' \<and> keeps_ok (svWorld sv) (svWorld sv') \<and> wNow (svWorld sv') = wNow (svWorld sv) \<and>
    (\<forall>q < length (wClients (svWorld sv)). client_of (svWorld sv') q =
      (if silent (wNow (svWorld sv)) (client_of (svWorld sv) q)
       then dropped (client_of (svWorld sv) q) else client_of (svWorld sv) q)) \<and>
    svCurrConnectionCount sv' = length (filter (alive (wNow (svWorld sv))) (wClients (svWorld sv)))"
proof -
  have count: "length (filter (\<lambda>p. f (xs ! p)) [0..<length xs]) = length (filter f xs)" for f :: "client \<Rightarrow> bool" and xs
    by (metis filter_map length_map map_nth comp_apply filter_cong)
  show ?thesis
    using check_clients_spec [of "sv\<lparr>svCurrConnectionCount := 0\<rparr>" "[0..<length (wClients (svWorld sv))]"] assms
    by (fastforce simp: check_connections_def checked_def Let_def count)
qed

end
