(* ===== verification/Stage.thy ===== *)
theory Stage
  imports Items
begin

text \<open>
  The thread of a match (\<open>Room::ProgressThread\<close> and the stages it calls): its local variables, and
  the steps the stages of \<open>Room.cpp\<close> have in common.  A stage is a list of steps; a step takes the
  state of the thread and says how control goes on.

  The thread runs beside the worker threads.  Between two calls of \<open>Sleep\<close> it is taken to run
  alone; what the other threads do during each sleep is a list of functions on the server, one
  for each sleep, and nothing once the list is used up.
\<close>

section \<open>The thread\<close>

text \<open>
  \<open>thStream\<close> and \<open>thLeavers\<close> are the variables \<open>memoryStream\<close> and \<open>disconnectNetworkIdList\<close> of the
  block the thread is in.
\<close>

record thread =
  thWorld :: world
  thOthers :: "(world \<Rightarrow> world result) list"
  thAvatars :: "avatar list"
  thEffectItemCount :: nat
  thStream :: "packet list"
  thLeavers :: "int list"

definition thread_start :: "world \<Rightarrow> (world \<Rightarrow> world result) list \<Rightarrow> thread" where
  "thread_start w others = \<lparr>thWorld = w, thOthers = others, thAvatars = [], thEffectItemCount = 0,
     thStream = [], thLeavers = []\<rparr>"

text \<open>
  Control after a step: the next one, the end of the loop (\<open>break\<close>, \<open>goto FinishBattle\<close>), the end
  of the stage (\<open>return false\<close>, \<open>goto loopOut\<close>), or the end of the thread (\<open>_endthreadex\<close>).
\<close>

datatype flow = Next | Break | Leave | Exit

type_synonym step = "thread \<Rightarrow> (flow \<times> thread) result"

fun steps :: "step list \<Rightarrow> step" where
  "steps [] t = Inr (Next, t)"
| "steps (f # fs) t = rbind (f t) (\<lambda>(c, t'). if c = Next then steps fs t' else Inr (c, t'))"

definition breakable :: "step \<Rightarrow> step" where
  "breakable f t = rbind (f t) (\<lambda>(c, t'). Inr (if c = Break then Next else c, t'))"

definition on_server :: "(world \<Rightarrow> world result) \<Rightarrow> step" where
  "on_server f t = rbind (f (thWorld t)) (\<lambda>w. Inr (Next, t\<lparr>thWorld := w\<rparr>))"

definition Sleep :: step where
  "Sleep t =
     (case thOthers t of
        [] \<Rightarrow> Inr (Next, t)
      | f # fs \<Rightarrow> rbind (f (thWorld t)) (\<lambda>w. Inr (Next, t\<lparr>thWorld := w, thOthers := fs\<rparr>)))"

section \<open>The room of the thread\<close>

definition on_room :: "nat \<Rightarrow> (room \<Rightarrow> room) \<Rightarrow> step" where
  "on_room i f = on_server (\<lambda>w. Inr (set_room i (f (room_of w i)) w))"

definition set_status :: "nat \<Rightarrow> ERoomStatusType \<Rightarrow> step" where
  "set_status i st = on_room i (\<lambda>r. r\<lparr>rmCurRoomStatusType := st\<rparr>)"

text \<open>\<open>!room.mIsRun || room.GetSize() < 2 || room.GetOpenCount() != roomOpenCount\<close>\<close>

definition stopped :: "nat \<Rightarrow> nat \<Rightarrow> world \<Rightarrow> bool" where
  "stopped i openCount w \<longleftrightarrow>
     \<not> rmIsRun (room_of w i) \<or> rmSize (room_of w i) < 2 \<or> rmOpenCount (room_of w i) \<noteq> openCount"

definition leave_if_stopped :: "nat \<Rightarrow> nat \<Rightarrow> step" where
  "leave_if_stopped i openCount t =
     Inr (if stopped i openCount (thWorld t) then Leave else Next, t)"

text \<open>A loop over the clients of the room.\<close>

definition each_client :: "nat \<Rightarrow> (nat \<Rightarrow> step) \<Rightarrow> step" where
  "each_client i f t = steps (map f (rmClients (room_of (thWorld t) i))) t"

section \<open>Messages\<close>

text \<open>The block begins: its stream and its list are empty.\<close>

definition open_block :: step where
  "open_block t = Inr (Next, t\<lparr>thStream := [], thLeavers := []\<rparr>)"

definition emit :: "packet \<Rightarrow> step" where
  "emit p t = Inr (Next, t\<lparr>thStream := thStream t @ [p]\<rparr>)"

definition emit_all :: "packet list \<Rightarrow> step" where
  "emit_all ps t = Inr (Next, t\<lparr>thStream := thStream t @ ps\<rparr>)"

definition send_stream :: "nat \<Rightarrow> step" where
  "send_stream i t = on_server (SendStreamToAllClients i (thStream t)) t"

definition send_packet :: "nat \<Rightarrow> packet \<Rightarrow> step" where
  "send_packet i p = on_server (SendPacketToAllClients i p)"

text \<open>Only when something was written.\<close>

definition send_if_any :: "nat \<Rightarrow> step" where
  "send_if_any i t = (if thStream t \<noteq> [] then send_stream i t else Inr (Next, t))"

text \<open>A fresh block that writes some packets and sends them.\<close>

definition send_packets :: "nat \<Rightarrow> packet list \<Rightarrow> step" where
  "send_packets i ps = steps [open_block, emit_all ps, send_stream i]"

section \<open>Clients that lost\<close>

text \<open>
  The list of the block is sorted and made free of duplicates; the room is told, and after a
  pause every client of the list is disconnected.
\<close>

definition leavers :: "int list \<Rightarrow> int list" where
  "leavers ns = remdups_adj (sort ns)"

definition dismiss :: "nat \<Rightarrow> step" where
  "dismiss i t =
     (let gone = leavers (thLeavers t)
      in steps
        ([emit_all (map (\<lambda>n. Notification n DisconnectServer) gone),
          (\<lambda>t. if thStream t \<noteq> [] then steps [send_stream i, Sleep] t else Inr (Next, t))] @
         map (\<lambda>n. on_server (Disconnect n False)) gone) t)"

text \<open>\<open>GetClient()->GetHp() == 0 && room.IsValidClientInThisRoom(GetClient())\<close>: who has to go.\<close>

definition lost :: "nat \<Rightarrow> avatar \<Rightarrow> world \<Rightarrow> (int list) result" where
  "lost i av w =
     (case avClient av of
        None \<Rightarrow> Inl NullDeref
      | Some p \<Rightarrow>
          Inr (if clHp (client_of w p) = 0 \<and> IsValidClientInThisRoom i (Some p) w
               then [avNetworkID av] else []))"

section \<open>Avatars of the thread\<close>

definition with_pair :: "nat \<Rightarrow> nat \<Rightarrow> (avatar \<Rightarrow> avatar \<Rightarrow> step) \<Rightarrow> step" where
  "with_pair k l f t =
     rbind (at_idx (thAvatars t) k) (\<lambda>a. rbind (at_idx (thAvatars t) l) (\<lambda>b. f a b t))"

definition put_pair :: "nat \<Rightarrow> avatar \<Rightarrow> nat \<Rightarrow> avatar \<Rightarrow> thread \<Rightarrow> thread" where
  "put_pair k a l b t = t\<lparr>thAvatars := (thAvatars t)[k := a, l := b]\<rparr>"

text \<open>\<open>if (avatars[k].IsFinish()) continue;\<close>\<close>

definition if_fighting :: "nat \<Rightarrow> step \<Rightarrow> step" where
  "if_fighting k f t =
     rbind (at_idx (thAvatars t) k) (\<lambda>a. if avIsFinish a then Inr (Next, t) else f t)"

text \<open>The damage to a character: that of the other avatar, and two for every round.\<close>

definition wound :: "nat \<Rightarrow> avatar \<Rightarrow> avatar \<Rightarrow> world \<Rightarrow> (avatar \<times> world) result" where
  "wound i a b w =
     rbind (GetDamage b) (\<lambda>d.
       ToDamageCharacter (i32 (d + i32 (rmRound (room_of w i) * 2))) False a w)"

text \<open>The item of the attacker in its next slot acts; the slot is returned.\<close>

definition activate :: "nat \<Rightarrow> nat \<Rightarrow> nat \<Rightarrow> thread \<Rightarrow> (u8 \<times> thread) result" where
  "activate index k l t =
     rbind (at_idx (thAvatars t) k) (\<lambda>a. rbind (at_idx (thAvatars t) l) (\<lambda>b.
       rbind (ActiveItem index \<lparr>fxMe = a, fxOpponents = b, fxWorld = thWorld t\<rparr>) (\<lambda>(slot, s).
         Inr (slot, put_pair k (fxMe s) l (fxOpponents s) (t\<lparr>thWorld := fxWorld s\<rparr>)))))"

text \<open>After an attack the counters of the other avatar take effect.\<close>

definition counter_attack :: "u8 \<Rightarrow> nat \<Rightarrow> nat \<Rightarrow> step" where
  "counter_attack slot k l = with_pair k l (\<lambda>a b t.
     rbind (GetItemBySlot a (unat slot)) (\<lambda>it.
       rbind (at_idx sItems (unat (mType it))) (\<lambda>ib.
         if ibTYPE ib = Attack
         then let (b', a') = EffectCounter b a in Inr (Next, put_pair k a' l b' t)
         else Inr (Next, t))))"

definition bleed :: "nat \<Rightarrow> nat \<Rightarrow> step" where
  "bleed k l = with_pair k l (\<lambda>a b t.
     if \<not> avIsFinish a \<and> \<not> avIsFinish b then Inr (Next, put_pair k (EffectBleeding a) l b t)
     else Inr (Next, t))"

text \<open>The identifier of an avatar in a message: a copy is shown by the complement.\<close>

definition shown_id :: "avatar \<Rightarrow> int" where
  "shown_id av = (if avIsGhost av then not (avNetworkID av) else avNetworkID av)"

definition emit_infos :: "nat \<Rightarrow> nat \<Rightarrow> step" where
  "emit_infos k l = with_pair k l (\<lambda>a b t.
     rbind (sc_BattleAvatarInfoPacket a (thWorld t)) (\<lambda>p1.
       rbind (sc_BattleAvatarInfoPacket b (thWorld t)) (\<lambda>p2. emit_all [p1, p2] t)))"

text \<open>The bombs go off, then the numbers of the cycle are reset.\<close>

definition end_cycle :: "nat \<Rightarrow> nat \<Rightarrow> step" where
  "end_cycle k l = with_pair k l (\<lambda>a b t.
     Inr (Next, put_pair k (InitCycle (EffectBomb a)) l (InitCycle (EffectBomb b)) t))"

text \<open>\<open>60 - 0.5f * effectItemCount\<close>, cut to an unsigned byte.\<close>

definition remain_time :: "nat \<Rightarrow> u8 result" where
  "remain_time n = (if n < 122 then Inr (of_nat ((120 - n) div 2)) else Inl BadConversion)"

definition emit_time :: step where
  "emit_time t = rbind (remain_time (thEffectItemCount t)) (\<lambda>n. emit (BattleTimeInfo n) t)"

definition count_item :: step where
  "count_item t = Inr (Next, t\<lparr>thEffectItemCount := thEffectItemCount t + 1\<rparr>)"

text \<open>With every avatar finished the battle is over.\<close>

definition break_if_finished :: step where
  "break_if_finished t = Inr (if list_all avIsFinish (thAvatars t) then Break else Next, t)"

text \<open>The places \<open>k = 0, 2, \<dots>\<close> and \<open>k = 1, 3, \<dots>\<close> below a count.\<close>

definition evens :: "nat \<Rightarrow> nat list" where
  "evens n = map (\<lambda>j. 2 * j) [0..<(n + 1) div 2]"

definition odds :: "nat \<Rightarrow> nat list" where
  "odds n = map (\<lambda>j. 2 * j + 1) [0..<n div 2]"

text \<open>A loop over the places of the avatars.\<close>

definition each_place :: "(nat \<Rightarrow> nat list) \<Rightarrow> (nat \<Rightarrow> step) \<Rightarrow> step" where
  "each_place pl f t = steps (map f (pl (length (thAvatars t)))) t"

text \<open>What both kinds of battle end with: the last client of the room has won and leaves.\<close>

definition finish_stage :: "nat \<Rightarrow> nat \<Rightarrow> step" where
  "finish_stage i openCount = steps
     [(\<lambda>t. case rmClients (room_of (thWorld t) i) of
             [p] \<Rightarrow>
               (let n = clNetworkID (client_of (thWorld t) p)
                in steps [send_packet i (Notification n DisconnectServer), Sleep,
                          on_server (Disconnect n False)] t)
           | _ \<Rightarrow> Inr (Next, t)),
      Sleep, leave_if_stopped i openCount, Sleep, send_packet i (FadeIn 1), Sleep]"

text \<open>The value of a stage: whether the match goes on.\<close>

definition stage_value :: "(flow \<times> thread) result \<Rightarrow> (bool \<times> thread) result" where
  "stage_value m = rbind m (\<lambda>(c, t). Inr (c = Next, t))"

end
