(* ===== verification/Stage_Facts.thy ===== *)
theory Stage_Facts
  imports Stage Item_Facts Handler_Invariant Matching
begin

text \<open>
  The thread of a match stays inside the defined behaviour: the invariant of the match, the rules
  by which it is carried through a list of steps, and the steps all stages share.
\<close>

section \<open>The invariant of a match\<close>

text \<open>
  The drawn opponents: pairs of entries, eight at most, each standing for a client.
\<close>

definition opponents_ok :: "nat \<Rightarrow> int list \<Rightarrow> bool" where
  "opponents_ok n os \<longleftrightarrow> even (length os) \<and> length os \<le> MAX_ROOM_PLAYER \<and>
     (\<forall>x \<in> set os. 0 \<le> owner x \<and> owner x < int n)"

text \<open>
  The server with \<open>n\<close> clients and \<open>m\<close> rooms, and the room \<open>i\<close> of the match: its members are
  different, its manager is that of the members with at most \<open>K\<close> fights of two, the round is at most
  the next one, and its thread runs.
\<close>

definition match_ok :: "nat \<Rightarrow> nat \<Rightarrow> nat \<Rightarrow> nat \<Rightarrow> world \<Rightarrow> bool" where
  "match_ok n m K i w \<longleftrightarrow>
     world_ok w \<and> length (wClients w) = n \<and> length (wRooms w) = m \<and> i < m \<and>
     distinct (rmClients (room_of w i)) \<and>
     manager_ok (set (rmClients (room_of w i))) K (rmBattleManager (room_of w i)) \<and>
     opponents_ok n (rmBattleOpponents (room_of w i)) \<and>
     0 \<le> rmRound (room_of w i) \<and> rmRound (room_of w i) \<le> int K + 1 \<and> \<not> rmIsFinishThread (room_of w i)"

text \<open>What the other threads may do while the thread sleeps: anything that keeps the invariant.\<close>

definition other_ok :: "nat \<Rightarrow> nat \<Rightarrow> nat \<Rightarrow> (world \<Rightarrow> world result) \<Rightarrow> bool" where
  "other_ok n m i f \<longleftrightarrow>
     (\<forall>K w. match_ok n m K i w \<longrightarrow> (\<exists>w'. f w = Inr w' \<and> match_ok n m K i w'))"

definition thread_ok :: "nat \<Rightarrow> nat \<Rightarrow> nat \<Rightarrow> nat \<Rightarrow> thread \<Rightarrow> bool" where
  "thread_ok n m K i t \<longleftrightarrow> match_ok n m K i (thWorld t) \<and> list_all (other_ok n m i) (thOthers t)"

lemma match_okD:
  assumes "match_ok n m K i w"
  shows "world_ok w" and "length (wClients w) = n" and "length (wRooms w) = m" and "i < m"
    and "room_ok n (room_of w i)" and "length (rmClients (room_of w i)) \<le> 8"
  using assms world_ok_room [of w i] by (auto simp: match_ok_def room_ok_def)

text \<open>The invariant depends on the rooms and on the invariant of the server only.\<close>

lemma match_ok_rooms:
  assumes "match_ok n m K i w" and "world_ok w'" and "length (wClients w') = length (wClients w)"
    and "wRooms w' = wRooms w"
  shows "match_ok n m K i w'"
  using assms by (simp add: match_ok_def)

lemma match_ok_simps [simp]:
  "match_ok n m K i (w\<lparr>wSent := a\<rparr>) = match_ok n m K i w"
  "match_ok n m K i (w\<lparr>wRng := b\<rparr>) = match_ok n m K i w"
  "match_ok n m K i (w\<lparr>wNow := c\<rparr>) = match_ok n m K i w"
  "match_ok n m K i (w\<lparr>wThreads := d\<rparr>) = match_ok n m K i w"
  by (simp_all add: match_ok_def)

lemma match_ok_set_client:
  assumes "match_ok n m K i w" and "p < n" and "client_ok m p c"
  shows "match_ok n m K i (set_client p c w)"
  using match_ok_rooms [OF assms(1) world_ok_set_client] assms by (simp add: match_ok_def)

lemma match_ok_client: "match_ok n m K i w \<Longrightarrow> p < n \<Longrightarrow> client_ok m p (client_of w p)"
  using world_ok_client [of w p] by (simp add: match_ok_def)

lemma match_ok_set_room:
  assumes "match_ok n m K i w" and "room_ok n r" and "rmClients r = rmClients (room_of w i)"
    and "manager_ok (set (rmClients r)) L (rmBattleManager r)" and "opponents_ok n (rmBattleOpponents r)"
    and "0 \<le> rmRound r" and "rmRound r \<le> int L + 1" and "\<not> rmIsFinishThread r"
  shows "match_ok n m L i (set_room i r w)"
  using assms world_ok_set_room [of w i r] by (simp add: match_ok_def room_of_set_room)

text \<open>The identifiers of the members.\<close>

lemma match_ok_ids: "match_ok n m K i w \<Longrightarrow> ids_ok (client_of w) (set (rmClients (room_of w i)))"
  using world_ok_nid [of w] world_ok_members [of w i]
  by (auto simp: match_ok_def ids_ok_def inj_on_def)

lemma match_ok_nid: "match_ok n m K i w \<Longrightarrow> p < n \<Longrightarrow> clNetworkID (client_of w p) = int p"
  using world_ok_nid [of w p] by (simp add: match_ok_def)

lemma match_ok_members: "match_ok n m K i w \<Longrightarrow> p \<in> set (rmClients (room_of w i)) \<Longrightarrow> p < n"
  using world_ok_members [of w i p] by (simp add: match_ok_def)

section \<open>Rules for steps\<close>

text \<open>
  From \<open>P\<close> the step returns; it ends in \<open>Q\<close> when control goes on, and in \<open>R\<close> when it does not.
\<close>

definition runs :: "(thread \<Rightarrow> bool) \<Rightarrow> (thread \<Rightarrow> bool) \<Rightarrow> step \<Rightarrow> (thread \<Rightarrow> bool) \<Rightarrow> bool" where
  "runs R P f Q \<longleftrightarrow> (\<forall>t. P t \<longrightarrow> (\<exists>c t'. f t = Inr (c, t') \<and> (if c = Next then Q t' else R t')))"

lemma runsI: "(\<And>t. P t \<Longrightarrow> \<exists>t'. f t = Inr (Next, t') \<and> Q t') \<Longrightarrow> runs R P f Q"
  by (fastforce simp: runs_def)

lemma runsD: "runs R P f Q \<Longrightarrow> P t \<Longrightarrow> \<exists>c t'. f t = Inr (c, t') \<and> (if c = Next then Q t' else R t')"
  by (simp add: runs_def)

lemma runs_weaken:
  assumes "runs R P f Q" and "\<And>t. P' t \<Longrightarrow> P t" and "\<And>t. Q t \<Longrightarrow> Q' t"
  shows "runs R P' f Q'"
  unfolding runs_def
proof (intro allI impI)
  fix t assume "P' t"
  then obtain c t' where "f t = Inr (c, t')" "if c = Next then Q t' else R t'"
    using runsD [OF assms(1)] assms(2) by blast
  then show "\<exists>c t'. f t = Inr (c, t') \<and> (if c = Next then Q' t' else R t')"
    using assms(3) by (intro exI [of _ c] exI [of _ t']) (simp split: if_splits)
qed

lemma runs_pre: "runs R P f Q \<Longrightarrow> (\<And>t. P' t \<Longrightarrow> P t) \<Longrightarrow> runs R P' f Q"
  using runs_weaken [of R P f Q P' Q] by blast

lemma runs_post: "runs R P f Q \<Longrightarrow> (\<And>t. Q t \<Longrightarrow> Q' t) \<Longrightarrow> runs R P f Q'"
  using runs_weaken [of R P f Q P Q'] by blast

lemma runs_Nil: "runs R P (steps []) P"
  by (simp add: runs_def)

lemma runs_Cons:
  assumes "runs R P f P1" and "runs R P1 (steps fs) Q"
  shows "runs R P (steps (f # fs)) Q"
  unfolding runs_def
proof (intro allI impI)
  fix t assume "P t"
  then obtain c t' where f: "f t = Inr (c, t')" "if c = Next then P1 t' else R t'" using assms(1) by (auto simp: runs_def)
  show "\<exists>c t'. steps (f # fs) t = Inr (c, t') \<and> (if c = Next then Q t' else R t')"
    using f runsD [OF assms(2), of t'] by (cases "c = Next") auto
qed

lemma steps_append: "steps (fs @ gs) t = rbind (steps fs t) (\<lambda>(c, t'). if c = Next then steps gs t' else Inr (c, t'))"
proof (induction fs arbitrary: t)
  case Nil
  then show ?case by simp
next
  case (Cons f fs)
  show ?case
  proof (cases "f t")
    case (Inl e)
    then show ?thesis by simp
  next
    case (Inr x)
    then show ?thesis by (cases x; cases "fst x = Next") (simp_all add: Cons.IH)
  qed
qed

lemma runs_append:
  assumes "runs R P (steps fs) P1" and "runs R P1 (steps gs) Q"
  shows "runs R P (steps (fs @ gs)) Q"
proof -
  have "steps (fs @ gs) = steps [steps fs, steps gs]"
    by (rule ext) (auto simp: steps_append rbind_def split: sum.split)
  then show ?thesis using runs_Cons [OF assms(1) runs_Cons [OF assms(2) runs_Nil]] by simp
qed

lemma runs_map:
  "(\<And>j. j < length ks \<Longrightarrow> runs R (P j) (f (ks ! j)) (P (Suc j))) \<Longrightarrow> runs R (P 0) (steps (map f ks)) (P (length ks))"
proof (induction ks arbitrary: P)
  case Nil
  show ?case using runs_Nil [of R "P 0"] by (simp del: steps.simps)
next
  case (Cons k ks)
  have "runs R (P 0) (f k) (P (Suc 0))" using Cons.prems [of 0] by simp
  moreover have "runs R (P (Suc 0)) (steps (map f ks)) (P (Suc (length ks)))"
    using Cons.IH [of "\<lambda>j. P (Suc j)"] Cons.prems [of "Suc _"] by auto
  ultimately show ?case by (simp add: runs_Cons del: steps.simps)
qed

lemma runs_same: "(\<And>f. f \<in> set fs \<Longrightarrow> runs R P f P) \<Longrightarrow> runs R P (steps fs) P"
  by (induction fs) (auto intro: runs_Nil runs_Cons simp del: steps.simps)

lemma runs_breakable: "runs R P f R \<Longrightarrow> runs R P (breakable f) R"
  unfolding runs_def breakable_def by (fastforce split: if_splits)

lemma runs_if: "(b \<Longrightarrow> runs R P f Q) \<Longrightarrow> (\<not> b \<Longrightarrow> runs R P g Q) \<Longrightarrow> runs R P (if b then f else g) Q"
  by simp

text \<open>A step chosen by the state.\<close>

lemma runs_dep: "(\<And>t. P t \<Longrightarrow> \<exists>c t'. f t t = Inr (c, t') \<and> (if c = Next then Q t' else R t')) \<Longrightarrow> runs R P (\<lambda>t. f t t) Q"
  by (simp add: runs_def)

lemmas runs_list = runs_Cons [OF _ runs_Nil] runs_Cons

section \<open>Duels\<close>

text \<open>The avatar of a client, and a monster.\<close>

definition player_ok :: "nat \<Rightarrow> avatar \<Rightarrow> bool" where
  "player_ok n a \<longleftrightarrow> avatar_ok a \<and> (\<exists>p < n. avClient a = Some p \<and> avNetworkID a = int p)"

definition creep_ok :: "avatar \<Rightarrow> bool" where
  "creep_ok a \<longleftrightarrow> avatar_ok a \<and> avClient a = None \<and> avIsGhost a \<and>
     (\<forall>it \<in> set (avUsingItem a). mType it \<noteq> 17 \<and> mType it \<noteq> 21)"

text \<open>With \<open>creeps\<close> the odd places are monsters.\<close>

definition sort_ok :: "nat \<Rightarrow> bool \<Rightarrow> nat \<Rightarrow> avatar \<Rightarrow> bool" where
  "sort_ok n creeps k a \<longleftrightarrow> (if creeps \<and> odd k then creep_ok a else player_ok n a)"

text \<open>
  \<open>N\<close> avatars in pairs.  \<open>b k\<close> bounds the activations of
  the avatar \<open>k\<close> in the current cycle, as long as it fights.
\<close>

definition avatars_ok :: "nat \<Rightarrow> bool \<Rightarrow> nat \<Rightarrow> (nat \<Rightarrow> int) \<Rightarrow> avatar list \<Rightarrow> bool" where
  "avatars_ok n creeps N b avs \<longleftrightarrow>
     length avs = N \<and> even N \<and> N \<le> (if creeps then 16 else 8) \<and>
     (\<forall>k < N. sort_ok n creeps k (avs ! k) \<and>
        (\<not> avIsFinish (avs ! k) \<longrightarrow> avEffectItemCount (avs ! k) \<le> b k)) \<and>
     (\<forall>k < N. even k \<longrightarrow> avIsFinish (avs ! k) = avIsFinish (avs ! (k + 1)))"

definition stream_size :: "packet list \<Rightarrow> nat" where
  "stream_size ps = sum_list (map packet_sizeof ps)"

lemma stream_size_simps [simp]: "stream_size [] = 0" "stream_size (ps @ qs) = stream_size ps + stream_size qs"
  "stream_size (p # ps) = packet_sizeof p + stream_size ps"
  by (simp_all add: stream_size_def)

lemma length_stream: "list_all packet_ok ps \<Longrightarrow> length (stream ps) = stream_size ps"
  by (induction ps) (simp_all add: stream_def length_Packet_Write)

text \<open>The locals of a block: at most \<open>x\<close> bytes in the stream, at most \<open>y\<close> clients to dismiss.\<close>

definition block_ok :: "nat \<Rightarrow> nat \<Rightarrow> nat \<Rightarrow> thread \<Rightarrow> bool" where
  "block_ok n x y t \<longleftrightarrow>
     list_all packet_ok (thStream t) \<and> stream_size (thStream t) \<le> x \<and> length (thLeavers t) \<le> y \<and>
     (\<forall>l \<in> set (thLeavers t). \<exists>p < n. l = int p)"

text \<open>
  A duel: \<open>e\<close> bounds the number of half turns.  The parameters \<open>n m K i\<close> are those of the match.
\<close>

definition duel :: "nat \<Rightarrow> nat \<Rightarrow> nat \<Rightarrow> nat \<Rightarrow> bool \<Rightarrow> nat \<Rightarrow> (nat \<Rightarrow> int) \<Rightarrow> nat \<Rightarrow> nat \<Rightarrow> nat \<Rightarrow> thread \<Rightarrow> bool" where
  "duel n m K i creeps N b e x y t \<longleftrightarrow>
     thread_ok n m K i t \<and> avatars_ok n creeps N b (thAvatars t) \<and> thEffectItemCount t \<le> e \<and> block_ok n x y t"

lemma duel_thread: "duel n m K i creeps N b e x y t \<Longrightarrow> thread_ok n m K i t"
  by (simp add: duel_def)

lemma duel_mono:
  assumes "duel n m K i creeps N b e x y t" and "\<And>k. k < N \<Longrightarrow> b k \<le> b' k" and "e \<le> e'" and "x \<le> x'" and "y \<le> y'"
  shows "duel n m K i creeps N b' e' x' y' t"
proof -
  have "avatars_ok n creeps N b' (thAvatars t)"
    using assms(1,2) unfolding duel_def avatars_ok_def by (meson order_trans)
  then show ?thesis using assms by (auto simp: duel_def block_ok_def)
qed

section \<open>Leaving a running match\<close>

lemma RemoveClient_fit:
  assumes "room_ok n r" and "distinct (rmClients r)"
    and "manager_ok (set (rmClients r)) K (rmBattleManager r)" and "ids_ok cl (set (rmClients r))"
  shows "distinct (rmClients (Room_RemoveClient cl p r)) \<and>
    manager_ok (set (rmClients (Room_RemoveClient cl p r))) K (rmBattleManager (Room_RemoveClient cl p r)) \<and>
    rmBattleOpponents (Room_RemoveClient cl p r) = rmBattleOpponents r \<and>
    rmRound (Room_RemoveClient cl p r) \<in> {0, rmRound r} \<and>
    rmIsFinishThread (Room_RemoveClient cl p r) = rmIsFinishThread r"
proof -
  define r1 where "r1 = (if p \<in> set (rmClients r)
    then r\<lparr>rmClients := remove1 p (rmClients r), rmBattleManager :=
      BattleManager_RemoveClient cl (clNetworkID (cl p)) (rmBattleManager r), rmSize := usize (int (rmSize r) - 1)\<rparr>
    else r)"
  have r1: "distinct (rmClients r1)" "manager_ok (set (rmClients r1)) K (rmBattleManager r1)"
    using assms manager_ok_RemoveClient [OF assms(3) _ , of cl p] by (auto simp: r1_def ids_ok_def)
  have len: "rmSize r = length (rmClients r)" "length (rmClients r) \<le> 8" using assms(1) by (simp_all add: room_ok_def)
  have "rmSize r1 = length (rmClients r1)"
  proof (cases "p \<in> set (rmClients r)")
    case True
    then have "length (remove1 p (rmClients r)) = length (rmClients r) - 1" "0 < length (rmClients r)"
      by (auto simp: length_remove1 length_pos_if_in_set)
    moreover from this have "usize (int (length (rmClients r)) - 1) = length (rmClients r) - 1"
      using len by (simp add: usize_def nat_diff_distrib)
    ultimately show ?thesis using True len by (simp add: r1_def)
  next
    case False
    then show ?thesis using len by (simp add: r1_def)
  qed
  moreover have "rmBattleOpponents r1 = rmBattleOpponents r" "rmIsFinishThread r1 = rmIsFinishThread r"
    "rmRound r1 = rmRound r"
    by (simp_all add: r1_def)
  ultimately show ?thesis using r1
    by (auto simp: Room_RemoveClient_def Let_def r1_def [symmetric] Room_Init_def)
qed

lemma Client_Init_room:
  "i < length (wRooms w) \<Longrightarrow> room_of (Client_Init p w) i =
    (if clRoomPtr (client_of w p) = Some i
     then Room_RemoveClient (client_of w) p (room_of w i) else room_of w i)"
  by (auto simp: Client_Init_def Let_def set_room_def nth_list_update split: option.split)

lemma Disconnect_rooms:
  assumes "Disconnect (int p) b w = Inr w'"
  shows "wRooms w' = wRooms w \<or> (\<exists>w2. wRooms w2 = wRooms w \<and>
    map clNetworkID (wClients w2) = map clNetworkID (wClients w) \<and> w' = Client_Init p w2)"
proof (cases "clStatus (client_of w p) = FREE")
  case True
  then show ?thesis using assms by (auto simp: Disconnect_def rbind_Inr_iff client_idx_def split: if_splits)
next
  case False
  then have "rbind (RemoveClient (wQueue w) p) (\<lambda>q.
      rbind (if b then SendPacketInAnotherRoomClients p (Notification (int p) DisconnectServer) (w\<lparr>wQueue := q\<rparr>)
             else Inr (w\<lparr>wQueue := q\<rparr>))
        (\<lambda>w2. Inr (Client_Init p (set_client p ((client_of w2 p)\<lparr>clStatus := ALLOCATED\<rparr>) w2)))) = Inr w'"
    using assms by (cases "p < length (wClients w)") (simp_all add: Disconnect_def client_idx_def Let_def)
  then obtain q w2 where w2: "(if b then SendPacketInAnotherRoomClients p (Notification (int p) DisconnectServer)
      (w\<lparr>wQueue := q\<rparr>) else Inr (w\<lparr>wQueue := q\<rparr>)) = Inr w2"
    and w': "w' = Client_Init p (set_client p ((client_of w2 p)\<lparr>clStatus := ALLOCATED\<rparr>) w2)"
    by (elim rbind_InrE) auto
  have "sent_only (w\<lparr>wQueue := q\<rparr>) w2" using w2
    by (auto simp: SendPacketInAnotherRoomClients_def SendPacketToAnotherClients_def SendToOthers_def
        split: if_splits option.splits intro: send_all_sent)
  then have eq: "wRooms w2 = wRooms w" "wClients w2 = wClients w"
    unfolding sent_only_def by (metis world.select_convs(1,2) world.surjective world.update_convs(3,5))+
  have "map clNetworkID (wClients (set_client p ((client_of w2 p)\<lparr>clStatus := ALLOCATED\<rparr>) w2)) =
      map clNetworkID (wClients w)"
    unfolding set_client_def using eq by (cases "p < length (wClients w)") (simp_all add: map_update list_update_same_conv)
  then show ?thesis using w' eq(1) by (intro disjI2 exI [of _ "set_client p _ w2"]) simp
qed

lemma Disconnect_match:
  assumes m: "match_ok n m K i w" and p: "p < n"
  shows "\<exists>w'. Disconnect (int p) b w = Inr w' \<and> match_ok n m K i w'"
proof -
  note d = match_okD [OF m]
  obtain w' where w': "Disconnect (int p) b w = Inr w'" "world_ok w'" "length (wClients w') = n" "length (wRooms w') = m"
    using Disconnect_ok [OF d(1), of p b] d p by auto
  from Disconnect_rooms [OF w'(1)] show ?thesis
  proof (elim disjE exE conjE)
    assume "wRooms w' = wRooms w"
    then show ?thesis using w' match_ok_rooms [OF m] d by auto
  next
    fix w2 assume w2: "wRooms w2 = wRooms w" "map clNetworkID (wClients w2) = map clNetworkID (wClients w)"
      "w' = Client_Init p w2"
    have "clNetworkID (client_of w2 q) = clNetworkID (client_of w q)" if "q < n" for q
      using w2(2) that d(2) by (metis length_map nth_map)
    then have "ids_ok (client_of w2) (set (rmClients (room_of w i)))"
      using match_ok_ids [OF m] match_ok_members [OF m] by (fastforce simp: ids_ok_def inj_on_def)
    then show ?thesis
      using w' m w2 RemoveClient_fit [of n "room_of w i" K "client_of w2" p] d
      by (auto simp: match_ok_def Client_Init_room)
  qed
qed

end
