(* ===== verification/Handler_Footprint.thy ===== *)
theory Handler_Footprint
  imports Handler_Defined
begin

text \<open>
  What the handlers leave alone: all but the request for a match touch neither room nor queue, nor
  the status, the socket, the room and the hit points of any client.
\<close>

section \<open>Quiet steps\<close>

definition seat :: "client \<Rightarrow> ESocketStatus \<times> nat option \<times> nat \<times> nat option \<times> int" where
  "seat c = (clStatus c, clRoomPtr c, clRoomOpenCount c, clSocket c, clHp c)"

definition quiet :: "world \<Rightarrow> world \<Rightarrow> bool" where
  "quiet w w' \<longleftrightarrow> wRooms w' = wRooms w \<and> wQueue w' = wQueue w \<and> map seat (wClients w') = map seat (wClients w)"

lemma seat_cong:
  "clStatus c = clStatus d \<Longrightarrow> clRoomPtr c = clRoomPtr d \<Longrightarrow> clRoomOpenCount c = clRoomOpenCount d \<Longrightarrow>
    clSocket c = clSocket d \<Longrightarrow> clHp c = clHp d \<Longrightarrow> seat c = seat d"
  by (simp add: seat_def)

lemma seat_simps [simp]:
  "seat (c\<lparr>clUsingItems := a\<rparr>) = seat c" "seat (c\<lparr>clUnUsingItems := a\<rparr>) = seat c" "seat (c\<lparr>clName := b\<rparr>) = seat c"
  "seat (c\<lparr>clCharacterType := d\<rparr>) = seat c" "seat (c\<lparr>clIsChoiceCharacter := e\<rparr>) = seat c"
  "seat (c\<lparr>clLastConnectCheckPacketTime := f\<rparr>) = seat c" "seat (SetTicketCount k n c) = seat c"
  by (cases k; simp add: seat_def)+

lemma quiet_simps [simp]:
  "quiet w w" "quiet w (v\<lparr>wRng := r\<rparr>) = quiet w v" "quiet w (v\<lparr>wSent := bs\<rparr>) = quiet w v"
  by (simp_all add: quiet_def)

lemma quiet_set_client:
  assumes "quiet w v" and "seat c = seat (client_of v p)"
  shows "quiet w (set_client p c v)"
proof -
  have "map seat ((wClients v)[p := c]) = map seat (wClients v)"
    using assms(2) by (cases "p < length (wClients v)") (simp_all add: map_update list_update_same_conv list_update_beyond)
  then show ?thesis using assms(1) by (simp add: quiet_def set_client_def)
qed

lemma quiet_sent: "sent_only v w' \<Longrightarrow> quiet w v \<Longrightarrow> quiet w w'"
proof -
  assume "sent_only v w'" and q: "quiet w v"
  then obtain s where "w' = v\<lparr>wSent := s\<rparr>" unfolding sent_only_def by blast
  then show "quiet w w'" using q by simp
qed

lemma quiet_send [post_intros]:
  "quiet w v \<Longrightarrow> post (quiet w) (SendToAll i bytes v)"
  "quiet w v \<Longrightarrow> post (quiet w) (SendStreamToAllClients i ps v)"
  "quiet w v \<Longrightarrow> post (quiet w) (send_inventory conn p v)"
  "quiet w v \<Longrightarrow> post (quiet w) (ForwardInAllRoomClients p buf v)"
  unfolding SendStreamToAllClients_def post_def using quiet_sent send_sent by blast+

section \<open>Operations on a client\<close>

definition seated :: "client \<Rightarrow> client \<Rightarrow> bool" where
  "seated c d \<longleftrightarrow> seat d = seat c"

lemma seated_refl [simp]: "seated c c" by (simp add: seated_def)

lemma seated_trans: "seated a b \<Longrightarrow> seated b c \<Longrightarrow> seated a c" by (simp add: seated_def)

lemma seated_ModifyItem: "ModifyItem c i f = Inr c' \<Longrightarrow> seated c c'"
  by (auto simp: ModifyItem_def rbind_Inr_iff seated_def)

lemma seated_Modify_post [post_intros]: "seated c d \<Longrightarrow> post (seated c) (ModifyItem d i f)"
  using seated_ModifyItem seated_trans unfolding post_def by blast

lemma seated_SwapItem: "post (seated c) (SwapItem c i j)"
  unfolding SwapItem_def by (intro post_intros) (metis seated_ModifyItem)

lemma seated_take_name: "post (seated c) (take_name buf c)"
  unfolding take_name_def by (intro post_intros) (simp add: seated_def)

lemma seat_AddItem: "seat (fst (AddItem c t)) = seat c"
  by (auto simp: AddItem_def split: option.split)

lemma seated_combine: "post (\<lambda>r. \<forall>c' rng'. r = Some (c', rng') \<longrightarrow> seated c c') (combine i j k c rng)"
  unfolding combine_def by (intro post_intros) (auto dest!: seated_ModifyItem intro: seated_trans)

lemma seated_upgrade: "post (\<lambda>r. \<forall>c'. r = Some c' \<longrightarrow> seated c c') (upgrade_items i j c)"
  unfolding upgrade_items_def Let_def
  by (intro post_intros) (auto dest!: seated_ModifyItem intro: seated_trans)

lemma quiet_modify:
  assumes "post (seated (client_of w p)) (f (client_of w p))" and "modify_client p f w = Inr w1"
  shows "quiet w w1"
  using assms by (auto simp: modify_client_def rbind_Inr_iff post_def seated_def intro!: quiet_set_client)

section \<open>The handlers\<close>

lemma quiet_ticket: "post (quiet w) (use_ticket t p w)"
  unfolding use_ticket_def Let_def case_prod_unfold
  by (intro post_intros quiet_set_client) (simp_all add: seat_AddItem)

lemma quiet_set_fields:
  "modify_client p (\<lambda>c. Inr (c\<lparr>clCharacterType := t\<rparr>)) w = Inr w1 \<Longrightarrow> quiet w w1"
  "modify_client p (\<lambda>c. Inr (c\<lparr>clIsChoiceCharacter := b\<rparr>)) w = Inr w2 \<Longrightarrow> quiet w w2"
  "modify_client p (\<lambda>c. Inr (c\<lparr>clLastConnectCheckPacketTime := n\<rparr>)) w = Inr w3 \<Longrightarrow> quiet w w3"
  "modify_client p (\<lambda>c. SwapItem c i j) w = Inr w4 \<Longrightarrow> quiet w w4"
  "modify_client p (\<lambda>c. ModifyItem c i f) w = Inr w5 \<Longrightarrow> quiet w w5"
  by (erule quiet_modify [rotated], simp add: post_Inr seated_def seated_SwapItem seated_Modify_post)+

lemma quiet_plain:
  "post (quiet w) (change_character conn buf w)" "post (quiet w) (use_emoticon conn buf w)"
  "post (quiet w) (choice_character p buf w)" "post (quiet w) (connect_check p w)"
  "post (quiet w) (change_item_slot conn buf w)" "post (quiet w) (drop_item conn buf w)"
proof -
  show "post (quiet w) (connect_check p w)"
    unfolding connect_check_def post_def using quiet_set_fields by blast
qed (unfold change_character_def use_emoticon_def choice_character_def change_item_slot_def drop_item_def,
    (intro post_intros; (simp; fail | erule quiet_set_fields))+)

lemma quiet_upgrade: "post (quiet w) (request_upgrade_item conn buf w)"
  unfolding request_upgrade_item_def
  by (intro post_intros) (use postD [OF seated_upgrade] in \<open>auto simp: seated_def intro!: quiet_set_client\<close>)

lemma quiet_combination: "post (quiet w) (request_combination_item conn buf w)"
proof -
  have s: "quiet w w1" if "(if b then send_inventory conn p w else Inr w) = Inr w1" for b p w1
    using postD [OF quiet_send(3) [of w w conn p]] that by (auto split: if_splits)
  have c: "quiet w (set_client p c (w1\<lparr>wRng := rng\<rparr>))"
    if "quiet w w1" "combine i j k (client_of w1 p) (wRng w1) = Inr (Some (c, rng))" for w1 p c rng i j k
    using that postD [OF seated_combine that(2)] by (intro quiet_set_client) (simp_all add: seated_def)
  show ?thesis unfolding request_combination_item_def
    by (intro post_intros) (auto intro: c dest: s)
qed

lemma quiet_notification: "post (quiet w) (notification buf w)"
proof -
  have "post (quiet w) (case t of
      ChoiceCharacter \<Rightarrow> choice_character p buf w | ConnectCheck \<Rightarrow> connect_check p w
    | UseNormalItemTicket \<Rightarrow> use_ticket Normal p w | UseAdvancedItemTicket \<Rightarrow> use_ticket Advanced p w
    | UseTopItemTicket \<Rightarrow> use_ticket Top p w | UseSupremeItemTicket \<Rightarrow> use_ticket Supreme p w
    | EffectCreepItem \<Rightarrow> Inl AssertFailed | _ \<Rightarrow> Inr w)" for t p
    by (cases t) (simp_all add: quiet_plain quiet_ticket post_Inl post_Inr)
  then show ?thesis unfolding notification_def by (intro post_intros)
qed

lemma ProcessPacket_quiet:
  assumes "rd_type buf \<noteq> Some pt_cs_startMatching"
  shows "post (quiet w) (ProcessPacket conn buf w)"
proof (cases "rd_type buf")
  case None
  then show ?thesis by (simp add: ProcessPacket_def post_Inr)
next
  case (Some t)
  then show ?thesis using assms
    by (cases t) (simp_all add: ProcessPacket_def post_Inr quiet_plain quiet_upgrade quiet_combination quiet_notification)
qed

end
