(* ===== verification/Other_Threads.thy ===== *)
theory Other_Threads
  imports Stage_Facts Handler_Footprint
begin

text \<open>
  What the worker threads do while the thread of a match sleeps: a packet handler touches no room
  but the free one it opens, so the invariant of a running match is kept by handlers and disconnects.
\<close>

section \<open>Opening a room\<close>

lemma TryCreate_other_room:
  assumes "TryCreateRoomOrNullPtr w = Inr (r, w')" and "find_unused (wRooms w) = Some j" and "i \<noteq> j"
  shows "room_of w' i = room_of w i"
  using assms by (auto simp: TryCreateRoomOrNullPtr_def GetUnUsedRoom_def World_AddClients_def rbind_Inr_iff
      set_room_def split: option.splits if_splits)

text \<open>A handler leaves a room whose thread runs as it is.\<close>

lemma start_matching_room:
  assumes ok: "world_ok w" and run: "\<not> rmIsFinishThread (room_of w i)" and conn: "conn < length (wClients w)"
    and cm: "clRoomPtr (client_of w conn) \<noteq> None \<or> can_match buf w" and w': "start_matching conn buf w = Inr w'"
  shows "room_of w' i = room_of w i"
proof (cases "clRoomPtr (client_of w conn) \<noteq> None")
  case True
  then show ?thesis using w' by (simp add: start_matching_def)
next
  case False
  then obtain w1 q r w2 where s: "modify_client conn (take_name buf) w = Inr w1" "AddClient (wQueue w1) conn = Inr q"
    "TryCreateRoomOrNullPtr (w1\<lparr>wQueue := q\<rparr>) = Inr (r, w2)"
    and rest: "(case r of None \<Rightarrow> Inr w2 | Some i \<Rightarrow> rbind (sc_ConnectRoomPacket (map (client_of w2) (rmClients (room_of w2 i))))
      (\<lambda>pkt. rbind (SendStreamToAllClients i [SetChoiceCharacterTime (of_nat CHOICE_CHARACTER_TIME), pkt] w2) (\<lambda>w3.
        Inr (w3\<lparr>wThreads := wThreads w3 @ [i]\<rparr>)))) = Inr w'"
    using w' by (auto simp: start_matching_def rbind_Inr_iff)
  have r1: "wRooms w1 = wRooms w" and q1: "wQueue w1 = wQueue w" using s(1) by (auto simp: modify_client_def rbind_Inr_iff)
  have same: "wRooms w' = wRooms w2"
    using rest postD [OF quiet_send(2) [of w2 w2]] by (cases r) (auto simp: rbind_Inr_iff quiet_def)
  have "room_of w2 i = room_of w i"
  proof (cases "find_unused (wRooms w)")
    case (Some j)
    then have "i \<noteq> j" using find_unused_Some [OF Some] run by auto
    then show ?thesis using TryCreate_other_room [OF s(3), of j i] Some r1 by simp
  next
    case None
    obtain q' where q': "AddClient (wQueue w) conn = Inr q'" "queue_good q'" "queue_list q' = queue_list (wQueue w) @ [conn]"
      using sq.enq_members [of "wQueue w" conn] ok by (auto simp: world_ok_def)
    have "length (queue_list (wQueue w)) < MAX_ROOM_PLAYER - 1" using cm False None by (simp add: can_match_def)
    then have "TakeRoomClients q = Inr (None, q)" using sq.take_few [of q] s(2) q1 q' by simp
    then show ?thesis using s(3) r1 by (auto simp: TryCreateRoomOrNullPtr_def)
  qed
  then show ?thesis using same by simp
qed

lemma ProcessPacket_room:
  assumes ok: "world_ok w" and run: "\<not> rmIsFinishThread (room_of w i)" and conn: "conn < length (wClients w)"
    and range: "in_range conn buf w" and w': "ProcessPacket conn buf w = Inr w'"
  shows "room_of w' i = room_of w i"
proof (cases "rd_type buf = Some pt_cs_startMatching")
  case False
  then show ?thesis using postD [OF ProcessPacket_quiet w'] by (simp add: quiet_def)
next
  case True
  then show ?thesis using start_matching_room [OF ok run conn, of buf w'] range w'
    by (simp add: ProcessPacket_def in_range_def)
qed

section \<open>The other threads\<close>

text \<open>A packet of a client is handled, or a client is disconnected.\<close>

definition handle :: "nat \<Rightarrow> u8 list \<Rightarrow> world \<Rightarrow> world result" where
  "handle conn buf w = (if in_range conn buf w then ProcessPacket conn buf w else Inr w)"

lemma match_ok_same_room:
  assumes "match_ok n m K i w" and "world_ok w'" and "length (wClients w') = n" and "length (wRooms w') = m"
    and "room_of w' i = room_of w i"
  shows "match_ok n m K i w'"
  using assms by (simp add: match_ok_def)

lemma handle_ok:
  assumes "conn < n" and "length buf = MAX_PACKET_SIZE"
  shows "other_ok n m i (handle conn buf)"
  unfolding other_ok_def
proof (intro allI impI)
  fix K w assume w: "match_ok n m K i w"
  note d = match_okD [OF w]
  have conn: "conn < length (wClients w)" using assms(1) d(2) by simp
  show "\<exists>w'. handle conn buf w = Inr w' \<and> match_ok n m K i w'"
  proof (cases "in_range conn buf w")
    case False
    then show ?thesis using w by (simp add: handle_def)
  next
    case True
    obtain w' where w': "ProcessPacket conn buf w = Inr w'"
      using ProcessPacket_defined [OF d(1) conn assms(2) True] by (auto simp: defined_def)
    have k: "keeps_ok w w'" using postD [OF ProcessPacket_keeps [OF d(1) conn] w'] .
    have "room_of w' i = room_of w i"
      by (rule ProcessPacket_room [OF d(1) _ conn True w']) (use w in \<open>simp add: match_ok_def\<close>)
    then have "match_ok n m K i w'" by (intro match_ok_same_room [OF w]) (use k d in \<open>auto simp: keeps_ok_def\<close>)
    then show ?thesis using True w' by (simp add: handle_def)
  qed
qed

lemma disconnect_other: "p < n \<Longrightarrow> other_ok n m i (Disconnect (int p) b)"
  using Disconnect_match by (auto simp: other_ok_def)

end
