(* ===== verification/Placement.thy ===== *)
theory Placement
  imports Connection_Facts Other_Threads
begin

text \<open>
  Every client has one place: it waits in the queue, or it is in one room, or neither, and who has
  a place is connected.  The operations of the server keep this as long as nobody asks for a match
  while waiting for one.
\<close>

section \<open>The invariant\<close>

definition placed :: "world \<Rightarrow> bool" where
  "placed w \<longleftrightarrow>
     distinct (queue_list (wQueue w)) \<and>
     (\<forall>p \<in> set (queue_list (wQueue w)). clStatus (client_of w p) = ACTIVE \<and> clRoomPtr (client_of w p) = None) \<and>
     (\<forall>i < length (wRooms w). distinct (rmClients (room_of w i)) \<and>
        (\<forall>p \<in> set (rmClients (room_of w i)). clStatus (client_of w p) = ACTIVE \<and>
           clRoomPtr (client_of w p) = Some i \<and> clRoomOpenCount (client_of w p) = rmOpenCount (room_of w i))) \<and>
     (\<forall>p < length (wClients w). clStatus (client_of w p) \<noteq> ACTIVE \<longrightarrow> clRoomPtr (client_of w p) = None) \<and>
     (\<forall>p < length (wClients w). clStatus (client_of w p) = ACTIVE \<longrightarrow> clSocket (client_of w p) \<noteq> None)"

text \<open>It depends on the seats, the queue and the members of the rooms; a room may lose them all.\<close>

lemma placed_frame:
  assumes "placed w" and "world_ok w" and "map seat (wClients w') = map seat (wClients w)" and "wQueue w' = wQueue w"
    and "length (wRooms w') = length (wRooms w)"
    and "\<And>i. i < length (wRooms w) \<Longrightarrow> rmClients (room_of w' i) \<noteq> [] \<Longrightarrow>
      rmOpenCount (room_of w' i) = rmOpenCount (room_of w i) \<and> rmClients (room_of w' i) = rmClients (room_of w i)"
  shows "placed w'"
proof -
  have len: "length (wClients w') = length (wClients w)" using assms(3) by (metis length_map)
  have s: "clStatus (client_of w' p) = clStatus (client_of w p)" "clRoomPtr (client_of w' p) = clRoomPtr (client_of w p)"
    "clRoomOpenCount (client_of w' p) = clRoomOpenCount (client_of w p)" "clSocket (client_of w' p) = clSocket (client_of w p)"
    if "p < length (wClients w)" for p
  proof -
    have "seat (client_of w' p) = seat (client_of w p)" using assms(3) that len by (metis nth_map)
    then show "clStatus (client_of w' p) = clStatus (client_of w p)" "clRoomPtr (client_of w' p) = clRoomPtr (client_of w p)"
      "clRoomOpenCount (client_of w' p) = clRoomOpenCount (client_of w p)" "clSocket (client_of w' p) = clSocket (client_of w p)"
      by (simp_all add: seat_def)
  qed
  have q: "\<And>p. p \<in> set (queue_list (wQueue w)) \<Longrightarrow> p < length (wClients w)"
    using assms(2) by (simp add: world_ok_def)
  have r: "distinct (rmClients (room_of w' i)) \<and> (\<forall>p \<in> set (rmClients (room_of w' i)).
      clStatus (client_of w' p) = ACTIVE \<and> clRoomPtr (client_of w' p) = Some i \<and>
      clRoomOpenCount (client_of w' p) = rmOpenCount (room_of w' i))" if "i < length (wRooms w)" for i
  proof (cases "rmClients (room_of w' i) = []")
    case True
    then show ?thesis by simp
  next
    case False
    then have "rmClients (room_of w' i) = rmClients (room_of w i)" "rmOpenCount (room_of w' i) = rmOpenCount (room_of w i)"
      using assms(6) [OF that] by auto
    then show ?thesis using assms(1) that s world_ok_members [OF assms(2) that] by (auto simp: placed_def)
  qed
  show ?thesis unfolding placed_def
    using assms(1,4,5) q s r len by (auto simp: placed_def)
qed

lemma placed_quiet: "placed w \<Longrightarrow> world_ok w \<Longrightarrow> quiet w w' \<Longrightarrow> placed w'"
  by (erule (1) placed_frame) (simp_all add: quiet_def)

text \<open>A wound changes nobody's place.\<close>

lemma placed_hp: "placed w \<Longrightarrow> placed (set_client p ((client_of w p)\<lparr>clHp := h\<rparr>) w)"
proof -
  let ?w = "set_client p ((client_of w p)\<lparr>clHp := h\<rparr>) w"
  have "clStatus (client_of ?w q) = clStatus (client_of w q) \<and> clRoomPtr (client_of ?w q) = clRoomPtr (client_of w q) \<and>
      clRoomOpenCount (client_of ?w q) = clRoomOpenCount (client_of w q) \<and> clSocket (client_of ?w q) = clSocket (client_of w q)" for q
    by (cases "q = p"; cases "p < length (wClients w)") (simp_all add: set_client_def list_update_beyond)
  then show "placed w \<Longrightarrow> placed ?w" unfolding placed_def by (simp add: set_client_def)
qed

text \<open>Whoever has a place has one only.\<close>

lemma placed_count:
  assumes "placed w" and "world_ok w"
  shows "count_list (queue_list (wQueue w) @ concat (map rmClients (wRooms w))) p
    \<le> (if p < length (wClients w) \<and> clStatus (client_of w p) = ACTIVE then 1 else 0)"
proof -
  let ?q = "queue_list (wQueue w)" and ?r = "map rmClients (wRooms w)"
  have one: "count_list xs p \<le> 1" if "distinct xs" for xs :: "nat list"
    using that by (induction xs) (auto simp: count_list_0_iff)
  have member: "p < length (wClients w) \<and> clStatus (client_of w p) = ACTIVE \<and> clRoomPtr (client_of w p) = Some i"
    if "i < length (wRooms w)" "p \<in> set (rmClients (room_of w i))" for i
    using that assms(1) world_ok_members [OF assms(2)] by (auto simp: placed_def)
  have queued: "p < length (wClients w) \<and> clStatus (client_of w p) = ACTIVE \<and> clRoomPtr (client_of w p) = None"
    if "p \<in> set ?q" using that assms by (auto simp: placed_def world_ok_def)
  have sum: "count_list (concat xss) p = (\<Sum>i < length xss. count_list (xss ! i) p)" for xss
    by (induction xss rule: rev_induct) (simp_all add: nth_append)
  show ?thesis
  proof (cases "\<exists>i < length (wRooms w). p \<in> set (rmClients (room_of w i))")
    case False
    then have "p \<notin> set (concat ?r)" by (auto simp: in_set_conv_nth [of _ "wRooms w"])
    then have "count_list (concat ?r) p = 0" by (simp add: count_list_0_iff)
    then show ?thesis using one [of ?q] queued assms(1) count_list_0_iff [of ?q p] by (auto simp: placed_def)
  next
    case True
    then obtain i where i: "i < length (wRooms w)" "p \<in> set (rmClients (room_of w i))" by blast
    have "count_list (?r ! j) p = 0" if "j < length ?r" "j \<noteq> i" for j
      using member [OF i] member [of j] that by (auto simp: count_list_0_iff)
    then have "count_list (concat ?r) p = (\<Sum>j < length ?r. if j = i then count_list (?r ! i) p else 0)"
      unfolding sum by (intro sum.cong) auto
    also have "\<dots> = count_list (rmClients (room_of w i)) p" using i(1) by simp
    also have "\<dots> \<le> 1" using one assms(1) i(1) by (simp add: placed_def)
    finally show ?thesis using member [OF i] queued count_list_0_iff [of ?q p] by force
  qed
qed

section \<open>Leaving and arriving\<close>

lemma placed_Disconnect:
  assumes pl: "placed w" and ok: "world_ok w" and p: "p < length (wClients w)" and w': "Disconnect (int p) b w = Inr w'"
  shows "placed w'"
proof (cases "clStatus (client_of w p) = FREE")
  case True
  then have "w' = w" using w' p by (simp add: Disconnect_def client_idx_def)
  then show ?thesis using pl by simp
next
  case False
  note e = Disconnect_effect [OF ok p False w']
  have len: "length (wClients w') = length (wClients w)" "length (wRooms w') = length (wRooms w)"
    using Disconnect_ok [OF ok p, of b] w' by auto
  have new: "clStatus (client_of w' p) = FREE" "clRoomPtr (client_of w' p) = None"
    by (simp_all add: e(1) Client_reset_def)
  have old: "client_of w' q = client_of w q" if "q \<noteq> p" for q using that by (simp add: e(1))
  have q: "\<forall>x \<in> set (queue_list (wQueue w')). x \<noteq> p \<and> x \<in> set (queue_list (wQueue w))"
    and dq: "distinct (queue_list (wQueue w'))"
    using pl by (simp_all add: e(2) placed_def)
  have r: "(\<forall>x \<in> set (rmClients (room_of w' i)). x \<noteq> p \<and> x \<in> set (rmClients (room_of w i))) \<and> distinct (rmClients (room_of w' i))"
    if "i < length (wRooms w)" for i
    using pl that by (auto simp: e(5) [OF that] placed_def)
  show ?thesis unfolding placed_def
  proof (intro conjI allI impI ballI)
    show "clStatus (client_of w' x) = ACTIVE" "clRoomPtr (client_of w' x) = None"
      if "x \<in> set (queue_list (wQueue w'))" for x
      using that q old pl by (auto simp: placed_def)
    show "distinct (rmClients (room_of w' i))" if "i < length (wRooms w')" for i using r that len by simp
    show "clStatus (client_of w' x) = ACTIVE" "clRoomPtr (client_of w' x) = Some i"
      "clRoomOpenCount (client_of w' x) = rmOpenCount (room_of w' i)"
      if "i < length (wRooms w')" "x \<in> set (rmClients (room_of w' i))" for i x
      using that r [of i] old pl len e(4) [of i] by (auto simp: placed_def)
    show "clRoomPtr (client_of w' x) = None" if "x < length (wClients w')" "clStatus (client_of w' x) \<noteq> ACTIVE" for x
      using that new(2) old [of x] pl len by (cases "x = p") (auto simp: placed_def)
    show "clSocket (client_of w' x) \<noteq> None" if "x < length (wClients w')" "clStatus (client_of w' x) = ACTIVE" for x
      using that new(1) old [of x] pl len by (cases "x = p") (auto simp: placed_def)
  qed (rule dq)
qed

text \<open>A place that is not in use is given to a new connection, or reserved.\<close>

lemma placed_set_client:
  assumes pl: "placed w" and p: "p < length (wClients w)" and na: "clStatus (client_of w p) \<noteq> ACTIVE"
    and c: "clRoomPtr c = None" "clStatus c = ACTIVE \<longrightarrow> clSocket c \<noteq> None"
  shows "placed (set_client p c w)"
proof -
  have "p \<notin> set (queue_list (wQueue w))" using pl na by (auto simp: placed_def)
  moreover have "p \<notin> set (rmClients (room_of w i))" if "i < length (wRooms w)" for i
    using pl na that by (auto simp: placed_def)
  ultimately show ?thesis using pl c
    unfolding placed_def by (simp add: client_of_set_client [OF p]) (metis (no_types, lifting))
qed

lemma placed_sent [simp]: "placed (w\<lparr>wSent := s\<rparr>) = placed w" and placed_threads [simp]: "placed (w\<lparr>wThreads := t\<rparr>) = placed w"
  and placed_now [simp]: "placed (w\<lparr>wNow := n\<rparr>) = placed w"
  by (simp_all add: placed_def)

lemma placed_accept:
  assumes "placed (svWorld sv)" and "world_ok (svWorld sv)" and "accept_client s r sv = Inr sv'"
  shows "placed (svWorld sv')"
proof (cases "find_free (wClients (svWorld sv))")
  case None
  then show ?thesis using assms accept_client_none by simp
next
  case (Some p)
  note f = find_free_Some [OF Some]
  have none: "clRoomPtr (client_of (svWorld sv) p) = None" using f assms(1) by (auto simp: placed_def)
  show ?thesis
  proof (cases r)
    case True
    then show ?thesis using assms accept_client_spec [OF assms(2) Some, of s] f none
      by (auto intro!: placed_set_client simp: connected_def)
  next
    case False
    then show ?thesis using assms accept_client_refused [OF Some, of s] f none
      by (auto intro!: placed_set_client)
  qed
qed

section \<open>A match begins\<close>

lemma set_rooms_client:
  assumes "\<forall>p \<in> set ps. p < length (wClients w)"
  shows "client_of (set_rooms i ps w) q = (if q \<in> set ps
    then (client_of w q)\<lparr>clRoomPtr := Some i, clRoomOpenCount := rmOpenCount (room_of w i)\<rparr> else client_of w q)"
  using assms by (induction ps arbitrary: w) (simp_all add: client_of_set_client)

lemma TryCreate_form:
  assumes ok: "world_ok w" and len: "MAX_ROOM_PLAYER \<le> length (queue_list (wQueue w))"
    and free: "find_unused (wRooms w) = Some i" and w': "TryCreateRoomOrNullPtr w = Inr (r, w')"
  shows "\<exists>rm q. r = Some i \<and> w' = (set_rooms i (take MAX_ROOM_PLAYER (queue_list (wQueue w))) (set_room i rm w))\<lparr>wQueue := q\<rparr> \<and>
    rmClients rm = take MAX_ROOM_PLAYER (queue_list (wQueue w)) \<and> queue_list q = drop MAX_ROOM_PLAYER (queue_list (wQueue w))"
proof -
  let ?ps = "take MAX_ROOM_PLAYER (queue_list (wQueue w))"
  obtain q where q: "TakeRoomClients (wQueue w) = Inr (Some ?ps, q)" "queue_list q = drop MAX_ROOM_PLAYER (queue_list (wQueue w))"
    using sq.take_members [of "wQueue w"] ok len by (auto simp: world_ok_def)
  note u = find_unused_Some [OF free]
  have e: "rmClients (room_of w i) = []" "rmSize (room_of w i) = 0"
    using world_ok_room [OF ok] u by (auto simp: room_ok_def)
  show ?thesis using w' q free e u
    by (auto simp: TryCreateRoomOrNullPtr_def GetUnUsedRoom_def Let_def World_AddClients_def Room_AddClients_def
        AddOpenCount_def rbind_Inr_iff room_of_set_room) (simp_all add: set_room_def, fastforce)
qed

lemma placed_enqueue:
  assumes "placed w" and "conn \<notin> set (queue_list (wQueue w))" and "clStatus (client_of w conn) = ACTIVE"
    and "clRoomPtr (client_of w conn) = None" and "queue_list q = queue_list (wQueue w) @ [conn]"
  shows "placed (w\<lparr>wQueue := q\<rparr>)"
  using assms by (simp add: placed_def)

lemma placed_fill:
  assumes pl: "placed w" and ok: "world_ok w" and i: "i < length (wRooms w)" and e: "rmClients (room_of w i) = []"
    and q: "queue_list (wQueue w) = ps @ queue_list q" and rm: "rmClients rm = ps"
  shows "placed ((set_rooms i ps (set_room i rm w))\<lparr>wQueue := q\<rparr>)"
proof -
  let ?w = "(set_rooms i ps (set_room i rm w))\<lparr>wQueue := q\<rparr>"
  have ps: "\<forall>p \<in> set ps. p < length (wClients w) \<and> clStatus (client_of w p) = ACTIVE" and dps: "distinct ps"
    and qs: "\<forall>p \<in> set (queue_list q). p \<notin> set ps \<and> clStatus (client_of w p) = ACTIVE \<and> clRoomPtr (client_of w p) = None"
    and dq: "distinct (queue_list q)"
    using pl ok q by (auto simp: placed_def world_ok_def)
  have c: "client_of (set_rooms i ps (set_room i rm w)) x = (if x \<in> set ps then (client_of w x)\<lparr>clRoomPtr := Some i, clRoomOpenCount := rmOpenCount rm\<rparr>
      else client_of w x)" for x
    using ps set_rooms_client [of ps "set_room i rm w" i x] i by (simp add: room_of_set_room)
  have none: "x \<notin> set ps" if "j < length (wRooms w)" "x \<in> set (rmClients (room_of w j))" for j x
    using that pl q by (fastforce simp: placed_def)
  note r = room_of_set_room [OF i]
  show ?thesis unfolding placed_def
  proof (intro conjI allI impI ballI)
    show "distinct (queue_list (wQueue ?w))" using dq by simp
    show "clStatus (client_of ?w x) = ACTIVE" "clRoomPtr (client_of ?w x) = None" if "x \<in> set (queue_list (wQueue ?w))" for x
      using that qs by (auto simp: c)
    show "distinct (rmClients (room_of ?w j))" if "j < length (wRooms ?w)" for j
      using that pl dps rm by (auto simp: r placed_def)
    show "clStatus (client_of ?w x) = ACTIVE" "clRoomPtr (client_of ?w x) = Some j" "clRoomOpenCount (client_of ?w x) = rmOpenCount (room_of ?w j)"
      if "j < length (wRooms ?w)" "x \<in> set (rmClients (room_of ?w j))" for j x
      using that pl rm ps none [of j x] by (auto simp: c r placed_def split: if_splits)
    show "clRoomPtr (client_of ?w x) = None" if "x < length (wClients ?w)" "clStatus (client_of ?w x) \<noteq> ACTIVE" for x
      using that pl ps by (auto simp: c placed_def split: if_splits)
    show "clSocket (client_of ?w x) \<noteq> None" if "x < length (wClients ?w)" "clStatus (client_of ?w x) = ACTIVE" for x
      using that pl by (auto simp: c placed_def split: if_splits)
  qed
qed

lemma placed_TryCreate:
  assumes pl: "placed w" and ok: "world_ok w" and free: "length (queue_list (wQueue w)) < MAX_ROOM_PLAYER \<or> find_unused (wRooms w) \<noteq> None"
    and w': "TryCreateRoomOrNullPtr w = Inr (r, w')"
  shows "placed w'"
proof (cases "length (queue_list (wQueue w)) < MAX_ROOM_PLAYER")
  case True
  then have "TakeRoomClients (wQueue w) = Inr (None, wQueue w)" using sq.take_few ok by (simp add: world_ok_def)
  then show ?thesis using w' pl by (simp add: TryCreateRoomOrNullPtr_def)
next
  case False
  then obtain i where i: "find_unused (wRooms w) = Some i" using free by auto
  note u = find_unused_Some [OF i]
  have e: "rmClients (room_of w i) = []" using world_ok_room [OF ok] u by (auto simp: room_ok_def)
  obtain rm q where f: "w' = (set_rooms i (take MAX_ROOM_PLAYER (queue_list (wQueue w))) (set_room i rm w))\<lparr>wQueue := q\<rparr>"
    "rmClients rm = take MAX_ROOM_PLAYER (queue_list (wQueue w))" "queue_list q = drop MAX_ROOM_PLAYER (queue_list (wQueue w))"
    using TryCreate_form [OF ok _ i w'] False by auto
  show ?thesis unfolding f(1) by (rule placed_fill [OF pl ok _ e _ f(2)]) (use u f(3) in simp_all)
qed

lemma placed_start_matching:
  assumes pl: "placed w" and ok: "world_ok w" and conn: "conn < length (wClients w)"
    and act: "clStatus (client_of w conn) = ACTIVE" and once: "conn \<notin> set (queue_list (wQueue w))"
    and cm: "clRoomPtr (client_of w conn) \<noteq> None \<or> can_match buf w" and w': "start_matching conn buf w = Inr w'"
  shows "placed w'"
proof (cases "clRoomPtr (client_of w conn) \<noteq> None")
  case True
  then show ?thesis using w' pl by (simp add: start_matching_def)
next
  case False
  then obtain w1 q r w2 where s: "modify_client conn (take_name buf) w = Inr w1" "AddClient (wQueue w1) conn = Inr q"
    "TryCreateRoomOrNullPtr (w1\<lparr>wQueue := q\<rparr>) = Inr (r, w2)"
    and rest: "(case r of None \<Rightarrow> Inr w2 | Some i \<Rightarrow> rbind (sc_ConnectRoomPacket (map (client_of w2) (rmClients (room_of w2 i))))
      (\<lambda>pkt. rbind (SendStreamToAllClients i [SetChoiceCharacterTime (of_nat CHOICE_CHARACTER_TIME), pkt] w2) (\<lambda>w3.
        Inr (w3\<lparr>wThreads := wThreads w3 @ [i]\<rparr>)))) = Inr w'"
    using w' by (auto simp: start_matching_def rbind_Inr_iff)
  have qt: "quiet w w1" by (rule quiet_modify [OF seated_take_name s(1)])
  have k: "keeps_ok w w1" using modify_keeps [OF keeps_ok_refl [OF ok] conn] take_name_client_ok [OF world_ok_client [OF ok conn]]
    s(1) by (auto simp: post_def)
  then have ok1: "world_ok w1" and conn1: "conn < length (wClients w1)" using conn by (auto simp: keeps_ok_def)
  have st: "clStatus (client_of w1 conn) = ACTIVE" "clRoomPtr (client_of w1 conn) = None"
  proof -
    have "seat (client_of w1 conn) = seat (client_of w conn)"
      using qt conn conn1 unfolding quiet_def by (metis nth_map)
    then show "clStatus (client_of w1 conn) = ACTIVE" "clRoomPtr (client_of w1 conn) = None"
      using act False by (simp_all add: seat_def)
  qed
  obtain q' where q': "AddClient (wQueue w1) conn = Inr q'" "queue_good q'" "queue_list q' = queue_list (wQueue w1) @ [conn]"
    using sq.enq_members [of "wQueue w1" conn] ok1 by (auto simp: world_ok_def)
  then have qq: "q' = q" using s(2) by simp
  have pl2: "placed (w1\<lparr>wQueue := q\<rparr>)"
    by (rule placed_enqueue [OF placed_quiet [OF pl ok qt] _ st]) (use q' qq once qt in \<open>auto simp: quiet_def\<close>)
  have ok2: "world_ok (w1\<lparr>wQueue := q\<rparr>)"
    using q' qq ok1 conn1 by (intro world_ok_queue) (auto simp: world_ok_def)
  have pl3: "placed w2"
    by (rule placed_TryCreate [OF pl2 ok2 _ s(3)]) (use cm False q' qq qt in \<open>auto simp: can_match_def quiet_def\<close>)
  show ?thesis
  proof (cases r)
    case None
    then show ?thesis using rest pl3 by simp
  next
    case (Some i)
    then obtain pkt w3 where w3: "SendStreamToAllClients i pkt w2 = Inr w3" "w' = w3\<lparr>wThreads := wThreads w3 @ [i]\<rparr>"
      using rest by (auto simp: rbind_Inr_iff)
    have "sent_only w2 w3" using w3(1) send_sent(1) by (simp add: SendStreamToAllClients_def)
    then obtain bs where "w3 = w2\<lparr>wSent := bs\<rparr>" unfolding sent_only_def by blast
    then show ?thesis using w3(2) pl3 by simp
  qed
qed

text \<open>Every packet.\<close>

lemma placed_ProcessPacket:
  assumes "placed w" and "world_ok w" and "conn < length (wClients w)" and "clStatus (client_of w conn) = ACTIVE"
    and "in_range conn buf w" and "rd_type buf = Some pt_cs_startMatching \<Longrightarrow> conn \<notin> set (queue_list (wQueue w))"
    and "ProcessPacket conn buf w = Inr w'"
  shows "placed w'"
proof (cases "rd_type buf = Some pt_cs_startMatching")
  case True
  then show ?thesis using placed_start_matching [OF assms(1-4)] assms(5-7) by (simp add: ProcessPacket_def in_range_def)
next
  case False
  then show ?thesis using placed_quiet [OF assms(1,2)] postD [OF ProcessPacket_quiet assms(7)] by blast
qed

end
