(* ===== verification/Tame.thy ===== *)
theory Tame
  imports Handler_Footprint Item_Facts
begin

text \<open>
  What an item cannot do, whatever the numbers of the avatars: it leaves alone whom an avatar stands
  for and whether its fight is over, and in the server everything but tickets, random values and
  sent messages.
\<close>

section \<open>Frames\<close>

definition core :: "avatar \<Rightarrow> nat option \<times> nat option \<times> int \<times> bool \<times> bool \<times> bool \<times> nat" where
  "core a = (avClient a, avRoom a, avNetworkID a, avIsGhost a, avIsFinish a, avIsCharacterDamage a,
     length (avUsingItem a))"

definition framed :: "(avatar \<Rightarrow> avatar) \<Rightarrow> bool" where
  "framed f \<longleftrightarrow> (\<forall>a. core (f a) = core a)"

definition still :: "world \<Rightarrow> world \<Rightarrow> bool" where
  "still w w' \<longleftrightarrow> quiet w w' \<and> (world_ok w \<longrightarrow> world_ok w')"

lemma still_refl [simp]: "still w w" by (simp add: still_def)

lemma still_trans: "still a b \<Longrightarrow> still b c \<Longrightarrow> still a c"
  by (simp add: still_def quiet_def)

lemma still_simps [simp]:
  "still w (v\<lparr>wRng := r\<rparr>) = still w v" "still w (v\<lparr>wSent := s\<rparr>) = still w v"
  by (simp_all add: still_def)

lemma still_sent: "sent_only w w' \<Longrightarrow> still w w'"
  unfolding still_def using quiet_sent [of w w' w] world_ok_sent by simp

lemma still_set_client:
  assumes "seat c = seat (client_of w p)" and "\<And>n. client_ok n p (client_of w p) \<Longrightarrow> client_ok n p c"
  shows "still w (set_client p c w)"
proof -
  have "world_ok (set_client p c w)" if "world_ok w"
  proof (cases "p < length (wClients w)")
    case True
    then show ?thesis using world_ok_set_client [OF that True] assms(2) world_ok_client [OF that True] by blast
  next
    case False
    then show ?thesis using that by (simp add: set_client_def list_update_beyond)
  qed
  then show ?thesis using quiet_set_client [OF quiet_simps(1) assms(1)] by (simp add: still_def)
qed

text \<open>An effect that keeps to its frame.\<close>

definition tame :: "(fx \<Rightarrow> fx result) \<Rightarrow> bool" where
  "tame f \<longleftrightarrow> (\<forall>s s'. f s = Inr s' \<longrightarrow> core (fxMe s') = core (fxMe s) \<and>
     core (fxOpponents s') = core (fxOpponents s) \<and> still (fxWorld s) (fxWorld s'))"

named_theorems tame_intros

lemma tameD:
  assumes "tame f" and "f s = Inr s'"
  shows "core (fxMe s') = core (fxMe s)" and "core (fxOpponents s') = core (fxOpponents s)"
    and "still (fxWorld s) (fxWorld s')"
  using assms by (auto simp: tame_def)

lemma tame_Inr [tame_intros]: "tame Inr" by (simp add: tame_def)

lemma tame_me [tame_intros]: "framed f \<Longrightarrow> tame (me f)"
  by (auto simp: tame_def me_def framed_def)

lemma tame_opponents [tame_intros]: "framed f \<Longrightarrow> tame (opponents f)"
  by (auto simp: tame_def opponents_def framed_def)

lemma tame_seqfx [tame_intros]:
  assumes "tame f" and "tame g"
  shows "tame (seqfx f g)"
  unfolding tame_def
proof (intro allI impI)
  fix s s' assume "seqfx f g s = Inr s'"
  then obtain s1 where s1: "f s = Inr s1" "g s1 = Inr s'" by (auto simp: seqfx_def rbind_Inr_iff)
  show "core (fxMe s') = core (fxMe s) \<and> core (fxOpponents s') = core (fxOpponents s) \<and> still (fxWorld s) (fxWorld s')"
    using tameD [OF assms(1) s1(1)] tameD [OF assms(2) s1(2)] still_trans by simp
qed

lemma tame_repeat [tame_intros]: "tame f \<Longrightarrow> tame (repeat_fx n f)"
proof (induction n)
  case 0
  then show ?case by (simp add: tame_def)
next
  case (Suc n)
  have "repeat_fx (Suc n) f = seqfx f (repeat_fx n f)" by (simp add: fun_eq_iff seqfx_def)
  then show ?case using Suc by (simp add: tame_seqfx)
qed

lemma tame_upgrades [tame_intros]: "tame f \<Longrightarrow> tame g \<Longrightarrow> tame h \<Longrightarrow> tame (upgrades f g h u)"
  by (simp add: tame_def upgrades_def)

lemma tame_draw [tame_intros]:
  assumes "\<And>x. tame (f x)"
  shows "tame (draw a b f)"
  unfolding tame_def
proof (intro allI impI)
  fix s s' assume s': "draw a b f s = Inr s'"
  define d where "d = Random_draw a b (wRng (fxWorld s))"
  have "f (fst d) (s\<lparr>fxWorld := (fxWorld s)\<lparr>wRng := snd d\<rparr>\<rparr>) = Inr s'" using s' by (simp add: draw_def d_def Let_def)
  from tameD [OF assms this]
  show "core (fxMe s') = core (fxMe s) \<and> core (fxOpponents s') = core (fxOpponents s) \<and> still (fxWorld s) (fxWorld s')"
    using still_trans [of "fxWorld s" "(fxWorld s)\<lparr>wRng := snd d\<rparr>" "fxWorld s'"] by simp
qed

lemma tame_with_client [tame_intros]: "(\<And>c. tame (f c)) \<Longrightarrow> tame (with_client f)"
  by (auto simp: tame_def with_client_def split: option.splits)

lemma tame_if [tame_intros]: "tame f \<Longrightarrow> tame g \<Longrightarrow> tame (if b then f else g)" by simp

lemma tame_dep: "(\<And>x. tame (f x)) \<Longrightarrow> tame (\<lambda>s. f (g s) s)" by (simp add: tame_def)

section \<open>Avatars\<close>

named_theorems framed_intros

lemma framed_ops [framed_intros]:
  "framed (ToDamage n o')" "framed (ToPiercingDamage n o')" "framed (ToJustDamage n)" "framed EffectBleeding"
  "framed EffectBomb" "framed (ToDefensive n)" "framed (ToOffensePower n)" "framed (ToAdditionDefensive n)"
  "framed (ToHeal n)" "framed (ToJustHeal n)" "framed (ToWeakening n)" "framed (ToBleeding n)"
  "framed (ToReducedHealing n)" "framed (SetInstallBomb n)" "framed Clear" "framed (SetCounterAttack n)"
  "framed (SetCounterHeal n)" "framed (SetEffectHeal n)" "framed UseKeyCap" "framed (SetMaxHP n)" "framed InitCycle"
  by (simp_all add: framed_def core_def ToDamage_def ToPiercingDamage_def ToJustDamage_def EffectBleeding_def EffectBomb_def
      ToDefensive_def ToOffensePower_def ToAdditionDefensive_def ToHeal_def ToJustHeal_def ToWeakening_def ToBleeding_def
      ToReducedHealing_def SetInstallBomb_def Clear_def SetCounterAttack_def SetCounterHeal_def SetEffectHeal_def
      UseKeyCap_def SetMaxHP_def InitCycle_def Let_def)

lemma framed_fields [framed_intros]:
  "framed (\<lambda>av. av\<lparr>avOffensePower := n\<rparr>)" "framed (\<lambda>av. av\<lparr>avWeakening := n\<rparr>)"
  "framed (\<lambda>av. av\<lparr>avIsIgnoreNextDamage := b\<rparr>)" "framed (\<lambda>av. av\<lparr>avCanDefendNegativeEffect := b\<rparr>)"
  "framed (\<lambda>av. ToDefensive (avDefensive av) av)"
  by (simp_all add: framed_def core_def ToDefensive_def)

lemma tame_hit [tame_intros]: "tame (hit n)"
  unfolding hit_def by (rule tame_dep [of "\<lambda>a. opponents (ToDamage n a)"]) (intro tame_intros framed_intros)

lemma tame_pierce [tame_intros]: "tame (pierce n)"
  unfolding pierce_def by (rule tame_dep [of "\<lambda>a. opponents (ToPiercingDamage n a)"]) (intro tame_intros framed_intros)

section \<open>The items\<close>

lemma tame_announce [tame_intros]: "tame (Item021_announce d)"
  by (auto simp: tame_def Item021_announce_def on_world_def rbind_Inr_iff split: option.splits
      dest!: send_sent(2) still_sent)

lemma ticket_client_ok_any: "client_ok m p c \<Longrightarrow> client_ok m p (SetTicketCount k v c)"
  by (cases k) (auto intro: client_ok_cong)

lemma tame_ticket [tame_intros]: "tame Item029_ticket"
proof -
  have t: "still w (set_client p ((client_of w p)\<lparr>clNormalItemTicketCount := n\<rparr>) w)" for p n w
    using still_set_client [of "SetTicketCount Normal n (client_of w p)" w p] ticket_client_ok_any [of _ _ _ Normal n]
    by (simp add: seat_def)
  show ?thesis unfolding tame_def
  proof (intro allI impI)
    fix s s' assume "Item029_ticket s = Inr s'"
    then show "core (fxMe s') = core (fxMe s) \<and> core (fxOpponents s') = core (fxOpponents s) \<and> still (fxWorld s) (fxWorld s')"
      by (auto simp: Item029_ticket_def on_world_def rbind_Inr_iff Let_def
          split: option.splits if_splits dest!: send_sent(2) still_sent intro: still_trans [OF t])
  qed
qed

text \<open>An effect that chooses by the state.\<close>

lemma tame_at: "(\<And>s. \<exists>g. tame g \<and> f s = g s) \<Longrightarrow> tame f"
  unfolding tame_def by metis

lemma tame_burger [tame_intros]: "tame (Item007_burger a b c d)"
proof (rule tame_at)
  fix s
  show "\<exists>g. tame g \<and> Item007_burger a b c d s = g s"
  proof (cases "avHamburgerType (fxMe s)")
    case Fillet
    then show ?thesis
      by (intro exI [of _ "opponents (ToWeakening a)"]) (simp add: Item007_burger_def tame_intros framed_intros)
  next
    case Guinness
    then show ?thesis by (intro exI [of _ "hit b"]) (simp add: Item007_burger_def tame_intros)
  next
    case WhiteGarlic
    then show ?thesis by (intro exI [of _ "me (ToHeal c)"]) (simp add: Item007_burger_def tame_intros framed_intros)
  next
    case Rice
    then show ?thesis by (intro exI [of _ "me (ToDefensive d)"]) (simp add: Item007_burger_def tame_intros framed_intros)
  qed
qed

lemma tame_hit_by [tame_intros]: "tame (Item005_hit x)" "tame (Item018_hit n)" "tame (Item015_hits n)"
  using tameD [OF tame_hit] tameD [OF tame_repeat [OF tame_hit]]
  by (auto simp: tame_def Item005_hit_def Item018_hit_def Item015_hits_def)

lemma tame_me_by [tame_intros]: "tame (Item025_power a b)" "tame (Item032_heal m e)" "tame (Item036_defence a b)"
proof -
  have t: "tame (me (ToOffensePower n))" "tame (me (ToHeal n))" "tame (me (ToDefensive n))" for n
    by (intro tame_intros framed_intros)+
  show "tame (Item025_power a b)" "tame (Item032_heal m e)" "tame (Item036_defence a b)"
    using tameD [OF t(1)] tameD [OF t(2)] tameD [OF t(3)]
    by (auto simp: tame_def Item025_power_def Item032_heal_def Item036_defence_def)
qed

lemma tame_024 [tame_intros]: "tame (Item024_hit n)"
  using tameD [OF tame_hit] by (auto simp: tame_def Item024_hit_def Let_def split: if_splits)

lemma tame_045 [tame_intros]: "tame Item045_hit"
  using tameD [OF tame_hit] by (auto simp: tame_def Item045_hit_def Let_def split: if_splits)

lemma tame_034 [tame_intros]: "tame (Item034_hits n)"
proof -
  have "tame (\<lambda>s. repeat_fx (nat (avUseKeyCapCount (fxMe s))) (hit n) s)"
    by (rule tame_dep [of "\<lambda>k. repeat_fx k (hit n)"]) (intro tame_intros)
  then show ?thesis unfolding Item034_hits_def by (intro tame_intros framed_intros)
qed

lemmas item_defs =
  ItemEmpty_Active_def Item001_Active_def Item002_Active_def Item003_Active_def Item004_Active_def Item005_Active_def
  Item006_Active_def Item007_Active_def Item008_Active_def Item009_Active_def Item010_Active_def Item011_Active_def
  Item012_Active_def Item013_Active_def Item014_Active_def Item015_Active_def Item016_Active_def Item017_Active_def
  Item018_Active_def Item019_Active_def Item020_Active_def Item021_Active_def Item021_again_def Item022_Active_def Item023_Active_def
  Item023_calm_def Item024_Active_def Item025_Active_def Item026_Active_def Item027_Active_def Item027_double_def Item028_Active_def
  Item029_Active_def Item030_Active_def Item031_Active_def Item032_Active_def Item033_Active_def Item034_Active_def
  Item035_Active_def Item036_Active_def Item037_Active_def Item038_Active_def Item039_Active_def Item040_Active_def
  Item041_Active_def Item042_Active_def Item043_Active_def Item044_Active_def Item045_Active_def

lemma tame_table: "list_all (\<lambda>act. \<forall>u. tame (act u)) sItems_Active"
proof -
  have nil: "list_all P []" for P :: "(int \<Rightarrow> fx \<Rightarrow> fx result) \<Rightarrow> bool" by simp
  show ?thesis unfolding sItems_Active_def list.pred_inject(2) item_defs Let_def
    by (intro conjI allI nil tame_intros framed_intros)
qed

text \<open>An activation as a whole.\<close>

lemma ActiveItem_tame:
  assumes "ActiveItem index s = Inr (slot, s')"
  shows "core (fxMe s') = core (fxMe s)" and "core (fxOpponents s') = core (fxOpponents s)"
    and "still (fxWorld s) (fxWorld s')"
proof -
  obtain slot0 it where "activated_item index (fxMe s) = Inr (slot0, it)"
    using assms by (auto simp: ActiveItem_def rbind_Inr_iff)
  then obtain k act s2 where a: "act \<in> set sItems_Active"
    "act (uint (mUpgrade it)) (s\<lparr>fxMe := (fxMe s)\<lparr>avEffectItemCount := k\<rparr>\<rparr>) = Inr s2"
    "s' = s2\<lparr>fxMe := (if avIsEffectHeal (fxMe s2) \<and> avHp (fxMe s2) > 0 then ToHeal (avEffectHeal (fxMe s2)) (fxMe s2) else fxMe s2)\<rparr>"
    using assms nth_mem by (auto simp: ActiveItem_def rbind_Inr_iff Let_def) blast
  have "tame (act (uint (mUpgrade it)))" using tame_table a(1) by (simp add: list_all_iff)
  note t = tameD [OF this a(2)]
  have h: "core (ToHeal n x) = core x" for n x using framed_ops by (simp add: framed_def)
  have c: "core ((fxMe s)\<lparr>avEffectItemCount := k\<rparr>) = core (fxMe s)" by (simp add: core_def)
  show "core (fxMe s') = core (fxMe s)" "core (fxOpponents s') = core (fxOpponents s)" "still (fxWorld s) (fxWorld s')"
    using t a(3) h c by simp_all
qed

end
