(* ===== verification/Duel_Facts.thy ===== *)
theory Duel_Facts
  imports Stage_Facts
begin

text \<open>
  The steps that all stages share keep the invariant of the thread and the bounds of a duel: no
  access is out of range, and no message outgrows the buffer of the network.
\<close>

section \<open>Steps on the server\<close>

text \<open>The invariant of the thread with a condition on its local variables.\<close>

definition held ::
  "nat \<Rightarrow> nat \<Rightarrow> nat \<Rightarrow> nat \<Rightarrow> (avatar list \<Rightarrow> nat \<Rightarrow> packet list \<Rightarrow> int list \<Rightarrow> bool) \<Rightarrow> thread \<Rightarrow> bool" where
  "held n m K i L t \<longleftrightarrow>
     thread_ok n m K i t \<and> L (thAvatars t) (thEffectItemCount t) (thStream t) (thLeavers t)"

lemma thread_ok_held: "thread_ok n m K i = held n m K i (\<lambda>_ _ _ _. True)"
  by (simp add: held_def fun_eq_iff)

lemma duel_held: "duel n m K i creeps N b e x y = held n m K i (\<lambda>avs c ps ls.
    avatars_ok n creeps N b avs \<and> c \<le> e \<and> list_all packet_ok ps \<and> stream_size ps \<le> x \<and>
    length ls \<le> y \<and> (\<forall>l \<in> set ls. \<exists>p < n. l = int p))"
  by (auto simp: held_def duel_def block_ok_def fun_eq_iff)

definition keeps_match :: "nat \<Rightarrow> nat \<Rightarrow> nat \<Rightarrow> nat \<Rightarrow> (world \<Rightarrow> world result) \<Rightarrow> bool" where
  "keeps_match n m K i f \<longleftrightarrow> (\<forall>w. match_ok n m K i w \<longrightarrow> (\<exists>w'. f w = Inr w' \<and> match_ok n m K i w'))"

lemma runs_server:
  assumes "keeps_match n m K i f"
  shows "runs R (held n m K i L) (on_server f) (held n m K i L)"
  using assms by (intro runsI) (fastforce simp: held_def thread_ok_def on_server_def keeps_match_def)

lemma runs_sleep: "runs R (held n m K i L) Sleep (held n m K i L)"
proof (rule runsI)
  fix t assume t: "held n m K i L t"
  show "\<exists>t'. Sleep t = Inr (Next, t') \<and> held n m K i L t'"
  proof (cases "thOthers t")
    case Nil
    then show ?thesis using t by (simp add: Sleep_def)
  next
    case (Cons f fs)
    then obtain w' where "f (thWorld t) = Inr w'" "match_ok n m K i w'"
      using t by (auto simp: held_def thread_ok_def other_ok_def)
    then show ?thesis using t Cons by (simp add: Sleep_def held_def thread_ok_def)
  qed
qed

lemma runs_leave: "runs (thread_ok n m K i) (held n m K i L) (leave_if_stopped i oc) (held n m K i L)"
  by (simp add: runs_def leave_if_stopped_def held_def)

lemma runs_break: "runs (thread_ok n m K i) (held n m K i L) break_if_finished (held n m K i L)"
  by (simp add: runs_def break_if_finished_def held_def)

lemma keeps_send:
  assumes "length bytes \<le> MAX_BUF_SIZE"
  shows "keeps_match n m K i (SendToAll i bytes)"
  unfolding keeps_match_def
proof (intro allI impI)
  fix w assume m: "match_ok n m K i w"
  note d = match_okD [OF m]
  have "SendToAll i bytes w = Inr (delivered i bytes w)" using SendToAll_ok [OF d(1) _ assms] d by simp
  moreover have "match_ok n m K i (delivered i bytes w)" using m by (simp add: delivered_def)
  ultimately show "\<exists>w'. SendToAll i bytes w = Inr w' \<and> match_ok n m K i w'" by blast
qed

lemma runs_send_packet:
  assumes "packet_ok p"
  shows "runs R (held n m K i L) (send_packet i p) (held n m K i L)"
proof -
  have "SendPacketToAllClients i p = SendToAll i (Packet_Write p)"
    by (simp add: fun_eq_iff SendPacketToAllClients_def)
  then show ?thesis unfolding send_packet_def
    using keeps_send [OF Packet_Write_small [OF assms]] by (simp add: runs_server)
qed

lemma keeps_disconnect: "0 \<le> l \<Longrightarrow> l < int n \<Longrightarrow> keeps_match n m K i (Disconnect l b)"
  using Disconnect_match [of n m K i _ "nat l" b] by (simp add: keeps_match_def)

lemma keeps_set_room:
  assumes "\<And>w. match_ok n m K i w \<Longrightarrow> room_ok n (f (room_of w i)) \<and>
    rmClients (f (room_of w i)) = rmClients (room_of w i) \<and>
    rmBattleManager (f (room_of w i)) = rmBattleManager (room_of w i) \<and>
    rmBattleOpponents (f (room_of w i)) = rmBattleOpponents (room_of w i) \<and>
    rmRound (f (room_of w i)) = rmRound (room_of w i) \<and>
    rmIsFinishThread (f (room_of w i)) = rmIsFinishThread (room_of w i)"
  shows "keeps_match n m K i (\<lambda>w. Inr (set_room i (f (room_of w i)) w))"
proof -
  have "match_ok n m K i (set_room i (f (room_of w i)) w)" if w: "match_ok n m K i w" for w
    using match_ok_set_room [OF w, of "f (room_of w i)" K] assms [OF w] w by (simp add: match_ok_def)
  then show ?thesis by (simp add: keeps_match_def)
qed

lemma runs_status: "runs R (held n m K i L) (set_status i st) (held n m K i L)"
proof -
  have "keeps_match n m K i (\<lambda>w. Inr (set_room i ((\<lambda>r. r\<lparr>rmCurRoomStatusType := st\<rparr>) (room_of w i)) w))"
    by (rule keeps_set_room) (use match_okD(5) in \<open>fastforce simp: room_ok_def\<close>)
  then show ?thesis unfolding set_status_def on_room_def by (intro runs_server) simp
qed

text \<open>The same for duels.\<close>

lemma runs_duel:
  "runs R (duel n m K i creeps N b e x y) Sleep (duel n m K i creeps N b e x y)"
  "runs (thread_ok n m K i) (duel n m K i creeps N b e x y) (leave_if_stopped i oc) (duel n m K i creeps N b e x y)"
  "runs (thread_ok n m K i) (duel n m K i creeps N b e x y) break_if_finished (duel n m K i creeps N b e x y)"
  "packet_ok p \<Longrightarrow> runs R (duel n m K i creeps N b e x y) (send_packet i p) (duel n m K i creeps N b e x y)"
  "keeps_match n m K i f \<Longrightarrow> runs R (duel n m K i creeps N b e x y) (on_server f) (duel n m K i creeps N b e x y)"
  unfolding duel_held by (rule runs_sleep runs_leave runs_break runs_send_packet runs_server; assumption?)+

section \<open>The block\<close>

lemma runs_open: "runs R (duel n m K i creeps N b e x y) open_block (duel n m K i creeps N b e 0 0)"
  by (rule runsI) (simp add: open_block_def duel_def thread_ok_def block_ok_def)

lemma duel_emit:
  "duel n m K i creeps N b e x y t \<Longrightarrow> list_all packet_ok ps \<Longrightarrow>
    duel n m K i creeps N b e (x + stream_size ps) y (t\<lparr>thStream := thStream t @ ps\<rparr>)"
  by (simp add: duel_def thread_ok_def block_ok_def)

lemma runs_emit_all:
  "list_all packet_ok ps \<Longrightarrow>
    runs R (duel n m K i creeps N b e x y) (emit_all ps) (duel n m K i creeps N b e (x + stream_size ps) y)"
  by (rule runsI) (simp add: emit_all_def duel_emit)

lemma runs_emit:
  "packet_ok p \<Longrightarrow>
    runs R (duel n m K i creeps N b e x y) (emit p) (duel n m K i creeps N b e (x + packet_sizeof p) y)"
  by (rule runsI) (use duel_emit [of n m K i creeps N b e x y _ "[p]"] in \<open>simp add: emit_def\<close>)

lemma runs_send_stream:
  assumes "x \<le> 1300"
  shows "runs R (duel n m K i creeps N b e x y) (send_stream i) (duel n m K i creeps N b e x y)"
proof (rule runsI)
  fix t assume t: "duel n m K i creeps N b e x y t"
  then have "length (stream (thStream t)) \<le> MAX_BUF_SIZE"
    using assms length_stream [of "thStream t"] by (auto simp: duel_def block_ok_def)
  then have "keeps_match n m K i (SendStreamToAllClients i (thStream t))"
    using keeps_send by (simp add: SendStreamToAllClients_def [abs_def])
  then show "\<exists>t'. send_stream i t = Inr (Next, t') \<and> duel n m K i creeps N b e x y t'"
    using t by (fastforce simp: keeps_match_def send_stream_def on_server_def duel_def thread_ok_def block_ok_def)
qed

lemma runs_send_if_any:
  "x \<le> 1300 \<Longrightarrow> runs R (duel n m K i creeps N b e x y) (send_if_any i) (duel n m K i creeps N b e x y)"
  using runs_send_stream [of x R n m K i creeps N b e y] unfolding runs_def send_if_any_def by auto

lemma leavers_le: "length (leavers ls) \<le> length ls" "set (leavers ls) = set ls"
  using remdups_adj_length [of "sort ls"] by (simp_all add: leavers_def)

lemma runs_dismiss:
  assumes "x + 8 * y \<le> 1300"
  shows "runs R (duel n m K i creeps N b e x y) (dismiss i) (duel n m K i creeps N b e (x + 8 * y) y)"
  unfolding runs_def
proof (intro allI impI)
  fix t assume t: "duel n m K i creeps N b e x y t"
  let ?g = "leavers (thLeavers t)" and ?D = "duel n m K i creeps N b e (x + 8 * y) y"
  have g: "length ?g \<le> y" "\<forall>l \<in> set ?g. \<exists>p < n. l = int p"
    using t leavers_le [of "thLeavers t"] by (auto simp: duel_def block_ok_def)
  have "stream_size (map (\<lambda>l. Notification l DisconnectServer) ?g) = 8 * length ?g"
    by (simp add: stream_size_def sum_list_triv comp_def)
  then have "runs R (duel n m K i creeps N b e x y) (emit_all (map (\<lambda>l. Notification l DisconnectServer) ?g)) ?D"
    using g(1) by (intro runs_post [OF runs_emit_all]) (auto simp: list_all_iff elim!: duel_mono)
  moreover have "runs R ?D (\<lambda>t. if thStream t \<noteq> [] then steps [send_stream i, Sleep] t else Inr (Next, t)) ?D"
  proof -
    have "runs R ?D (steps [send_stream i, Sleep]) ?D"
      by (rule runs_list(2) [OF runs_send_stream [OF assms] runs_list(1) [OF runs_duel(1)]])
    then show ?thesis unfolding runs_def by auto
  qed
  moreover have "runs R ?D (steps (map (\<lambda>l. on_server (Disconnect l False)) ?g)) ?D"
  proof (rule runs_same)
    fix f assume "f \<in> set (map (\<lambda>l. on_server (Disconnect l False)) ?g)"
    then show "runs R ?D f ?D" using g(2) by (auto intro!: runs_duel keeps_disconnect)
  qed
  ultimately have "runs R (duel n m K i creeps N b e x y) (steps
        ([emit_all (map (\<lambda>n. Notification n DisconnectServer) ?g),
          (\<lambda>t. if thStream t \<noteq> [] then steps [send_stream i, Sleep] t else Inr (Next, t))] @
         map (\<lambda>n. on_server (Disconnect n False)) ?g)) ?D"
    by (intro runs_append [OF runs_Cons [OF _ runs_list(1)]])
  then show "\<exists>c t'. dismiss i t = Inr (c, t') \<and> (if c = Next then ?D t' else R t')"
    using t by (auto simp: dismiss_def Let_def runs_def simp del: steps.simps)
qed

lemma runs_count:
  "runs R (duel n m K i creeps N b e x y) count_item (duel n m K i creeps N b (e + 1) x y)"
  by (rule runsI) (simp add: count_item_def duel_def thread_ok_def block_ok_def)

lemma runs_time:
  "e < 122 \<Longrightarrow> runs R (duel n m K i creeps N b e x y) emit_time (duel n m K i creeps N b e (x + 4) y)"
proof (rule runsI)
  fix t assume "e < 122" and t: "duel n m K i creeps N b e x y t"
  then have "thEffectItemCount t < 122" by (simp add: duel_def)
  then obtain v where "remain_time (thEffectItemCount t) = Inr v" by (simp add: remain_time_def)
  then show "\<exists>t'. emit_time t = Inr (Next, t') \<and> duel n m K i creeps N b e (x + 4) y t'"
    using duel_emit [OF t, of "[BattleTimeInfo v]"] by (simp add: emit_time_def emit_def)
qed

section \<open>Places\<close>

lemma evens_nth: "j < length (evens N) \<Longrightarrow> evens N ! j = 2 * j"
  and length_evens: "even N \<Longrightarrow> length (evens N) = N div 2"
  and distinct_evens: "distinct (evens N)"
  and set_evens: "even N \<Longrightarrow> set (evens N) = {k. k < N \<and> even k}"
  by (auto simp: evens_def distinct_map inj_on_def image_iff elim!: evenE)

lemma odds_nth: "j < length (odds N) \<Longrightarrow> odds N ! j = 2 * j + 1"
  and length_odds: "length (odds N) = N div 2"
  and distinct_odds: "distinct (odds N)"
  and set_odds: "even N \<Longrightarrow> set (odds N) = {k. k < N \<and> odd k}"
  by (auto simp: odds_def distinct_map inj_on_def image_iff elim!: evenE oddE) presburger+

lemma runs_places:
  assumes "\<And>t. P 0 t \<Longrightarrow> length (thAvatars t) = N"
    and "\<And>j. j < length (pl N) \<Longrightarrow> runs R (P j) (f (pl N ! j)) (P (Suc j))"
  shows "runs R (P 0) (each_place pl f) (P (length (pl N)))"
  using runs_map [of "pl N" R P f] assms unfolding runs_def each_place_def by auto

lemma duel_length: "duel n m K i creeps N b e x y t \<Longrightarrow> length (thAvatars t) = N"
  by (simp add: duel_def avatars_ok_def)

text \<open>A pass over some pl, each of which may write and may end some clients.\<close>

lemma runs_pass:
  assumes "\<And>k x y. k \<in> set (pl N) \<Longrightarrow>
    runs R (duel n m K i creeps N b e x y) (f k) (duel n m K i creeps N b e (x + dx) (y + dy))"
  shows "runs R (duel n m K i creeps N b e x y) (each_place pl f)
    (duel n m K i creeps N b e (x + dx * length (pl N)) (y + dy * length (pl N)))"
  using runs_places [of "\<lambda>j. duel n m K i creeps N b e (x + dx * j) (y + dy * j)" N pl R f]
    assms [of "pl N ! _" "x + dx * _" "y + dy * _"] duel_length
  by (auto simp: algebra_simps)

end
