(* ===== verification/Turn_Facts.thy ===== *)
theory Turn_Facts
  imports Duel_Facts
begin

text \<open>
  One turn of a duel: activation, wounds, counters, bleeding, the end of a cycle.  Each part keeps
  the ranges of both avatars and the invariant of the match.
\<close>

section \<open>Pairs of avatars\<close>

definition partner :: "nat \<Rightarrow> nat" where
  "partner k = (if even k then k + 1 else k - 1)"

lemma partner_less: "even N \<Longrightarrow> k < N \<Longrightarrow> partner k < N"
  by (auto simp: partner_def elim!: evenE)

lemma partner_neq: "partner k \<noteq> k"
  by (auto simp: partner_def elim!: oddE)

lemma sort_ok_avatar: "sort_ok n cr k a \<Longrightarrow> avatar_ok a"
  by (auto simp: sort_ok_def player_ok_def creep_ok_def split: if_splits)

lemma sort_ok_same:
  assumes "sort_ok n cr k a" and "avatar_ok a'" and "avClient a' = avClient a"
    and "avNetworkID a' = avNetworkID a" and "avIsGhost a' = avIsGhost a" and "avUsingItem a' = avUsingItem a"
  shows "sort_ok n cr k a'"
  using assms by (auto simp: sort_ok_def player_ok_def creep_ok_def)

lemma sort_ok_frame: "sort_ok n cr k a \<Longrightarrow> avatar_ok a' \<Longrightarrow> avatar_frame a a' \<Longrightarrow> sort_ok n cr k a'"
  by (rule sort_ok_same) (simp_all add: avatar_frame_def)

lemma avatars_ok_at:
  assumes "avatars_ok n cr N b avs" and "k < N"
  shows "k < length avs" and "sort_ok n cr k (avs ! k)" and "avatar_ok (avs ! k)"
    and "\<not> avIsFinish (avs ! k) \<Longrightarrow> avEffectItemCount (avs ! k) \<le> b k"
  using assms sort_ok_avatar by (auto simp: avatars_ok_def)

lemma avatars_ok_finish:
  assumes "avatars_ok n cr N b avs" and "k < N"
  shows "avIsFinish (avs ! partner k) = avIsFinish (avs ! k)"
proof (cases "even k")
  case True
  then show ?thesis using assms by (auto simp: avatars_ok_def partner_def)
next
  case False
  then obtain j where "k = Suc j" "even j" by (cases k) auto
  then show ?thesis using assms by (auto simp: avatars_ok_def partner_def)
qed

lemma avatars_ok_put:
  assumes ok: "avatars_ok n cr N b avs" and k: "k < N" and l: "l = partner k"
    and a: "sort_ok n cr k a" "\<not> avIsFinish a \<Longrightarrow> avEffectItemCount a \<le> b' k"
    and c: "sort_ok n cr l c" "\<not> avIsFinish c \<Longrightarrow> avEffectItemCount c \<le> b' l"
    and fin: "avIsFinish a = avIsFinish c" and b: "\<And>j. j \<noteq> k \<Longrightarrow> j \<noteq> l \<Longrightarrow> b j \<le> b' j"
  shows "avatars_ok n cr N b' (avs[k := a, l := c])"
proof -
  have N: "length avs = N" "even N" using ok by (auto simp: avatars_ok_def)
  have ne: "k \<noteq> l" using partner_neq [of k] l by auto
  have "avIsFinish (avs[k := a, l := c] ! j) = avIsFinish (avs[k := a, l := c] ! (j + 1))" if j: "j < N" "even j" for j
  proof (cases "j = k \<or> j = l")
    case True
    then have "{j, j + 1} = {k, l}" using l j(2) by (auto simp: partner_def elim!: oddE split: if_splits)
    then show ?thesis using fin N(1) k partner_less [OF N(2) k] l ne by (auto simp: nth_list_update doubleton_eq_iff)
  next
    case False
    moreover have "j + 1 \<noteq> k \<and> j + 1 \<noteq> l" using False l j(2) by (cases k) (auto simp: partner_def split: if_splits)
    ultimately show ?thesis using ok j by (simp add: avatars_ok_def)
  qed
  moreover have "sort_ok n cr j (avs[k := a, l := c] ! j) \<and>
      (\<not> avIsFinish (avs[k := a, l := c] ! j) \<longrightarrow> avEffectItemCount (avs[k := a, l := c] ! j) \<le> b' j)" if j: "j < N" for j
    using a c ok j ne b [of j] N(1) by (cases "j = k"; cases "j = l") (fastforce simp: avatars_ok_def)+
  ultimately show ?thesis using ok by (simp add: avatars_ok_def)
qed

text \<open>A duel after a step on a pair.\<close>

lemma duel_put:
  assumes t: "duel n m K i cr N b e x y t" and k: "k < N" and l: "l = partner k"
    and w: "match_ok n m K i w"
    and a: "sort_ok n cr k a" "\<not> avIsFinish a \<Longrightarrow> avEffectItemCount a \<le> b' k"
    and c: "sort_ok n cr l c" "\<not> avIsFinish c \<Longrightarrow> avEffectItemCount c \<le> b' l"
    and fin: "avIsFinish a = avIsFinish c" and b: "\<And>j. j \<noteq> k \<Longrightarrow> j \<noteq> l \<Longrightarrow> b j \<le> b' j"
  shows "duel n m K i cr N b' e x y (put_pair k a l c (t\<lparr>thWorld := w\<rparr>))"
  using assms avatars_ok_put [OF _ k l a c fin b] by (simp add: duel_def put_pair_def thread_ok_def block_ok_def)

lemma duelD:
  assumes "duel n m K i cr N b e x y t"
  shows "match_ok n m K i (thWorld t)" and "avatars_ok n cr N b (thAvatars t)" and "even N"
    and "length (thAvatars t) = N"
  using assms by (auto simp: duel_def thread_ok_def avatars_ok_def)

lemma with_pair_eq:
  assumes "duel n m K i cr N b e x y t" and "k < N" and "l = partner k"
  shows "with_pair k l f t = f (thAvatars t ! k) (thAvatars t ! l) t"
  using assms duelD [OF assms(1)] partner_less [of N k] by (simp add: with_pair_def at_idx_def)

text \<open>Both avatars of a pair.\<close>

lemma duel_pair:
  assumes "duel n m K i cr N b e x y t" and "k < N" and "l = partner k"
  shows "sort_ok n cr k (thAvatars t ! k)" and "sort_ok n cr l (thAvatars t ! l)"
    and "avatar_ok (thAvatars t ! k)" and "avatar_ok (thAvatars t ! l)"
    and "avIsFinish (thAvatars t ! l) = avIsFinish (thAvatars t ! k)"
    and "\<not> avIsFinish (thAvatars t ! k) \<Longrightarrow> avEffectItemCount (thAvatars t ! k) \<le> b k"
    and "\<not> avIsFinish (thAvatars t ! l) \<Longrightarrow> avEffectItemCount (thAvatars t ! l) \<le> b l"
  using assms duelD [OF assms(1)] avatars_ok_at [of n cr N b "thAvatars t"] avatars_ok_finish [of n cr N b "thAvatars t"]
    partner_less [of N k] by auto

text \<open>A step that keeps the numbers of both avatars.\<close>

lemma duel_keep:
  assumes t: "duel n m K i cr N b e x y t" and k: "k < N" and l: "l = partner k"
    and a: "avatar_ok a" "avatar_frame (thAvatars t ! k) a" and c: "avatar_ok c" "avatar_frame (thAvatars t ! l) c"
  shows "duel n m K i cr N b e x y (put_pair k a l c t)"
proof -
  note p = duel_pair [OF t k l]
  have "duel n m K i cr N b e x y (put_pair k a l c (t\<lparr>thWorld := thWorld t\<rparr>))"
    by (rule duel_put [OF t k l duelD(1) [OF t] sort_ok_frame [OF p(1) a] _ sort_ok_frame [OF p(2) c]])
      (use p a c in \<open>simp_all add: avatar_frame_def\<close>)
  then show ?thesis by simp
qed

lemma keeps_avatar_ok:
  assumes "\<And>k. keeps k k f" and "avatar_ok a"
  shows "avatar_ok (f a)" and "avatar_frame a (f a)"
proof -
  have f: "nums_ok (avEffectItemCount a) (f a)" "avatar_frame a (f a)"
    using assms by (auto simp: keeps_def avatar_ok_def)
  then show "avatar_frame a (f a)" by simp
  show "avatar_ok (f a)" using assms(2) f by (simp add: avatar_ok_def avatar_frame_def items_ok_def)
qed

end
