(* ===== verification/Room_Battle.thy ===== *)
theory Room_Battle
  imports Stage
begin

text \<open>
  \<open>Room::BattleStage\<close> (\<open>Room.cpp\<close>): the drawn pairs fight for ten cycles of six items each, the
  avatars at the even places first.
\<close>

section \<open>Setting up\<close>

text \<open>An avatar for every entry of the drawn list; a negative entry stands for a copy.\<close>

fun make_avatars :: "nat \<Rightarrow> int list \<Rightarrow> world \<Rightarrow> avatar list result" where
  "make_avatars i [] w = Inr []"
| "make_avatars i (o1 # os) w =
     (let networkID = (if 0 \<le> o1 then o1 else not o1)
      in rbind (client_idx w networkID) (\<lambda>p.
           rbind (SetAvatar p (client_of w p) (Some i) networkID (o1 < 0) (rmRound (room_of w i))
                    BattleAvatar_new) (\<lambda>av.
             rbind (make_avatars i os w) (\<lambda>avs. Inr (av # avs)))))"

definition set_up_avatars :: "nat \<Rightarrow> step" where
  "set_up_avatars i t =
     rbind (make_avatars i (rmBattleOpponents (room_of (thWorld t) i)) (thWorld t)) (\<lambda>avs.
       Inr (Next, t\<lparr>thAvatars := avs, thEffectItemCount := 0\<rparr>))"

definition fit :: "nat \<Rightarrow> step" where
  "fit k t = rbind (at_idx (thAvatars t) k) (\<lambda>a. rbind (FitmentEffect a) (\<lambda>a'.
     Inr (Next, t\<lparr>thAvatars := (thAvatars t)[k := a']\<rparr>)))"

text \<open>A hamburger gets its type.\<close>

definition draw_hamburger :: "nat \<Rightarrow> nat \<Rightarrow> avatar \<Rightarrow> int \<Rightarrow> step" where
  "draw_hamburger k j a networkID t =
     (let (ht, rng) = GetRandomHamburgerType (wRng (thWorld t))
      in emit (SetHamburgerType networkID (of_nat j) ht)
           (t\<lparr>thWorld := (thWorld t)\<lparr>wRng := rng\<rparr>,
              thAvatars := (thAvatars t)[k := a\<lparr>avHamburgerType := ht\<rparr>]\<rparr>))"

text \<open>The doctor's tool becomes an item of the opponent.\<close>

definition copy_item :: "nat \<Rightarrow> nat \<Rightarrow> avatar \<Rightarrow> step" where
  "copy_item k j a t =
     rbind (at_idx (thAvatars t) (if even k then k + 1 else k - 1)) (\<lambda>b.
       let (choice, rng) = GetRandomCopyItem b (wRng (thWorld t))
       in rbind choice (\<lambda>choiceItem.
            rbind (emit (DoctorToolInfo (shown_id a) (of_nat j) (mType choiceItem) (mUpgrade choiceItem)) t)
              (\<lambda>(c, t'). Inr (c, t'\<lparr>thWorld := (thWorld t')\<lparr>wRng := rng\<rparr>,
                thAvatars := (thAvatars t')[k := a\<lparr>avUsingItem := (avUsingItem a)
                  [j := (avUsingItem a ! j)\<lparr>mType := mType choiceItem, mUpgrade := mUpgrade choiceItem\<rparr>]\<rparr>]\<rparr>))))"

definition prepare_slot :: "nat \<Rightarrow> nat \<Rightarrow> step" where
  "prepare_slot k j t =
     rbind (at_idx (thAvatars t) k) (\<lambda>a. rbind (GetItemBySlot a j) (\<lambda>it.
       if mType it = 7 then draw_hamburger k j a (shown_id a) t
       else if mType it = 16 then copy_item k j a t
       else Inr (Next, t)))"

definition prepare :: "nat \<Rightarrow> step" where
  "prepare k = steps (fit k # map (prepare_slot k) [0..<MAX_USING_ITEM_COUNT])"

definition emit_info :: "nat \<Rightarrow> step" where
  "emit_info k t = rbind (at_idx (thAvatars t) k) (\<lambda>a.
     rbind (sc_BattleAvatarInfoPacket a (thWorld t)) (\<lambda>p. emit p t))"

text \<open>A pair without two valid clients is finished at once; the quicker avatar comes first.\<close>

definition line_up :: "nat \<Rightarrow> nat \<Rightarrow> step" where
  "line_up i k = with_pair k (k + 1) (\<lambda>a b t.
     rbind (client_idx (thWorld t) (avNetworkID a)) (\<lambda>p.
       rbind (client_idx (thWorld t) (avNetworkID b)) (\<lambda>q.
         let ok = IsValidClientInThisRoom i (Some p) (thWorld t) \<and>
                  IsValidClientInThisRoom i (Some q) (thWorld t);
             a1 = (if ok then a else SetFinish a);
             b1 = (if ok then b else SetFinish b)
         in Inr (Next,
              if avFirstAttackState a1 < avFirstAttackState b1 then put_pair k b1 (k + 1) a1 t
              else put_pair k a1 (k + 1) b1 t))))"

section \<open>One activation\<close>

text \<open>With one of the two avatars down, both characters are wounded and the fight of the pair ends.\<close>

definition settle :: "nat \<Rightarrow> nat \<Rightarrow> nat \<Rightarrow> step" where
  "settle i k l = with_pair k l (\<lambda>a b t.
     if avHp a = 0 \<or> avHp b = 0
     then rbind (wound i a b (thWorld t)) (\<lambda>(a1, w1).
            rbind (wound i b a1 w1) (\<lambda>(b1, w2).
              rbind (lost i a1 w2) (\<lambda>l1. rbind (lost i b1 w2) (\<lambda>l2.
                Inr (Next, put_pair k (SetFinish a1) l (SetFinish b1)
                  (t\<lparr>thWorld := w2, thLeavers := thLeavers t @ l1 @ l2\<rparr>))))))
     else Inr (Next, t))"

definition emit_active :: "nat \<Rightarrow> u8 \<Rightarrow> step" where
  "emit_active k slot t =
     rbind (at_idx (thAvatars t) k) (\<lambda>a. emit (packet.ActiveItem (shown_id a) slot) t)"

text \<open>
  The body of the two loops of a block over the places: \<open>k\<close> acts and \<open>l\<close> is its opponent, \<open>k + 1\<close> in the
  loop over the even places and \<open>k - 1\<close> in the loop over the odd ones.
\<close>

definition battle_turn :: "nat \<Rightarrow> nat \<Rightarrow> nat \<Rightarrow> nat \<Rightarrow> step" where
  "battle_turn i index k l = if_fighting k (\<lambda>t.
     rbind (activate index k l t) (\<lambda>(activeSlot, t1).
       steps [settle i k l, counter_attack activeSlot k l, bleed k l,
              emit_active k activeSlot, emit_infos k l, settle i k l] t1))"

section \<open>Cycles\<close>

definition draw_order :: "nat \<Rightarrow> step" where
  "draw_order k t =
     rbind (at_idx (thAvatars t) k) (\<lambda>a. rbind (client_idx (thWorld t) (avNetworkID a)) (\<lambda>p.
       let (itemQueue, rng) = GetItemActiveQueue (client_of (thWorld t) p) (wRng (thWorld t))
       in rbind (SetActiveQueue itemQueue a) (\<lambda>a'.
            Inr (Next, t\<lparr>thWorld := (thWorld t)\<lparr>wRng := rng\<rparr>, thAvatars := (thAvatars t)[k := a']\<rparr>))))"

definition emit_init_slot :: "(avatar \<Rightarrow> int) \<Rightarrow> nat \<Rightarrow> step" where
  "emit_init_slot ident k t =
     rbind (at_idx (thAvatars t) k) (\<lambda>a. emit (Notification (ident a) InitBattleSlot) t)"

text \<open>The avatars at the even places act, then those at the odd places.\<close>

definition battle_half :: "nat \<Rightarrow> nat \<Rightarrow> (nat \<Rightarrow> nat list) \<Rightarrow> (nat \<Rightarrow> nat) \<Rightarrow> step" where
  "battle_half i index places other = steps
     [open_block, count_item, each_place places (\<lambda>k. battle_turn i index k (other k)),
      emit_time, dismiss i]"

definition battle_index :: "nat \<Rightarrow> nat \<Rightarrow> nat \<Rightarrow> step" where
  "battle_index i openCount index = steps
     [battle_half i index evens (\<lambda>k. k + 1), Sleep, break_if_finished,
      battle_half i index odds (\<lambda>k. k - 1), Sleep, break_if_finished,
      leave_if_stopped i openCount]"

definition battle_cycle_end :: "nat \<Rightarrow> step" where
  "battle_cycle_end i = steps
     [open_block,
      each_place evens (\<lambda>k. if_fighting k
        (steps [end_cycle k (k + 1), emit_infos k (k + 1), settle i k (k + 1)])),
      dismiss i]"

definition battle_cycle :: "nat \<Rightarrow> nat \<Rightarrow> step" where
  "battle_cycle i openCount = steps
     ([each_place (\<lambda>n. [0..<n]) (\<lambda>k. if_fighting k (draw_order k)),
       open_block, each_place (\<lambda>n. [0..<n]) (\<lambda>k. if_fighting k (emit_init_slot shown_id k)), send_if_any i,
       Sleep] @
      map (battle_index i openCount) [0..<MAX_USING_ITEM_COUNT] @
      [battle_cycle_end i])"

text \<open>The time is up: whoever still fights is wounded.\<close>

definition time_up_pair :: "nat \<Rightarrow> nat \<Rightarrow> step" where
  "time_up_pair i k = with_pair k (k + 1) (\<lambda>a b t.
     let d = (\<lambda>w. i32 (10 + i32 (rmRound (room_of w i) * 2)))
     in rbind (ToDamageCharacter (d (thWorld t)) True a (thWorld t)) (\<lambda>(a1, w1).
          rbind (ToDamageCharacter (d w1) True b w1) (\<lambda>(b1, w2).
            rbind (lost i a1 w2) (\<lambda>l1. rbind (lost i b1 w2) (\<lambda>l2.
              Inr (Next, put_pair k a1 (k + 1) b1
                (t\<lparr>thWorld := w2, thLeavers := thLeavers t @ l1 @ l2\<rparr>)))))))"

definition battle_time_up :: "nat \<Rightarrow> step" where
  "battle_time_up i = steps
     [Sleep, open_block, each_place evens (\<lambda>k. if_fighting k (time_up_pair i k)), dismiss i]"

section \<open>The stage\<close>

definition battle_prologue :: "nat \<Rightarrow> nat \<Rightarrow> step" where
  "battle_prologue i openCount = steps
     [leave_if_stopped i openCount, set_up_avatars i, open_block,
      emit (Notification 0 EnterBattleStage), each_place (\<lambda>n. [0..<n]) prepare,
      each_place (\<lambda>n. [0..<n]) emit_info, send_stream i, Sleep, send_packet i (FadeOut 1), Sleep,
      leave_if_stopped i openCount, each_place evens (line_up i)]"

definition BattleStage :: "nat \<Rightarrow> thread \<Rightarrow> (bool \<times> thread) result" where
  "BattleStage i t = stage_value
     (let openCount = rmOpenCount (room_of (thWorld t) i)
      in steps
        [set_status i St_BattleStage, battle_prologue i openCount,
         breakable (steps (replicate 10 (battle_cycle i openCount) @ [battle_time_up i])),
         finish_stage i openCount] t)"

end
