(* ===== verification/Room_Creep.thy ===== *)
theory Room_Creep
  imports Room_Battle
begin

text \<open>
  \<open>Room::CreepStage\<close> (\<open>Room.cpp\<close>): every client of the room fights its own copy of the monster.  The
  avatars of the clients are at the even places, each monster behind its opponent.
\<close>

section \<open>Setting up\<close>

fun make_creep_avatars :: "nat \<Rightarrow> avatar \<Rightarrow> nat list \<Rightarrow> world \<Rightarrow> avatar list result" where
  "make_creep_avatars i creepMonster [] w = Inr []"
| "make_creep_avatars i creepMonster (p # ps) w =
     rbind (SetAvatar p (client_of w p) (Some i) (clNetworkID (client_of w p)) False
              (rmRound (room_of w i)) BattleAvatar_new) (\<lambda>av.
       rbind (make_creep_avatars i creepMonster ps w) (\<lambda>avs.
         Inr (av # creepMonster\<lparr>avNetworkID := i32 (clNetworkID (client_of w p) + 1000000)\<rparr> # avs)))"

definition set_up_creep_avatars :: "nat \<Rightarrow> step" where
  "set_up_creep_avatars i t =
     (let (creepMonster, r) = GetCreepMonster (room_of (thWorld t) i);
          w = set_room i r (thWorld t)
      in rbind (make_creep_avatars i creepMonster (rmClients (room_of w i)) w) (\<lambda>avs.
           Inr (Next, t\<lparr>thWorld := w, thAvatars := avs, thEffectItemCount := 0\<rparr>)))"

definition prepare_creep_slot :: "nat \<Rightarrow> nat \<Rightarrow> step" where
  "prepare_creep_slot k j t =
     rbind (at_idx (thAvatars t) k) (\<lambda>a. rbind (GetItemBySlot a j) (\<lambda>it.
       if mType it = 7 then draw_hamburger k j a (avNetworkID a) t else Inr (Next, t)))"

definition prepare_creep :: "nat \<Rightarrow> step" where
  "prepare_creep k = steps (fit k # map (prepare_creep_slot k) [0..<MAX_USING_ITEM_COUNT])"

section \<open>One activation\<close>

text \<open>The reward of a client that is not finished and whose monster is down.\<close>

definition reward_player :: "nat \<Rightarrow> avatar \<Rightarrow> avatar \<Rightarrow> step" where
  "reward_player i player creep t =
     (if \<not> avIsFinish player \<and> avHp creep = 0
      then let (info, rng) = GetCreepRewardTicketType (room_of (thWorld t) i) (wRng (thWorld t))
           in rbind (IncreaseItemTicket (crItemTicketType info) (crCount info) player
                       ((thWorld t)\<lparr>wRng := rng\<rparr>)) (\<lambda>(currItemTicketCount, w).
                emit (sc_SetItemTicketPacket (avNetworkID player) (crItemTicketType info) currItemTicketCount)
                  (t\<lparr>thWorld := w\<rparr>))
      else Inr (Next, t))"

definition end_creep_fight :: "nat \<Rightarrow> nat \<Rightarrow> avatar \<Rightarrow> avatar \<Rightarrow> world \<Rightarrow> step" where
  "end_creep_fight i k player creep w t =
     rbind (lost i player w) (\<lambda>l1.
       rbind (reward_player i player creep (t\<lparr>thWorld := w, thLeavers := thLeavers t @ l1\<rparr>)) (\<lambda>(c, t1).
         Inr (c, put_pair k (SetFinish player) (k + 1) (SetFinish creep) t1)))"

text \<open>After the item of the player and after the item of the monster; \<open>k\<close> is the place of the player.\<close>

definition settle_player :: "nat \<Rightarrow> nat \<Rightarrow> step" where
  "settle_player i k = with_pair k (k + 1) (\<lambda>player creep t.
     if avHp player = 0 \<or> avHp creep = 0
     then rbind (wound i player creep (thWorld t)) (\<lambda>(player1, w1).
            rbind (wound i creep player1 w1) (\<lambda>(creep1, w2).
              end_creep_fight i k player1 creep1 w2 t))
     else Inr (Next, t))"

definition settle_creep :: "nat \<Rightarrow> nat \<Rightarrow> step" where
  "settle_creep i k = with_pair k (k + 1) (\<lambda>player creep t.
     if avHp creep = 0 \<or> avHp player = 0
     then rbind (wound i creep player (thWorld t)) (\<lambda>(creep1, w1).
            rbind (wound i player creep1 w1) (\<lambda>(player1, w2).
              end_creep_fight i k player1 creep1 w2 t))
     else Inr (Next, t))"

definition emit_creep_active :: "nat \<Rightarrow> u8 \<Rightarrow> step" where
  "emit_creep_active k slot t =
     rbind (at_idx (thAvatars t) k) (\<lambda>a. emit (packet.ActiveItem (avNetworkID a) slot) t)"

definition player_turn :: "nat \<Rightarrow> nat \<Rightarrow> nat \<Rightarrow> step" where
  "player_turn i index k = if_fighting k (\<lambda>t.
     rbind (activate index k (k + 1) t) (\<lambda>(activeSlot, t1).
       steps [settle_player i k, bleed k (k + 1), emit_creep_active k activeSlot,
              emit_infos k (k + 1), settle_player i k] t1))"

definition creep_turn :: "nat \<Rightarrow> nat \<Rightarrow> nat \<Rightarrow> step" where
  "creep_turn i index k = if_fighting k (\<lambda>t.
     rbind (activate index k (k - 1) t) (\<lambda>(activeSlot, t1).
       steps [settle_creep i (k - 1), counter_attack activeSlot k (k - 1), bleed k (k - 1),
              emit_creep_active k activeSlot, emit_infos k (k - 1), settle_creep i (k - 1)] t1))"

section \<open>Cycles\<close>

definition creep_half :: "nat \<Rightarrow> (nat \<Rightarrow> nat list) \<Rightarrow> (nat \<Rightarrow> step) \<Rightarrow> step" where
  "creep_half i places turn = steps
     [open_block, count_item, each_place places turn, emit_time, dismiss i]"

definition creep_index :: "nat \<Rightarrow> nat \<Rightarrow> nat \<Rightarrow> step" where
  "creep_index i openCount index = steps
     [creep_half i evens (player_turn i index), Sleep, break_if_finished,
      creep_half i odds (creep_turn i index), Sleep, break_if_finished,
      leave_if_stopped i openCount]"

definition creep_cycle_end :: "nat \<Rightarrow> step" where
  "creep_cycle_end i = steps
     [open_block,
      each_place evens (\<lambda>k. if_fighting k
        (steps [end_cycle k (k + 1), emit_infos k (k + 1), settle_player i k])),
      dismiss i]"

definition creep_cycle :: "nat \<Rightarrow> nat \<Rightarrow> step" where
  "creep_cycle i openCount = steps
     ([each_place evens draw_order,
       open_block, each_place evens (\<lambda>k. if_fighting k (emit_init_slot avNetworkID k)), send_if_any i,
       Sleep] @
      map (creep_index i openCount) [0..<MAX_USING_ITEM_COUNT] @
      [creep_cycle_end i])"

definition time_up_player :: "nat \<Rightarrow> nat \<Rightarrow> step" where
  "time_up_player i k t =
     rbind (at_idx (thAvatars t) k) (\<lambda>a.
       rbind (ToDamageCharacter (i32 (10 + i32 (rmRound (room_of (thWorld t) i) * 2))) True a (thWorld t))
         (\<lambda>(a1, w1). rbind (lost i a1 w1) (\<lambda>l1.
            Inr (Next, t\<lparr>thWorld := w1, thLeavers := thLeavers t @ l1,
              thAvatars := (thAvatars t)[k := a1]\<rparr>))))"

definition creep_time_up :: "nat \<Rightarrow> step" where
  "creep_time_up i = steps
     [Sleep, open_block, each_place evens (\<lambda>k. if_fighting k (time_up_player i k)), dismiss i]"

section \<open>The stage\<close>

definition creep_prologue :: "nat \<Rightarrow> nat \<Rightarrow> step" where
  "creep_prologue i openCount = steps
     [leave_if_stopped i openCount,
      (\<lambda>t. let curCreepType = GetCurCreepType (room_of (thWorld t) i)
           in steps [set_up_creep_avatars i, open_block,
                emit_all [Notification 0 EnterCreepStage, CreepStageInfo curCreepType]] t),
      each_place evens prepare_creep, each_place (\<lambda>n. [0..<n]) emit_info, send_stream i, Sleep,
      send_packet i (FadeOut 1), Sleep, Sleep, leave_if_stopped i openCount]"

definition CreepStage :: "nat \<Rightarrow> thread \<Rightarrow> (bool \<times> thread) result" where
  "CreepStage i t = stage_value
     (let openCount = rmOpenCount (room_of (thWorld t) i)
      in steps
        [set_status i St_CreepStage, creep_prologue i openCount,
         breakable (steps (replicate 10 (creep_cycle i openCount) @ [creep_time_up i])),
         finish_stage i openCount] t)"

end
