(* ===== verification/Turn_Safe.thy ===== *)
theory Turn_Safe
  imports Turn_Facts Room_Creep Draws
begin

text \<open>
  Every part of a turn keeps the duel: no part leaves the defined behaviour, whatever the avatars
  carry, and the messages it writes and the clients it sends away are bounded.
\<close>

section \<open>Wounds\<close>

lemma sort_ok_behind: "sort_ok n cr k a \<Longrightarrow> avIsGhost a \<or> (\<exists>p < n. avClient a = Some p)"
  by (auto simp: sort_ok_def player_ok_def creep_ok_def split: if_splits)

lemma avatar_ok_flags [simp]:
  "avatar_ok (a\<lparr>avIsFinish := f\<rparr>) = avatar_ok a"
  "avatar_ok (a\<lparr>avIsCharacterDamage := f\<rparr>) = avatar_ok a"
  "avatar_ok (a\<lparr>avHamburgerType := h\<rparr>) = avatar_ok a"
  by (simp_all add: avatar_ok_def nums_ok_def items_ok_def)

lemma damage_loop_ok: "list_all item_ok its \<Longrightarrow> \<exists>d. damage_loop acc its = Inr d"
proof (induction its arbitrary: acc)
  case (Cons it its)
  have "length sItems = 46" by (simp add: sItems_def)
  then show ?case using Cons by (simp add: at_idx_def item_ok_def)
qed simp

lemma GetDamage_ok: "avatar_ok a \<Longrightarrow> \<exists>d. GetDamage a = Inr d"
  by (simp add: GetDamage_def damage_loop_ok avatar_ok_def items_ok_def)

lemma match_ok_hp:
  assumes "match_ok n m K i w" and "p < n"
  shows "match_ok n m K i (set_client p (Client_ToDamage (client_of w p) d) w)"
  using assms match_ok_client [OF assms]
  by (intro match_ok_set_client) (auto simp: Client_ToDamage_def Let_def intro: client_ok_cong)

definition wounded :: "avatar \<Rightarrow> avatar \<Rightarrow> bool" where
  "wounded a a' \<longleftrightarrow> a' = a \<or> a' = a\<lparr>avIsCharacterDamage := True\<rparr>"

lemma ToDamageCharacter_ok:
  assumes "match_ok n m K i w" and "sort_ok n cr k a"
  shows "\<exists>a' w'. ToDamageCharacter d force a w = Inr (a', w') \<and> wounded a a' \<and> match_ok n m K i w'"
  using assms sort_ok_behind [OF assms(2)] match_ok_hp [OF assms(1)]
  by (auto simp: ToDamageCharacter_def wounded_def)

lemma wound_ok:
  assumes "match_ok n m K i w" and "sort_ok n cr k a" and "avatar_ok b"
  shows "\<exists>a' w'. wound i a b w = Inr (a', w') \<and> wounded a a' \<and> match_ok n m K i w'"
proof -
  obtain d where "GetDamage b = Inr d" using GetDamage_ok [OF assms(3)] by blast
  then show ?thesis using ToDamageCharacter_ok [OF assms(1,2)] by (simp add: wound_def)
qed

lemma wounded_sort:
  assumes "sort_ok n cr k a" and "wounded a a'"
  shows "sort_ok n cr k a'" and "avatar_ok a'" and "avIsFinish a' = avIsFinish a" and "avHp a' = avHp a"
    and "avEffectItemCount a' = avEffectItemCount a" and "avNetworkID a' = avNetworkID a"
proof -
  have "avatar_ok a'" using sort_ok_avatar [OF assms(1)] assms(2) by (auto simp: wounded_def)
  then show "avatar_ok a'" "sort_ok n cr k a'" "avIsFinish a' = avIsFinish a" "avHp a' = avHp a"
    "avEffectItemCount a' = avEffectItemCount a" "avNetworkID a' = avNetworkID a"
    using assms by (auto simp: wounded_def intro!: sort_ok_same [OF assms(1)])
qed

lemma lost_ok:
  assumes "player_ok n a"
  shows "\<exists>ls. lost i a w = Inr ls \<and> length ls \<le> 1 \<and> (\<forall>l \<in> set ls. \<exists>p < n. l = int p)"
  using assms by (auto simp: lost_def player_ok_def)

lemma player_sort: "sort_ok n cr k a \<Longrightarrow> \<not> (cr \<and> odd k) \<Longrightarrow> player_ok n a"
  by (simp add: sort_ok_def)

lemma sort_ok_SetFinish: "sort_ok n cr k a \<Longrightarrow> sort_ok n cr k (SetFinish a)"
  using sort_ok_avatar [of n cr k a] by (auto simp: SetFinish_def intro: sort_ok_same)

section \<open>Leaving clients and packets added to the block\<close>

lemma duel_leavers:
  assumes "duel n m K i cr N b e x y t" and "\<forall>l \<in> set ls. \<exists>p < n. l = int p" and "length ls \<le> z"
  shows "duel n m K i cr N b e x (y + z) (t\<lparr>thLeavers := thLeavers t @ ls\<rparr>)"
  using assms by (auto simp: duel_def thread_ok_def block_ok_def)

lemma duel_world:
  assumes "duel n m K i cr N b e x y t" and "match_ok n m K i w"
  shows "duel n m K i cr N b e x y (t\<lparr>thWorld := w\<rparr>)"
  using assms by (simp add: duel_def thread_ok_def block_ok_def)

lemma put_pair_order: "put_pair k a l c (t\<lparr>thWorld := w, thLeavers := ls\<rparr>) = put_pair k a l c (t\<lparr>thLeavers := ls, thWorld := w\<rparr>)"
  by (cases t) (simp add: put_pair_def)

text \<open>Both avatars of a pair are finished.\<close>

lemma duel_finish:
  assumes "duel n m K i cr N b e x y t" and "k < N" and "l = partner k" and "match_ok n m K i w"
    and "sort_ok n cr k a" and "sort_ok n cr l c"
  shows "duel n m K i cr N b e x y (put_pair k (SetFinish a) l (SetFinish c) (t\<lparr>thWorld := w\<rparr>))"
  by (rule duel_put [OF assms(1-4) sort_ok_SetFinish [OF assms(5)] _ sort_ok_SetFinish [OF assms(6)]])
    (simp_all add: SetFinish_def)

lemma runs_settle:
  assumes k: "k < N" "l = partner k"
  shows "runs R (duel n m K i False N b e x y) (settle i k l) (duel n m K i False N b e x (y + 2))"
proof (rule runsI)
  fix t assume t: "duel n m K i False N b e x y t"
  note p = duel_pair [OF t k] and w = duelD(1) [OF t]
  let ?a = "thAvatars t ! k" and ?b = "thAvatars t ! l"
  show "\<exists>t'. settle i k l t = Inr (Next, t') \<and> duel n m K i False N b e x (y + 2) t'"
  proof (cases "avHp ?a = 0 \<or> avHp ?b = 0")
    case False
    then show ?thesis using t by (auto simp: settle_def with_pair_eq [OF t k] elim: duel_mono)
  next
    case True
    obtain a1 w1 where a1: "wound i ?a ?b (thWorld t) = Inr (a1, w1)" "wounded ?a a1" "match_ok n m K i w1"
      using wound_ok [OF w p(1,4)] by blast
    note a1s = wounded_sort [OF p(1) a1(2)]
    obtain b1 w2 where b1: "wound i ?b a1 w1 = Inr (b1, w2)" "wounded ?b b1" "match_ok n m K i w2"
      using wound_ok [OF a1(3) p(2) a1s(2)] by blast
    note b1s = wounded_sort [OF p(2) b1(2)]
    obtain l1 where l1: "lost i a1 w2 = Inr l1" "length l1 \<le> 1" "\<forall>j \<in> set l1. \<exists>p < n. j = int p"
      using lost_ok [OF player_sort [OF a1s(1)], of i w2] by auto
    obtain l2 where l2: "lost i b1 w2 = Inr l2" "length l2 \<le> 1" "\<forall>j \<in> set l2. \<exists>p < n. j = int p"
      using lost_ok [OF player_sort [OF b1s(1)], of i w2] by auto
    have "duel n m K i False N b e x (y + 2) (t\<lparr>thLeavers := thLeavers t @ l1 @ l2\<rparr>)"
      by (rule duel_leavers [OF t]) (use l1 l2 in auto)
    from duel_finish [OF this k b1(3) a1s(1) b1s(1)]
    show ?thesis using True a1(1) b1(1) l1(1) l2(1) by (simp add: settle_def with_pair_eq [OF t k] put_pair_order)
  qed
qed

section \<open>Activation and its consequences\<close>

text \<open>A pair that is finished has no activations to bound.\<close>

lemma duel_finished:
  assumes t: "duel n m K i cr N b e x y t" and k: "k < N" "l = partner k" and fin: "avIsFinish (thAvatars t ! k)"
    and b: "\<And>j. j \<noteq> k \<Longrightarrow> j \<noteq> l \<Longrightarrow> b j \<le> b' j"
  shows "duel n m K i cr N b' e x y t"
proof -
  note p = duel_pair [OF t k]
  have "duel n m K i cr N b' e x y (put_pair k (thAvatars t ! k) l (thAvatars t ! l) (t\<lparr>thWorld := thWorld t\<rparr>))"
    by (rule duel_put [OF t k duelD(1) [OF t] p(1) _ p(2) _ _ b]) (use p fin in simp_all)
  then show ?thesis by (simp add: put_pair_def)
qed

lemma runs_if_fighting:
  assumes k: "k < N" "l = partner k" and b: "\<And>j. j \<noteq> k \<Longrightarrow> j \<noteq> l \<Longrightarrow> b j \<le> b' j" and le: "x \<le> x'" "y \<le> y'"
    and f: "\<And>t. duel n m K i cr N b e x y t \<Longrightarrow> \<not> avIsFinish (thAvatars t ! k) \<Longrightarrow>
      \<exists>c t'. f t = Inr (c, t') \<and> (if c = Next then duel n m K i cr N b' e x' y' t' else R t')"
  shows "runs R (duel n m K i cr N b e x y) (if_fighting k f) (duel n m K i cr N b' e x' y')"
  unfolding runs_def
proof (intro allI impI)
  fix t assume t: "duel n m K i cr N b e x y t"
  have "k < length (thAvatars t)" using duelD(4) [OF t] k by simp
  moreover have "duel n m K i cr N b' e x' y' t" if "avIsFinish (thAvatars t ! k)"
    by (rule duel_mono [OF duel_finished [OF t k that b]]) (use le in auto)
  ultimately show "\<exists>c t'. if_fighting k f t = Inr (c, t') \<and> (if c = Next then duel n m K i cr N b' e x' y' t' else R t')"
    using f [OF t] by (cases "avIsFinish (thAvatars t ! k)") (auto simp: if_fighting_def at_idx_def)
qed

lemma small_slot: "j < 6 \<Longrightarrow> unat (of_nat j :: u8) < MAX_USING_ITEM_COUNT"
  by (simp add: unat_of_nat)

lemma match_ok_frame:
  assumes "match_ok n m K i w" and "world_ok w'" and "world_frame w w'"
  shows "match_ok n m K i w'"
  using match_ok_rooms [OF assms(1,2)] assms(3) by (simp add: world_frame_def)

lemma activate_ok:
  assumes t: "duel n m K i cr N b e x y t" and k: "k < N" "l = partner k"
    and fin: "\<not> avIsFinish (thAvatars t ! k)" and b: "b k \<le> 5" and index: "index < MAX_USING_ITEM_COUNT"
  shows "\<exists>slot t'. activate index k l t = Inr (slot, t') \<and> unat slot < MAX_USING_ITEM_COUNT \<and>
    duel n m K i cr N (b(k := b k + 1)) e x y t'"
proof -
  note p = duel_pair [OF t k] and w = duelD(1) [OF t]
  let ?s = "\<lparr>fxMe = thAvatars t ! k, fxOpponents = thAvatars t ! l, fxWorld = thWorld t\<rparr>"
  have cnt: "avEffectItemCount (thAvatars t ! k) \<le> b k" using p(6) fin by blast
  have len: "k < length (thAvatars t)" "l < length (thAvatars t)"
    using duelD [OF t] k partner_less [of N k] by simp_all
  have me: "\<forall>q. avClient (thAvatars t ! k) = Some q \<longrightarrow> q < length (wClients (thWorld t))"
    "avClient (thAvatars t ! k) \<noteq> None \<or> (\<forall>it \<in> set (avUsingItem (thAvatars t ! k)). mType it \<noteq> 17 \<and> mType it \<noteq> 21)"
    using p(1) match_okD(2) [OF w] by (auto simp: sort_ok_def player_ok_def creep_ok_def split: if_splits)
  obtain s' where s': "ActiveItem index ?s = Inr (word_of_int (avActiveQueue (thAvatars t ! k) ! index), s')"
    "avatar_ok (fxMe s')" "avatar_ok (fxOpponents s')" "world_ok (fxWorld s')"
    "avEffectItemCount (fxMe s') = avEffectItemCount (thAvatars t ! k) + 1"
    "avatar_frame ((thAvatars t ! k)\<lparr>avEffectItemCount := avEffectItemCount (thAvatars t ! k) + 1\<rparr>) (fxMe s')"
    "avatar_frame (thAvatars t ! l) (fxOpponents s')" "world_frame (thWorld t) (fxWorld s')"
    using ActiveItem_ok [of ?s index] p(3,4) cnt b index me match_okD(1) [OF w] by auto
  have slot: "0 \<le> avActiveQueue (thAvatars t ! k) ! index" "avActiveQueue (thAvatars t ! k) ! index < 6"
    using active_lookup [OF p(3) index] by auto
  have me': "sort_ok n cr k (fxMe s')"
    by (rule sort_ok_same [OF p(1) s'(2)]) (use s'(6) in \<open>simp_all add: avatar_frame_def\<close>)
  have "duel n m K i cr N (b(k := b k + 1)) e x y (put_pair k (fxMe s') l (fxOpponents s') (t\<lparr>thWorld := fxWorld s'\<rparr>))"
    by (rule duel_put [OF t k match_ok_frame [OF w s'(4,8)] me' _ sort_ok_frame [OF p(2) s'(3,7)]])
      (use s' p cnt k partner_neq [of k] in \<open>auto simp: avatar_frame_def\<close>)
  moreover have "unat (word_of_int (avActiveQueue (thAvatars t ! k) ! index) :: u8) < MAX_USING_ITEM_COUNT"
    using slot by (metis nonneg_int_cases of_int_of_nat_eq of_nat_less_iff of_nat_numeral small_slot)
  ultimately show ?thesis using s'(1) len by (simp add: activate_def at_idx_def)
qed

text \<open>The avatar that was attacked answers; a bleeding avatar loses hit points.\<close>

lemma EffectCounter_ok:
  assumes "avatar_ok a" and "avatar_ok b" and "EffectCounter a b = (a', b')"
  shows "avatar_ok a' \<and> avatar_frame a a' \<and> avatar_ok b' \<and> avatar_frame b b'"
proof (cases "avIsFinish a")
  case True
  then show ?thesis using assms by (simp add: EffectCounter_def)
next
  case False
  define a1 where "a1 = (if avIsCounterAttack a then a\<lparr>avIsCounterAttack := False, avCounterAttackDamage := 0\<rparr> else a)"
  define c where "c = (a\<lparr>avIsCounterAttack := False\<rparr>)"
  have a1: "avatar_ok a1" "avatar_frame a a1" using assms(1)
    by (auto simp: a1_def avatar_ok_def nums_ok_def items_ok_def avatar_frame_def)
  have h: "0 \<le> avCounterHeal a1" "avCounterHeal a1 \<le> 1000000" using a1(1) by (auto simp: avatar_ok_def nums_ok_def)
  define a2 where "a2 = ToHeal (avCounterHeal a1) (a1\<lparr>avIsCounterHeal := False\<rparr>)"
  have a10: "avatar_ok (a1\<lparr>avIsCounterHeal := False\<rparr>)" using a1(1) by (simp add: avatar_ok_def nums_ok_def items_ok_def)
  have a2: "avatar_ok a2" "avatar_frame a1 a2"
    using keeps_avatar_ok [OF keeps_ToHeal [OF h] a10] by (simp_all add: a2_def avatar_frame_def)
  then have "avatar_ok (a2\<lparr>avCounterHeal := 0\<rparr>)" "avatar_frame a1 (a2\<lparr>avCounterHeal := 0\<rparr>)"
    by (auto simp: avatar_ok_def nums_ok_def items_ok_def avatar_frame_def)
  then have "avatar_ok a'" "avatar_frame a a'"
    using assms(3) a1 False avatar_frame_trans [OF a1(2)]
    by (auto simp: EffectCounter_def a1_def a2_def Let_def split: if_splits)
  moreover have "b' = b \<or> b' = ToDamage (avCounterAttackDamage c) c b"
    using assms(3) False by (auto simp: EffectCounter_def c_def Let_def split: if_splits)
  then have "avatar_ok b'" "avatar_frame b b'" using keeps_avatar_ok [OF keeps_ToDamage assms(2)] assms(2) by auto
  ultimately show ?thesis by simp
qed

lemma runs_counter:
  assumes k: "k < N" "l = partner k" and slot: "unat slot < MAX_USING_ITEM_COUNT"
  shows "runs R (duel n m K i cr N b e x y) (counter_attack slot k l) (duel n m K i cr N b e x y)"
proof (rule runsI)
  fix t assume t: "duel n m K i cr N b e x y t"
  note p = duel_pair [OF t k]
  obtain b' a' where ba: "EffectCounter (thAvatars t ! l) (thAvatars t ! k) = (b', a')" by fastforce
  have its: "length (avUsingItem (thAvatars t ! k)) = 6" "list_all item_ok (avUsingItem (thAvatars t ! k))"
    using p(3) by (simp_all add: avatar_ok_def items_ok_def)
  then have "item_ok (avUsingItem (thAvatars t ! k) ! unat slot)" using slot by (simp add: list_all_length)
  moreover have "length sItems = 46" by (simp add: sItems_def)
  moreover have "duel n m K i cr N b e x y (put_pair k a' l b' t)"
    using duel_keep [OF t k] EffectCounter_ok [OF p(4,3) ba] by blast
  ultimately show "\<exists>t'. counter_attack slot k l t = Inr (Next, t') \<and> duel n m K i cr N b e x y t'"
    using t its slot ba by (auto simp: counter_attack_def with_pair_eq [OF t k] GetItemBySlot_def at_idx_def item_ok_def)
qed

lemma runs_bleed:
  assumes k: "k < N" "l = partner k"
  shows "runs R (duel n m K i cr N b e x y) (bleed k l) (duel n m K i cr N b e x y)"
proof (rule runsI)
  fix t assume t: "duel n m K i cr N b e x y t"
  note p = duel_pair [OF t k]
  have "duel n m K i cr N b e x y (put_pair k (EffectBleeding (thAvatars t ! k)) l (thAvatars t ! l) t)"
    by (rule duel_keep [OF t k]) (use keeps_avatar_ok [OF keeps_EffectBleeding p(3)] p(4) in simp_all)
  then show "\<exists>t'. bleed k l t = Inr (Next, t') \<and> duel n m K i cr N b e x y t'"
    using t by (simp add: bleed_def with_pair_eq [OF t k])
qed

section \<open>The packets of a turn\<close>

lemma info_packet:
  "\<exists>q. sc_BattleAvatarInfoPacket a w = Inr (BattleAvatarInfo q)"
  by (auto simp: sc_BattleAvatarInfoPacket_def IsValidBattleAvatarInRoom_def IsValidClientInThisRoom_def split: option.splits)

lemma runs_infos:
  assumes k: "k < N" "l = partner k"
  shows "runs R (duel n m K i cr N b e x y) (emit_infos k l) (duel n m K i cr N b e (x + 66) y)"
proof (rule runsI)
  fix t assume t: "duel n m K i cr N b e x y t"
  obtain q1 where q1: "sc_BattleAvatarInfoPacket (thAvatars t ! k) (thWorld t) = Inr (BattleAvatarInfo q1)"
    using info_packet by blast
  obtain q2 where q2: "sc_BattleAvatarInfoPacket (thAvatars t ! l) (thWorld t) = Inr (BattleAvatarInfo q2)"
    using info_packet by blast
  show "\<exists>t'. emit_infos k l t = Inr (Next, t') \<and> duel n m K i cr N b e (x + 66) y t'"
    using duel_emit [OF t, of "[BattleAvatarInfo q1, BattleAvatarInfo q2]"] q1 q2
    by (simp add: emit_infos_def with_pair_eq [OF t k] emit_all_def)
qed

lemma runs_emit_at:
  assumes "k < N" and "\<And>t. duel n m K i cr N b e x y t \<Longrightarrow>
    \<exists>q. f (thAvatars t ! k) t = emit q t \<and> packet_ok q \<and> packet_sizeof q \<le> s"
  shows "runs R (duel n m K i cr N b e x y) (\<lambda>t. rbind (at_idx (thAvatars t) k) (\<lambda>a. f a t)) (duel n m K i cr N b e (x + s) y)"
proof (rule runsI)
  fix t assume t: "duel n m K i cr N b e x y t"
  obtain q where q: "f (thAvatars t ! k) t = emit q t" "packet_ok q" "packet_sizeof q \<le> s" using assms(2) [OF t] by blast
  have "duel n m K i cr N b e (x + s) y (t\<lparr>thStream := thStream t @ [q]\<rparr>)"
    using duel_emit [OF t, of "[q]"] q(2,3) by (auto elim!: duel_mono)
  then show "\<exists>t'. rbind (at_idx (thAvatars t) k) (\<lambda>a. f a t) = Inr (Next, t') \<and> duel n m K i cr N b e (x + s) y t'"
    using q(1) duelD(4) [OF t] assms(1) by (simp add: at_idx_def emit_def)
qed

lemma runs_emit_active: "k < N \<Longrightarrow>
  runs R (duel n m K i cr N b e x y) (emit_active k slot) (duel n m K i cr N b e (x + 8) y)"
  unfolding emit_active_def [abs_def] by (rule runs_emit_at) auto

lemma runs_emit_creep_active: "k < N \<Longrightarrow>
  runs R (duel n m K i cr N b e x y) (emit_creep_active k slot) (duel n m K i cr N b e (x + 8) y)"
  unfolding emit_creep_active_def [abs_def] by (rule runs_emit_at) auto

lemma runs_emit_slot: "k < N \<Longrightarrow>
  runs R (duel n m K i cr N b e x y) (emit_init_slot ident k) (duel n m K i cr N b e (x + 8) y)"
  unfolding emit_init_slot_def [abs_def] by (rule runs_emit_at) auto

end
