(* ===== verification/Battle_Safe.thy ===== *)
theory Battle_Safe
  imports Turn_Safe
begin

text \<open>
  A battle of clients: the turns, the cycles and the stage return and keep the match, and every
  message fits the buffer.
\<close>

section \<open>Turns\<close>

text \<open>The steps after an activation, from a thread.\<close>

lemma runs_from:
  assumes "runs R P f Q" and "P t" and "\<And>t. Q t \<Longrightarrow> Q' t"
  shows "\<exists>c t'. f t = Inr (c, t') \<and> (if c = Next then Q' t' else R t')"
proof -
  obtain c t' where "f t = Inr (c, t')" "if c = Next then Q t' else R t'" using runsD [OF assms(1,2)] by blast
  then show ?thesis using assms(3) by (intro exI [of _ c] exI [of _ t']) (simp split: if_splits)
qed

lemma runs_battle_turn:
  assumes k: "k < N" "l = partner k" and b: "b k \<le> 5" and index: "index < MAX_USING_ITEM_COUNT"
  shows "runs R (duel n m K i False N b e x y) (battle_turn i index k l)
    (duel n m K i False N (b(k := b k + 1)) e (x + 74) (y + 4))"
  unfolding battle_turn_def
proof (rule runs_if_fighting [OF k])
  fix t assume t: "duel n m K i False N b e x y t" and fin: "\<not> avIsFinish (thAvatars t ! k)"
  let ?b = "b(k := b k + 1)"
  obtain slot t' where a: "activate index k l t = Inr (slot, t')" "unat slot < MAX_USING_ITEM_COUNT"
    "duel n m K i False N ?b e x y t'"
    using activate_ok [OF t k fin b index] by blast
  have "runs R (duel n m K i False N ?b e x y)
      (steps [settle i k l, counter_attack slot k l, bleed k l, emit_active k slot, emit_infos k l, settle i k l])
      (duel n m K i False N ?b e (x + 8 + 66) (y + 2 + 2))"
    by (rule runs_Cons [OF runs_settle [OF k]] runs_Cons [OF runs_counter [OF k a(2)]] runs_Cons [OF runs_bleed [OF k]]
      runs_Cons [OF runs_emit_active [OF k(1)]] runs_Cons [OF runs_infos [OF k]] runs_Nil)+
  from runs_from [OF this a(3)]
  show "\<exists>c t'. rbind (activate index k l t) (\<lambda>(activeSlot, t1).
        steps [settle i k l, counter_attack activeSlot k l, bleed k l, emit_active k activeSlot,
          emit_infos k l, settle i k l] t1) = Inr (c, t') \<and>
      (if c = Next then duel n m K i False N ?b e (x + 74) (y + 4) t' else R t')"
    using a(1) by (simp add: numeral_eq_Suc del: steps.simps)
qed auto

text \<open>A pass in which every place that has its turn uses up one activation.\<close>

lemma runs_turns:
  assumes "distinct (pl N)"
    and b: "\<And>k. k \<in> set (pl N) \<Longrightarrow> b k \<le> 5"
    and f: "\<And>k b x y. k \<in> set (pl N) \<Longrightarrow> b k \<le> 5 \<Longrightarrow>
      runs R (duel n m K i cr N b e x y) (f k) (duel n m K i cr N (b(k := b k + 1)) e (x + dx) (y + dy))"
  shows "runs R (duel n m K i cr N b e x y) (each_place pl f)
    (duel n m K i cr N (\<lambda>k. if k \<in> set (pl N) then b k + 1 else b k) e (x + dx * length (pl N)) (y + dy * length (pl N)))"
proof -
  let ?b = "\<lambda>j k. if k \<in> set (take j (pl N)) then b k + 1 else b k"
  let ?P = "\<lambda>j. duel n m K i cr N (?b j) e (x + dx * j) (y + dy * j)"
  have "runs R (?P j) (f (pl N ! j)) (?P (Suc j))" if j: "j < length (pl N)" for j
  proof -
    have "pl N ! j \<notin> set (take j (pl N))"
      using j assms(1) by (auto simp: in_set_conv_nth nth_eq_iff_index_eq)
    moreover from this have "(?b j)(pl N ! j := ?b j (pl N ! j) + 1) = ?b (Suc j)"
      using j by (auto simp: take_Suc_conv_app_nth fun_eq_iff)
    ultimately show ?thesis
      using f [of "pl N ! j" "?b j" "x + dx * j" "y + dy * j"] b [of "pl N ! j"] j by (simp add: algebra_simps)
  qed
  then have "runs R (?P 0) (each_place pl f) (?P (length (pl N)))"
    by (intro runs_places) (auto simp: duel_length)
  then show ?thesis by simp
qed

text \<open>A pass over the pairs, which resets the bounds of both avatars.\<close>

lemma partner_evens: "even N \<Longrightarrow> k \<in> set (evens N) \<Longrightarrow> k < N \<and> k + 1 = partner k"
  and partner_odds: "even N \<Longrightarrow> k \<in> set (odds N) \<Longrightarrow> k < N \<and> k - 1 = partner k"
  by (simp_all add: set_evens set_odds partner_def)

lemma runs_pairs:
  assumes N: "even N"
    and f: "\<And>k b x y. k \<in> set (evens N) \<Longrightarrow>
      runs R (duel n m K i cr N b e x y) (f k) (duel n m K i cr N (b(k := c, k + 1 := c)) e (x + dx) (y + dy))"
  shows "runs R (duel n m K i cr N b e x y) (each_place evens f)
    (duel n m K i cr N (\<lambda>_. c) e (x + dx * (N div 2)) (y + dy * (N div 2)))"
proof -
  let ?b = "\<lambda>j k. if k < 2 * j then c else b k"
  let ?P = "\<lambda>j. duel n m K i cr N (?b j) e (x + dx * j) (y + dy * j)"
  have "runs R (?P j) (f (evens N ! j)) (?P (Suc j))" if j: "j < length (evens N)" for j
  proof -
    have "(?b j)(2 * j := c, 2 * j + 1 := c) = ?b (Suc j)" by (auto simp: fun_eq_iff)
    then show ?thesis
      using f [of "evens N ! j" "?b j" "x + dx * j" "y + dy * j"] j evens_nth [OF j] nth_mem [OF j]
      by (simp add: algebra_simps)
  qed
  then have "runs R (?P 0) (each_place evens f) (?P (length (evens N)))"
    by (intro runs_places) (auto simp: duel_length)
  then have "runs R (?P 0) (each_place evens f)
      (duel n m K i cr N (\<lambda>_. c) e (x + dx * (N div 2)) (y + dy * (N div 2)))"
    by (rule runs_post) (use N in \<open>auto simp: length_evens elim!: duel_mono\<close>)
  then show ?thesis by simp
qed

section \<open>Cycles\<close>

lemma InitCycle_ok:
  assumes "avatar_ok a"
  shows "avatar_ok (InitCycle a)" and "avEffectItemCount (InitCycle a) = 0"
    and "avClient (InitCycle a) = avClient a" and "avNetworkID (InitCycle a) = avNetworkID a"
    and "avIsGhost (InitCycle a) = avIsGhost a" and "avUsingItem (InitCycle a) = avUsingItem a"
    and "avIsFinish (InitCycle a) = avIsFinish a"
  using assms by (simp_all add: InitCycle_def avatar_ok_def nums_ok_def items_ok_def in_i32_0)

lemma end_cycle_sort:
  assumes "sort_ok n cr k a"
  shows "sort_ok n cr k (InitCycle (EffectBomb a))" and "avEffectItemCount (InitCycle (EffectBomb a)) = 0"
    and "avIsFinish (InitCycle (EffectBomb a)) = avIsFinish a"
proof -
  note bomb = keeps_avatar_ok [OF keeps_EffectBomb sort_ok_avatar [OF assms]]
  have fr: "avClient (EffectBomb a) = avClient a" "avNetworkID (EffectBomb a) = avNetworkID a"
    "avIsGhost (EffectBomb a) = avIsGhost a" "avUsingItem (EffectBomb a) = avUsingItem a"
    "avIsFinish (EffectBomb a) = avIsFinish a"
    using bomb(2) by (simp_all add: avatar_frame_def)
  show "sort_ok n cr k (InitCycle (EffectBomb a))"
    by (rule sort_ok_same [OF assms InitCycle_ok(1) [OF bomb(1)]]) (simp_all add: InitCycle_ok(3-6) [OF bomb(1)] fr)
  show "avEffectItemCount (InitCycle (EffectBomb a)) = 0" "avIsFinish (InitCycle (EffectBomb a)) = avIsFinish a"
    by (simp_all add: InitCycle_ok(2,7) [OF bomb(1)] fr)
qed

lemma runs_end_cycle:
  assumes k: "k < N" "l = partner k"
  shows "runs R (duel n m K i cr N b e x y) (end_cycle k l) (duel n m K i cr N (b(k := 0, l := 0)) e x y)"
proof (rule runsI)
  fix t assume t: "duel n m K i cr N b e x y t"
  note p = duel_pair [OF t k]
  let ?a = "thAvatars t ! k" and ?c = "thAvatars t ! l"
  have "duel n m K i cr N (b(k := 0, l := 0)) e x y
      (put_pair k (InitCycle (EffectBomb ?a)) l (InitCycle (EffectBomb ?c)) (t\<lparr>thWorld := thWorld t\<rparr>))"
    by (rule duel_put [OF t k duelD(1) [OF t] end_cycle_sort(1) [OF p(1)] _ end_cycle_sort(1) [OF p(2)]])
      (simp_all add: end_cycle_sort(2,3) [OF p(1)] end_cycle_sort(2,3) [OF p(2)] p(5))
  then show "\<exists>t'. end_cycle k l t = Inr (Next, t') \<and> duel n m K i cr N (b(k := 0, l := 0)) e x y t'"
    by (simp add: end_cycle_def with_pair_eq [OF t k])
qed

lemma runs_end_pair:
  assumes k: "k < N" "l = partner k"
    and settle: "\<And>b x y. runs R (duel n m K i cr N b e x y) f (duel n m K i cr N b e (x + dx) (y + dy))"
  shows "runs R (duel n m K i cr N b e x y) (if_fighting k (steps [end_cycle k l, emit_infos k l, f]))
    (duel n m K i cr N (b(k := 0, l := 0)) e (x + (66 + dx)) (y + dy))"
proof (rule runs_if_fighting [OF k])
  fix t assume t: "duel n m K i cr N b e x y t"
  have "runs R (duel n m K i cr N b e x y) (steps [end_cycle k l, emit_infos k l, f])
      (duel n m K i cr N (b(k := 0, l := 0)) e (x + 66 + dx) (y + dy))"
    by (rule runs_Cons [OF runs_end_cycle [OF k]] runs_Cons [OF runs_infos [OF k]] runs_Cons [OF settle] runs_Nil)+
  from runs_from [OF this t]
  show "\<exists>c t'. steps [end_cycle k l, emit_infos k l, f] t = Inr (c, t') \<and>
      (if c = Next then duel n m K i cr N (b(k := 0, l := 0)) e (x + (66 + dx)) (y + dy) t' else R t')"
    by (simp add: algebra_simps del: steps.simps)
qed auto

text \<open>A new order of the items.\<close>

lemma draw_order_list:
  assumes "client_ok m p c"
  obtains q rng' where "GetItemActiveQueue c rng = (q, rng')" and "length q = MAX_USING_ITEM_COUNT"
    and "list_all (\<lambda>i. 0 \<le> i \<and> i < int MAX_USING_ITEM_COUNT) (map siIndex q)"
proof -
  have inv: "inventory_ok c" using assms by (simp add: client_ok_def)
  have free: "free_slots (replicate 6 False) = {..<6}" by (auto simp: free_slots_def)
  obtain js where js: "distinct js" "set js = {..<6}"
    "fst (active_queue_loop 6 (clUsingItems c) (replicate 6 False) [] rng) = map (entry_of (clUsingItems c)) js"
    using active_queue_loop_perm [of "clUsingItems c" "replicate 6 False" 6 "[]" rng] inventory_ok_weights [OF inv] free
    by auto
  have "length js = card (set js)" using js(1) by (simp add: distinct_card)
  then have l: "length js = 6" using js(2) by simp
  have "map siIndex (map (entry_of (clUsingItems c)) js) = map int js" by (simp add: entry_of_def)
  moreover have "list_all (\<lambda>i. 0 \<le> i \<and> i < 6) (map int js)" using js(2) by (auto simp: list_all_iff)
  moreover have fst: "fst (GetItemActiveQueue c rng) = map (entry_of (clUsingItems c)) js"
    using js(3) inventory_ok_weights(2) [OF inv] by (simp add: GetItemActiveQueue_def)
  have "GetItemActiveQueue c rng = (map (entry_of (clUsingItems c)) js, snd (GetItemActiveQueue c rng))"
    unfolding fst [symmetric] by simp
  then show thesis by (rule that) (use l calculation in \<open>simp_all del: map_map\<close>)
qed

text \<open>A step that puts one avatar back.\<close>

lemma duel_put_one:
  assumes t: "duel n m K i cr N b e x y t" and k: "k < N" and w: "match_ok n m K i w"
    and a: "sort_ok n cr k a" "avIsFinish a = avIsFinish (thAvatars t ! k)"
      "avEffectItemCount a = avEffectItemCount (thAvatars t ! k)"
  shows "duel n m K i cr N b e x y (t\<lparr>thWorld := w, thAvatars := (thAvatars t)[k := a]\<rparr>)"
proof -
  note p = duel_pair [OF t k refl]
  have "duel n m K i cr N b e x y (put_pair k a (partner k) (thAvatars t ! partner k) (t\<lparr>thWorld := w\<rparr>))"
    by (rule duel_put [OF t k refl w a(1) _ p(2)]) (use p a in simp_all)
  moreover have "(thAvatars t)[k := a, partner k := thAvatars t ! partner k] = (thAvatars t)[k := a]"
    by (metis list_update_id nth_list_update_neq partner_neq)
  ultimately show ?thesis by (simp add: put_pair_def)
qed

lemma runs_draw_order:
  assumes k: "k < N" "\<not> (cr \<and> odd k)"
  shows "runs R (duel n m K i cr N b e x y) (draw_order k) (duel n m K i cr N b e x y)"
proof (rule runsI)
  fix t assume t: "duel n m K i cr N b e x y t"
  note p = duel_pair [OF t k(1) refl] and w = duelD(1) [OF t]
  let ?a = "thAvatars t ! k"
  obtain q where q: "q < n" "avNetworkID ?a = int q" using player_sort [OF p(1) k(2)] by (auto simp: player_ok_def)
  obtain iq rng where iq: "GetItemActiveQueue (client_of (thWorld t) q) (wRng (thWorld t)) = (iq, rng)"
    "length iq = MAX_USING_ITEM_COUNT" "list_all (\<lambda>i. 0 \<le> i \<and> i < int MAX_USING_ITEM_COUNT) (map siIndex iq)"
    by (rule draw_order_list [OF match_ok_client [OF w q(1)]])
  let ?a' = "?a\<lparr>avActiveQueue := map siIndex iq\<rparr>"
  have "avatar_ok ?a'" using p(3) iq(2,3) by (simp add: avatar_ok_def nums_ok_def items_ok_def)
  then have "sort_ok n cr k ?a'" by (rule sort_ok_same [OF p(1)]) simp_all
  from duel_put_one [OF t k(1) _ this, of "(thWorld t)\<lparr>wRng := rng\<rparr>"]
  have "duel n m K i cr N b e x y (t\<lparr>thWorld := (thWorld t)\<lparr>wRng := rng\<rparr>, thAvatars := (thAvatars t)[k := ?a']\<rparr>)"
    using w by simp
  then show "\<exists>t'. draw_order k t = Inr (Next, t') \<and> duel n m K i cr N b e x y t'"
    using q k(1) duelD(4) [OF t] match_okD(2) [OF w] iq(1,2)
    by (simp add: draw_order_def at_idx_def client_idx_def SetActiveQueue_def)
qed

text \<open>Half of an activation: every avatar of one side.\<close>

lemma runs_half:
  assumes N: "even N" "N \<le> 8" and pl: "distinct (pl N)" "length (pl N) = N div 2"
    and b: "\<And>k. k \<in> set (pl N) \<Longrightarrow> b k \<le> 5" and e: "e < 121" and index: "index < MAX_USING_ITEM_COUNT"
    and k: "\<And>k. k \<in> set (pl N) \<Longrightarrow> k < N \<and> other k = partner k"
  shows "runs R (duel n m K i False N b e x y) (battle_half i index pl other)
    (duel n m K i False N (\<lambda>k. if k \<in> set (pl N) then b k + 1 else b k) (e + 1) 428 16)"
proof -
  let ?b = "\<lambda>k. if k \<in> set (pl N) then b k + 1 else b k"
  have turn: "runs R (duel n m K i False N b (e + 1) x y) (battle_turn i index k (other k))
      (duel n m K i False N (b(k := b k + 1)) (e + 1) (x + 74) (y + 4))"
    if "k \<in> set (pl N)" "b k \<le> 5" for k b x y
    using runs_battle_turn [of k N "other k" b index] k [OF that(1)] that(2) index by simp
  have "runs R (duel n m K i False N b (e + 1) 0 0) (each_place pl (\<lambda>k. battle_turn i index k (other k)))
      (duel n m K i False N ?b (e + 1) (0 + 74 * length (pl N)) (0 + 4 * length (pl N)))"
    by (rule runs_turns [where pl = pl and N = N and b = b]) (use pl b turn in auto)
  then have "runs R (duel n m K i False N b (e + 1) 0 0) (each_place pl (\<lambda>k. battle_turn i index k (other k)))
      (duel n m K i False N ?b (e + 1) 296 16)"
    by (rule runs_post) (use N pl(2) in \<open>auto elim!: duel_mono\<close>)
  moreover have "runs R (duel n m K i False N ?b (e + 1) (296 + 4) 16) (dismiss i)
      (duel n m K i False N ?b (e + 1) 428 16)"
    using runs_dismiss [of 300 16 R n m K i False N ?b "e + 1"] by simp
  ultimately show ?thesis unfolding battle_half_def using e
    by (intro runs_Cons [OF runs_open runs_Cons [OF runs_count runs_Cons [OF _ runs_Cons [OF runs_time
        runs_Cons [OF _ runs_Nil]]]]]) auto
qed

lemma runs_battle_half_even:
  assumes N: "even N" "N \<le> 8" and e: "e < 121" and index: "index < MAX_USING_ITEM_COUNT"
  shows "runs R (duel n m K i False N (\<lambda>_. int index) e x y) (battle_half i index evens (\<lambda>k. k + 1))
    (duel n m K i False N (\<lambda>k. if even k then int index + 1 else int index) (e + 1) 428 16)"
proof -
  have "runs R (duel n m K i False N (\<lambda>_. int index) e x y) (battle_half i index evens (\<lambda>k. k + 1))
    (duel n m K i False N (\<lambda>k. if k \<in> set (evens N) then int index + 1 else int index) (e + 1) 428 16)"
    by (rule runs_half [where pl = evens and b = "\<lambda>_. int index"])
      (use N e index partner_evens distinct_evens length_evens in auto)
  then show ?thesis by (rule runs_post) (use N in \<open>auto simp: set_evens elim!: duel_mono\<close>)
qed

lemma runs_battle_half_odd:
  assumes N: "even N" "N \<le> 8" and e: "e < 121" and index: "index < MAX_USING_ITEM_COUNT"
  shows "runs R (duel n m K i False N (\<lambda>k. if even k then int index + 1 else int index) e x y)
    (battle_half i index odds (\<lambda>k. k - 1)) (duel n m K i False N (\<lambda>_. int index + 1) (e + 1) 428 16)"
proof -
  let ?b = "\<lambda>k. if even k then int index + 1 else int index"
  have "runs R (duel n m K i False N ?b e x y) (battle_half i index odds (\<lambda>k. k - 1))
    (duel n m K i False N (\<lambda>k. if k \<in> set (odds N) then ?b k + 1 else ?b k) (e + 1) 428 16)"
    by (rule runs_half [where pl = odds and N = N and other = "\<lambda>k. k - 1" and b = ?b,
          OF N distinct_odds length_odds _ e index partner_odds [OF N(1)]])
      (use index N in \<open>simp_all add: set_odds\<close>)
  then show ?thesis by (rule runs_post) (use N in \<open>auto simp: set_odds elim!: duel_mono\<close>)
qed

lemma runs_battle_index:
  assumes N: "even N" "N \<le> 8" and e: "e < 120" and index: "index < MAX_USING_ITEM_COUNT"
  shows "runs (thread_ok n m K i) (duel n m K i False N (\<lambda>_. int index) e x y) (battle_index i oc index)
    (duel n m K i False N (\<lambda>_. int (Suc index)) (e + 2) 428 16)"
proof -
  have "runs (thread_ok n m K i) (duel n m K i False N (\<lambda>_. int index) e x y) (battle_index i oc index)
    (duel n m K i False N (\<lambda>_. int index + 1) (e + 1 + 1) 428 16)"
    unfolding battle_index_def
    by (intro runs_Cons [OF runs_battle_half_even [OF N _ index]] runs_Cons [OF runs_duel(1)] runs_Cons [OF runs_duel(3)]
        runs_Cons [OF runs_battle_half_odd [OF N _ index]] runs_Cons [OF runs_duel(2)] runs_Nil) (use e in auto)
  then show ?thesis by (simp add: add.commute)
qed

lemma runs_fighting_same:
  assumes "k < N" and "runs R (duel n m K i cr N b e x y) f (duel n m K i cr N b e (x + dx) (y + dy))"
  shows "runs R (duel n m K i cr N b e x y) (if_fighting k f) (duel n m K i cr N b e (x + dx) (y + dy))"
  by (rule runs_if_fighting [OF assms(1) refl]) (use runsD [OF assms(2)] in auto)

lemma runs_pass_all:
  assumes "\<And>k x y. k < N \<Longrightarrow> runs R (duel n m K i cr N b e x y) (f k) (duel n m K i cr N b e (x + dx) (y + dy))"
  shows "runs R (duel n m K i cr N b e x y) (each_place (\<lambda>n. [0..<n]) f) (duel n m K i cr N b e (x + dx * N) (y + dy * N))"
  using runs_pass [where pl = "\<lambda>n. [0..<n]" and N = N] assms by fastforce

lemma runs_pass_evens:
  assumes "even N"
    and "\<And>k x y. k < N \<Longrightarrow> even k \<Longrightarrow> runs R (duel n m K i cr N b e x y) (f k) (duel n m K i cr N b e (x + dx) (y + dy))"
  shows "runs R (duel n m K i cr N b e x y) (each_place evens f)
    (duel n m K i cr N b e (x + dx * (N div 2)) (y + dy * (N div 2)))"
proof -
  have "runs R (duel n m K i cr N b e x y) (each_place evens f)
    (duel n m K i cr N b e (x + dx * length (evens N)) (y + dy * length (evens N)))"
    by (rule runs_pass [where pl = evens]) (use assms in \<open>simp add: set_evens\<close>)
  then show ?thesis by (simp only: length_evens [OF assms(1)])
qed

lemma runs_repeat:
  assumes "\<And>j. j < k \<Longrightarrow> runs R (P j) f (P (Suc j))"
  shows "runs R (P 0) (steps (replicate k f)) (P k)"
proof -
  have eq: "map (\<lambda>_. f) [0..<k] = replicate k f" by (simp add: map_replicate_const)
  show ?thesis using runs_map [of "[0..<k]" R P "\<lambda>_. f"] assms unfolding eq by simp
qed

lemma runs_battle_cycle_end:
  assumes N: "even N" "N \<le> 8"
  shows "runs R (duel n m K i False N b e x y) (battle_cycle_end i) (duel n m K i False N (\<lambda>_. 0) e 328 8)"
proof -
  let ?f = "\<lambda>k. if_fighting k (steps [end_cycle k (k + 1), emit_infos k (k + 1), settle i k (k + 1)])"
  have "runs R (duel n m K i False N b e x y) (?f k) (duel n m K i False N (b(k := 0, k + 1 := 0)) e (x + 66) (y + 2))"
    if "k \<in> set (evens N)" for k b x y
    using runs_end_pair [OF partner_evens(1) [THEN conjunct1] partner_evens(1) [THEN conjunct2], OF N(1) that N(1) that,
        of R n m K i False e "settle i k (k + 1)" 0 2 b x y]
      runs_settle [OF partner_evens(1) [THEN conjunct1] partner_evens(1) [THEN conjunct2], OF N(1) that N(1) that,
        of R n m K i] by simp
  then have "runs R (duel n m K i False N b e 0 0) (each_place evens ?f)
      (duel n m K i False N (\<lambda>_. 0) e (0 + 66 * (N div 2)) (0 + 2 * (N div 2)))"
    by (rule runs_pairs [OF N(1)])
  then have "runs R (duel n m K i False N b e 0 0) (each_place evens ?f) (duel n m K i False N (\<lambda>_. 0) e 264 8)"
    by (rule runs_post) (use N in \<open>auto elim!: duel_mono\<close>)
  moreover have "runs R (duel n m K i False N (\<lambda>_. 0) e 264 8) (dismiss i) (duel n m K i False N (\<lambda>_. 0) e 328 8)"
    using runs_dismiss [of 264 8 R n m K i False N "\<lambda>_. 0" e] by simp
  ultimately show ?thesis unfolding battle_cycle_end_def
    by (intro runs_Cons [OF runs_open runs_Cons [OF _ runs_Cons [OF _ runs_Nil]]])
qed

lemma runs_battle_cycle:
  assumes N: "even N" "N \<le> 8" and e: "e \<le> 108"
  shows "runs (thread_ok n m K i) (duel n m K i False N (\<lambda>_. 0) e x y) (battle_cycle i oc)
    (duel n m K i False N (\<lambda>_. 0) (e + 12) 428 16)"
proof -
  let ?R = "thread_ok n m K i" and ?z = "\<lambda>_::nat. 0::int"
  have draws: "runs ?R (duel n m K i False N ?z e x y) (each_place (\<lambda>n. [0..<n]) (\<lambda>k. if_fighting k (draw_order k)))
      (duel n m K i False N ?z e (x + 0 * N) (y + 0 * N))"
    by (rule runs_pass_all [OF runs_fighting_same]) (use runs_draw_order in simp_all)
  have "runs ?R (duel n m K i False N ?z e 0 0) (each_place (\<lambda>n. [0..<n]) (\<lambda>k. if_fighting k (emit_init_slot shown_id k)))
      (duel n m K i False N ?z e (0 + 8 * N) (0 + 0 * N))"
    by (rule runs_pass_all [OF runs_fighting_same]) (use runs_emit_slot in simp_all)
  then have slots: "runs ?R (duel n m K i False N ?z e 0 0) (each_place (\<lambda>n. [0..<n]) (\<lambda>k. if_fighting k (emit_init_slot shown_id k)))
      (duel n m K i False N ?z e 64 0)"
    by (rule runs_post) (use N in \<open>auto elim!: duel_mono\<close>)
  have sent: "runs ?R (duel n m K i False N ?z e 64 0) (send_if_any i) (duel n m K i False N ?z e 428 16)"
    by (rule runs_post [OF runs_send_if_any]) (auto elim!: duel_mono)
  have "runs ?R (duel n m K i False N (\<lambda>_. int j) (e + 2 * j) 428 16) (battle_index i oc j)
      (duel n m K i False N (\<lambda>_. int (Suc j)) (e + 2 * Suc j) 428 16)" if "j < 6" for j
    using runs_battle_index [OF N, of "e + 2 * j" j n m K i 428 16 oc] that e by (simp add: algebra_simps)
  then have "runs ?R (duel n m K i False N (\<lambda>_. int 0) (e + 2 * 0) 428 16) (steps (map (battle_index i oc) [0..<6]))
      (duel n m K i False N (\<lambda>_. int (length [0..<6])) (e + 2 * length [0..<6]) 428 16)"
    by (intro runs_map) simp
  then have index: "runs ?R (duel n m K i False N ?z e 428 16) (steps (map (battle_index i oc) [0..<6]))
      (duel n m K i False N (\<lambda>_. 6) (e + 12) 428 16)" by simp
  have close: "runs ?R (duel n m K i False N (\<lambda>_. 6) (e + 12) 428 16) (battle_cycle_end i)
      (duel n m K i False N ?z (e + 12) 428 16)"
    by (rule runs_post [OF runs_battle_cycle_end [OF N]]) (auto elim!: duel_mono)
  have "runs ?R (duel n m K i False N ?z e x y) (steps [each_place (\<lambda>n. [0..<n]) (\<lambda>k. if_fighting k (draw_order k)),
       open_block, each_place (\<lambda>n. [0..<n]) (\<lambda>k. if_fighting k (emit_init_slot shown_id k)), send_if_any i, Sleep])
      (duel n m K i False N ?z e 428 16)"
    by (rule runs_Cons [OF draws runs_Cons [OF runs_open runs_Cons [OF slots runs_Cons [OF sent
        runs_Cons [OF runs_duel(1) runs_Nil]]]]])
  from runs_append [OF this runs_append [OF index runs_Cons [OF close runs_Nil]]]
  show ?thesis by (simp add: battle_cycle_def del: steps.simps upt.simps)
qed

end
