(* ===== verification/Battle_Stage.thy ===== *)
theory Battle_Stage
  imports Battle_Safe
begin

text \<open>
  The beginning and the end of a battle, and \<open>BattleStage\<close> as a whole.
\<close>

section \<open>When the time is up\<close>

lemma runs_time_up_pair:
  assumes k: "k < N" "k + 1 = partner k"
  shows "runs R (duel n m K i False N b e x y) (time_up_pair i k) (duel n m K i False N b e x (y + 2))"
proof (rule runsI)
  fix t assume t: "duel n m K i False N b e x y t"
  note p = duel_pair [OF t k] and w = duelD(1) [OF t]
  let ?a = "thAvatars t ! k" and ?b = "thAvatars t ! (k + 1)"
  let ?d = "\<lambda>w. i32 (10 + i32 (rmRound (room_of w i) * 2))"
  obtain a1 w1 where a1: "ToDamageCharacter (?d (thWorld t)) True ?a (thWorld t) = Inr (a1, w1)" "wounded ?a a1"
    "match_ok n m K i w1"
    using ToDamageCharacter_ok [OF w p(1)] by blast
  obtain b1 w2 where b1: "ToDamageCharacter (?d w1) True ?b w1 = Inr (b1, w2)" "wounded ?b b1" "match_ok n m K i w2"
    using ToDamageCharacter_ok [OF a1(3) p(2)] by blast
  note a1s = wounded_sort [OF p(1) a1(2)] and b1s = wounded_sort [OF p(2) b1(2)]
  obtain l1 where l1: "lost i a1 w2 = Inr l1" "length l1 \<le> 1" "\<forall>j \<in> set l1. \<exists>p < n. j = int p"
    using lost_ok [OF player_sort [OF a1s(1)], of i w2] by auto
  obtain l2 where l2: "lost i b1 w2 = Inr l2" "length l2 \<le> 1" "\<forall>j \<in> set l2. \<exists>p < n. j = int p"
    using lost_ok [OF player_sort [OF b1s(1)], of i w2] by auto
  have t': "duel n m K i False N b e x (y + 2) (t\<lparr>thLeavers := thLeavers t @ l1 @ l2\<rparr>)"
    by (rule duel_leavers [OF t]) (use l1 l2 in auto)
  have "duel n m K i False N b e x (y + 2)
      (put_pair k a1 (k + 1) b1 (t\<lparr>thLeavers := thLeavers t @ l1 @ l2, thWorld := w2\<rparr>))"
    by (rule duel_put [OF t' k b1(3) a1s(1) _ b1s(1)]) (use p a1s b1s in simp_all)
  then show "\<exists>t'. time_up_pair i k t = Inr (Next, t') \<and> duel n m K i False N b e x (y + 2) t'"
    using a1(1) b1(1) l1(1) l2(1)
    unfolding time_up_pair_def with_pair_eq [OF t k] put_pair_order by (simp add: Let_def)
qed

lemma runs_battle_time_up:
  assumes N: "even N" "N \<le> 8"
  shows "runs R (duel n m K i False N b e x y) (battle_time_up i) (duel n m K i False N b e 64 8)"
proof -
  have "runs R (duel n m K i False N b e 0 0) (each_place evens (\<lambda>k. if_fighting k (time_up_pair i k)))
      (duel n m K i False N b e (0 + 0 * (N div 2)) (0 + 2 * (N div 2)))"
    by (rule runs_pass_evens [OF N(1) runs_fighting_same])
      (use runs_time_up_pair in \<open>simp_all add: partner_def\<close>)
  then have pairs: "runs R (duel n m K i False N b e 0 0) (each_place evens (\<lambda>k. if_fighting k (time_up_pair i k)))
      (duel n m K i False N b e 0 8)"
    by (rule runs_post) (use N in \<open>auto elim!: duel_mono\<close>)
  have "runs R (duel n m K i False N b e 0 8) (dismiss i) (duel n m K i False N b e 64 8)"
    using runs_dismiss [of 0 8 R n m K i False N b e] by simp
  then show ?thesis unfolding battle_time_up_def
    by (intro runs_Cons [OF runs_duel(1) runs_Cons [OF runs_open runs_Cons [OF pairs runs_Cons [OF _ runs_Nil]]]])
qed

section \<open>The end of a stage\<close>

lemma runs_server_thread: "keeps_match n m K i f \<Longrightarrow> runs R (thread_ok n m K i) (on_server f) (thread_ok n m K i)"
  and runs_sleep_thread: "runs R (thread_ok n m K i) Sleep (thread_ok n m K i)"
  and runs_leave_thread: "runs (thread_ok n m K i) (thread_ok n m K i) (leave_if_stopped i oc) (thread_ok n m K i)"
  and runs_packet_thread: "packet_ok p \<Longrightarrow> runs R (thread_ok n m K i) (send_packet i p) (thread_ok n m K i)"
  and runs_status_thread: "runs R (thread_ok n m K i) (set_status i st) (thread_ok n m K i)"
  using runs_server [of n m K i f R "\<lambda>_ _ _ _. True"] runs_sleep [of R n m K i "\<lambda>_ _ _ _. True"]
    runs_leave [of n m K i "\<lambda>_ _ _ _. True" oc] runs_send_packet [of p R n m K i "\<lambda>_ _ _ _. True"]
    runs_status [of R n m K i "\<lambda>_ _ _ _. True" st]
  by (simp_all add: thread_ok_held)

lemmas runs_thread = runs_server_thread runs_sleep_thread runs_leave_thread runs_packet_thread runs_status_thread

lemma runs_finish_stage:
  "runs (thread_ok n m K i) (thread_ok n m K i) (finish_stage i oc) (thread_ok n m K i)"
proof -
  let ?T = "thread_ok n m K i"
  let ?f = "\<lambda>t. case rmClients (room_of (thWorld t) i) of
     [p] \<Rightarrow> (let n = clNetworkID (client_of (thWorld t) p)
            in steps [send_packet i (Notification n DisconnectServer), Sleep, on_server (Disconnect n False)] t)
   | _ \<Rightarrow> Inr (Next, t)"
  have last: "runs ?T ?T ?f ?T"
    unfolding runs_def
  proof (intro allI impI)
    fix t assume t: "?T t"
    then have w: "match_ok n m K i (thWorld t)" by (simp add: thread_ok_def)
    show "\<exists>c t'. ?f t = Inr (c, t') \<and> (if c = Next then ?T t' else ?T t')"
    proof (cases "\<exists>p. rmClients (room_of (thWorld t) i) = [p]")
      case True
      then obtain p where p: "rmClients (room_of (thWorld t) i) = [p]" by blast
      then have "p < n" "clNetworkID (client_of (thWorld t) p) = int p"
        using match_ok_members [OF w, of p] match_ok_nid [OF w, of p] by auto
      moreover from this have r: "runs ?T ?T (steps [send_packet i (Notification (int p) DisconnectServer), Sleep,
          on_server (Disconnect (int p) False)]) ?T"
        by (intro runs_Cons [OF runs_thread(4) runs_Cons [OF runs_thread(2) runs_Cons [OF runs_thread(1) runs_Nil]]]
            keeps_disconnect) auto
      ultimately show ?thesis using p runsD [OF r t] by (simp add: Let_def del: steps.simps)
    next
      case False
      then show ?thesis using t by (auto split: list.split)
    qed
  qed
  show ?thesis unfolding finish_stage_def
    by (intro runs_Cons [OF last] runs_Cons [OF runs_thread(2)] runs_Cons [OF runs_thread(3)]
        runs_Cons [OF runs_thread(4)] runs_Nil) simp
qed

section \<open>Setting up the avatars\<close>

text \<open>The avatars before they are fitted: full of hit points, a hundred at most.\<close>

definition fresh :: "nat \<Rightarrow> avatar list \<Rightarrow> bool" where
  "fresh j avs \<longleftrightarrow> (\<forall>k. j \<le> k \<and> k < length avs \<longrightarrow> avMaxHp (avs ! k) \<le> 100)"

lemma SetAvatar_ok:
  assumes "client_ok m p c" and "p < n" and "0 \<le> round"
  obtains a where "SetAvatar p c (Some i) (int p) ghost round BattleAvatar_new = Inr a" and "player_ok n a"
    and "avMaxHp a \<le> 100" and "avEffectItemCount a = 0" and "\<not> avIsFinish a"
proof -
  have inv: "length (clUsingItems c) = 6" "list_all item_ok (clUsingItems c)"
    using assms(1) by (simp_all add: client_ok_def inventory_ok_def inv_shape_def Slots_def)
  have q: "list_all (\<lambda>i. 0 \<le> i \<and> i < 6) (map int [0..<6])" by (auto simp: list_all_iff)
  show thesis
  proof (rule that)
    show "SetAvatar p c (Some i) (int p) ghost round BattleAvatar_new =
      Inr (the (case SetAvatar p c (Some i) (int p) ghost round BattleAvatar_new of Inr a \<Rightarrow> Some a | Inl e \<Rightarrow> None))"
      using inv by (simp add: SetAvatar_def Let_def)
  qed (use inv q assms in \<open>auto simp: SetAvatar_def Let_def player_ok_def avatar_ok_def nums_ok_def items_ok_def
        in_i32_0 min_def\<close>)
qed

lemma make_avatars_ok:
  assumes w: "match_ok n m K i w" and os: "\<forall>x \<in> set os. 0 \<le> owner x \<and> owner x < int n"
  shows "\<exists>avs. make_avatars i os w = Inr avs \<and> length avs = length os \<and>
    (\<forall>a \<in> set avs. player_ok n a \<and> avMaxHp a \<le> 100 \<and> avEffectItemCount a = 0 \<and> \<not> avIsFinish a)"
  using os
proof (induction os)
  case Nil
  then show ?case by simp
next
  case (Cons o1 os)
  have o: "0 \<le> owner o1" "owner o1 < int n" using Cons.prems by auto
  have eq: "(if 0 \<le> o1 then o1 else not o1) = owner o1" by (simp add: owner_def)
  have idx: "client_idx w (owner o1) = Inr (nat (owner o1))" "nat (owner o1) < n" "int (nat (owner o1)) = owner o1"
    using o match_okD(2) [OF w] by (simp_all add: client_idx_def nat_less_iff)
  obtain a where "SetAvatar (nat (owner o1)) (client_of w (nat (owner o1))) (Some i) (owner o1) (o1 < 0)
      (rmRound (room_of w i)) BattleAvatar_new = Inr a" "player_ok n a" "avMaxHp a \<le> 100" "avEffectItemCount a = 0"
      "\<not> avIsFinish a"
    using SetAvatar_ok [OF match_ok_client [OF w idx(2)] idx(2), of "rmRound (room_of w i)" i "o1 < 0"] w idx(3)
    by (auto simp: match_ok_def)
  moreover obtain avs where "make_avatars i os w = Inr avs" "length avs = length os"
    "\<forall>a \<in> set avs. player_ok n a \<and> avMaxHp a \<le> 100 \<and> avEffectItemCount a = 0 \<and> \<not> avIsFinish a"
    using Cons by auto
  ultimately show ?case using eq idx(1) by (simp add: Let_def)
qed

text \<open>Fitting the items raises the hit points by twenty an item at most.\<close>

definition fits :: "(avatar \<Rightarrow> avatar) \<Rightarrow> bool" where
  "fits f \<longleftrightarrow> (\<forall>k av. nums_ok k av \<and> avMaxHp av \<le> 980 \<longrightarrow>
     nums_ok k (f av) \<and> avatar_frame av (f av) \<and> avMaxHp (f av) \<le> avMaxHp av + 20)"

lemma fits_more_hp: "0 \<le> d \<Longrightarrow> d \<le> 20 \<Longrightarrow> fits (more_hp d)"
  by (auto simp: fits_def more_hp_def SetMaxHP_def nums_ok_def avatar_frame_def i32_small)

lemma fits_first_attack: "fits (first_attack d)"
  by (simp add: fits_def first_attack_def nums_ok_def avatar_frame_def)

lemma fits_ToDefensive: "fits (ToDefensive d)"
  using keeps_ToDefensive by (auto simp: fits_def keeps_def ToDefensive_def)

lemma fits_id: "fits (\<lambda>av. av)"
  by (simp add: fits_def)

lemma fits_if: "fits f \<Longrightarrow> fits g \<Longrightarrow> fits (if c then f else g)"
  by simp

lemma fits_Item032: "0 \<le> u \<Longrightarrow> u \<le> 2 \<Longrightarrow> fits (Item032_Fitment u)"
proof -
  have "Item032_Fitment u = (if u = 0 then more_hp 7 else if u = 1 then more_hp 12
      else if u = 2 then more_hp 20 else (\<lambda>av. av))"
    by (simp add: fun_eq_iff Item032_Fitment_def)
  then show ?thesis using fits_more_hp [of 7] fits_more_hp [of 12] fits_more_hp [of 20] fits_id by simp
qed

lemma fits_Fitment:
  assumes "0 \<le> u" and "u \<le> 2"
  shows "fits (Fitment code u)"
  unfolding Fitment_def Item006_Fitment_def [abs_def] Item007_Fitment_def [abs_def] Item015_Fitment_def [abs_def]
    Item016_Fitment_def [abs_def] Item023_Fitment_def [abs_def] Item027_Fitment_def [abs_def]
    Item030_Fitment_def [abs_def] Item036_Fitment_def [abs_def] Item037_Fitment_def [abs_def]
  by (intro fits_if fits_more_hp fits_first_attack fits_ToDefensive fits_Item032 fits_id) (use assms in auto)

lemma fit_loop_ok:
  assumes "list_all item_ok its" and "nums_ok k av" and "avMaxHp av + 20 * int (length its) \<le> 1000"
  shows "\<exists>av'. fit_loop its av = Inr av' \<and> nums_ok k av' \<and> avatar_frame av av'"
  using assms
proof (induction its arbitrary: av)
  case Nil
  then show ?case by simp
next
  case (Cons it its)
  have io: "unat (mUpgrade it) \<le> 2" and ty: "unat (mType it) < length sItems"
    using Cons.prems(1) by (simp_all add: item_ok_def sItems_def)
  have up: "0 \<le> uint (mUpgrade it)" "uint (mUpgrade it) \<le> 2"
    using io uint_unat_int [of "mUpgrade it"] by linarith+
  define av1 where "av1 = Fitment (unat (mType it)) (uint (mUpgrade it)) av"
  have av1: "nums_ok k av1" "avatar_frame av av1" "avMaxHp av1 \<le> avMaxHp av + 20"
    using fits_Fitment [OF up, of "unat (mType it)"] Cons.prems by (auto simp: fits_def av1_def)
  then obtain av' where "fit_loop its av1 = Inr av'" "nums_ok k av'" "avatar_frame av1 av'"
    using Cons.IH [of av1] Cons.prems by auto
  then show ?case using ty av1(2) avatar_frame_trans by (auto simp: av1_def)
qed

lemma FitmentEffect_ok:
  assumes "avatar_ok a" and "avMaxHp a \<le> 100"
  obtains a' where "FitmentEffect a = Inr a'" and "avatar_ok a'" and "avatar_frame a a'"
proof -
  obtain a' where a': "fit_loop (avUsingItem a) a = Inr a'" "nums_ok (avEffectItemCount a) a'" "avatar_frame a a'"
    using fit_loop_ok [of "avUsingItem a" "avEffectItemCount a" a] assms by (auto simp: avatar_ok_def items_ok_def)
  moreover from this have "avatar_ok a'" using assms(1) by (simp add: avatar_ok_def items_ok_def avatar_frame_def)
  ultimately show thesis using that by (simp add: FitmentEffect_def)
qed

section \<open>Preparing one avatar\<close>

text \<open>A duel in which the avatars from the place \<open>j\<close> on are not fitted yet.\<close>

definition fitting :: "nat \<Rightarrow> nat \<Rightarrow> nat \<Rightarrow> nat \<Rightarrow> bool \<Rightarrow> nat \<Rightarrow> nat \<Rightarrow> nat \<Rightarrow> thread \<Rightarrow> bool" where
  "fitting n m K i cr N j x t \<longleftrightarrow> duel n m K i cr N (\<lambda>_. 0) 0 x 0 t \<and> fresh j (thAvatars t)"

lemma fresh_put: "fresh j avs \<Longrightarrow> k < j' \<Longrightarrow> j \<le> j' \<Longrightarrow> fresh j' (avs[k := a])"
  by (auto simp: fresh_def)

lemma fitting_put:
  assumes "fitting n m K i cr N j x t" and "k < N" and "match_ok n m K i w" and "sort_ok n cr k a"
    and "avIsFinish a = avIsFinish (thAvatars t ! k)" and "avEffectItemCount a = avEffectItemCount (thAvatars t ! k)"
    and "k < j'" and "j \<le> j'"
  shows "fitting n m K i cr N j' x (t\<lparr>thWorld := w, thAvatars := (thAvatars t)[k := a]\<rparr>)"
  using assms duel_put_one [of n m K i cr N "\<lambda>_. 0" 0 x 0 t k w a] fresh_put [of j "thAvatars t" k j' a]
  by (simp add: fitting_def)

lemma fitting_mono: "fitting n m K i cr N j x t \<Longrightarrow> j \<le> j' \<Longrightarrow> x \<le> x' \<Longrightarrow> fitting n m K i cr N j' x' t"
  by (auto simp: fitting_def fresh_def elim!: duel_mono)

lemma fitting_emit:
  "fitting n m K i cr N j x t \<Longrightarrow> packet_ok q \<Longrightarrow> packet_sizeof q \<le> s \<Longrightarrow>
    fitting n m K i cr N j (x + s) (t\<lparr>thStream := thStream t @ [q]\<rparr>)"
  using duel_emit [of n m K i cr N "\<lambda>_. 0" 0 x 0 t "[q]"] by (auto simp: fitting_def elim!: duel_mono)

lemma fittingD:
  assumes "fitting n m K i cr N j x t" and "k < N"
  shows "k < length (thAvatars t)" and "sort_ok n cr k (thAvatars t ! k)" and "avatar_ok (thAvatars t ! k)"
    and "match_ok n m K i (thWorld t)" and "partner k < length (thAvatars t)" and "avatar_ok (thAvatars t ! partner k)"
    and "j \<le> k \<Longrightarrow> avMaxHp (thAvatars t ! k) \<le> 100"
  using assms duel_pair [of n m K i cr N "\<lambda>_. 0" 0 x 0 t k, OF _ _ refl] duelD [of n m K i cr N "\<lambda>_. 0" 0 x 0 t]
    partner_less [of N k] by (auto simp: fitting_def fresh_def)

lemma runs_fit:
  assumes k: "k < N"
  shows "runs R (fitting n m K i cr N k x) (fit k) (fitting n m K i cr N (Suc k) x)"
proof (rule runsI)
  fix t assume t: "fitting n m K i cr N k x t"
  note d = fittingD [OF t k]
  obtain a' where a': "FitmentEffect (thAvatars t ! k) = Inr a'" "avatar_ok a'" "avatar_frame (thAvatars t ! k) a'"
    using FitmentEffect_ok [OF d(3) d(7)] by blast
  have "fitting n m K i cr N (Suc k) x (t\<lparr>thWorld := thWorld t, thAvatars := (thAvatars t)[k := a']\<rparr>)"
    by (rule fitting_put [OF t k d(4) sort_ok_frame [OF d(2) a'(2,3)]]) (use a'(3) in \<open>simp_all add: avatar_frame_def\<close>)
  then show "\<exists>t'. fit k t = Inr (Next, t') \<and> fitting n m K i cr N (Suc k) x t'"
    using a'(1) d(1) by (simp add: fit_def at_idx_def)
qed

lemma draw_hamburger_ok:
  assumes t: "fitting n m K i cr N (Suc k) x t" and k: "k < N"
  shows "\<exists>t'. draw_hamburger k j (thAvatars t ! k) nid t = Inr (Next, t') \<and> fitting n m K i cr N (Suc k) (x + 10) t'"
proof -
  note d = fittingD [OF t k]
  obtain ht rng where h: "GetRandomHamburgerType (wRng (thWorld t)) = (ht, rng)" by fastforce
  have "sort_ok n cr k ((thAvatars t ! k)\<lparr>avHamburgerType := ht\<rparr>)"
    by (rule sort_ok_same [OF d(2)]) (use d(3) in simp_all)
  from fitting_put [OF t k _ this, of "(thWorld t)\<lparr>wRng := rng\<rparr>" "Suc k"] d(4)
  have "fitting n m K i cr N (Suc k) x (t\<lparr>thWorld := (thWorld t)\<lparr>wRng := rng\<rparr>,
      thAvatars := (thAvatars t)[k := (thAvatars t ! k)\<lparr>avHamburgerType := ht\<rparr>]\<rparr>)" by simp
  from fitting_emit [OF this, of "SetHamburgerType nid (of_nat j) ht" 10]
  show ?thesis using h by (simp add: draw_hamburger_def emit_def)
qed

lemma GetRandomCopyItem_ok:
  assumes "avatar_ok b"
  obtains it rng' where "GetRandomCopyItem b rng = (Inr it, rng')" and "item_ok it"
proof -
  let ?v = "filter (\<lambda>it. mType it \<noteq> 7 \<and> mType it \<noteq> 16 \<and> mType it \<noteq> 0) (avUsingItem b)"
  let ?d = "Random_draw 0 (int (length ?v) - 1) rng"
  show thesis
  proof (cases "?v = []")
    case True
    then have "GetRandomCopyItem b rng = (Inr (Item_new\<lparr>mType := 16, mUpgrade := 0\<rparr>), rng)"
      by (simp add: GetRandomCopyItem_def)
    then show thesis by (rule that) (simp add: item_ok_def)
  next
    case False
    then have "0 < length ?v" by blast
    then have "0 \<le> fst ?d" "fst ?d \<le> int (length ?v) - 1" using Random_draw_range [of 0 "int (length ?v) - 1" rng] by auto
    then have lt: "nat (fst ?d) < length ?v" by linarith
    then have "GetRandomCopyItem b rng = (Inr (?v ! nat (fst ?d)), snd ?d)"
      using False by (simp add: GetRandomCopyItem_def Let_def at_idx_def)
    moreover have "?v ! nat (fst ?d) \<in> set (avUsingItem b)" using nth_mem [OF lt] by auto
    then have "item_ok (?v ! nat (fst ?d))" using assms by (simp add: avatar_ok_def items_ok_def list_all_iff)
    ultimately show thesis by (rule that)
  qed
qed

lemma copied_ok:
  assumes "player_ok n a" and "item_ok it" and "j < MAX_USING_ITEM_COUNT"
  shows "player_ok n (a\<lparr>avUsingItem := (avUsingItem a)
    [j := (avUsingItem a ! j)\<lparr>mType := mType it, mUpgrade := mUpgrade it\<rparr>]\<rparr>)"
proof -
  have "item_ok ((avUsingItem a ! j)\<lparr>mType := mType it, mUpgrade := mUpgrade it\<rparr>)"
    using assms(2) by (simp add: item_ok_def)
  then have "list_all item_ok ((avUsingItem a)[j := (avUsingItem a ! j)\<lparr>mType := mType it, mUpgrade := mUpgrade it\<rparr>])"
    using assms(1,3) by (auto simp: player_ok_def avatar_ok_def items_ok_def list_all_length nth_list_update)
  then show ?thesis using assms(1) by (simp add: player_ok_def avatar_ok_def items_ok_def nums_ok_def)
qed

lemma copy_item_ok:
  assumes t: "fitting n m K i False N (Suc k) x t" and k: "k < N" and j: "j < MAX_USING_ITEM_COUNT"
  shows "\<exists>t'. copy_item k j (thAvatars t ! k) t = Inr (Next, t') \<and> fitting n m K i False N (Suc k) (x + 10) t'"
proof -
  note d = fittingD [OF t k]
  let ?a = "thAvatars t ! k"
  obtain it rng where it: "GetRandomCopyItem (thAvatars t ! partner k) (wRng (thWorld t)) = (Inr it, rng)" "item_ok it"
    by (rule GetRandomCopyItem_ok [OF d(6)])
  let ?a' = "?a\<lparr>avUsingItem := (avUsingItem ?a)
    [j := (avUsingItem ?a ! j)\<lparr>mType := mType it, mUpgrade := mUpgrade it\<rparr>]\<rparr>"
  let ?q = "DoctorToolInfo (shown_id ?a) (of_nat j) (mType it) (mUpgrade it)"
  let ?t = "t\<lparr>thStream := thStream t @ [?q]\<rparr>"
  have t1: "fitting n m K i False N (Suc k) (x + 10) ?t" by (rule fitting_emit [OF t]) simp_all
  have "sort_ok n False k ?a'" using copied_ok [OF _ it(2) j, of n ?a] d(2) by (simp add: sort_ok_def)
  from fitting_put [OF t1 k _ this, of "(thWorld t)\<lparr>wRng := rng\<rparr>" "Suc k"] d(4)
  have "fitting n m K i False N (Suc k) (x + 10)
      (?t\<lparr>thWorld := (thWorld t)\<lparr>wRng := rng\<rparr>, thAvatars := (thAvatars t)[k := ?a']\<rparr>)" by simp
  then show ?thesis using it(1) d(5) by (simp add: copy_item_def at_idx_def emit_def Let_def partner_def [symmetric])
qed

lemma runs_prepare_slot:
  assumes k: "k < N" and j: "j < MAX_USING_ITEM_COUNT"
  shows "runs R (fitting n m K i False N (Suc k) x) (prepare_slot k j) (fitting n m K i False N (Suc k) (x + 10))"
proof (rule runsI)
  fix t assume t: "fitting n m K i False N (Suc k) x t"
  note d = fittingD [OF t k]
  have "j < length (avUsingItem (thAvatars t ! k))" using d(3) j by (simp add: avatar_ok_def items_ok_def)
  then have eq: "prepare_slot k j t = (if mType (avUsingItem (thAvatars t ! k) ! j) = 7
      then draw_hamburger k j (thAvatars t ! k) (shown_id (thAvatars t ! k)) t
      else if mType (avUsingItem (thAvatars t ! k) ! j) = 16 then copy_item k j (thAvatars t ! k) t
      else Inr (Next, t))"
    using d(1) by (simp add: prepare_slot_def at_idx_def GetItemBySlot_def)
  have "fitting n m K i False N (Suc k) (x + 10) t" by (rule fitting_mono [OF t]) simp_all
  then show "\<exists>t'. prepare_slot k j t = Inr (Next, t') \<and> fitting n m K i False N (Suc k) (x + 10) t'"
    using draw_hamburger_ok [OF t k, of j "shown_id (thAvatars t ! k)"] copy_item_ok [OF t k j] unfolding eq by simp
qed

text \<open>The slots of an avatar, each with at most one packet.\<close>

lemma runs_slots:
  assumes "\<And>j x. j < 6 \<Longrightarrow> runs R (fitting n m K i cr N (Suc k) x) (f j) (fitting n m K i cr N (Suc k) (x + 10))"
  shows "runs R (fitting n m K i cr N (Suc k) x) (steps (map f [0..<6])) (fitting n m K i cr N (Suc k) (x + 60))"
proof -
  have "runs R (fitting n m K i cr N (Suc k) (x + 10 * j)) (f ([0..<6] ! j)) (fitting n m K i cr N (Suc k) (x + 10 * Suc j))"
    if "j < length [0..<6]" for j
  proof -
    have "j < 6" "[0..<6] ! j = j" using that nth_upt [of 0 j 6] by simp_all
    then show ?thesis using assms [of j "x + 10 * j"] by (simp only: mult_Suc_right add.assoc add.commute [of 10])
  qed
  then have "runs R (fitting n m K i cr N (Suc k) (x + 10 * 0)) (steps (map f [0..<6]))
      (fitting n m K i cr N (Suc k) (x + 10 * length [0..<6]))"
    by (rule runs_map)
  then show ?thesis by simp
qed

lemma runs_prepare:
  assumes k: "k < N"
  shows "runs R (fitting n m K i False N k x) (prepare k) (fitting n m K i False N (Suc k) (x + 60))"
  unfolding prepare_def
  by (rule runs_Cons [OF runs_fit [OF k]]) (use runs_slots runs_prepare_slot [OF k] in simp)

lemma runs_prepares:
  "runs R (fitting n m K i False N 0 x) (each_place (\<lambda>n. [0..<n]) prepare) (fitting n m K i False N N (x + 60 * N))"
proof -
  have "runs R (fitting n m K i False N j (x + 60 * j)) (prepare ([0..<N] ! j)) (fitting n m K i False N (Suc j) (x + 60 * Suc j))"
    if "j < length [0..<N]" for j
    using that runs_prepare [of j N R n m K i "x + 60 * j"] by (simp add: add.assoc add.commute [of 60])
  then have "runs R (fitting n m K i False N 0 (x + 60 * 0)) (each_place (\<lambda>n. [0..<n]) prepare)
      (fitting n m K i False N (length [0..<N]) (x + 60 * length [0..<N]))"
    by (intro runs_places [where P = "\<lambda>j. fitting n m K i False N j (x + 60 * j)"]) (auto simp: fitting_def duel_length)
  then show ?thesis by simp
qed

lemma runs_emit_info:
  assumes "k < N"
  shows "runs R (duel n m K i cr N b e x y) (emit_info k) (duel n m K i cr N b e (x + 33) y)"
  unfolding emit_info_def [abs_def]
proof (rule runs_emit_at [OF assms])
  fix t :: thread
  obtain q where "sc_BattleAvatarInfoPacket (thAvatars t ! k) (thWorld t) = Inr (BattleAvatarInfo q)"
    using info_packet by blast
  then show "\<exists>q. rbind (sc_BattleAvatarInfoPacket (thAvatars t ! k) (thWorld t)) (\<lambda>p. emit p t) = emit q t \<and>
      packet_ok q \<and> packet_sizeof q \<le> 33" by auto
qed

lemma runs_line_up:
  assumes k: "k < N" "k + 1 = partner k"
  shows "runs R (duel n m K i False N (\<lambda>_. c) e x y) (line_up i k) (duel n m K i False N (\<lambda>_. c) e x y)"
proof (rule runsI)
  fix t assume t: "duel n m K i False N (\<lambda>_. c) e x y t"
  note p = duel_pair [OF t k] and w = duelD(1) [OF t]
  let ?a = "thAvatars t ! k" and ?b = "thAvatars t ! (k + 1)" and ?m = "\<lambda>_::nat. c"
  obtain pa where pa: "pa < n" "avNetworkID ?a = int pa" using player_sort [OF p(1)] by (auto simp: player_ok_def)
  obtain pb where pb: "pb < n" "avNetworkID ?b = int pb" using player_sort [OF p(2)] by (auto simp: player_ok_def)
  have idx: "client_idx (thWorld t) (avNetworkID ?a) = Inr pa" "client_idx (thWorld t) (avNetworkID ?b) = Inr pb"
    using pa pb match_okD(2) [OF w] by (simp_all add: client_idx_def)
  define ok where "ok \<longleftrightarrow> IsValidClientInThisRoom i (Some pa) (thWorld t) \<and> IsValidClientInThisRoom i (Some pb) (thWorld t)"
  define a1 where "a1 = (if ok then ?a else SetFinish ?a)"
  define b1 where "b1 = (if ok then ?b else SetFinish ?b)"
  have a1: "sort_ok n False j a1" and b1: "sort_ok n False j b1" for j
    using p(1,2) sort_ok_SetFinish [OF p(1)] sort_ok_SetFinish [OF p(2)] by (auto simp: a1_def b1_def sort_ok_def)
  have fin: "avIsFinish a1 = avIsFinish b1" using p(5) by (simp add: a1_def b1_def SetFinish_def)
  have cnt: "\<not> avIsFinish a1 \<Longrightarrow> avEffectItemCount a1 \<le> c" "\<not> avIsFinish b1 \<Longrightarrow> avEffectItemCount b1 \<le> c"
    using p(6,7) by (simp_all add: a1_def b1_def SetFinish_def split: if_splits)
  have "duel n m K i False N ?m e x y (put_pair k b1 (k + 1) a1 (t\<lparr>thWorld := thWorld t\<rparr>))"
    by (rule duel_put [OF t k w b1 _ a1]) (use cnt fin in simp_all)
  moreover have "duel n m K i False N ?m e x y (put_pair k a1 (k + 1) b1 (t\<lparr>thWorld := thWorld t\<rparr>))"
    by (rule duel_put [OF t k w a1 _ b1]) (use cnt fin in simp_all)
  ultimately show "\<exists>t'. line_up i k t = Inr (Next, t') \<and> duel n m K i False N ?m e x y t'"
    unfolding line_up_def with_pair_eq [OF t k] idx by (simp add: Let_def ok_def [symmetric] a1_def [symmetric] b1_def [symmetric])
qed

section \<open>The stage\<close>

text \<open>The avatars stand, the first block is not yet begun.\<close>

definition arrayed :: "nat \<Rightarrow> nat \<Rightarrow> nat \<Rightarrow> nat \<Rightarrow> bool \<Rightarrow> nat \<Rightarrow> thread \<Rightarrow> bool" where
  "arrayed n m K i cr N t \<longleftrightarrow> thread_ok n m K i t \<and> avatars_ok n cr N (\<lambda>_. 0) (thAvatars t) \<and>
     thEffectItemCount t = 0 \<and> fresh 0 (thAvatars t)"

lemma runs_open_arrayed: "runs R (arrayed n m K i cr N) open_block (fitting n m K i cr N 0 0)"
  by (rule runsI) (simp add: open_block_def arrayed_def fitting_def duel_def thread_ok_def block_ok_def)

definition drawn :: "nat \<Rightarrow> nat \<Rightarrow> nat \<Rightarrow> nat \<Rightarrow> nat \<Rightarrow> thread \<Rightarrow> bool" where
  "drawn n m K i N t \<longleftrightarrow> thread_ok n m K i t \<and> length (rmBattleOpponents (room_of (thWorld t) i)) = N"

lemma runs_set_up: "runs R (drawn n m K i N) (set_up_avatars i) (arrayed n m K i False N)"
proof (rule runsI)
  fix t assume t: "drawn n m K i N t"
  let ?os = "rmBattleOpponents (room_of (thWorld t) i)"
  have w: "match_ok n m K i (thWorld t)" and len: "length ?os = N" using t by (simp_all add: drawn_def thread_ok_def)
  then have os: "opponents_ok n ?os" by (simp add: match_ok_def)
  then obtain avs where avs: "make_avatars i ?os (thWorld t) = Inr avs" "length avs = N"
    "\<forall>a \<in> set avs. player_ok n a \<and> avMaxHp a \<le> 100 \<and> avEffectItemCount a = 0 \<and> \<not> avIsFinish a"
    using make_avatars_ok [OF w, of ?os] len by (auto simp: opponents_ok_def)
  have N: "even N" "N \<le> 8" using os len by (auto simp: opponents_ok_def)
  have each: "player_ok n (avs ! k) \<and> avMaxHp (avs ! k) \<le> 100 \<and> avEffectItemCount (avs ! k) = 0 \<and> \<not> avIsFinish (avs ! k)"
    if "k < N" for k using avs(2,3) that by simp
  have "k + 1 < N" if "k < N" "even k" for k using that N(1) by (metis Suc_eq_plus1 Suc_lessI even_Suc)
  then have "arrayed n m K i False N (t\<lparr>thAvatars := avs, thEffectItemCount := 0\<rparr>)"
    using t each N avs(2) by (simp add: arrayed_def drawn_def thread_ok_def avatars_ok_def sort_ok_def fresh_def)
  then show "\<exists>t'. set_up_avatars i t = Inr (Next, t') \<and> arrayed n m K i False N t'"
    using avs(1) by (simp add: set_up_avatars_def)
qed

lemma fitting_duel: "fitting n m K i cr N j x t \<Longrightarrow> duel n m K i cr N (\<lambda>_. 0) 0 x 0 t"
  by (simp add: fitting_def)

lemma drawn_leave: "runs (thread_ok n m K i) (drawn n m K i N) (leave_if_stopped i oc) (drawn n m K i N)"
  by (simp add: runs_def leave_if_stopped_def drawn_def)

lemma drawn_status: "runs R (drawn n m K i N) (set_status i st) (drawn n m K i N)"
proof (rule runsI)
  fix t assume t: "drawn n m K i N t"
  then obtain t' where "set_status i st t = Inr (Next, t')" "thread_ok n m K i t'"
    using runsD [OF runs_status_thread [of "\<lambda>_. False" n m K i st], of t] by (auto simp: drawn_def split: if_splits)
  moreover from this have "rmBattleOpponents (room_of (thWorld t') i) = rmBattleOpponents (room_of (thWorld t) i)"
    using t match_okD [of n m K i "thWorld t"]
    by (auto simp: drawn_def thread_ok_def set_status_def on_room_def on_server_def room_of_set_room)
  ultimately show "\<exists>t'. set_status i st t = Inr (Next, t') \<and> drawn n m K i N t'" using t by (simp add: drawn_def)
qed

lemma runs_fitting_emit: "packet_ok q \<Longrightarrow>
  runs R (fitting n m K i cr N j x) (emit q) (fitting n m K i cr N j (x + packet_sizeof q))"
  by (rule runsI) (use fitting_emit in \<open>simp add: emit_def\<close>)

lemma runs_infos_all:
  assumes "x + 33 * N \<le> z"
  shows "runs R (fitting n m K i cr N j x) (each_place (\<lambda>n. [0..<n]) emit_info) (duel n m K i cr N (\<lambda>_. 0) 0 z 0)"
proof -
  have "runs R (duel n m K i cr N (\<lambda>_. 0) 0 x 0) (each_place (\<lambda>n. [0..<n]) emit_info)
      (duel n m K i cr N (\<lambda>_. 0) 0 (x + 33 * N) (0 + 0 * N))"
    by (rule runs_pass_all) (use runs_emit_info in simp)
  then show ?thesis
    by (rule runs_weaken [OF _ fitting_duel]) (use assms in \<open>auto elim!: duel_mono\<close>)
qed

lemma runs_battle_prologue:
  assumes N: "even N" "N \<le> 8"
  shows "runs (thread_ok n m K i) (drawn n m K i N) (battle_prologue i oc) (duel n m K i False N (\<lambda>_. 0) 0 752 0)"
proof -
  let ?R = "thread_ok n m K i" and ?D = "duel n m K i False N (\<lambda>_. 0) 0 752 0"
  have enter: "runs ?R (fitting n m K i False N 0 0) (emit (Notification 0 EnterBattleStage)) (fitting n m K i False N 0 8)"
    using runs_fitting_emit [of "Notification 0 EnterBattleStage" ?R n m K i False N 0 0] by simp
  have infos: "runs ?R (fitting n m K i False N N (8 + 60 * N)) (each_place (\<lambda>n. [0..<n]) emit_info) ?D"
    by (rule runs_infos_all) (use N in simp)
  have sent: "runs ?R ?D (send_stream i) ?D" and fade: "runs ?R ?D (send_packet i (FadeOut 1)) ?D"
    by (rule runs_send_stream runs_duel; simp)+
  have "runs ?R ?D (each_place evens (line_up i)) (duel n m K i False N (\<lambda>_. 0) 0 (752 + 0 * (N div 2)) (0 + 0 * (N div 2)))"
    by (rule runs_pass_evens [OF N(1)]) (use runs_line_up in \<open>simp add: partner_def\<close>)
  then have line: "runs ?R ?D (each_place evens (line_up i)) ?D" by simp
  show ?thesis unfolding battle_prologue_def
    by (rule runs_Cons [OF drawn_leave] runs_Cons [OF runs_set_up] runs_Cons [OF runs_open_arrayed] runs_Cons [OF enter]
        runs_Cons [OF runs_prepares] runs_Cons [OF infos] runs_Cons [OF sent] runs_Cons [OF runs_duel(1)]
        runs_Cons [OF fade] runs_Cons [OF runs_duel(2)] runs_Cons [OF line] runs_Nil)+
qed

lemma runs_battle_stage:
  assumes N: "even N" "N \<le> 8"
  shows "runs (thread_ok n m K i) (drawn n m K i N) (steps [set_status i st, battle_prologue i oc,
    breakable (steps (replicate 10 (battle_cycle i oc) @ [battle_time_up i])), finish_stage i oc]) (thread_ok n m K i)"
proof -
  let ?R = "thread_ok n m K i" and ?P = "\<lambda>j. duel n m K i False N (\<lambda>_. 0) (12 * j) 752 16"
  have "runs ?R (?P j) (battle_cycle i oc) (?P (Suc j))" if "j < 10" for j
    by (rule runs_post [OF runs_battle_cycle [OF N]]) (use that in \<open>auto elim!: duel_mono\<close>)
  then have cycles: "runs ?R (?P 0) (steps (replicate 10 (battle_cycle i oc))) (?P 10)" by (rule runs_repeat)
  have over: "runs ?R (?P 10) (battle_time_up i) ?R"
    by (rule runs_post [OF runs_battle_time_up [OF N] duel_thread])
  have start: "runs ?R (drawn n m K i N) (battle_prologue i oc) (?P 0)"
    by (rule runs_post [OF runs_battle_prologue [OF N]]) (auto elim!: duel_mono)
  have fight: "runs ?R (?P 0) (breakable (steps (replicate 10 (battle_cycle i oc) @ [battle_time_up i]))) ?R"
    by (rule runs_breakable [OF runs_append [OF cycles runs_Cons [OF over runs_Nil]]])
  show ?thesis
    by (rule runs_Cons [OF drawn_status runs_Cons [OF start runs_Cons [OF fight runs_Cons [OF runs_finish_stage runs_Nil]]]])
qed

lemma stage_value_ok:
  assumes "runs R P f R" and "P t"
  shows "\<exists>go t'. stage_value (f t) = Inr (go, t') \<and> R t'"
  using runsD [OF assms] by (auto simp: stage_value_def)

lemma BattleStage_ok:
  assumes "thread_ok n m K i t"
  shows "\<exists>go t'. BattleStage i t = Inr (go, t') \<and> thread_ok n m K i t'"
proof -
  let ?N = "length (rmBattleOpponents (room_of (thWorld t) i))"
  have "even ?N" "?N \<le> 8" using assms by (simp_all add: thread_ok_def match_ok_def opponents_ok_def)
  from stage_value_ok [OF runs_battle_stage [OF this], of n m K i t] assms
  show ?thesis by (simp add: BattleStage_def Let_def drawn_def del: steps.simps)
qed

end
