(* ===== verification/Creep_Safe.thy ===== *)
theory Creep_Safe
  imports Battle_Stage
begin

text \<open>
  The fights against the monsters: \<open>CreepStage\<close> returns and keeps the match, and every message fits
  the buffer.
\<close>

section \<open>Rewards\<close>

lemma match_ok_ticket:
  assumes "match_ok n m K i w" and "p < n"
  shows "match_ok n m K i (set_client p (SetTicketCount k v (client_of w p)) w)"
  using match_ok_client [OF assms] assms by (intro match_ok_set_client) (cases k; auto intro: client_ok_cong)+

lemma IncreaseItemTicket_ok:
  assumes "match_ok n m K i w" and "player_ok n a"
  shows "\<exists>c w'. IncreaseItemTicket k v a w = Inr (c, w') \<and> match_ok n m K i w'"
  using assms match_ok_ticket [OF assms(1)] by (auto simp: IncreaseItemTicket_def player_ok_def Let_def)

lemma reward_ok:
  assumes t: "duel n m K i cr N b e x y t" and a: "player_ok n a"
  shows "\<exists>t'. reward_player i a c t = Inr (Next, t') \<and> duel n m K i cr N b e (x + 9) y t' \<and>
    thAvatars t' = thAvatars t"
proof (cases "\<not> avIsFinish a \<and> avHp c = 0")
  case False
  then show ?thesis using t by (auto simp: reward_player_def elim!: duel_mono)
next
  case True
  obtain info rng where info: "GetCreepRewardTicketType (room_of (thWorld t) i) (wRng (thWorld t)) = (info, rng)"
    by fastforce
  have w: "match_ok n m K i ((thWorld t)\<lparr>wRng := rng\<rparr>)" using duelD(1) [OF t] by simp
  obtain v w' where w': "IncreaseItemTicket (crItemTicketType info) (crCount info) a ((thWorld t)\<lparr>wRng := rng\<rparr>) = Inr (v, w')"
    "match_ok n m K i w'"
    using IncreaseItemTicket_ok [OF w a] by blast
  from duel_emit [OF duel_world [OF t w'(2)], of "[sc_SetItemTicketPacket (avNetworkID a) (crItemTicketType info) v]"]
  show ?thesis using True info w'(1) by (simp add: reward_player_def emit_def sc_SetItemTicketPacket_def)
qed

lemma end_creep_fight_ok:
  assumes t: "duel n m K i cr N b e x y t" and k: "k < N" "k + 1 = partner k" and w: "match_ok n m K i w"
    and a: "player_ok n a" "sort_ok n cr k a" and c: "sort_ok n cr (k + 1) c"
  shows "\<exists>t'. end_creep_fight i k a c w t = Inr (Next, t') \<and> duel n m K i cr N b e (x + 9) (y + 1) t'"
proof -
  obtain ls where ls: "lost i a w = Inr ls" "length ls \<le> 1" "\<forall>l \<in> set ls. \<exists>p < n. l = int p"
    using lost_ok [OF a(1), of i w] by blast
  have "duel n m K i cr N b e x (y + 1) (t\<lparr>thWorld := w, thLeavers := thLeavers t @ ls\<rparr>)"
    using duel_leavers [OF duel_world [OF t w] ls(3,2)] by simp
  from reward_ok [OF this a(1), of c] obtain t1 where
    t1: "reward_player i a c (t\<lparr>thWorld := w, thLeavers := thLeavers t @ ls\<rparr>) = Inr (Next, t1)"
    "duel n m K i cr N b e (x + 9) (y + 1) t1" by blast
  have "duel n m K i cr N b e (x + 9) (y + 1) (put_pair k (SetFinish a) (k + 1) (SetFinish c) (t1\<lparr>thWorld := thWorld t1\<rparr>))"
    by (rule duel_finish [OF t1(2) k duelD(1) [OF t1(2)] a(2) c])
  then show ?thesis using ls(1) t1(1) by (simp add: end_creep_fight_def)
qed

lemma runs_settle_player:
  assumes k: "k < N" "k + 1 = partner k" "even k"
  shows "runs R (duel n m K i True N b e x y) (settle_player i k) (duel n m K i True N b e (x + 9) (y + 1))"
    and "runs R (duel n m K i True N b e x y) (settle_creep i k) (duel n m K i True N b e (x + 9) (y + 1))"
proof -
  show "runs R (duel n m K i True N b e x y) (settle_player i k) (duel n m K i True N b e (x + 9) (y + 1))"
  proof (rule runsI)
    fix t assume t: "duel n m K i True N b e x y t"
    note p = duel_pair [OF t k(1,2)] and w = duelD(1) [OF t]
    let ?a = "thAvatars t ! k" and ?c = "thAvatars t ! (k + 1)"
    obtain a1 w1 where a1: "wound i ?a ?c (thWorld t) = Inr (a1, w1)" "wounded ?a a1" "match_ok n m K i w1"
      using wound_ok [OF w p(1,4)] by blast
    note a1s = wounded_sort [OF p(1) a1(2)]
    obtain c1 w2 where c1: "wound i ?c a1 w1 = Inr (c1, w2)" "wounded ?c c1" "match_ok n m K i w2"
      using wound_ok [OF a1(3) p(2) a1s(2)] by blast
    note c1s = wounded_sort [OF p(2) c1(2)]
    have "duel n m K i True N b e (x + 9) (y + 1) t" using t by (auto elim!: duel_mono)
    then show "\<exists>t'. settle_player i k t = Inr (Next, t') \<and> duel n m K i True N b e (x + 9) (y + 1) t'"
      using end_creep_fight_ok [OF t k(1,2) c1(3) player_sort [OF a1s(1)] a1s(1) c1s(1)] a1(1) c1(1) k(3)
      unfolding settle_player_def with_pair_eq [OF t k(1,2)] by simp
  qed
  show "runs R (duel n m K i True N b e x y) (settle_creep i k) (duel n m K i True N b e (x + 9) (y + 1))"
  proof (rule runsI)
    fix t assume t: "duel n m K i True N b e x y t"
    note p = duel_pair [OF t k(1,2)] and w = duelD(1) [OF t]
    let ?a = "thAvatars t ! k" and ?c = "thAvatars t ! (k + 1)"
    obtain c1 w1 where c1: "wound i ?c ?a (thWorld t) = Inr (c1, w1)" "wounded ?c c1" "match_ok n m K i w1"
      using wound_ok [OF w p(2,3)] by blast
    note c1s = wounded_sort [OF p(2) c1(2)]
    obtain a1 w2 where a1: "wound i ?a c1 w1 = Inr (a1, w2)" "wounded ?a a1" "match_ok n m K i w2"
      using wound_ok [OF c1(3) p(1) c1s(2)] by blast
    note a1s = wounded_sort [OF p(1) a1(2)]
    have "duel n m K i True N b e (x + 9) (y + 1) t" using t by (auto elim!: duel_mono)
    then show "\<exists>t'. settle_creep i k t = Inr (Next, t') \<and> duel n m K i True N b e (x + 9) (y + 1) t'"
      using end_creep_fight_ok [OF t k(1,2) a1(3) player_sort [OF a1s(1)] a1s(1) c1s(1)] a1(1) c1(1) k(3)
      unfolding settle_creep_def with_pair_eq [OF t k(1,2)] by simp
  qed
qed

section \<open>Turns\<close>

lemma runs_player_turn:
  assumes k: "k < N" "k + 1 = partner k" "even k" and b: "b k \<le> 5" and index: "index < MAX_USING_ITEM_COUNT"
  shows "runs R (duel n m K i True N b e x y) (player_turn i index k)
    (duel n m K i True N (b(k := b k + 1)) e (x + 92) (y + 2))"
  unfolding player_turn_def
proof (rule runs_if_fighting [OF k(1,2)])
  fix t assume t: "duel n m K i True N b e x y t" and fin: "\<not> avIsFinish (thAvatars t ! k)"
  let ?b = "b(k := b k + 1)"
  obtain slot t' where a: "activate index k (k + 1) t = Inr (slot, t')" "duel n m K i True N ?b e x y t'"
    using activate_ok [OF t k(1,2) fin b index] by blast
  have "runs R (duel n m K i True N ?b e x y)
      (steps [settle_player i k, bleed k (k + 1), emit_creep_active k slot, emit_infos k (k + 1), settle_player i k])
      (duel n m K i True N ?b e (x + 9 + 8 + 66 + 9) (y + 1 + 1))"
    by (rule runs_Cons [OF runs_settle_player(1) [OF k]] runs_Cons [OF runs_bleed [OF k(1,2)]]
      runs_Cons [OF runs_emit_creep_active [OF k(1)]] runs_Cons [OF runs_infos [OF k(1,2)]] runs_Nil)+
  from runs_from [OF this a(2)]
  show "\<exists>c t'. rbind (activate index k (k + 1) t) (\<lambda>(activeSlot, t1).
        steps [settle_player i k, bleed k (k + 1), emit_creep_active k activeSlot,
          emit_infos k (k + 1), settle_player i k] t1) = Inr (c, t') \<and>
      (if c = Next then duel n m K i True N ?b e (x + 92) (y + 2) t' else R t')"
    using a(1) by (simp add: numeral_eq_Suc del: steps.simps)
qed auto

lemma runs_creep_turn:
  assumes k: "k < N" "k - 1 = partner k" "odd k" and b: "b k \<le> 5" and index: "index < MAX_USING_ITEM_COUNT"
  shows "runs R (duel n m K i True N b e x y) (creep_turn i index k)
    (duel n m K i True N (b(k := b k + 1)) e (x + 92) (y + 2))"
  unfolding creep_turn_def
proof (rule runs_if_fighting [OF k(1,2)])
  fix t assume t: "duel n m K i True N b e x y t" and fin: "\<not> avIsFinish (thAvatars t ! k)"
  let ?b = "b(k := b k + 1)"
  have pl: "k - 1 < N" "k - 1 + 1 = partner (k - 1)" "even (k - 1)" using k by (auto simp: partner_def elim!: oddE)
  obtain slot t' where a: "activate index k (k - 1) t = Inr (slot, t')" "unat slot < MAX_USING_ITEM_COUNT"
    "duel n m K i True N ?b e x y t'"
    using activate_ok [OF t k(1,2) fin b index] by blast
  have "runs R (duel n m K i True N ?b e x y)
      (steps [settle_creep i (k - 1), counter_attack slot k (k - 1), bleed k (k - 1), emit_creep_active k slot,
        emit_infos k (k - 1), settle_creep i (k - 1)])
      (duel n m K i True N ?b e (x + 9 + 8 + 66 + 9) (y + 1 + 1))"
    by (rule runs_Cons [OF runs_settle_player(2) [OF pl]] runs_Cons [OF runs_counter [OF k(1,2) a(2)]]
      runs_Cons [OF runs_bleed [OF k(1,2)]] runs_Cons [OF runs_emit_creep_active [OF k(1)]]
      runs_Cons [OF runs_infos [OF k(1,2)]] runs_Nil)+
  from runs_from [OF this a(3)]
  show "\<exists>c t'. rbind (activate index k (k - 1) t) (\<lambda>(activeSlot, t1).
        steps [settle_creep i (k - 1), counter_attack activeSlot k (k - 1), bleed k (k - 1),
          emit_creep_active k activeSlot, emit_infos k (k - 1), settle_creep i (k - 1)] t1) = Inr (c, t') \<and>
      (if c = Next then duel n m K i True N ?b e (x + 92) (y + 2) t' else R t')"
    using a(1) by (simp add: numeral_eq_Suc del: steps.simps)
qed auto

section \<open>Cycles\<close>

lemma runs_creep_half:
  assumes N: "N \<le> 16" and pl: "distinct (pl N)" "length (pl N) = N div 2"
    and b: "\<And>k. k \<in> set (pl N) \<Longrightarrow> b k \<le> 5" and e: "e < 121"
    and turn: "\<And>k b x y. k \<in> set (pl N) \<Longrightarrow> b k \<le> 5 \<Longrightarrow> runs R (duel n m K i True N b (e + 1) x y) (turn k)
      (duel n m K i True N (b(k := b k + 1)) (e + 1) (x + 92) (y + 2))"
  shows "runs R (duel n m K i True N b e x y) (creep_half i pl turn)
    (duel n m K i True N (\<lambda>k. if k \<in> set (pl N) then b k + 1 else b k) (e + 1) 868 16)"
proof -
  let ?b = "\<lambda>k. if k \<in> set (pl N) then b k + 1 else b k"
  have "runs R (duel n m K i True N b (e + 1) 0 0) (each_place pl turn)
      (duel n m K i True N ?b (e + 1) (0 + 92 * length (pl N)) (0 + 2 * length (pl N)))"
    by (rule runs_turns [where pl = pl and N = N and b = b]) (use pl b turn in auto)
  then have "runs R (duel n m K i True N b (e + 1) 0 0) (each_place pl turn) (duel n m K i True N ?b (e + 1) 736 16)"
    by (rule runs_post) (use N pl(2) in \<open>auto elim!: duel_mono\<close>)
  moreover have "runs R (duel n m K i True N ?b (e + 1) (736 + 4) 16) (dismiss i)
      (duel n m K i True N ?b (e + 1) 868 16)"
    using runs_dismiss [of 740 16 R n m K i True N ?b "e + 1"] by simp
  ultimately show ?thesis unfolding creep_half_def using e
    by (intro runs_Cons [OF runs_open runs_Cons [OF runs_count runs_Cons [OF _ runs_Cons [OF runs_time
        runs_Cons [OF _ runs_Nil]]]]]) auto
qed

lemma runs_creep_half_even:
  assumes N: "even N" "N \<le> 16" and e: "e < 121" and index: "index < MAX_USING_ITEM_COUNT"
  shows "runs R (duel n m K i True N (\<lambda>_. int index) e x y) (creep_half i evens (player_turn i index))
    (duel n m K i True N (\<lambda>k. if even k then int index + 1 else int index) (e + 1) 868 16)"
proof -
  have "runs R (duel n m K i True N b (e + 1) x y) (player_turn i index k)
      (duel n m K i True N (b(k := b k + 1)) (e + 1) (x + 92) (y + 2))"
    if "k \<in> set (evens N)" "b k \<le> 5" for k b x y
    by (rule runs_player_turn) (use that N index in \<open>simp_all add: set_evens partner_def\<close>)
  then have "runs R (duel n m K i True N (\<lambda>_. int index) e x y) (creep_half i evens (player_turn i index))
    (duel n m K i True N (\<lambda>k. if k \<in> set (evens N) then int index + 1 else int index) (e + 1) 868 16)"
    by (intro runs_creep_half [where pl = evens and b = "\<lambda>_. int index"])
      (use N e index distinct_evens length_evens in auto)
  then show ?thesis by (rule runs_post) (use N in \<open>auto simp: set_evens elim!: duel_mono\<close>)
qed

lemma runs_creep_half_odd:
  assumes N: "even N" "N \<le> 16" and e: "e < 121" and index: "index < MAX_USING_ITEM_COUNT"
  shows "runs R (duel n m K i True N (\<lambda>k. if even k then int index + 1 else int index) e x y)
    (creep_half i odds (creep_turn i index)) (duel n m K i True N (\<lambda>_. int index + 1) (e + 1) 868 16)"
proof -
  let ?b = "\<lambda>k. if even k then int index + 1 else int index"
  have turn: "runs R (duel n m K i True N b (e + 1) x y) (creep_turn i index k)
      (duel n m K i True N (b(k := b k + 1)) (e + 1) (x + 92) (y + 2))"
    if "k \<in> set (odds N)" "b k \<le> 5" for k b x y
    by (rule runs_creep_turn) (use that N index in \<open>simp_all add: set_odds partner_def\<close>)
  have small: "?b k \<le> 5" if "k \<in> set (odds N)" for k using that N index by (simp add: set_odds)
  have "runs R (duel n m K i True N ?b e x y) (creep_half i odds (creep_turn i index))
    (duel n m K i True N (\<lambda>k. if k \<in> set (odds N) then ?b k + 1 else ?b k) (e + 1) 868 16)"
    by (rule runs_creep_half [where pl = odds and N = N and b = ?b, OF N(2) distinct_odds length_odds small e turn])
  then show ?thesis by (rule runs_post) (use N in \<open>auto simp: set_odds elim!: duel_mono\<close>)
qed

lemma runs_creep_index:
  assumes N: "even N" "N \<le> 16" and e: "e < 120" and index: "index < MAX_USING_ITEM_COUNT"
  shows "runs (thread_ok n m K i) (duel n m K i True N (\<lambda>_. int index) e x y) (creep_index i oc index)
    (duel n m K i True N (\<lambda>_. int (Suc index)) (e + 2) 868 16)"
proof -
  have "runs (thread_ok n m K i) (duel n m K i True N (\<lambda>_. int index) e x y) (creep_index i oc index)
    (duel n m K i True N (\<lambda>_. int index + 1) (e + 1 + 1) 868 16)"
    unfolding creep_index_def
    by (intro runs_Cons [OF runs_creep_half_even [OF N _ index]] runs_Cons [OF runs_duel(1)] runs_Cons [OF runs_duel(3)]
        runs_Cons [OF runs_creep_half_odd [OF N _ index]] runs_Cons [OF runs_duel(2)] runs_Nil) (use e in auto)
  then show ?thesis by (simp add: add.commute)
qed

lemma runs_creep_cycle_end:
  assumes N: "even N" "N \<le> 16"
  shows "runs R (duel n m K i True N b e x y) (creep_cycle_end i) (duel n m K i True N (\<lambda>_. 0) e 664 8)"
proof -
  let ?f = "\<lambda>k. if_fighting k (steps [end_cycle k (k + 1), emit_infos k (k + 1), settle_player i k])"
  have "runs R (duel n m K i True N b e x y) (?f k) (duel n m K i True N (b(k := 0, k + 1 := 0)) e (x + (66 + 9)) (y + 1))"
    if "k \<in> set (evens N)" for k b x y
  proof -
    have k: "k < N" "k + 1 = partner k" "even k" using that N by (simp_all add: set_evens partner_def)
    show ?thesis by (rule runs_end_pair [OF k(1,2) runs_settle_player(1) [OF k]])
  qed
  then have "runs R (duel n m K i True N b e 0 0) (each_place evens ?f)
      (duel n m K i True N (\<lambda>_. 0) e (0 + (66 + 9) * (N div 2)) (0 + 1 * (N div 2)))"
    by (rule runs_pairs [OF N(1)])
  then have "runs R (duel n m K i True N b e 0 0) (each_place evens ?f) (duel n m K i True N (\<lambda>_. 0) e 600 8)"
    by (rule runs_post) (use N in \<open>auto elim!: duel_mono\<close>)
  moreover have "runs R (duel n m K i True N (\<lambda>_. 0) e 600 8) (dismiss i) (duel n m K i True N (\<lambda>_. 0) e 664 8)"
    using runs_dismiss [of 600 8 R n m K i True N "\<lambda>_. 0" e] by simp
  ultimately show ?thesis unfolding creep_cycle_end_def
    by (intro runs_Cons [OF runs_open runs_Cons [OF _ runs_Cons [OF _ runs_Nil]]])
qed

lemma runs_creep_cycle:
  assumes N: "even N" "N \<le> 16" and e: "e \<le> 108"
  shows "runs (thread_ok n m K i) (duel n m K i True N (\<lambda>_. 0) e x y) (creep_cycle i oc)
    (duel n m K i True N (\<lambda>_. 0) (e + 12) 868 16)"
proof -
  let ?R = "thread_ok n m K i" and ?z = "\<lambda>_::nat. 0::int"
  have draws: "runs ?R (duel n m K i True N ?z e x y) (each_place evens draw_order)
      (duel n m K i True N ?z e (x + 0 * (N div 2)) (y + 0 * (N div 2)))"
    by (rule runs_pass_evens [OF N(1)]) (use runs_draw_order in simp)
  have "runs ?R (duel n m K i True N ?z e 0 0) (each_place evens (\<lambda>k. if_fighting k (emit_init_slot avNetworkID k)))
      (duel n m K i True N ?z e (0 + 8 * (N div 2)) (0 + 0 * (N div 2)))"
    by (rule runs_pass_evens [OF N(1) runs_fighting_same]) (use runs_emit_slot in simp_all)
  then have slots: "runs ?R (duel n m K i True N ?z e 0 0) (each_place evens (\<lambda>k. if_fighting k (emit_init_slot avNetworkID k)))
      (duel n m K i True N ?z e 64 0)"
    by (rule runs_post) (use N in \<open>auto elim!: duel_mono\<close>)
  have sent: "runs ?R (duel n m K i True N ?z e 64 0) (send_if_any i) (duel n m K i True N ?z e 868 16)"
    by (rule runs_post [OF runs_send_if_any]) (auto elim!: duel_mono)
  have "runs ?R (duel n m K i True N (\<lambda>_. int j) (e + 2 * j) 868 16) (creep_index i oc j)
      (duel n m K i True N (\<lambda>_. int (Suc j)) (e + 2 * Suc j) 868 16)" if "j < 6" for j
    using runs_creep_index [OF N, of "e + 2 * j" j n m K i 868 16 oc] that e by (simp add: algebra_simps)
  then have "runs ?R (duel n m K i True N (\<lambda>_. int 0) (e + 2 * 0) 868 16) (steps (map (creep_index i oc) [0..<6]))
      (duel n m K i True N (\<lambda>_. int (length [0..<6])) (e + 2 * length [0..<6]) 868 16)"
    by (intro runs_map) simp
  then have index: "runs ?R (duel n m K i True N ?z e 868 16) (steps (map (creep_index i oc) [0..<6]))
      (duel n m K i True N (\<lambda>_. 6) (e + 12) 868 16)" by simp
  have close: "runs ?R (duel n m K i True N (\<lambda>_. 6) (e + 12) 868 16) (creep_cycle_end i)
      (duel n m K i True N ?z (e + 12) 868 16)"
    by (rule runs_post [OF runs_creep_cycle_end [OF N]]) (auto elim!: duel_mono)
  have "runs ?R (duel n m K i True N ?z e x y) (steps [each_place evens draw_order,
       open_block, each_place evens (\<lambda>k. if_fighting k (emit_init_slot avNetworkID k)), send_if_any i, Sleep])
      (duel n m K i True N ?z e 868 16)"
    by (rule runs_Cons [OF draws runs_Cons [OF runs_open runs_Cons [OF slots runs_Cons [OF sent
        runs_Cons [OF runs_duel(1) runs_Nil]]]]])
  from runs_append [OF this runs_append [OF index runs_Cons [OF close runs_Nil]]]
  show ?thesis by (simp add: creep_cycle_def del: steps.simps upt.simps)
qed

section \<open>The stage\<close>

lemma runs_time_up_player:
  assumes k: "k < N" "even k"
  shows "runs R (duel n m K i True N b e x y) (time_up_player i k) (duel n m K i True N b e x (y + 1))"
proof (rule runsI)
  fix t assume t: "duel n m K i True N b e x y t"
  note p = duel_pair [OF t k(1) refl] and w = duelD(1) [OF t]
  let ?a = "thAvatars t ! k" and ?d = "i32 (10 + i32 (rmRound (room_of (thWorld t) i) * 2))"
  obtain a1 w1 where a1: "ToDamageCharacter ?d True ?a (thWorld t) = Inr (a1, w1)" "wounded ?a a1" "match_ok n m K i w1"
    using ToDamageCharacter_ok [OF w p(1)] by blast
  note a1s = wounded_sort [OF p(1) a1(2)]
  obtain ls where ls: "lost i a1 w1 = Inr ls" "length ls \<le> 1" "\<forall>l \<in> set ls. \<exists>p < n. l = int p"
    using lost_ok [OF player_sort [OF a1s(1)], of i w1] k(2) by auto
  have t': "duel n m K i True N b e x (y + 1) (t\<lparr>thLeavers := thLeavers t @ ls\<rparr>)" by (rule duel_leavers [OF t ls(3,2)])
  have "duel n m K i True N b e x (y + 1)
      (t\<lparr>thLeavers := thLeavers t @ ls, thWorld := w1, thAvatars := (thAvatars t)[k := a1]\<rparr>)"
    using duel_put_one [OF t' k(1) a1(3) a1s(1)] a1s by simp
  moreover have "t\<lparr>thWorld := w1, thLeavers := thLeavers t @ ls, thAvatars := (thAvatars t)[k := a1]\<rparr> =
      t\<lparr>thLeavers := thLeavers t @ ls, thWorld := w1, thAvatars := (thAvatars t)[k := a1]\<rparr>" by (cases t) simp
  ultimately have "duel n m K i True N b e x (y + 1)
      (t\<lparr>thWorld := w1, thLeavers := thLeavers t @ ls, thAvatars := (thAvatars t)[k := a1]\<rparr>)" by (simp only:)
  then show "\<exists>t'. time_up_player i k t = Inr (Next, t') \<and> duel n m K i True N b e x (y + 1) t'"
    using a1(1) ls(1) duelD(4) [OF t] k(1) by (simp add: time_up_player_def at_idx_def)
qed

lemma runs_creep_time_up:
  assumes N: "even N" "N \<le> 16"
  shows "runs R (duel n m K i True N b e x y) (creep_time_up i) (duel n m K i True N b e 64 8)"
proof -
  have "runs R (duel n m K i True N b e 0 0) (each_place evens (\<lambda>k. if_fighting k (time_up_player i k)))
      (duel n m K i True N b e (0 + 0 * (N div 2)) (0 + 1 * (N div 2)))"
    by (rule runs_pass_evens [OF N(1) runs_fighting_same]) (use runs_time_up_player in simp_all)
  then have players: "runs R (duel n m K i True N b e 0 0) (each_place evens (\<lambda>k. if_fighting k (time_up_player i k)))
      (duel n m K i True N b e 0 8)"
    by (rule runs_post) (use N in \<open>auto elim!: duel_mono\<close>)
  have "runs R (duel n m K i True N b e 0 8) (dismiss i) (duel n m K i True N b e 64 8)"
    using runs_dismiss [of 0 8 R n m K i True N b e] by simp
  then show ?thesis unfolding creep_time_up_def
    by (intro runs_Cons [OF runs_duel(1) runs_Cons [OF runs_open runs_Cons [OF players runs_Cons [OF _ runs_Nil]]]])
qed

text \<open>The monsters.\<close>

definition monster_ok :: "avatar \<Rightarrow> bool" where
  "monster_ok a \<longleftrightarrow> creep_ok a \<and> avMaxHp a \<le> 100 \<and> avEffectItemCount a = 0 \<and> \<not> avIsFinish a"

lemma creep_items_ok:
  "length (creep_items c) = 6" "list_all item_ok (creep_items c)"
  "\<forall>it \<in> set (creep_items c). mType it \<noteq> 17 \<and> mType it \<noteq> 21"
  by (cases c; simp add: creep_item_def item_ok_def list_all_iff)+

lemma GetCreepMonster_ok:
  "GetCreepMonster r = (a, r') \<Longrightarrow> monster_ok a \<and> r' = r\<lparr>rmCreepRound := usize (int (rmCreepRound r) + 1)\<rparr>"
proof -
  assume eq: "GetCreepMonster r = (a, r')"
  let ?c = "GetCurCreepType r"
  have hp: "5 \<le> creep_hp ?c" "creep_hp ?c \<le> 100" by (cases ?c; simp)+
  have q: "list_all (\<lambda>i. 0 \<le> i \<and> i < 6) (map int [0..<6])" by (auto simp: list_all_iff)
  have "a = SetMaxHP (creep_hp ?c) (BattleAvatar_new\<lparr>avIsGhost := True, avUsingItem := creep_items ?c\<rparr>)"
    using eq by (simp add: GetCreepMonster_def Let_def)
  then have "monster_ok a" using hp creep_items_ok [of ?c] q
    by (simp add: monster_ok_def creep_ok_def avatar_ok_def nums_ok_def items_ok_def SetMaxHP_def BattleAvatar_new_def in_i32_0)
  then show ?thesis using eq by (simp add: GetCreepMonster_def Let_def)
qed

lemma monster_ok_nid: "monster_ok a \<Longrightarrow> monster_ok (a\<lparr>avNetworkID := v\<rparr>)"
  by (simp add: monster_ok_def creep_ok_def avatar_ok_def nums_ok_def items_ok_def)

definition player_fresh :: "nat \<Rightarrow> avatar \<Rightarrow> bool" where
  "player_fresh n a \<longleftrightarrow> player_ok n a \<and> avMaxHp a \<le> 100 \<and> avEffectItemCount a = 0 \<and> \<not> avIsFinish a"

lemma make_creep_avatars_ok:
  assumes w: "match_ok n m K i w" and ps: "\<forall>p \<in> set ps. p < n" and mo: "monster_ok mo"
  shows "\<exists>avs. make_creep_avatars i mo ps w = Inr avs \<and> length avs = 2 * length ps \<and>
    (\<forall>k < length avs. if odd k then monster_ok (avs ! k) else player_fresh n (avs ! k))"
  using ps
proof (induction ps)
  case Nil
  then show ?case by simp
next
  case (Cons p ps)
  then have p: "p < n" and nid: "clNetworkID (client_of w p) = int p" using match_ok_nid [OF w, of p] by auto
  obtain a where a: "SetAvatar p (client_of w p) (Some i) (int p) False (rmRound (room_of w i)) BattleAvatar_new = Inr a"
    "player_fresh n a"
    using SetAvatar_ok [OF match_ok_client [OF w p] p, of "rmRound (room_of w i)" i False] w
    by (auto simp: match_ok_def player_fresh_def)
  obtain avs where avs: "make_creep_avatars i mo ps w = Inr avs" "length avs = 2 * length ps"
    "\<forall>k < length avs. if odd k then monster_ok (avs ! k) else player_fresh n (avs ! k)"
    using Cons by auto
  let ?m = "mo\<lparr>avNetworkID := i32 (int p + 1000000)\<rparr>"
  have "if odd k then monster_ok ((a # ?m # avs) ! k) else player_fresh n ((a # ?m # avs) ! k)"
    if "k < length (a # ?m # avs)" for k
  proof (cases k)
    case 0
    then show ?thesis using a(2) by simp
  next
    case (Suc j)
    then show ?thesis using that monster_ok_nid [OF mo] avs(3) by (cases j) simp_all
  qed
  then show ?case using a(1) avs(1,2) nid by (intro exI [of _ "a # ?m # avs"]) simp
qed

definition crowd :: "nat \<Rightarrow> nat \<Rightarrow> nat \<Rightarrow> nat \<Rightarrow> nat \<Rightarrow> thread \<Rightarrow> bool" where
  "crowd n m K i N t \<longleftrightarrow> thread_ok n m K i t \<and> 2 * length (rmClients (room_of (thWorld t) i)) = N"

lemma runs_set_up_creep: "runs R (crowd n m K i N) (set_up_creep_avatars i) (arrayed n m K i True N)"
proof (rule runsI)
  fix t assume t: "crowd n m K i N t"
  then have w: "match_ok n m K i (thWorld t)" and len: "2 * length (rmClients (room_of (thWorld t) i)) = N"
    by (simp_all add: crowd_def thread_ok_def)
  obtain mo r where mo: "GetCreepMonster (room_of (thWorld t) i) = (mo, r)" by fastforce
  note mo_ok = GetCreepMonster_ok [OF mo]
  define w' where "w' = set_room i r (thWorld t)"
  have r_ok: "room_ok n r" using match_okD(5) [OF w] mo_ok by (simp add: room_ok_def)
  have w': "match_ok n m K i w'" unfolding w'_def
    by (rule match_ok_set_room [OF w r_ok]) (use mo_ok w in \<open>simp_all add: match_ok_def\<close>)
  have cl: "rmClients (room_of w' i) = rmClients (room_of (thWorld t) i)"
    using mo_ok match_okD [OF w] by (simp add: w'_def room_of_set_room)
  obtain avs where avs: "make_creep_avatars i mo (rmClients (room_of w' i)) w' = Inr avs" "length avs = N"
    "\<forall>k < length avs. if odd k then monster_ok (avs ! k) else player_fresh n (avs ! k)"
    using make_creep_avatars_ok [OF w', of "rmClients (room_of w' i)" mo] match_ok_members [OF w'] mo_ok cl len by auto
  have N: "even N" "N \<le> 16" using len match_okD(6) [OF w] by auto
  have each: "sort_ok n True k (avs ! k) \<and> avMaxHp (avs ! k) \<le> 100 \<and> avEffectItemCount (avs ! k) = 0 \<and>
      \<not> avIsFinish (avs ! k)" if "k < N" for k
    using avs(2,3) that by (cases "odd k") (auto simp: sort_ok_def monster_ok_def player_fresh_def)
  have "k + 1 < N" if "k < N" "even k" for k using that N(1) by (metis Suc_eq_plus1 Suc_lessI even_Suc)
  then have "arrayed n m K i True N (t\<lparr>thWorld := w', thAvatars := avs, thEffectItemCount := 0\<rparr>)"
    using t w' each N avs(2) by (simp add: arrayed_def crowd_def thread_ok_def avatars_ok_def fresh_def)
  then show "\<exists>t'. set_up_creep_avatars i t = Inr (Next, t') \<and> arrayed n m K i True N t'"
    using avs(1) mo by (simp add: set_up_creep_avatars_def w'_def)
qed

lemma runs_prepare_creep:
  assumes k: "k < N"
  shows "runs R (fitting n m K i cr N k x) (prepare_creep k) (fitting n m K i cr N (Suc k) (x + 60))"
proof -
  have "runs R (fitting n m K i cr N (Suc k) x) (prepare_creep_slot k j) (fitting n m K i cr N (Suc k) (x + 10))"
    if j: "j < 6" for j x
  proof (rule runsI)
    fix t assume t: "fitting n m K i cr N (Suc k) x t"
    note d = fittingD [OF t k]
    have "j < length (avUsingItem (thAvatars t ! k))" using d(3) j by (simp add: avatar_ok_def items_ok_def)
    moreover have "fitting n m K i cr N (Suc k) (x + 10) t" by (rule fitting_mono [OF t]) simp_all
    ultimately show "\<exists>t'. prepare_creep_slot k j t = Inr (Next, t') \<and> fitting n m K i cr N (Suc k) (x + 10) t'"
      using draw_hamburger_ok [OF t k, of j "avNetworkID (thAvatars t ! k)"] d(1)
      by (simp add: prepare_creep_slot_def at_idx_def GetItemBySlot_def)
  qed
  then show ?thesis unfolding prepare_creep_def
    by (intro runs_Cons [OF runs_fit [OF k]]) (use runs_slots in simp)
qed

lemma runs_prepare_creeps:
  assumes N: "even N"
  shows "runs R (fitting n m K i cr N 0 x) (each_place evens prepare_creep) (fitting n m K i cr N N (x + 60 * (N div 2)))"
proof -
  let ?P = "\<lambda>j. fitting n m K i cr N (2 * j) (x + 60 * j)"
  have "runs R (?P j) (prepare_creep (evens N ! j)) (?P (Suc j))" if j: "j < length (evens N)" for j
  proof -
    have e: "evens N ! j = 2 * j" "2 * j < N" using evens_nth [OF j] j N by (auto simp: length_evens)
    have "runs R (?P j) (prepare_creep (2 * j)) (fitting n m K i cr N (Suc (2 * j)) (x + 60 * j + 60))"
      by (rule runs_prepare_creep [OF e(2)])
    then show ?thesis unfolding e(1) by (rule runs_post) (auto elim!: fitting_mono)
  qed
  moreover have "length (thAvatars t) = N" if "?P 0 t" for t by (rule duel_length [OF fitting_duel [OF that]])
  ultimately have "runs R (?P 0) (each_place evens prepare_creep) (?P (length (evens N)))"
    using runs_places [where P = ?P and pl = evens and N = N] by blast
  then show ?thesis using N by (simp add: length_evens)
qed

lemma crowd_leave: "runs (thread_ok n m K i) (crowd n m K i N) (leave_if_stopped i oc) (crowd n m K i N)"
  by (simp add: runs_def leave_if_stopped_def crowd_def)

lemma crowd_status: "runs R (crowd n m K i N) (set_status i st) (crowd n m K i N)"
proof (rule runsI)
  fix t assume t: "crowd n m K i N t"
  then obtain t' where "set_status i st t = Inr (Next, t')" "thread_ok n m K i t'"
    using runsD [OF runs_status_thread [of "\<lambda>_. False" n m K i st], of t] by (auto simp: crowd_def split: if_splits)
  moreover from this have "rmClients (room_of (thWorld t') i) = rmClients (room_of (thWorld t) i)"
    using t match_okD [of n m K i "thWorld t"]
    by (auto simp: crowd_def thread_ok_def set_status_def on_room_def on_server_def room_of_set_room)
  ultimately show "\<exists>t'. set_status i st t = Inr (Next, t') \<and> crowd n m K i N t'" using t by (simp add: crowd_def)
qed

lemma runs_fitting_emit_all: "list_all packet_ok qs \<Longrightarrow>
  runs R (fitting n m K i cr N j x) (emit_all qs) (fitting n m K i cr N j (x + stream_size qs))"
  by (rule runsI) (use duel_emit in \<open>simp add: emit_all_def fitting_def\<close>)

lemma runs_creep_prologue:
  assumes N: "even N" "N \<le> 16"
  shows "runs (thread_ok n m K i) (crowd n m K i N) (creep_prologue i oc) (duel n m K i True N (\<lambda>_. 0) 0 1020 0)"
proof -
  let ?R = "thread_ok n m K i" and ?D = "duel n m K i True N (\<lambda>_. 0) 0 1020 0"
  have enter: "runs ?R (fitting n m K i True N 0 0) (emit_all [Notification 0 EnterCreepStage, CreepStageInfo c])
      (fitting n m K i True N 0 12)" for c
    using runs_fitting_emit_all [of "[Notification 0 EnterCreepStage, CreepStageInfo c]" ?R n m K i True N 0 0] by simp
  have arr: "runs ?R (crowd n m K i N) (\<lambda>t. let curCreepType = GetCurCreepType (room_of (thWorld t) i)
           in steps [set_up_creep_avatars i, open_block,
                emit_all [Notification 0 EnterCreepStage, CreepStageInfo curCreepType]] t) (fitting n m K i True N 0 12)"
  proof -
    have "runs ?R (crowd n m K i N) (steps [set_up_creep_avatars i, open_block,
        emit_all [Notification 0 EnterCreepStage, CreepStageInfo c]]) (fitting n m K i True N 0 12)" for c
      by (rule runs_Cons [OF runs_set_up_creep runs_Cons [OF runs_open_arrayed runs_Cons [OF enter runs_Nil]]])
    then show ?thesis unfolding runs_def Let_def by blast
  qed
  have infos: "runs ?R (fitting n m K i True N N (12 + 60 * (N div 2))) (each_place (\<lambda>n. [0..<n]) emit_info) ?D"
    by (rule runs_infos_all) (use N in simp)
  have sent: "runs ?R ?D (send_stream i) ?D" and fade: "runs ?R ?D (send_packet i (FadeOut 1)) ?D"
    by (rule runs_send_stream runs_duel; simp)+
  show ?thesis unfolding creep_prologue_def
    by (rule runs_Cons [OF crowd_leave] runs_Cons [OF arr] runs_Cons [OF runs_prepare_creeps [OF N(1)]] runs_Cons [OF infos]
        runs_Cons [OF sent] runs_Cons [OF runs_duel(1)] runs_Cons [OF fade] runs_Cons [OF runs_duel(2)] runs_Nil)+
qed

lemma runs_creep_stage:
  assumes N: "even N" "N \<le> 16"
  shows "runs (thread_ok n m K i) (crowd n m K i N) (steps [set_status i st, creep_prologue i oc,
    breakable (steps (replicate 10 (creep_cycle i oc) @ [creep_time_up i])), finish_stage i oc]) (thread_ok n m K i)"
proof -
  let ?R = "thread_ok n m K i" and ?P = "\<lambda>j. duel n m K i True N (\<lambda>_. 0) (12 * j) 1020 16"
  have "runs ?R (?P j) (creep_cycle i oc) (?P (Suc j))" if "j < 10" for j
    by (rule runs_post [OF runs_creep_cycle [OF N]]) (use that in \<open>auto elim!: duel_mono\<close>)
  then have cycles: "runs ?R (?P 0) (steps (replicate 10 (creep_cycle i oc))) (?P 10)" by (rule runs_repeat)
  have over: "runs ?R (?P 10) (creep_time_up i) ?R"
    by (rule runs_post [OF runs_creep_time_up [OF N] duel_thread])
  have start: "runs ?R (crowd n m K i N) (creep_prologue i oc) (?P 0)"
    by (rule runs_post [OF runs_creep_prologue [OF N]]) (auto elim!: duel_mono)
  have fight: "runs ?R (?P 0) (breakable (steps (replicate 10 (creep_cycle i oc) @ [creep_time_up i]))) ?R"
    by (rule runs_breakable [OF runs_append [OF cycles runs_Cons [OF over runs_Nil]]])
  show ?thesis
    by (rule runs_Cons [OF crowd_status runs_Cons [OF start runs_Cons [OF fight runs_Cons [OF runs_finish_stage runs_Nil]]]])
qed

lemma CreepStage_ok:
  assumes "thread_ok n m K i t"
  shows "\<exists>go t'. CreepStage i t = Inr (go, t') \<and> thread_ok n m K i t'"
proof -
  let ?N = "2 * length (rmClients (room_of (thWorld t) i))"
  have "even ?N" "?N \<le> 16" using assms match_okD(6) [of n m K i "thWorld t"] by (simp_all add: thread_ok_def)
  from stage_value_ok [OF runs_creep_stage [OF this], of n m K i t] assms
  show ?thesis by (simp add: CreepStage_def Let_def crowd_def del: steps.simps)
qed

end
