(* ===== verification/Progress.thy ===== *)
theory Progress
  imports Room_Creep
begin

text \<open>
  \<open>Room::ReadyStage\<close> and \<open>Room::ProgressThread\<close> (\<open>Room.cpp\<close>): a match from the choice of the
  characters to its end.
\<close>

section \<open>The ready stage\<close>

definition draw_battle_opponents :: "nat \<Rightarrow> step" where
  "draw_battle_opponents i t =
     rbind (ApplyRandomBattleOpponent (client_of (thWorld t)) (room_of (thWorld t) i) (wRng (thWorld t)))
       (\<lambda>(r, rng). rbind (sc_BattleOpponentsPacket (rmBattleOpponents r)) (\<lambda>p.
          emit p (t\<lparr>thWorld := set_room i r ((thWorld t)\<lparr>wRng := rng\<rparr>)\<rparr>)))"

text \<open>Two normal tickets for every client.\<close>

definition hand_out_tickets :: "nat \<Rightarrow> step" where
  "hand_out_tickets p t =
     (let c = client_of (thWorld t) p;
          c' = SetTicketCount Normal (i32 (TicketCount Normal c + 2)) c
      in emit_all [sc_UpdateCharacterInfoPacket c,
           sc_SetItemTicketPacket (clNetworkID c') Normal (TicketCount Normal c')]
           (t\<lparr>thWorld := set_client p c' (thWorld t)\<rparr>))"

definition set_default_items :: "nat \<Rightarrow> step" where
  "set_default_items p t =
     rbind (TrySetDefaultUsingItem (client_of (thWorld t) p)) (\<lambda>(isSet, c).
       emit_all (if isSet then [Notification (clNetworkID c) SetDefaultUsingItem] else [])
         (t\<lparr>thWorld := set_client p c (thWorld t)\<rparr>))"

definition emit_update :: "nat \<Rightarrow> step" where
  "emit_update p t = emit (sc_UpdateCharacterInfoPacket (client_of (thWorld t) p)) t"

definition ready_time :: "room \<Rightarrow> int" where
  "ready_time r = i32 (max 30 (i32 (BATTLE_READY_TIME - i32 (rmRound r * 3))) + 1)"

definition ready_opening :: "nat \<Rightarrow> bool \<Rightarrow> int \<Rightarrow> step" where
  "ready_opening i isNextStageBattle readyTime = steps
     ([open_block] @ (if isNextStageBattle then [draw_battle_opponents i] else []) @
      [emit_all [SetReadyTime (word_of_int readyTime), Notification 0 EnterReadyStage],
       each_client i hand_out_tickets, send_stream i])"

definition ready_closing :: "nat \<Rightarrow> step" where
  "ready_closing i = steps
     [open_block, each_client i set_default_items, each_client i emit_update, send_stream i]"

definition ReadyStage :: "nat \<Rightarrow> bool \<Rightarrow> thread \<Rightarrow> (bool \<times> thread) result" where
  "ReadyStage i isNextStageBattle t = stage_value
     (let openCount = rmOpenCount (room_of (thWorld t) i);
          readyTime = ready_time (room_of (thWorld t) i)
      in steps
        ([set_status i St_ReadyStage, leave_if_stopped i openCount,
          ready_opening i isNextStageBattle readyTime, Sleep, send_packet i (FadeOut 1)] @
         concat (replicate (nat readyTime) [Sleep, leave_if_stopped i openCount]) @
         [ready_closing i, leave_if_stopped i openCount, send_packet i (FadeIn 1), Sleep]) t)"

section \<open>Before the first stage\<close>

definition TrySendEnterInGame :: "nat \<Rightarrow> step" where
  "TrySendEnterInGame i t =
     (let r = room_of (thWorld t) i;
          readyCount = length (filter (\<lambda>p. clIsChoiceCharacter (client_of (thWorld t) p)) (rmClients r))
      in if length (rmClients r) < 2 then Inr (Next, t)
         else if readyCount = length (rmClients r) \<and> \<not> rmIsFinishChoiceCharacter r
         then steps [send_packet i (Notification 0 ChoiceAllCharacter),
                     on_room i (\<lambda>r. r\<lparr>rmIsFinishChoiceCharacter := True\<rparr>)] t
         else Inr (Next, t))"

definition break_if_chosen :: "nat \<Rightarrow> step" where
  "break_if_chosen i t =
     Inr (if rmIsFinishChoiceCharacter (room_of (thWorld t) i) then Break else Next, t)"

definition choice_loop :: "nat \<Rightarrow> nat \<Rightarrow> step" where
  "choice_loop i openCount = breakable (steps (concat (replicate CHOICE_CHARACTER_TIME
     [Sleep, TrySendEnterInGame i, break_if_chosen i, leave_if_stopped i openCount])))"

text \<open>The bytes of a stream, with the size computed beside it.\<close>

definition send_stream_sized :: "nat \<Rightarrow> nat \<Rightarrow> step" where
  "send_stream_sized i n t =
     on_server (\<lambda>w. rbind (sized (stream (thStream t)) n) (\<lambda>bytes. SendToAll i bytes w)) t"

definition emit_character :: "nat \<Rightarrow> step" where
  "emit_character p t =
     (let c = client_of (thWorld t) p in emit (ChangeCharacter (clNetworkID c) (clCharacterType c)) t)"

definition enter_cut_scene :: "nat \<Rightarrow> step" where
  "enter_cut_scene i = send_packets i
     [Notification 0 EnterCutSceneStage, SetReadyTime (word_of_int BATTLE_READY_TIME), FadeOut 1]"

definition all_chosen :: "nat \<Rightarrow> nat \<Rightarrow> step" where
  "all_chosen i openCount = steps
     [open_block, each_client i emit_character,
      (\<lambda>t. send_stream_sized i (8 * rmSize (room_of (thWorld t) i)) t), Sleep,
      leave_if_stopped i openCount, send_packet i (FadeIn 1), Sleep, enter_cut_scene i]"

text \<open>Whoever has not chosen in time gets the first character.\<close>

definition choose_for :: "nat \<Rightarrow> step" where
  "choose_for p t =
     (let c = client_of (thWorld t) p;
          empty = (clCharacterType c = Character_Empty);
          c1 = (if empty then c\<lparr>clCharacterType := Character_Woowakgood\<rparr> else c)
      in emit_all
           ((if empty then [ChangeCharacter (clNetworkID c1) Character_Woowakgood] else []) @
            (if \<not> clIsChoiceCharacter c1 then [Notification (clNetworkID c1) ChoiceCharacter] else []))
           (t\<lparr>thWorld := set_client p c1 (thWorld t)\<rparr>))"

definition choice_time_over :: "nat \<Rightarrow> nat \<Rightarrow> step" where
  "choice_time_over i openCount = steps
     [open_block, each_client i choose_for,
      emit_all [Notification 0 FinishChoiceCharacterTime, FadeIn 1], send_stream i, Sleep,
      leave_if_stopped i openCount, enter_cut_scene i]"

text \<open>The first two items, and the tickets at their initial counts.\<close>

definition give_default_items :: "nat \<Rightarrow> step" where
  "give_default_items p t =
     (let c1 = fst (AddItem (client_of (thWorld t) p) 1);
          c2 = fst (AddItem c1 4);
          c3 = SetTicketCount Supreme DEFAULT_ITEM_TICKET_COUNT
                 (SetTicketCount Top DEFAULT_ITEM_TICKET_COUNT
                   (SetTicketCount Advanced DEFAULT_ITEM_TICKET_COUNT
                     (SetTicketCount Normal DEFAULT_ITEM_TICKET_COUNT c2)))
      in emit_all (sc_InventoryInfoPacket c2 #
             map (\<lambda>k. sc_SetItemTicketPacket (clNetworkID c3) k (TicketCount k c3))
               [Normal, Advanced, Top, Supreme])
           (t\<lparr>thWorld := set_client p c3 (thWorld t)\<rparr>))"

definition exit_if_stopped :: "nat \<Rightarrow> nat \<Rightarrow> step" where
  "exit_if_stopped i openCount t =
     Inr (if stopped i openCount (thWorld t) then Exit else Next, t)"

definition stage :: "(thread \<Rightarrow> (bool \<times> thread) result) \<Rightarrow> step" where
  "stage f t = rbind (f t) (\<lambda>(go, t'). Inr (if go then Next else Leave, t'))"

definition next_round :: "nat \<Rightarrow> step" where
  "next_round i = on_room i (\<lambda>r. r\<lparr>rmRound := i32 (rmRound r + 1)\<rparr>)"

definition cut_scene :: "nat \<Rightarrow> nat \<Rightarrow> step" where
  "cut_scene i openCount = steps
     [set_status i St_CutSceneStage,
      (\<lambda>t. if rmIsFinishChoiceCharacter (room_of (thWorld t) i) then all_chosen i openCount t
           else choice_time_over i openCount t),
      Sleep, leave_if_stopped i openCount, Sleep, leave_if_stopped i openCount,
      send_packet i (FadeIn 1), Sleep, leave_if_stopped i openCount,
      send_packet i (Notification 0 FinishCutSceneStage)]"

definition match_opening :: "nat \<Rightarrow> nat \<Rightarrow> step" where
  "match_opening i openCount = steps
     [choice_loop i openCount, cut_scene i openCount,
      open_block, each_client i give_default_items, send_stream i,
      set_status i St_ReadyStage, exit_if_stopped i openCount, Sleep]"

text \<open>Three creeps before the first round.\<close>

definition first_creeps :: "nat \<Rightarrow> step" where
  "first_creeps i = steps
     [stage (ReadyStage i False), Sleep, stage (CreepStage i), Sleep,
      stage (ReadyStage i False), Sleep, stage (CreepStage i), Sleep,
      stage (ReadyStage i False), Sleep, stage (CreepStage i), Sleep, next_round i]"

section \<open>The rounds\<close>

text \<open>Three battles and a creep.\<close>

definition match_round :: "nat \<Rightarrow> step" where
  "match_round i = steps
     (concat (replicate 3 [stage (ReadyStage i True), stage (BattleStage i)]) @
      [stage (ReadyStage i False), stage (CreepStage i), next_round i])"

text \<open>The loop ends when a stage says so; that one does is shown in \<open>Match_End\<close>.\<close>

partial_function (option) match_loop :: "nat \<Rightarrow> thread \<Rightarrow> thread result option" where
  "match_loop i t =
     (case match_round i t of
        Inl e \<Rightarrow> Some (Inl e)
      | Inr (c, t') \<Rightarrow> if c = Next then match_loop i t' else Some (Inr t'))"

declare match_loop.simps [code]

text \<open>\<open>loopOut\<close>\<close>

definition close_room :: "nat \<Rightarrow> thread \<Rightarrow> thread" where
  "close_room i t =
     t\<lparr>thWorld := set_room i ((Room_Init (room_of (thWorld t) i))\<lparr>rmIsFinishThread := True\<rparr>) (thWorld t)\<rparr>"

text \<open>The thread announces itself.\<close>

definition begin_match :: "nat \<Rightarrow> thread \<Rightarrow> thread" where
  "begin_match i t =
     t\<lparr>thWorld := set_room i ((room_of (thWorld t) i)
         \<lparr>rmIsFinishThread := False, rmCurRoomStatusType := St_ChoiceCharacter\<rparr>) (thWorld t)\<rparr>"

definition ProgressThread :: "nat \<Rightarrow> thread \<Rightarrow> thread result option" where
  "ProgressThread i t =
     (let t0 = begin_match i t;
          openCount = rmOpenCount (room_of (thWorld t0) i)
      in case steps [match_opening i openCount, first_creeps i] t0 of
           Inl e \<Rightarrow> Some (Inl e)
         | Inr (c, t1) \<Rightarrow>
             if c = Exit then Some (Inr t1)
             else if c = Next then map_option (map_sum id (close_room i)) (match_loop i t1)
             else Some (Inr (close_room i t1)))"

end
