(* ===== verification/Match_Safe.thy ===== *)
theory Match_Safe
  imports Creep_Safe Progress
begin

text \<open>
  The ready stage and the thread of a match: every stage returns and keeps the match, and so do
  the rounds as long as their number fits the counters.
\<close>

section \<open>Messages about every client\<close>

text \<open>The invariant with at most \<open>x\<close> bytes in the stream of the block.\<close>

definition talk :: "nat \<Rightarrow> nat \<Rightarrow> nat \<Rightarrow> nat \<Rightarrow> nat \<Rightarrow> thread \<Rightarrow> bool" where
  "talk n m K i x t \<longleftrightarrow> thread_ok n m K i t \<and> list_all packet_ok (thStream t) \<and> stream_size (thStream t) \<le> x"

lemma talk_mono: "talk n m K i x t \<Longrightarrow> x \<le> x' \<Longrightarrow> talk n m K i x' t"
  and talk_thread: "talk n m K i x t \<Longrightarrow> thread_ok n m K i t"
  and talk_match: "talk n m K i x t \<Longrightarrow> match_ok n m K i (thWorld t)"
  by (auto simp: talk_def thread_ok_def)

lemma talk_emit:
  "talk n m K i x t \<Longrightarrow> match_ok n m K i w \<Longrightarrow> list_all packet_ok ps \<Longrightarrow> stream_size ps \<le> d \<Longrightarrow>
    talk n m K i (x + d) (t\<lparr>thWorld := w, thStream := thStream t @ ps\<rparr>)"
  by (simp add: talk_def thread_ok_def)

lemma talk_open: "runs R (thread_ok n m K i) open_block (talk n m K i 0)"
  by (rule runsI) (simp add: open_block_def talk_def thread_ok_def)

lemma talk_emit_all: "list_all packet_ok ps \<Longrightarrow> x + stream_size ps \<le> z \<Longrightarrow> runs R (talk n m K i x) (emit_all ps) (talk n m K i z)"
  by (rule runsI) (simp add: emit_all_def talk_def thread_ok_def)

lemma talk_send: "x \<le> 1300 \<Longrightarrow> runs R (talk n m K i x) (send_stream i) (thread_ok n m K i)"
proof (rule runsI)
  fix t assume "x \<le> 1300" and t: "talk n m K i x t"
  then have "length (stream (thStream t)) \<le> MAX_BUF_SIZE" using length_stream [of "thStream t"] by (simp add: talk_def)
  then have "keeps_match n m K i (SendStreamToAllClients i (thStream t))"
    using keeps_send by (simp add: SendStreamToAllClients_def [abs_def])
  then show "\<exists>t'. send_stream i t = Inr (Next, t') \<and> thread_ok n m K i t'"
    using talk_match [OF t] t by (auto simp: keeps_match_def send_stream_def on_server_def talk_def thread_ok_def)
qed

lemma runs_each_client:
  assumes "\<And>p x. p < n \<Longrightarrow> runs R (talk n m K i x) (f p) (talk n m K i (x + d))" and "x + 8 * d \<le> z"
  shows "runs R (talk n m K i x) (each_client i f) (talk n m K i z)"
  unfolding runs_def
proof (intro allI impI)
  fix t assume t: "talk n m K i x t"
  let ?ps = "rmClients (room_of (thWorld t) i)"
  have ps: "\<forall>p \<in> set ?ps. p < n" "length ?ps \<le> 8"
    using match_ok_members [OF talk_match [OF t]] match_okD(6) [OF talk_match [OF t]] by auto
  have "runs R (talk n m K i (x + d * j)) (f (?ps ! j)) (talk n m K i (x + d * Suc j))" if "j < length ?ps" for j
    using assms(1) [of "?ps ! j" "x + d * j"] ps(1) that by (simp add: algebra_simps)
  then have r: "runs R (talk n m K i (x + d * 0)) (steps (map f ?ps)) (talk n m K i (x + d * length ?ps))"
    by (rule runs_map)
  have "d * length ?ps \<le> d * 8" using ps(2) by (rule mult_le_mono2)
  then have "x + d * length ?ps \<le> z" using assms(2) by linarith
  then show "\<exists>c t'. each_client i f t = Inr (c, t') \<and> (if c = Next then talk n m K i z t' else R t')"
    using runs_from [OF r, of t "talk n m K i z"] t talk_mono by (simp add: each_client_def)
qed

text \<open>An update of one client that is written to the stream.\<close>

lemma talk_client:
  assumes t: "talk n m K i x t" and p: "p < n" and c: "client_ok m p c" and ps: "list_all packet_ok ps" "stream_size ps \<le> d"
  shows "\<exists>t'. emit_all ps (t\<lparr>thWorld := set_client p c (thWorld t)\<rparr>) = Inr (Next, t') \<and> talk n m K i (x + d) t'"
  using talk_emit [OF t match_ok_set_client [OF talk_match [OF t] p c] ps] by (simp add: emit_all_def)

lemma packet_ok_info:
  assumes "client_ok m p c"
  shows "packet_ok (sc_UpdateCharacterInfoPacket c)" and "packet_ok (sc_InventoryInfoPacket c)"
    and "packet_sizeof (sc_UpdateCharacterInfoPacket c) = 43" and "packet_sizeof (sc_InventoryInfoPacket c) = 39"
    and "packet_ok (sc_SetItemTicketPacket a k v)" and "packet_sizeof (sc_SetItemTicketPacket a k v) = 9"
  using assms packet_ok_Update [of c] packet_ok_Inventory [of c]
  by (simp_all add: client_ok_def sc_UpdateCharacterInfoPacket_def sc_InventoryInfoPacket_def sc_SetItemTicketPacket_def)

lemma talk_client_ok: "talk n m K i x t \<Longrightarrow> p < n \<Longrightarrow> client_ok m p (client_of (thWorld t) p)"
  using match_ok_client [OF talk_match] .

section \<open>The ready stage\<close>

lemma ticket_client_ok: "client_ok m p c \<Longrightarrow> client_ok m p (SetTicketCount k v c)"
  by (cases k) (auto intro: client_ok_cong)

lemma runs_tickets: "p < n \<Longrightarrow> runs R (talk n m K i x) (hand_out_tickets p) (talk n m K i (x + 52))"
proof (rule runsI)
  fix t assume p: "p < n" and t: "talk n m K i x t"
  note c = talk_client_ok [OF t p]
  show "\<exists>t'. hand_out_tickets p t = Inr (Next, t') \<and> talk n m K i (x + 52) t'"
    unfolding hand_out_tickets_def Let_def
    by (rule talk_client [OF t p ticket_client_ok [OF c]]) (simp_all add: packet_ok_info [OF c])
qed

lemma client_ok_not_items:
  assumes "client_ok m p c" and "not_items c' = not_items c" and "inventory_ok c'"
  shows "client_ok m p c'"
  using assms(1,3) not_itemsD(2,3) [OF assms(2)] arg_cong [OF assms(2), of clName] arg_cong [OF assms(2), of clPacketBuf]
  by (simp add: client_ok_def not_items_def)

lemma runs_default: "p < n \<Longrightarrow> runs R (talk n m K i x) (set_default_items p) (talk n m K i (x + 8))"
proof (rule runsI)
  fix t assume p: "p < n" and t: "talk n m K i x t"
  let ?c = "client_of (thWorld t) p"
  note c = talk_client_ok [OF t p]
  then have inv: "inventory_ok ?c" by (simp add: client_ok_def)
  obtain b c' where c': "TrySetDefaultUsingItem ?c = Inr (b, c')" "not_items c' = not_items ?c" "inventory_ok c'"
    using TrySetDefaultUsingItem_spec [OF inventory_ok_shape [OF inv]] inv by blast
  have "\<exists>t'. emit_all (if b then [Notification (clNetworkID c') SetDefaultUsingItem] else [])
      (t\<lparr>thWorld := set_client p c' (thWorld t)\<rparr>) = Inr (Next, t') \<and> talk n m K i (x + 8) t'"
    by (rule talk_client [OF t p client_ok_not_items [OF c c'(2,3)]]) simp_all
  then show "\<exists>t'. set_default_items p t = Inr (Next, t') \<and> talk n m K i (x + 8) t'"
    using c'(1) by (simp add: set_default_items_def)
qed

lemma runs_update: "p < n \<Longrightarrow> runs R (talk n m K i x) (emit_update p) (talk n m K i (x + 43))"
proof (rule runsI)
  fix t assume p: "p < n" and t: "talk n m K i x t"
  note c = packet_ok_info [OF talk_client_ok [OF t p]]
  show "\<exists>t'. emit_update p t = Inr (Next, t') \<and> talk n m K i (x + 43) t'"
    using t c(1,3) by (simp add: emit_update_def emit_def talk_def thread_ok_def)
qed

text \<open>The draw of the opponents: one more fight for every two.\<close>

lemma flat_len: "pairs_ok cl us mat ps \<Longrightarrow> length (flat ps) = 2 * ((length us + 1) div 2)"
  by (simp add: pairs_ok_def length_flat)

lemma draw_opponents_ok:
  assumes w: "match_ok n m K i w" and K: "K < INT64_MAX"
  shows "\<exists>r rng'. ApplyRandomBattleOpponent (client_of w) (room_of w i) rng = Inr (r, rng') \<and>
    match_ok n m (Suc K) i (set_room i r w) \<and> opponents_ok n (rmBattleOpponents r)"
proof -
  let ?r = "room_of w i" and ?S = "set (rmClients (room_of w i))"
  note d = match_okD [OF w]
  have mgr: "manager_ok ?S K (rmBattleManager ?r)" and dis: "distinct (rmClients ?r)" and sz: "rmSize ?r = length (rmClients ?r)"
    and rnd: "0 \<le> rmRound ?r" "rmRound ?r \<le> int K + 1" and fin: "\<not> rmIsFinishThread ?r" and os: "opponents_ok n (rmBattleOpponents ?r)"
    using w d(5) by (simp_all add: match_ok_def room_ok_def)
  show ?thesis
  proof (cases "rmSize ?r < 2")
    case True
    have "manager_ok ?S (Suc K) (rmBattleManager ?r)" using mgr info_ok_mono [of ?S K _ "Suc K"] by (auto simp: manager_ok_def)
    then have "match_ok n m (Suc K) i (set_room i ?r w)"
      by (intro match_ok_set_room [OF w d(5)]) (use rnd fin os in simp_all)
    then show ?thesis using True os by (simp add: ApplyRandomBattleOpponent_def)
  next
    case False
    have "card ?S \<noteq> 1" using False sz distinct_card [OF dis] by simp
    from GetBattleOpponent_ok [OF mgr match_ok_ids [OF w] K this, of rng]
    obtain ps bm' rng' order where g: "GetBattleOpponent (client_of w) (rmBattleManager ?r) rng = Inr (flat ps, bm', rng')"
      "manager_ok ?S (Suc K) bm'" "distinct order" "set order = ?S" "pairs_ok (client_of w) order [] ps" by blast
    have lo: "length order = length (rmClients ?r)" using distinct_card [OF g(3)] distinct_card [OF dis] g(4) by simp
    have ow: "0 \<le> owner x \<and> owner x < int n" if "x \<in> set (flat ps)" for x
    proof -
      have "owner x \<in> (\<lambda>p. clNetworkID (client_of w p)) ` (set order \<union> set [])"
        using g(5) that unfolding pairs_ok_def by blast
      then obtain p where "p \<in> ?S" "owner x = clNetworkID (client_of w p)" using g(4) by auto
      then show ?thesis using match_ok_members [OF w] match_ok_nid [OF w] by simp
    qed
    have fl: "opponents_ok n (flat ps)" using flat_len [OF g(5)] lo d(6) ow by (simp add: opponents_ok_def)
    have "match_ok n m (Suc K) i (set_room i (?r\<lparr>rmBattleManager := bm', rmBattleOpponents := flat ps\<rparr>) w)"
      by (rule match_ok_set_room [OF w]) (use d(5) g(2) rnd fin fl in \<open>simp_all add: room_ok_def\<close>)
    then show ?thesis using False g(1) fl by (simp add: ApplyRandomBattleOpponent_def)
  qed
qed

lemma runs_draw_opponents:
  assumes "K < INT64_MAX"
  shows "runs R (talk n m K i x) (draw_battle_opponents i) (talk n m (Suc K) i (x + 35))"
proof (rule runsI)
  fix t assume t: "talk n m K i x t"
  obtain r rng where r: "ApplyRandomBattleOpponent (client_of (thWorld t)) (room_of (thWorld t) i) (wRng (thWorld t)) = Inr (r, rng)"
    "match_ok n m (Suc K) i (set_room i r (thWorld t))" "opponents_ok n (rmBattleOpponents r)"
    using draw_opponents_ok [OF talk_match [OF t] assms] by blast
  let ?a = "take 8 (rmBattleOpponents r @ INT_MAX # replicate 8 0)"
  have p: "sc_BattleOpponentsPacket (rmBattleOpponents r) = Inr (BattleOpponents ?a)"
    using r(3) by (simp add: sc_BattleOpponentsPacket_def opponent_array_def opponents_ok_def)
  have "set_room i r ((thWorld t)\<lparr>wRng := rng\<rparr>) = (set_room i r (thWorld t))\<lparr>wRng := rng\<rparr>" by (simp add: set_room_def)
  then have "match_ok n m (Suc K) i (set_room i r ((thWorld t)\<lparr>wRng := rng\<rparr>))" using r(2) by simp
  then show "\<exists>t'. draw_battle_opponents i t = Inr (Next, t') \<and> talk n m (Suc K) i (x + 35) t'"
    using r(1) p t by (simp add: draw_battle_opponents_def emit_def talk_def thread_ok_def)
qed

lemma runs_ready_opening:
  assumes "K < INT64_MAX"
  shows "runs R (thread_ok n m K i) (ready_opening i battle readyTime) (thread_ok n m (if battle then Suc K else K) i)"
proof -
  let ?K = "if battle then Suc K else K"
  have draw: "runs R (talk n m K i 0) (steps (if battle then [draw_battle_opponents i] else [])) (talk n m ?K i 35)"
  proof (cases battle)
    case True
    then show ?thesis using runs_Cons [OF runs_draw_opponents [OF assms, of R n m i 0] runs_Nil] by (simp del: steps.simps)
  next
    case False
    then show ?thesis using runs_post [OF runs_Nil, of "talk n m K i 0" "talk n m K i 35" R] talk_mono by (simp del: steps.simps)
  qed
  have head: "runs R (talk n m ?K i 35) (emit_all [SetReadyTime (word_of_int readyTime), Notification 0 EnterReadyStage]) (talk n m ?K i 47)"
    by (rule talk_emit_all) simp_all
  have tickets: "runs R (talk n m ?K i 47) (each_client i hand_out_tickets) (talk n m ?K i 463)"
    by (rule runs_each_client [OF runs_tickets]) simp_all
  have sent: "runs R (talk n m ?K i 463) (send_stream i) (thread_ok n m ?K i)" by (rule talk_send) simp
  show ?thesis unfolding ready_opening_def
    by (rule runs_append [OF runs_Cons [OF talk_open runs_Nil] runs_append [OF draw
        runs_Cons [OF head runs_Cons [OF tickets runs_Cons [OF sent runs_Nil]]]]])
qed

lemma runs_ready_closing: "runs R (thread_ok n m K i) (ready_closing i) (thread_ok n m K i)"
proof -
  have items: "runs R (talk n m K i 0) (each_client i set_default_items) (talk n m K i 64)"
    by (rule runs_each_client [OF runs_default]) simp_all
  have infos: "runs R (talk n m K i 64) (each_client i emit_update) (talk n m K i 408)"
    by (rule runs_each_client [OF runs_update]) simp_all
  have sent: "runs R (talk n m K i 408) (send_stream i) (thread_ok n m K i)" by (rule talk_send) simp
  show ?thesis unfolding ready_closing_def
    by (rule runs_Cons [OF talk_open runs_Cons [OF items runs_Cons [OF infos runs_Cons [OF sent runs_Nil]]]])
qed

lemma thread_ok_mono: "thread_ok n m K i t \<Longrightarrow> K \<le> L \<Longrightarrow> thread_ok n m L i t"
  using info_ok_mono by (fastforce simp: thread_ok_def match_ok_def manager_ok_def)

lemma runs_wait: "runs (thread_ok n m K i) (thread_ok n m K i) (steps (concat (replicate k [Sleep, leave_if_stopped i oc]))) (thread_ok n m K i)"
  by (rule runs_same) (use runs_thread(2,3) in \<open>auto simp: set_replicate_conv_if split: if_splits\<close>)

lemma runs_exits: "runs R P f Q \<Longrightarrow> (\<And>t. R t \<Longrightarrow> R' t) \<Longrightarrow> runs R' P f Q"
  unfolding runs_def by meson

lemma ReadyStage_ok:
  assumes t: "thread_ok n m K i t" and K: "K < INT64_MAX"
  shows "\<exists>go t'. ReadyStage i battle t = Inr (go, t') \<and> thread_ok n m (if battle then Suc K else K) i t'"
proof -
  let ?L = "if battle then Suc K else K" and ?oc = "rmOpenCount (room_of (thWorld t) i)"
  let ?time = "ready_time (room_of (thWorld t) i)"
  have up: "thread_ok n m K i t \<Longrightarrow> thread_ok n m ?L i t" for t by (rule thread_ok_mono) auto
  have leave: "runs (thread_ok n m ?L i) (thread_ok n m K i) (leave_if_stopped i ?oc) (thread_ok n m K i)"
    by (rule runs_exits [OF runs_thread(3) up])
  have fade: "runs R (thread_ok n m ?L i) (send_packet i (FadeOut 1)) (thread_ok n m ?L i)"
    "runs R (thread_ok n m ?L i) (send_packet i (FadeIn 1)) (thread_ok n m ?L i)" for R
    by (rule runs_thread; simp)+
  have "runs (thread_ok n m ?L i) (thread_ok n m K i) (steps
        ([set_status i St_ReadyStage, leave_if_stopped i ?oc,
          ready_opening i battle ?time, Sleep, send_packet i (FadeOut 1)] @
         concat (replicate (nat ?time) [Sleep, leave_if_stopped i ?oc]) @
         [ready_closing i, leave_if_stopped i ?oc, send_packet i (FadeIn 1), Sleep])) (thread_ok n m ?L i)"
    by (rule runs_append [OF runs_Cons [OF runs_thread(5) runs_Cons [OF leave runs_Cons [OF runs_ready_opening [OF K]
          runs_Cons [OF runs_thread(2) runs_Cons [OF fade(1) runs_Nil]]]]]
        runs_append [OF runs_wait runs_Cons [OF runs_ready_closing runs_Cons [OF runs_thread(3)
          runs_Cons [OF fade(2) runs_Cons [OF runs_thread(2) runs_Nil]]]]]])
  from stage_value_ok [OF this t] show ?thesis by (simp add: ReadyStage_def Let_def del: steps.simps)
qed

section \<open>Rounds\<close>

lemma stage_runs:
  assumes "\<And>t. P t \<Longrightarrow> \<exists>go t'. f t = Inr (go, t') \<and> Q t'"
  shows "runs Q P (stage f) Q"
  unfolding runs_def stage_def
proof (intro allI impI)
  fix t assume "P t"
  then obtain go t' where "f t = Inr (go, t')" "Q t'" using assms by blast
  then show "\<exists>c t'. rbind (f t) (\<lambda>(go, t'). Inr (if go then Next else Leave, t')) = Inr (c, t') \<and> (if c = Next then Q t' else Q t')"
    by auto
qed

lemma runs_next_round:
  assumes "int K + 2 \<le> INT_MAX"
  shows "runs R (thread_ok n m K i) (next_round i) (thread_ok n m (Suc K) i)"
proof (rule runsI)
  fix t assume t: "thread_ok n m K i t"
  let ?r = "room_of (thWorld t) i"
  have w: "match_ok n m K i (thWorld t)" using t by (simp add: thread_ok_def)
  have w': "match_ok n m (Suc K) i (thWorld t)" using thread_ok_mono [OF t, of "Suc K"] by (simp add: thread_ok_def)
  have rnd: "0 \<le> rmRound ?r" "rmRound ?r \<le> int K + 1" using w by (simp_all add: match_ok_def)
  then have i32: "i32 (rmRound ?r + 1) = rmRound ?r + 1" using assms by (intro i32_id) (simp_all add: INT_MIN_def)
  have "match_ok n m (Suc K) i (set_room i (?r\<lparr>rmRound := i32 (rmRound ?r + 1)\<rparr>) (thWorld t))"
    by (rule match_ok_set_room [OF w]) (use match_okD(5) [OF w] w' rnd i32 in \<open>simp_all add: match_ok_def room_ok_def\<close>)
  then show "\<exists>t'. next_round i t = Inr (Next, t') \<and> thread_ok n m (Suc K) i t'"
    using t by (simp add: next_round_def on_room_def on_server_def thread_ok_def)
qed

lemma runs_ready:
  assumes "K < INT64_MAX"
  shows "runs (thread_ok n m (Suc K) i) (thread_ok n m K i) (stage (ReadyStage i True)) (thread_ok n m (Suc K) i)"
    and "runs (thread_ok n m K i) (thread_ok n m K i) (stage (ReadyStage i False)) (thread_ok n m K i)"
    and "runs (thread_ok n m K i) (thread_ok n m K i) (stage (BattleStage i)) (thread_ok n m K i)"
    and "runs (thread_ok n m K i) (thread_ok n m K i) (stage (CreepStage i)) (thread_ok n m K i)"
  using ReadyStage_ok [OF _ assms, of n m i _ True] ReadyStage_ok [OF _ assms, of n m i _ False] BattleStage_ok [of n m K i]
    CreepStage_ok [of n m K i] by (auto intro!: stage_runs)

lemma INT64_le: "int K + 6 \<le> INT_MAX \<Longrightarrow> K + 4 < INT64_MAX"
  by (simp add: INT_MAX_def INT64_MAX_def)

lemma runs_first_creeps:
  assumes "int K + 6 \<le> INT_MAX"
  shows "runs (thread_ok n m (Suc K) i) (thread_ok n m K i) (first_creeps i) (thread_ok n m (Suc K) i)"
proof -
  have K: "K < INT64_MAX" "int K + 2 \<le> INT_MAX" using INT64_le [OF assms] assms by simp_all
  have up: "thread_ok n m K i t \<Longrightarrow> thread_ok n m (Suc K) i t" for t by (rule thread_ok_mono) auto
  have ready: "runs (thread_ok n m (Suc K) i) (thread_ok n m K i) (stage (ReadyStage i False)) (thread_ok n m K i)"
    and creep: "runs (thread_ok n m (Suc K) i) (thread_ok n m K i) (stage (CreepStage i)) (thread_ok n m K i)"
    by (rule runs_exits [OF runs_ready(2) [OF K(1)]] runs_exits [OF runs_ready(4) [OF K(1)]]; rule up; assumption)+
  show ?thesis unfolding first_creeps_def
    by (rule runs_Cons [OF ready] runs_Cons [OF creep] runs_Cons [OF runs_thread(2)] runs_Cons [OF runs_next_round [OF K(2)]]
        runs_Nil)+
qed

text \<open>A round: three battles, a creep, and the count of the rounds.\<close>

lemma runs_match_round:
  assumes K: "int K + 6 \<le> INT_MAX"
  shows "runs (thread_ok n m (K + 4) i) (thread_ok n m K i) (match_round i) (thread_ok n m (K + 4) i)"
proof -
  let ?T = "\<lambda>j. thread_ok n m (K + j) i"
  have up: "?T j t \<Longrightarrow> j \<le> 4 \<Longrightarrow> ?T 4 t" for j t by (erule thread_ok_mono) simp
  have small: "K + j < INT64_MAX" if "j \<le> 4" for j using INT64_le [OF K] that by linarith
  have fight: "runs (?T 4) (?T j) (steps [stage (ReadyStage i True), stage (BattleStage i)]) (?T (Suc j))" if "j < 3" for j
  proof -
    have "runs (?T 4) (?T j) (stage (ReadyStage i True)) (?T (Suc j))"
      by (rule runs_exits [OF runs_ready(1) [OF small, of j n m i, unfolded add_Suc_right [symmetric]]])
        (use that up [of "Suc j"] in auto)
    moreover have "runs (?T 4) (?T (Suc j)) (stage (BattleStage i)) (?T (Suc j))"
      by (rule runs_exits [OF runs_ready(3) [OF small]]) (use that up [of "Suc j"] in auto)
    ultimately show ?thesis by (rule runs_Cons [OF _ runs_Cons [OF _ runs_Nil]])
  qed
  have three: "runs (?T 4) (?T 0) (steps (concat (replicate 3 [stage (ReadyStage i True), stage (BattleStage i)]))) (?T 3)"
  proof -
    have eq: "concat (replicate 3 [stage (ReadyStage i True), stage (BattleStage i)]) =
        [stage (ReadyStage i True), stage (BattleStage i)] @ [stage (ReadyStage i True), stage (BattleStage i)] @
        [stage (ReadyStage i True), stage (BattleStage i)]" by (simp add: numeral_3_eq_3)
    have "runs (?T 4) (?T 0) (steps [stage (ReadyStage i True), stage (BattleStage i)]) (?T 1)"
      "runs (?T 4) (?T 1) (steps [stage (ReadyStage i True), stage (BattleStage i)]) (?T 2)"
      "runs (?T 4) (?T 2) (steps [stage (ReadyStage i True), stage (BattleStage i)]) (?T 3)"
      using fight [of 0] fight [of 1] fight [of 2] by (simp_all add: numeral_2_eq_2 numeral_3_eq_3 del: steps.simps)
    then show ?thesis unfolding eq by (intro runs_append)
  qed
  have calm: "runs (?T 4) (?T 3) (stage (ReadyStage i False)) (?T 3)" "runs (?T 4) (?T 3) (stage (CreepStage i)) (?T 3)"
    by (rule runs_exits [OF runs_ready(2) [OF small]] runs_exits [OF runs_ready(4) [OF small]]; use up [of 3] in simp)+
  have "runs (?T 4) (?T 3) (next_round i) (thread_ok n m (Suc (K + 3)) i)" by (rule runs_next_round) (use K in simp)
  then have last: "runs (?T 4) (?T 3) (next_round i) (?T 4)" by (simp add: numeral_eq_Suc)
  have "runs (?T 4) (?T 0) (match_round i) (?T 4)" unfolding match_round_def
    by (rule runs_append [OF three runs_Cons [OF calm(1) runs_Cons [OF calm(2) runs_Cons [OF last runs_Nil]]]])
  then show ?thesis by simp
qed

section \<open>The opening\<close>

lemma runs_choice: "runs (thread_ok n m K i) (thread_ok n m K i) (choice_loop i oc) (thread_ok n m K i)"
proof -
  let ?T = "thread_ok n m K i"
  have tell: "runs ?T ?T (TrySendEnterInGame i) ?T"
  proof -
    have keep: "keeps_match n m K i (\<lambda>w. Inr (set_room i ((\<lambda>r. r\<lparr>rmIsFinishChoiceCharacter := True\<rparr>) (room_of w i)) w))"
      by (rule keeps_set_room) (use match_okD(5) in \<open>fastforce simp: room_ok_def\<close>)
    have "runs ?T ?T (send_packet i (Notification 0 ChoiceAllCharacter)) ?T" by (rule runs_thread) simp
    moreover have "runs ?T ?T (on_room i (\<lambda>r. r\<lparr>rmIsFinishChoiceCharacter := True\<rparr>)) ?T"
      unfolding on_room_def by (rule runs_thread) (use keep in simp)
    ultimately have "runs ?T ?T (steps [send_packet i (Notification 0 ChoiceAllCharacter),
        on_room i (\<lambda>r. r\<lparr>rmIsFinishChoiceCharacter := True\<rparr>)]) ?T"
      by (rule runs_Cons [OF _ runs_Cons [OF _ runs_Nil]])
    then show ?thesis unfolding runs_def TrySendEnterInGame_def Let_def by (auto simp del: steps.simps)
  qed
  have break: "runs ?T ?T (break_if_chosen i) ?T" by (simp add: runs_def break_if_chosen_def)
  have "runs ?T ?T (steps (concat (replicate CHOICE_CHARACTER_TIME
     [Sleep, TrySendEnterInGame i, break_if_chosen i, leave_if_stopped i oc]))) ?T"
    by (rule runs_same) (use tell break runs_thread(2,3) in \<open>auto simp: set_replicate_conv_if split: if_splits\<close>)
  then show ?thesis unfolding choice_loop_def by (rule runs_breakable)
qed

text \<open>The characters are sent with the size of the room as the size of the message.\<close>

lemma emit_characters:
  "steps (map emit_character ps) t = Inr (Next, t\<lparr>thStream := thStream t @
     map (\<lambda>p. ChangeCharacter (clNetworkID (client_of (thWorld t) p)) (clCharacterType (client_of (thWorld t) p))) ps\<rparr>)"
  by (induction ps arbitrary: t) (simp_all add: emit_character_def emit_def Let_def)

lemma runs_all_characters:
  "runs R (thread_ok n m K i) (steps [open_block, each_client i emit_character,
     (\<lambda>t. send_stream_sized i (8 * rmSize (room_of (thWorld t) i)) t)]) (thread_ok n m K i)"
proof (rule runsI)
  fix t assume t: "thread_ok n m K i t"
  then have w: "match_ok n m K i (thWorld t)" by (simp add: thread_ok_def)
  note d = match_okD [OF w]
  let ?ps = "rmClients (room_of (thWorld t) i)"
  define qs where "qs = map (\<lambda>p. ChangeCharacter (clNetworkID (client_of (thWorld t) p)) (clCharacterType (client_of (thWorld t) p))) ?ps"
  have ok: "list_all packet_ok qs" by (simp add: qs_def list_all_iff)
  have size: "stream_size qs = 8 * length ?ps" by (simp add: stream_size_def qs_def comp_def sum_list_triv)
  have len: "length (stream qs) = 8 * rmSize (room_of (thWorld t) i)"
    using length_stream [OF ok] size d(5) by (simp add: room_ok_def)
  then have "length (stream qs) \<le> MAX_BUF_SIZE" using d(5,6) by (simp add: room_ok_def)
  then obtain w' where "SendToAll i (stream qs) (thWorld t) = Inr w'" "match_ok n m K i w'"
    using keeps_send w unfolding keeps_match_def by blast
  then show "\<exists>t'. steps [open_block, each_client i emit_character,
     (\<lambda>t. send_stream_sized i (8 * rmSize (room_of (thWorld t) i)) t)] t = Inr (Next, t') \<and> thread_ok n m K i t'"
    using t len by (simp add: open_block_def each_client_def emit_characters qs_def [symmetric] send_stream_sized_def
        on_server_def sized_def thread_ok_def)
qed

lemma runs_enter_cut_scene: "runs R (thread_ok n m K i) (enter_cut_scene i) (thread_ok n m K i)"
proof -
  have "runs R (talk n m K i 0) (emit_all [Notification 0 EnterCutSceneStage, SetReadyTime (word_of_int BATTLE_READY_TIME), FadeOut 1])
      (talk n m K i 16)" by (rule talk_emit_all) simp_all
  moreover have "runs R (talk n m K i 16) (send_stream i) (thread_ok n m K i)" by (rule talk_send) simp
  ultimately show ?thesis unfolding enter_cut_scene_def send_packets_def
    by (rule runs_Cons [OF talk_open runs_Cons [OF _ runs_Cons [OF _ runs_Nil]]])
qed

lemma runs_all_chosen: "runs (thread_ok n m K i) (thread_ok n m K i) (all_chosen i oc) (thread_ok n m K i)"
proof -
  let ?T = "thread_ok n m K i"
  have fade: "runs ?T ?T (send_packet i (FadeIn 1)) ?T" by (rule runs_thread) simp
  have "runs ?T ?T (steps ([open_block, each_client i emit_character,
      (\<lambda>t. send_stream_sized i (8 * rmSize (room_of (thWorld t) i)) t)] @
      [Sleep, leave_if_stopped i oc, send_packet i (FadeIn 1), Sleep, enter_cut_scene i])) ?T"
    by (rule runs_append [OF runs_all_characters runs_Cons [OF runs_thread(2) runs_Cons [OF runs_thread(3) runs_Cons [OF fade
        runs_Cons [OF runs_thread(2) runs_Cons [OF runs_enter_cut_scene runs_Nil]]]]]])
  then show ?thesis by (simp add: all_chosen_def del: steps.simps)
qed

lemma runs_choose: "p < n \<Longrightarrow> runs R (talk n m K i x) (choose_for p) (talk n m K i (x + 16))"
proof (rule runsI)
  fix t assume p: "p < n" and t: "talk n m K i x t"
  let ?c = "client_of (thWorld t) p"
  let ?c1 = "if clCharacterType ?c = Character_Empty then ?c\<lparr>clCharacterType := Character_Woowakgood\<rparr> else ?c"
  have c1: "client_ok m p ?c1" using talk_client_ok [OF t p] by (auto intro: client_ok_cong)
  show "\<exists>t'. choose_for p t = Inr (Next, t') \<and> talk n m K i (x + 16) t'"
    unfolding choose_for_def Let_def by (rule talk_client [OF t p c1]) simp_all
qed

lemma runs_choice_time_over: "runs (thread_ok n m K i) (thread_ok n m K i) (choice_time_over i oc) (thread_ok n m K i)"
proof -
  let ?T = "thread_ok n m K i"
  have choose: "runs ?T (talk n m K i 0) (each_client i choose_for) (talk n m K i 128)"
    by (rule runs_each_client [OF runs_choose]) simp_all
  have tail: "runs ?T (talk n m K i 128) (emit_all [Notification 0 FinishChoiceCharacterTime, FadeIn 1]) (talk n m K i 140)"
    by (rule talk_emit_all) simp_all
  have sent: "runs ?T (talk n m K i 140) (send_stream i) ?T" by (rule talk_send) simp
  show ?thesis unfolding choice_time_over_def
    by (rule runs_Cons [OF talk_open runs_Cons [OF choose runs_Cons [OF tail runs_Cons [OF sent runs_Cons [OF runs_thread(2)
        runs_Cons [OF runs_thread(3) runs_Cons [OF runs_enter_cut_scene runs_Nil]]]]]]])
qed

lemma runs_give_default: "p < n \<Longrightarrow> runs R (talk n m K i x) (give_default_items p) (talk n m K i (x + 75))"
proof (rule runsI)
  fix t assume p: "p < n" and t: "talk n m K i x t"
  define c where "c = client_of (thWorld t) p"
  have c: "client_ok m p c" using talk_client_ok [OF t p] by (simp add: c_def)
  have add: "client_ok m p (fst (AddItem d k))" if "client_ok m p d" "unat k < 46" for d k
    using that AddItem_ok [of d k] AddItem_spec(4) [OF inventory_ok_shape, of d k]
    by (intro client_ok_not_items [OF that(1)]) (auto simp: client_ok_def)
  define c2 where "c2 = fst (AddItem (fst (AddItem c 1)) 4)"
  have c2: "client_ok m p c2" unfolding c2_def by (rule add [OF add [OF c]]) simp_all
  define c3 where "c3 = SetTicketCount Supreme DEFAULT_ITEM_TICKET_COUNT
                 (SetTicketCount Top DEFAULT_ITEM_TICKET_COUNT
                   (SetTicketCount Advanced DEFAULT_ITEM_TICKET_COUNT
                     (SetTicketCount Normal DEFAULT_ITEM_TICKET_COUNT c2)))"
  have c3: "client_ok m p c3" unfolding c3_def by (intro ticket_client_ok c2)
  show "\<exists>t'. give_default_items p t = Inr (Next, t') \<and> talk n m K i (x + 75) t'"
    unfolding give_default_items_def Let_def c_def [symmetric] c2_def [symmetric] c3_def [symmetric]
    by (rule talk_client [OF t p c3]) (simp_all add: packet_ok_info [OF c2])
qed

lemma runs_cut_scene: "runs (thread_ok n m K i) (thread_ok n m K i) (cut_scene i oc) (thread_ok n m K i)"
proof -
  let ?T = "thread_ok n m K i"
  have scene: "runs ?T ?T (\<lambda>t. if rmIsFinishChoiceCharacter (room_of (thWorld t) i) then all_chosen i oc t
      else choice_time_over i oc t) ?T"
    using runs_all_chosen [of n m K i oc] runs_choice_time_over [of n m K i oc] unfolding runs_def by simp
  have note1: "runs ?T ?T (send_packet i (FadeIn 1)) ?T"
    and note2: "runs ?T ?T (send_packet i (Notification 0 FinishCutSceneStage)) ?T" by (rule runs_thread; simp)+
  show ?thesis unfolding cut_scene_def
    by (rule runs_Cons [OF runs_thread(5)] runs_Cons [OF scene] runs_Cons [OF runs_thread(2)] runs_Cons [OF runs_thread(3)]
        runs_Cons [OF note1] runs_Cons [OF note2] runs_Nil)+
qed

lemma runs_match_opening: "runs (thread_ok n m K i) (thread_ok n m K i) (match_opening i oc) (thread_ok n m K i)"
proof -
  let ?T = "thread_ok n m K i"
  have items: "runs ?T (talk n m K i 0) (each_client i give_default_items) (talk n m K i 600)"
    by (rule runs_each_client [OF runs_give_default]) simp_all
  have sent: "runs ?T (talk n m K i 600) (send_stream i) ?T" by (rule talk_send) simp
  have exit: "runs ?T ?T (exit_if_stopped i oc) ?T" by (simp add: runs_def exit_if_stopped_def)
  show ?thesis unfolding match_opening_def
    by (rule runs_Cons [OF runs_choice runs_Cons [OF runs_cut_scene runs_Cons [OF talk_open runs_Cons [OF items runs_Cons [OF sent
        runs_Cons [OF runs_thread(5) runs_Cons [OF exit runs_Cons [OF runs_thread(2) runs_Nil]]]]]]]])
qed

end
