(* ===== verification/Stepwise.thy ===== *)
theory Stepwise
  imports Tame Match_Safe
begin

text \<open>
  Facts about the stages of a match that follow from facts about their steps: what relates the
  states before and after each step relates them for the stage.  The locale \<open>stage_laws\<close> states the
  laws of a relation between states of the server that every stage respects when the other threads do.
\<close>

section \<open>Steps and relations\<close>

definition within :: "(thread \<Rightarrow> thread \<Rightarrow> bool) \<Rightarrow> step \<Rightarrow> bool" where
  "within R f \<longleftrightarrow> (\<forall>t c t'. f t = Inr (c, t') \<longrightarrow> R t t')"

lemma withinI: "(\<And>t c t'. f t = Inr (c, t') \<Longrightarrow> R t t') \<Longrightarrow> within R f"
  and withinD: "within R f \<Longrightarrow> f t = Inr (c, t') \<Longrightarrow> R t t'"
  by (simp_all add: within_def)

text \<open>Any relation that holds of equal states and can be composed.\<close>

locale stepwise =
  fixes R :: "thread \<Rightarrow> thread \<Rightarrow> bool"
  assumes same: "R t t"
    and further: "R t u \<Longrightarrow> R u v \<Longrightarrow> R t v"
begin

lemma none: "within R (\<lambda>t. Inr (c, t))" "within R (\<lambda>t. Inl e)"
  by (simp_all add: within_def same)

lemma nil: "within R (steps [])"
  by (simp add: within_def same)

lemma cons: "within R f \<Longrightarrow> within R (steps fs) \<Longrightarrow> within R (steps (f # fs))"
  unfolding within_def by (fastforce simp: rbind_Inr_iff intro: further split: if_splits)

lemma appended: "within R (steps fs) \<Longrightarrow> within R (steps gs) \<Longrightarrow> within R (steps (fs @ gs))"
  unfolding within_def by (fastforce simp: steps_append rbind_Inr_iff intro: further split: if_splits)

lemma every: "(\<And>f. f \<in> set fs \<Longrightarrow> within R f) \<Longrightarrow> within R (steps fs)"
  by (induction fs) (simp_all add: nil cons del: steps.simps)

lemma mapped: "(\<And>k. within R (f k)) \<Longrightarrow> within R (steps (map f ks))"
  by (rule every) auto

lemma broken: "within R f \<Longrightarrow> within R (breakable f)"
  by (fastforce simp: within_def breakable_def rbind_Inr_iff)

lemma chosen: "within R f \<Longrightarrow> within R g \<Longrightarrow> within R (\<lambda>t. if P t then f t else g t)"
  by (simp add: within_def)

lemma choice: "within R f \<Longrightarrow> within R g \<Longrightarrow> within R (if b then f else g)"
  by simp

lemma clients: "(\<And>p. within R (f p)) \<Longrightarrow> within R (each_client i f)"
  unfolding within_def each_client_def using mapped [of f] by (simp add: within_def)

lemma places: "(\<And>k. within R (f k)) \<Longrightarrow> within R (each_place pl f)"
  unfolding within_def each_place_def using mapped [of f] by (simp add: within_def)

lemma fighting: "within R f \<Longrightarrow> within R (if_fighting k f)"
  by (auto simp: within_def if_fighting_def rbind_Inr_iff same)

lemma stopping: "within R (leave_if_stopped i oc)" "within R break_if_finished" "within R (break_if_chosen i)"
    "within R (exit_if_stopped i oc)"
  by (simp_all add: within_def leave_if_stopped_def break_if_finished_def break_if_chosen_def exit_if_stopped_def same)

lemma repeated: "within R (steps fs) \<Longrightarrow> within R (steps (concat (replicate n fs)))"
  by (induction n) (simp_all add: nil appended del: steps.simps)

lemma copies: "within R f \<Longrightarrow> within R (steps (replicate n f))"
  by (rule every) (auto split: if_splits)

lemma valued: "within R f \<Longrightarrow> stage_value (f t) = Inr (b, t') \<Longrightarrow> R t t'"
  by (auto simp: stage_value_def rbind_Inr_iff within_def)

lemma staged: "(\<And>t b t'. f t = Inr (b, t') \<Longrightarrow> R t t') \<Longrightarrow> within R (stage f)"
  by (auto simp: within_def stage_def rbind_Inr_iff)

lemmas rules = cons nil appended mapped broken chosen choice clients places fighting stopping copies none

end

section \<open>Relations of the server\<close>

text \<open>What another thread does respects a relation.  No avatar has more than six items.\<close>

definition obeys :: "(world \<Rightarrow> world \<Rightarrow> bool) \<Rightarrow> (world \<Rightarrow> world result) \<Rightarrow> bool" where
  "obeys L f \<longleftrightarrow> (\<forall>w w'. f w = Inr w' \<longrightarrow> L w w')"

definition six :: "avatar \<Rightarrow> bool" where
  "six a \<longleftrightarrow> length (avUsingItem a) \<le> 6"

definition able :: "(world \<Rightarrow> world \<Rightarrow> bool) \<Rightarrow> thread \<Rightarrow> bool" where
  "able L t \<longleftrightarrow> list_all (obeys L) (thOthers t) \<and> list_all six (thAvatars t)"

definition carries :: "(world \<Rightarrow> world \<Rightarrow> bool) \<Rightarrow> thread \<Rightarrow> thread \<Rightarrow> bool" where
  "carries L t t' \<longleftrightarrow> (able L t \<longrightarrow> able L t' \<and> L (thWorld t) (thWorld t'))"

text \<open>Most steps keep whom the avatars stand for, and whose fight is over, as well; and strike nobody off the list.\<close>

definition frames :: "(world \<Rightarrow> world \<Rightarrow> bool) \<Rightarrow> thread \<Rightarrow> thread \<Rightarrow> bool" where
  "frames L t t' \<longleftrightarrow> carries L t t' \<and> map core (thAvatars t') = map core (thAvatars t) \<and> set (thLeavers t) \<subseteq> set (thLeavers t')"

text \<open>
  The laws: updates that keep seats, clients that leave, changes of the room of the match that keep its
  members, and the two kinds of wounds.
\<close>

locale stage_laws =
  fixes i :: nat and L :: "world \<Rightarrow> world \<Rightarrow> bool"
  assumes law_refl [simp]: "L w w"
    and law_trans: "L u v \<Longrightarrow> L v w \<Longrightarrow> L u w"
    and law_guard: "(world_ok w \<Longrightarrow> L w w') \<Longrightarrow> L w w'"
    and law_still: "still w w' \<Longrightarrow> L w w'"
    and law_leave: "Disconnect n told w = Inr w' \<Longrightarrow> L w w'"
    and law_room: "(\<And>n. room_ok n (room_of w i) \<Longrightarrow> room_ok n r) \<Longrightarrow> rmClients r = rmClients (room_of w i) \<Longrightarrow>
      rmOpenCount r = rmOpenCount (room_of w i) \<Longrightarrow> rmBattleOpponents r = rmBattleOpponents (room_of w i) \<Longrightarrow>
      rmRound r = rmRound (room_of w i) \<Longrightarrow> rmIsFinishThread r = rmIsFinishThread (room_of w i) \<Longrightarrow> L w (set_room i r w)"
    and law_wound: "wound i a b w = Inr (a', w') \<Longrightarrow> six b \<Longrightarrow> L w w'"
    and law_timed: "ToDamageCharacter (i32 (10 + i32 (rmRound (room_of w i) * 2))) True a w = Inr (a', w') \<Longrightarrow> L w w'"

sublocale stage_laws \<subseteq> ca: stepwise "carries L"
proof
  show "carries L t t" for t by (simp add: carries_def law_refl)
  show "carries L t v" if "carries L t u" "carries L u v" for t u v
    using that law_trans unfolding carries_def by blast
qed

sublocale stage_laws \<subseteq> fr: stepwise "frames L"
proof
  show "frames L t t" for t by (simp add: frames_def ca.same)
  show "frames L t v" if "frames L t u" "frames L u v" for t u v
    using that ca.further unfolding frames_def by force
qed

lemma frames_carries: "within (frames L) f \<Longrightarrow> within (carries L) f"
  by (simp add: within_def frames_def)

lemma six_core: "core a = core b \<Longrightarrow> six a = six b"
  by (simp add: core_def six_def)

lemma six_cores: "map core avs' = map core avs \<Longrightarrow> list_all six avs' = list_all six avs"
proof -
  have "six = (\<lambda>c. snd (snd (snd (snd (snd (snd c))))) \<le> 6) \<circ> core" by (simp add: fun_eq_iff core_def six_def)
  then show "map core avs' = map core avs \<Longrightarrow> list_all six avs' = list_all six avs" by (metis list.pred_map)
qed

lemma carriesI:
  assumes "L (thWorld t) (thWorld t')" and "thOthers t' = thOthers t" and "list_all six (thAvatars t) \<Longrightarrow> list_all six (thAvatars t')"
  shows "carries L t t'"
  using assms by (simp add: carries_def able_def)

lemma framesI:
  assumes "L (thWorld t) (thWorld t')" and "thOthers t' = thOthers t" and "map core (thAvatars t') = map core (thAvatars t)"
    and "set (thLeavers t) \<subseteq> set (thLeavers t')"
  shows "frames L t t'"
  using assms six_cores [OF assms(3)] by (simp add: frames_def carriesI)

end
