(* ===== verification/Step_Laws.thy ===== *)
theory Step_Laws
  imports Stepwise
begin

text \<open>
  The steps that the stages share respect every relation with the laws of \<open>stage_laws\<close>.
\<close>

section \<open>Steps on the server\<close>

context stage_laws
begin

lemma law_sent: "sent_only w w' \<Longrightarrow> L w w'"
  using law_still still_sent by blast

lemma law_rng [simp]: "L w (w\<lparr>wRng := r\<rparr>)"
  by (rule law_still) simp

lemma law_seat:
  "seat c = seat (client_of w p) \<Longrightarrow> (\<And>n. client_ok n p (client_of w p) \<Longrightarrow> client_ok n p c) \<Longrightarrow> L w (set_client p c w)"
  by (rule law_still) (rule still_set_client)

lemma fr_server: "(\<And>w w'. f w = Inr w' \<Longrightarrow> L w w') \<Longrightarrow> within (frames L) (on_server f)"
  by (auto simp: within_def on_server_def rbind_Inr_iff intro!: framesI)

lemma fr_Sleep: "within (frames L) Sleep"
proof (rule withinI)
  fix t c t' assume s: "Sleep t = Inr (c, t')"
  show "frames L t t'"
  proof (cases "thOthers t")
    case Nil
    then show ?thesis using s by (simp add: Sleep_def fr.same)
  next
    case (Cons f fs)
    then obtain w where "f (thWorld t) = Inr w" "t' = t\<lparr>thWorld := w, thOthers := fs\<rparr>"
      using s by (auto simp: Sleep_def rbind_Inr_iff)
    then show ?thesis using Cons by (auto simp: frames_def carries_def able_def obeys_def)
  qed
qed

lemma fr_locals:
  "within (frames L) (emit p)" "within (frames L) (emit_all ps)" "within (frames L) count_item"
  "within (frames L) emit_time" "within (frames L) (\<lambda>t. emit_all (g t) t)"
  by (auto simp: within_def emit_def emit_all_def count_item_def emit_time_def rbind_Inr_iff intro!: framesI)

lemma fr_send:
  "within (frames L) (send_stream j)" "within (frames L) (send_packet j p)" "within (frames L) (send_stream_sized j n)"
  "within (frames L) (send_if_any j)"
proof -
  have s: "within (frames L) (on_server (SendToAll j bytes))" for bytes
    by (rule fr_server) (blast intro: law_sent send_sent(1))
  have ss: "within (frames L) (on_server (SendStreamToAllClients j ps))" for ps
    using s [of "stream ps"] by (simp add: SendStreamToAllClients_def [abs_def])
  then show st: "within (frames L) (send_stream j)"
    by (auto simp: within_def send_stream_def)
  show "within (frames L) (send_packet j p)"
    using s [of "Packet_Write p"] by (simp add: send_packet_def SendPacketToAllClients_def [abs_def])
  have "within (frames L) (on_server (\<lambda>w. rbind (sized bytes n) (\<lambda>bytes. SendToAll j bytes w)))" for bytes
    by (rule fr_server) (auto simp: rbind_Inr_iff intro: law_sent send_sent(1))
  then show "within (frames L) (send_stream_sized j n)" by (auto simp: within_def send_stream_sized_def)
  show "within (frames L) (send_if_any j)" using st by (auto simp: within_def send_if_any_def fr.same)
qed

lemma fr_room:
  assumes "\<And>n r. room_ok n r \<Longrightarrow> room_ok n (f r)" and "\<And>r. rmClients (f r) = rmClients r"
    and "\<And>r. rmOpenCount (f r) = rmOpenCount r" and "\<And>r. rmBattleOpponents (f r) = rmBattleOpponents r"
    and "\<And>r. rmRound (f r) = rmRound r" and "\<And>r. rmIsFinishThread (f r) = rmIsFinishThread r"
  shows "within (frames L) (on_room i f)"
  unfolding on_room_def using assms by (intro fr_server) (auto intro!: law_room)

lemma fr_status: "within (frames L) (set_status i st)"
  unfolding set_status_def by (rule fr_room) (simp_all add: room_ok_def)

lemma fr_Disconnect: "within (frames L) (on_server (Disconnect n b))"
  by (rule fr_server) (rule law_leave)

lemma fr_dismiss: "within (frames L) (dismiss i)"
proof -
  have "within (frames L) (steps
      ([emit_all ps, (\<lambda>t. if thStream t \<noteq> [] then steps [send_stream i, Sleep] t else Inr (Next, t))] @
       map (\<lambda>n. on_server (Disconnect n False)) gone))" for ps gone
    by (intro fr.rules fr_locals fr_send fr_Sleep fr_Disconnect)
  then show ?thesis by (simp add: within_def dismiss_def Let_def)
qed

lemma fr_finish: "within (frames L) (finish_stage i oc)"
proof -
  have "within (frames L) (steps [send_packet i (Notification n DisconnectServer), Sleep, on_server (Disconnect n False)])" for n
    by (intro fr.rules fr_send fr_Sleep fr_Disconnect)
  then have "within (frames L) (\<lambda>t. case rmClients (room_of (thWorld t) i) of
             [p] \<Rightarrow>
               (let n = clNetworkID (client_of (thWorld t) p)
                in steps [send_packet i (Notification n DisconnectServer), Sleep,
                          on_server (Disconnect n False)] t)
           | _ \<Rightarrow> Inr (Next, t))"
    by (auto simp: within_def Let_def fr.same split: list.splits)
  then show ?thesis unfolding finish_stage_def by (intro fr.rules fr_Sleep fr_send)
qed

lemma ca_open: "within (carries L) open_block"
  by (auto simp: within_def open_block_def intro!: carriesI)

lemma ca_packets: "within (carries L) (send_packets j ps)"
  unfolding send_packets_def by (intro ca.rules ca_open frames_carries fr_locals fr_send)

lemmas fr_steps = fr_Sleep fr_locals fr_send fr_status fr_dismiss fr_finish
lemmas ca_steps = ca_open ca_packets fr_steps [THEN frames_carries]

end

section \<open>Avatars\<close>

lemma put_pair_simps [simp]:
  "thWorld (put_pair k a l b t) = thWorld t" "thOthers (put_pair k a l b t) = thOthers t"
  "thAvatars (put_pair k a l b t) = (thAvatars t)[k := a, l := b]" "thLeavers (put_pair k a l b t) = thLeavers t"
  by (simp_all add: put_pair_def)

lemma with_pairD: "with_pair k l f t = Inr x \<Longrightarrow>
    k < length (thAvatars t) \<and> l < length (thAvatars t) \<and> f (thAvatars t ! k) (thAvatars t ! l) t = Inr x"
  by (auto simp: with_pair_def rbind_Inr_iff)

lemma core_bleeding: "core (EffectBleeding a) = core a" and core_bomb: "core (InitCycle (EffectBomb a)) = core a"
  and core_ToDamage: "core (ToDamage n a b) = core b" and core_ToHeal: "core (ToHeal n a) = core a"
  by (simp_all add: core_def EffectBleeding_def InitCycle_def EffectBomb_def ToDamage_def ToHeal_def Let_def)

lemma core_counter: "EffectCounter a b = (a', b') \<Longrightarrow> core a' = core a \<and> core b' = core b"
  by (auto simp: EffectCounter_def Let_def core_def ToDamage_def ToHeal_def split: if_splits)

text \<open>What changes two avatars within their frames.\<close>

definition paired :: "nat \<Rightarrow> nat \<Rightarrow> thread \<Rightarrow> thread \<Rightarrow> bool" where
  "paired k l t t' \<longleftrightarrow> k < length (thAvatars t) \<and> l < length (thAvatars t) \<and>
     (\<exists>a b ps w. core a = core (thAvatars t ! k) \<and> core b = core (thAvatars t ! l) \<and> still (thWorld t) w \<and>
       t' = put_pair k a l b (t\<lparr>thWorld := w, thStream := ps\<rparr>))"

lemma put_pair_same: "k < length (thAvatars t) \<Longrightarrow> l < length (thAvatars t) \<Longrightarrow> put_pair k (thAvatars t ! k) l (thAvatars t ! l) t = t"
  by (simp add: put_pair_def)

lemma paired_stream: "k < length (thAvatars t) \<Longrightarrow> l < length (thAvatars t) \<Longrightarrow> paired k l t (t\<lparr>thStream := ps\<rparr>)"
  unfolding paired_def using put_pair_same [of k "t\<lparr>thStream := ps\<rparr>" l]
  by (intro conjI exI [of _ "thAvatars t ! k"] exI [of _ "thAvatars t ! l"] exI [of _ ps] exI [of _ "thWorld t"]) simp_all

lemma paired_same: "k < length (thAvatars t) \<Longrightarrow> l < length (thAvatars t) \<Longrightarrow> paired k l t t"
  using paired_stream [of k t l "thStream t"] by simp

lemma paired_put: "k < length (thAvatars t) \<Longrightarrow> l < length (thAvatars t) \<Longrightarrow> core a = core (thAvatars t ! k) \<Longrightarrow>
    core b = core (thAvatars t ! l) \<Longrightarrow> paired k l t (put_pair k a l b t)"
  unfolding paired_def by (intro conjI exI [of _ a] exI [of _ b] exI [of _ "thStream t"] exI [of _ "thWorld t"]) simp_all

lemma paired_parts:
  "within (paired k l) (counter_attack slot k l)" "within (paired k l) (bleed k l)" "within (paired k l) (emit_infos k l)"
  "within (paired k l) (end_cycle k l)"
  unfolding within_def counter_attack_def bleed_def emit_infos_def end_cycle_def
  by (auto simp: rbind_Inr_iff emit_all_def core_bleeding core_bomb dest!: with_pairD dest: core_counter
      split: if_splits prod.splits intro!: paired_put paired_stream paired_same)

lemma activate_paired: "activate index k l t = Inr (slot, t') \<Longrightarrow> paired k l t t'"
proof -
  assume "activate index k l t = Inr (slot, t')"
  then obtain s where kl: "k < length (thAvatars t)" "l < length (thAvatars t)"
    and s: "ActiveItem index \<lparr>fxMe = thAvatars t ! k, fxOpponents = thAvatars t ! l, fxWorld = thWorld t\<rparr> = Inr (slot, s)"
    and t': "t' = put_pair k (fxMe s) l (fxOpponents s) (t\<lparr>thWorld := fxWorld s\<rparr>)"
    by (auto simp: activate_def rbind_Inr_iff)
  then have "t' = put_pair k (fxMe s) l (fxOpponents s) (t\<lparr>thWorld := fxWorld s, thStream := thStream t\<rparr>)" by simp
  then show "paired k l t t'"
    using kl ActiveItem_tame [OF s] unfolding paired_def by (metis fx.select_convs)
qed

lemma cores_update: "core a = core (avs ! k) \<Longrightarrow> map core (avs[k := a]) = map core avs"
  by (cases "k < length avs") (simp_all add: map_update list_update_same_conv list_update_beyond)

context stage_laws
begin

lemma paired_frames: "paired k l t t' \<Longrightarrow> frames L t t'"
proof -
  assume "paired k l t t'"
  then obtain a b ps w where kl: "k < length (thAvatars t)" "l < length (thAvatars t)"
    and ab: "core a = core (thAvatars t ! k)" "core b = core (thAvatars t ! l)" and w: "still (thWorld t) w"
    and t': "t' = put_pair k a l b (t\<lparr>thWorld := w, thStream := ps\<rparr>)"
    unfolding paired_def by blast
  have "map core ((thAvatars t)[k := a, l := b]) = map core (thAvatars t)"
    using ab by (simp add: map_update list_update_same_conv kl)
  then show ?thesis using w by (auto simp: t' intro!: framesI law_still)
qed

lemma fr_pair:
  "within (frames L) (counter_attack slot k l)" "within (frames L) (bleed k l)" "within (frames L) (emit_infos k l)"
  "within (frames L) (end_cycle k l)"
  using paired_parts [of k l] paired_frames unfolding within_def by blast+

lemma fr_activate: "activate index k l t = Inr (slot, t') \<Longrightarrow> frames L t t'"
  using activate_paired paired_frames by blast

end

end
