(* ===== verification/Stage_Laws.thy ===== *)
theory Stage_Laws
  imports Step_Laws
begin

text \<open>
  Every stage respects a relation with the laws of \<open>stage_laws\<close>: its parts are looked at one by one,
  and the rules of \<open>stepwise\<close> put them together.
\<close>

section \<open>Wounds\<close>

lemma damage_loop_bound:
  "damage_loop acc its = Inr d \<Longrightarrow> 0 \<le> acc \<Longrightarrow> acc + 5 * int (length its) \<le> 1000 \<Longrightarrow> 0 \<le> d \<and> d \<le> acc + 5 * int (length its)"
proof (induction acc its arbitrary: d rule: damage_loop.induct)
  case (1 acc)
  then show ?case by simp
next
  case (2 acc it its)
  have tier: "tier_num x \<le> 4" for x by (cases x) simp_all
  show ?case
  proof (cases "mType it = EMPTY_ITEM")
    case True
    then show ?thesis using 2 by force
  next
    case False
    then obtain ib where ib: "at_idx sItems (unat (mType it)) = Inr ib"
      "damage_loop (i32 (acc + (int (tier_num (ibTIER_TYPE ib)) + 1))) its = Inr d"
      using 2(3) by (auto simp: rbind_Inr_iff)
    have t: "int (tier_num (ibTIER_TYPE ib)) \<le> 4" using tier by simp
    then have e: "i32 (acc + (int (tier_num (ibTIER_TYPE ib)) + 1)) = acc + (int (tier_num (ibTIER_TYPE ib)) + 1)"
      using 2(4,5) by (intro i32_id) (simp_all add: INT_MIN_def INT_MAX_def)
    have "0 \<le> d \<and> d \<le> acc + (int (tier_num (ibTIER_TYPE ib)) + 1) + 5 * int (length its)"
      using 2(1) [OF False, of ib d] ib(2) 2(4,5) t unfolding e by simp
    then show ?thesis using t by simp
  qed
qed

lemma GetDamage_bound: "six b \<Longrightarrow> GetDamage b = Inr d \<Longrightarrow> 0 \<le> d \<and> d \<le> 30"
  using damage_loop_bound [of 0 "avUsingItem b" d] by (auto simp: GetDamage_def six_def)

lemma ToDamageCharacter_wounded: "ToDamageCharacter d force a w = Inr (a', w') \<Longrightarrow> wounded a a'"
  by (auto simp: ToDamageCharacter_def wounded_def split: if_splits option.splits)

lemma wound_wounded: "wound i a b w = Inr (a', w') \<Longrightarrow> wounded a a'"
  using ToDamageCharacter_wounded by (auto simp: wound_def rbind_Inr_iff)

lemma wounded_six: "wounded a a' \<Longrightarrow> six a' = six a"
  by (auto simp: wounded_def six_def)

lemma six_SetFinish [simp]: "six (SetFinish a) = six a"
  by (simp add: six_def SetFinish_def)

lemma six_at: "list_all six avs \<Longrightarrow> k < length avs \<Longrightarrow> six (avs ! k)"
  and six_put: "list_all six avs \<Longrightarrow> six a \<Longrightarrow> six b \<Longrightarrow> list_all six (avs[k := a, l := b])"
  by (auto simp: list_all_iff dest!: set_update_subset_insert [THEN subsetD])

text \<open>The avatars the stages make, and what prepares them.\<close>

lemma IncreaseItemTicket_still: "IncreaseItemTicket ty n av w = Inr (v, w') \<Longrightarrow> still w w'"
  by (auto simp: IncreaseItemTicket_def Let_def ticket_client_ok split: if_splits option.splits intro!: still_set_client)

lemma make_avatars_six: "make_avatars i os w = Inr avs \<Longrightarrow> list_all six avs"
  by (induction os arbitrary: avs) (auto simp: rbind_Inr_iff Let_def SetAvatar_def six_def split: if_splits)

lemma creep_items_six: "length (creep_items c) \<le> 6"
  by (cases c) simp_all

lemma make_creep_avatars_six: "make_creep_avatars i cm ps w = Inr avs \<Longrightarrow> six cm \<Longrightarrow> list_all six avs"
  by (induction ps arbitrary: avs) (auto simp: rbind_Inr_iff Let_def SetAvatar_def six_def split: if_splits)

lemma framed_Fitment: "core (Fitment code u a) = core a"
  by (simp add: Fitment_def core_def ToDefensive_def more_hp_def SetMaxHP_def first_attack_def Let_def
      Item006_Fitment_def Item007_Fitment_def Item015_Fitment_def Item016_Fitment_def Item023_Fitment_def Item027_Fitment_def
      Item030_Fitment_def Item032_Fitment_def Item036_Fitment_def Item037_Fitment_def)

lemma fit_loop_core: "fit_loop its a = Inr a' \<Longrightarrow> core a' = core a"
  by (induction its a rule: fit_loop.induct) (auto simp: framed_Fitment split: if_splits)

text \<open>A step that was taken by a thread whose avatars have at most six items.\<close>

context stage_laws
begin

lemma carries_able:
  assumes "able L t \<Longrightarrow> L (thWorld t) (thWorld t') \<and> thOthers t' = thOthers t \<and> list_all six (thAvatars t')"
  shows "carries L t t'"
  using assms by (auto simp: carries_def able_def)

lemma able_pair: "able L t \<Longrightarrow> k < length (thAvatars t) \<Longrightarrow> six (thAvatars t ! k)"
  by (simp add: able_def six_at)

lemma ca_settle: "within (carries L) (settle i k l)"
proof (rule withinI)
  fix t c t' assume s: "settle i k l t = Inr (c, t')"
  let ?a = "thAvatars t ! k" and ?b = "thAvatars t ! l"
  have kl: "k < length (thAvatars t)" "l < length (thAvatars t)" using s with_pairD unfolding settle_def by blast+
  show "carries L t t'"
  proof (cases "avHp ?a = 0 \<or> avHp ?b = 0")
    case False
    then show ?thesis using s with_pairD [OF s [unfolded settle_def]] by (simp add: ca.same)
  next
    case True
    then obtain a1 w1 b1 w2 ls where w: "wound i ?a ?b (thWorld t) = Inr (a1, w1)" "wound i ?b a1 w1 = Inr (b1, w2)"
      and t': "t' = put_pair k (SetFinish a1) l (SetFinish b1) (t\<lparr>thWorld := w2, thLeavers := ls\<rparr>)"
      using with_pairD [OF s [unfolded settle_def]] by (auto simp: rbind_Inr_iff)
    show ?thesis
    proof (rule carries_able)
      assume ok: "able L t"
      note ab = able_pair [OF ok kl(1)] able_pair [OF ok kl(2)]
      have a1: "six a1" using wounded_six [OF wound_wounded [OF w(1)]] ab(1) by simp
      have "six b1" using wounded_six [OF wound_wounded [OF w(2)]] ab(2) by simp
      then show "L (thWorld t) (thWorld t') \<and> thOthers t' = thOthers t \<and> list_all six (thAvatars t')"
        using law_trans [OF law_wound [OF w(1) ab(2)] law_wound [OF w(2) a1]] a1 ok
        by (simp add: t' able_def six_put)
    qed
  qed
qed

lemma ca_time_up: "within (carries L) (time_up_pair i k)" "within (carries L) (time_up_player i k)"
proof -
  show "within (carries L) (time_up_pair i k)"
  proof (rule withinI)
    fix t c t' assume s: "time_up_pair i k t = Inr (c, t')"
    let ?a = "thAvatars t ! k" and ?b = "thAvatars t ! (k + 1)"
    let ?d = "\<lambda>w. i32 (10 + i32 (rmRound (room_of w i) * 2))"
    note p = with_pairD [OF s [unfolded time_up_pair_def]]
    then obtain a1 w1 b1 w2 ls where w: "ToDamageCharacter (?d (thWorld t)) True ?a (thWorld t) = Inr (a1, w1)"
        "ToDamageCharacter (?d w1) True ?b w1 = Inr (b1, w2)"
      and t': "t' = put_pair k a1 (k + 1) b1 (t\<lparr>thWorld := w2, thLeavers := ls\<rparr>)"
      by (auto simp: rbind_Inr_iff Let_def)
    have "wounded ?a a1" "wounded ?b b1" using w ToDamageCharacter_wounded by blast+
    moreover have "L (thWorld t) w2" using law_timed w law_trans by blast
    ultimately show "carries L t t'"
      using p wounded_six by (intro carries_able) (auto simp: t' able_def intro!: six_put six_at)
  qed
  show "within (carries L) (time_up_player i k)"
    by (auto simp: within_def time_up_player_def rbind_Inr_iff able_def wounded_six
        dest: law_timed ToDamageCharacter_wounded intro!: carries_able simp: list_all_length nth_list_update)
qed

section \<open>Monsters\<close>

lemma law_after_draw: "still (w\<lparr>wRng := r\<rparr>) w' \<Longrightarrow> L w w'"
  using law_trans [of w "w\<lparr>wRng := r\<rparr>" w'] law_still [of w "w\<lparr>wRng := r\<rparr>"] law_still [of "w\<lparr>wRng := r\<rparr>" w'] by simp

lemma ca_reward: "reward_player i player creep t = Inr (c, t') \<Longrightarrow>
    L (thWorld t) (thWorld t') \<and> thOthers t' = thOthers t \<and> thAvatars t' = thAvatars t"
  by (auto simp: reward_player_def rbind_Inr_iff Let_def emit_def split: if_splits prod.splits
      dest!: IncreaseItemTicket_still law_after_draw)

lemma ca_end_fight:
  assumes "end_creep_fight i k player creep w t = Inr (c, t')"
  shows "L w (thWorld t') \<and> thOthers t' = thOthers t \<and>
    thAvatars t' = (thAvatars t)[k := SetFinish player, k + 1 := SetFinish creep]"
  using assms by (auto simp: end_creep_fight_def rbind_Inr_iff dest!: ca_reward)

text \<open>In either order.\<close>

lemma ca_fight:
  assumes w: "wound i a b (thWorld t) = Inr (a1, w1)" "wound i b a1 w1 = Inr (b1, w2)"
    and ab: "six a" "six b" and x: "x = a1 \<and> y = b1 \<or> x = b1 \<and> y = a1"
    and e: "end_creep_fight i k x y w2 t = Inr (c, t')"
  shows "carries L t t'"
proof (rule carries_able)
  assume ok: "able L t"
  have a1: "six a1" using wounded_six [OF wound_wounded [OF w(1)]] ab(1) by simp
  moreover have "six b1" using wounded_six [OF wound_wounded [OF w(2)]] ab(2) by simp
  ultimately show "L (thWorld t) (thWorld t') \<and> thOthers t' = thOthers t \<and> list_all six (thAvatars t')"
    using law_trans [OF law_trans [OF law_wound [OF w(1) ab(2)] law_wound [OF w(2) a1]], of "thWorld t'"]
      ca_end_fight [OF e] x ok by (auto simp: able_def intro!: six_put)
qed

lemma ca_settle_creep: "within (carries L) (settle_player i k)" "within (carries L) (settle_creep i k)"
proof -
  have s: "carries L t t'" if "able L t \<Longrightarrow> carries L t t'" for t t' using that by (auto simp: carries_def)
  show "within (carries L) (settle_player i k)"
  proof (rule withinI, rule s)
    fix t c t' assume f: "settle_player i k t = Inr (c, t')" and ok: "able L t"
    note p = with_pairD [OF f [unfolded settle_player_def]]
    then show "carries L t t'"
      using able_pair [OF ok] by (auto simp: rbind_Inr_iff ca.same split: if_splits intro: ca_fight)
  qed
  show "within (carries L) (settle_creep i k)"
  proof (rule withinI, rule s)
    fix t c t' assume f: "settle_creep i k t = Inr (c, t')" and ok: "able L t"
    note p = with_pairD [OF f [unfolded settle_creep_def]]
    then show "carries L t t'"
      using able_pair [OF ok] by (auto simp: rbind_Inr_iff ca.same split: if_splits intro: ca_fight)
  qed
qed

section \<open>Avatars\<close>

lemma ca_set_up: "within (carries L) (set_up_avatars i)" "within (carries L) (set_up_creep_avatars i)"
proof -
  show "within (carries L) (set_up_avatars i)"
    by (auto simp: within_def set_up_avatars_def rbind_Inr_iff intro!: carriesI dest: make_avatars_six)
  show "within (carries L) (set_up_creep_avatars i)"
    by (auto simp: within_def set_up_creep_avatars_def rbind_Inr_iff GetCreepMonster_def Let_def six_def SetMaxHP_def
        creep_items_six room_ok_def intro!: carriesI law_room dest!: make_creep_avatars_six)
qed

lemma fr_fit: "within (frames L) (fit k)"
  unfolding within_def fit_def
  by (auto simp: rbind_Inr_iff FitmentEffect_def cores_update intro!: framesI dest!: fit_loop_core)

lemma fr_hamburger: "draw_hamburger k j a n t = Inr (c, t') \<Longrightarrow> a = thAvatars t ! k \<Longrightarrow> frames L t t'"
  by (auto simp: draw_hamburger_def Let_def emit_def core_def cores_update intro!: framesI split: prod.splits)

lemma fr_copy: "copy_item k j a t = Inr (c, t') \<Longrightarrow> a = thAvatars t ! k \<Longrightarrow> frames L t t'"
  by (auto simp: copy_item_def rbind_Inr_iff Let_def emit_def core_def cores_update intro!: framesI split: prod.splits)

lemma fr_prepare: "within (frames L) (prepare k)" "within (frames L) (prepare_creep k)"
proof -
  have s: "within (frames L) (prepare_slot k j)" "within (frames L) (prepare_creep_slot k j)" for j
    by (auto simp: within_def prepare_slot_def prepare_creep_slot_def rbind_Inr_iff fr.same
        split: if_splits intro: fr_hamburger fr_copy)
  show "within (frames L) (prepare k)" "within (frames L) (prepare_creep k)"
    unfolding prepare_def prepare_creep_def by (intro fr.rules fr_fit s)+
qed

lemma fr_order: "within (frames L) (draw_order k)"
  unfolding within_def draw_order_def
  by (auto simp: rbind_Inr_iff Let_def SetActiveQueue_def core_def cores_update case_prod_unfold intro!: framesI split: if_splits)

lemma fr_emits: "within (frames L) (emit_info k)" "within (frames L) (emit_active k slot)" "within (frames L) (emit_creep_active k slot)"
    "within (frames L) (emit_init_slot ident k)"
  unfolding within_def emit_info_def emit_active_def emit_creep_active_def emit_init_slot_def
  by (auto simp: rbind_Inr_iff emit_def intro!: framesI)

lemma ca_line_up: "within (carries L) (line_up i k)"
proof (rule withinI)
  fix t c t' assume s: "line_up i k t = Inr (c, t')"
  note p = with_pairD [OF s [unfolded line_up_def]]
  then show "carries L t t'"
    by (intro carries_able) (auto simp: rbind_Inr_iff Let_def able_def split: if_splits intro!: six_put six_at)
qed

section \<open>Battles\<close>

lemmas ca_parts = ca_settle ca_time_up ca_settle_creep ca_set_up ca_line_up
  fr_pair [THEN frames_carries] fr_prepare [THEN frames_carries] fr_order [THEN frames_carries] fr_emits [THEN frames_carries]

lemma ca_turn: 
  assumes "\<And>slot. within (carries L) (steps (f slot))"
  shows "within (carries L) (if_fighting k (\<lambda>t. rbind (activate index k l t) (\<lambda>(slot, t1). steps (f slot) t1)))"
proof (rule ca.fighting)
  have "carries L t t'" if "activate index k l t = Inr (slot, t1)" "steps (f slot) t1 = Inr (c, t')" for t t1 t' c slot
    using fr_activate [OF that(1)] withinD [OF assms that(2)] ca.further unfolding frames_def by blast
  then show "within (carries L) (\<lambda>t. rbind (activate index k l t) (\<lambda>(slot, t1). steps (f slot) t1))"
    by (auto simp: within_def rbind_Inr_iff simp del: steps.simps)
qed

lemma ca_battle_turn: "within (carries L) (battle_turn i index k l)"
  unfolding battle_turn_def by (rule ca_turn) (intro ca.rules ca_parts)

lemma ca_battle_half: "within (carries L) (battle_half i index pl other)"
  unfolding battle_half_def by (intro ca.rules ca_steps ca_battle_turn)

lemma ca_battle_index: "within (carries L) (battle_index i oc index)"
  unfolding battle_index_def by (intro ca.rules ca_steps ca_battle_half)

lemma ca_battle_cycle: "within (carries L) (battle_cycle i oc)"
  unfolding battle_cycle_def battle_cycle_end_def by (intro ca.rules ca_steps ca_parts ca_battle_index)

lemma ca_BattleStage: "within (carries L) (stage (BattleStage i))"
proof -
  have "within (carries L) (steps
        [set_status i St_BattleStage, battle_prologue i oc,
         breakable (steps (replicate 10 (battle_cycle i oc) @ [battle_time_up i])),
         finish_stage i oc])" for oc
    unfolding battle_prologue_def battle_time_up_def
    by (intro ca.rules ca.copies ca_steps ca_parts ca_battle_cycle)
  then show ?thesis by (intro ca.staged) (auto simp: BattleStage_def Let_def intro: ca.valued simp del: steps.simps)
qed

section \<open>Fights against monsters\<close>

lemma ca_creep_turns: "within (carries L) (player_turn i index k)" "within (carries L) (creep_turn i index k)"
  unfolding player_turn_def creep_turn_def by (rule ca_turn, intro ca.rules ca_parts)+

lemma ca_creep_index: "within (carries L) (creep_index i oc index)"
  unfolding creep_index_def creep_half_def by (intro ca.rules ca_steps ca_creep_turns)

lemma ca_creep_cycle: "within (carries L) (creep_cycle i oc)"
  unfolding creep_cycle_def creep_cycle_end_def by (intro ca.rules ca_steps ca_parts ca_creep_index)

lemma ca_CreepStage: "within (carries L) (stage (CreepStage i))"
proof -
  have s: "within (carries L) (steps [set_up_creep_avatars i, open_block, emit_all ps])" for ps
    by (intro ca.rules ca_steps ca_parts)
  then have u: "within (carries L) (\<lambda>t. let curCreepType = GetCurCreepType (room_of (thWorld t) i)
           in steps [set_up_creep_avatars i, open_block,
                emit_all [Notification 0 EnterCreepStage, CreepStageInfo curCreepType]] t)"
    by (simp add: within_def Let_def del: steps.simps)
  have "within (carries L) (steps
        [set_status i St_CreepStage, creep_prologue i oc,
         breakable (steps (replicate 10 (creep_cycle i oc) @ [creep_time_up i])),
         finish_stage i oc])" for oc
    unfolding creep_prologue_def creep_time_up_def
    by (intro ca.rules ca.copies u ca_steps ca_parts ca_creep_cycle)
  then show ?thesis by (intro ca.staged) (auto simp: CreepStage_def Let_def intro: ca.valued simp del: steps.simps)
qed

end

end
