(* ===== verification/Match_Laws.thy ===== *)
theory Match_Laws
  imports Stage_Laws
begin

text \<open>
  The ready stages and what comes before the first round respect a relation with the laws of
  \<open>stage_laws\<close>, too.
\<close>

section \<open>Clients\<close>

context stage_laws
begin

text \<open>An update of one client that keeps its seat.\<close>

lemma fr_client:
  assumes "\<And>w. world_ok w \<Longrightarrow> p < length (wClients w) \<Longrightarrow> seat (f w) = seat (client_of w p) \<and> client_ok (length (wRooms w)) p (f w)"
  shows "L w (set_client p (f w) w)"
proof (rule law_guard)
  assume ok: "world_ok w"
  show "L w (set_client p (f w) w)"
  proof (cases "p < length (wClients w)")
    case False
    then show ?thesis by (simp add: set_client_def list_update_beyond)
  next
    case True
    note f = assms [OF ok True]
    have "world_ok (set_client p (f w) w)" using ok f world_ok_set_client [OF _ True] by auto
    moreover have "quiet w (set_client p (f w) w)" by (rule quiet_set_client [OF quiet_simps(1)]) (use f in simp)
    ultimately show ?thesis by (intro law_still) (simp add: still_def)
  qed
qed

lemma fr_tickets: "within (frames L) (hand_out_tickets p)"
  by (auto simp: within_def hand_out_tickets_def Let_def emit_all_def world_ok_client ticket_client_ok
      simp del: SetTicketCount.simps intro!: framesI fr_client)

lemma fr_default: "within (frames L) (set_default_items p)"
proof (rule withinI)
  fix t c t' assume "set_default_items p t = Inr (c, t')"
  then obtain b d ps where d: "TrySetDefaultUsingItem (client_of (thWorld t) p) = Inr (b, d)"
    and t': "t' = t\<lparr>thWorld := set_client p d (thWorld t), thStream := ps\<rparr>"
    by (auto simp: set_default_items_def rbind_Inr_iff emit_all_def split: prod.splits)
  have "L (thWorld t) (set_client p ((\<lambda>w. d) (thWorld t)) (thWorld t))"
  proof (rule law_guard)
    assume ok: "world_ok (thWorld t)"
    show "L (thWorld t) (set_client p ((\<lambda>w. d) (thWorld t)) (thWorld t))"
    proof (cases "p < length (wClients (thWorld t))")
      case False
      then show ?thesis by (simp add: set_client_def list_update_beyond)
    next
      case True
      have c: "client_ok (length (wRooms (thWorld t))) p (client_of (thWorld t) p)"
        using world_ok_client [OF _ True] ok .
      then have "inventory_ok (client_of (thWorld t) p)" by (simp add: client_ok_def)
      then have n: "not_items d = not_items (client_of (thWorld t) p)" "inventory_ok d"
        using TrySetDefaultUsingItem_spec [OF inventory_ok_shape] d by fastforce+
      have "seat d = seat (client_of (thWorld t) p)"
        using not_itemsD [OF n(1)] arg_cong [OF n(1), of clStatus] arg_cong [OF n(1), of clSocket] arg_cong [OF n(1), of clRoomOpenCount]
        by (simp add: seat_def not_items_def)
      moreover have "client_ok (length (wRooms (thWorld t))) p d" by (rule client_ok_not_items [OF c n])
      ultimately have "still (thWorld t) (set_client p d (thWorld t))"
        using ok world_ok_set_client [OF _ True] quiet_set_client [OF quiet_simps(1)] by (simp add: still_def)
      then show ?thesis by (simp add: law_still)
    qed
  qed
  then show "frames L t t'" by (intro framesI) (simp_all add: t')
qed

lemma fr_update: "within (frames L) (emit_update p)" "within (frames L) (emit_character p)"
  by (auto simp: within_def emit_update_def emit_character_def emit_def Let_def intro!: framesI)

lemma fr_choose: "within (frames L) (choose_for p)"
proof -
  have "client_ok m p (c\<lparr>clCharacterType := x\<rparr>)" if "client_ok m p c" for m c x
    using that by (auto intro: client_ok_cong)
  then show ?thesis
    by (auto simp: within_def choose_for_def Let_def emit_all_def world_ok_client
        intro!: framesI fr_client)
qed

lemma fr_default_items: "within (frames L) (give_default_items p)"
proof -
  have c: "client_ok m p (fst (AddItem d k))" if "client_ok m p d" "unat k < 46" for m d k
    using that AddItem_ok [of d k] AddItem_spec(4) [OF inventory_ok_shape, of d k]
    by (intro client_ok_not_items [OF that(1)]) (auto simp: client_ok_def)
  show ?thesis
    by (auto simp: within_def give_default_items_def Let_def emit_all_def world_ok_client ticket_client_ok c seat_AddItem
        simp del: SetTicketCount.simps intro!: framesI fr_client)
qed

section \<open>The ready stage\<close>

lemma ca_ready_closing: "within (carries L) (ready_closing i)"
  unfolding ready_closing_def
  by (intro ca.rules ca_steps fr_default [THEN frames_carries] fr_update [THEN frames_carries])

lemma ca_ready_rest: "within (carries L) (steps ([emit_all ps, each_client i hand_out_tickets, send_stream i]))"
  by (intro ca.rules ca_steps fr_tickets [THEN frames_carries])

lemma ca_ready_wait: "within (carries L) (steps
    ([Sleep, send_packet i (FadeOut 1)] @ concat (replicate k [Sleep, leave_if_stopped i oc]) @
     [ready_closing i, leave_if_stopped i oc, send_packet i (FadeIn 1), Sleep]))"
  by (intro ca.rules ca.repeated ca_steps ca_ready_closing)

lemma ca_ReadyStage:
  assumes "within (carries L) (draw_battle_opponents i)"
  shows "within (carries L) (stage (ReadyStage i battle))"
proof -
  have d: "within (carries L) (steps (if battle then [draw_battle_opponents i] else []))"
    using assms by (cases battle) (auto intro: ca.rules simp del: steps.simps)
  have o: "within (carries L) (ready_opening i battle rt)" for rt
    unfolding ready_opening_def by (intro ca.rules d ca_steps fr_tickets [THEN frames_carries])
  have "within (carries L) (steps
        ([set_status i St_ReadyStage, leave_if_stopped i oc, ready_opening i battle rt, Sleep, send_packet i (FadeOut 1)] @
         concat (replicate (nat rt) [Sleep, leave_if_stopped i oc]) @
         [ready_closing i, leave_if_stopped i oc, send_packet i (FadeIn 1), Sleep]))" for oc rt
    by (intro ca.rules ca.repeated ca_steps ca_ready_closing o)
  then show ?thesis by (intro ca.staged) (auto simp: ReadyStage_def Let_def intro: ca.valued simp del: steps.simps)
qed

text \<open>Before a monster no opponents are drawn.\<close>

lemma ca_ReadyStage_creep: "within (carries L) (stage (ReadyStage i False))"
proof -
  have "within (carries L) (steps
        ([set_status i St_ReadyStage, leave_if_stopped i oc, ready_opening i False rt, Sleep, send_packet i (FadeOut 1)] @
         concat (replicate (nat rt) [Sleep, leave_if_stopped i oc]) @
         [ready_closing i, leave_if_stopped i oc, send_packet i (FadeIn 1), Sleep]))" for oc rt
    unfolding ready_opening_def if_False append.simps
    by (intro ca.rules ca.repeated ca_steps ca_ready_closing fr_tickets [THEN frames_carries])
  then show ?thesis by (intro ca.staged) (auto simp: ReadyStage_def Let_def intro: ca.valued simp del: steps.simps)
qed

section \<open>The beginning\<close>

lemma fr_TrySend: "within (frames L) (TrySendEnterInGame i)"
proof -
  have r: "within (frames L) (on_room i (\<lambda>r. r\<lparr>rmIsFinishChoiceCharacter := True\<rparr>))"
    by (rule fr_room) (simp_all add: room_ok_def)
  have "within (frames L) (steps [send_packet i (Notification 0 ChoiceAllCharacter),
      on_room i (\<lambda>r. r\<lparr>rmIsFinishChoiceCharacter := True\<rparr>)])"
    by (intro fr.rules fr_steps r)
  then show ?thesis by (auto simp: within_def TrySendEnterInGame_def Let_def fr.same simp del: steps.simps)
qed

lemma ca_cut_scene: "within (carries L) (cut_scene i oc)"
proof -
  have s: "within (carries L) (\<lambda>t. send_stream_sized i (g t) t)" for g
    using fr_send(3) [THEN frames_carries] by (auto simp: within_def)
  have "within (carries L) (all_chosen i oc)" "within (carries L) (choice_time_over i oc)"
    unfolding all_chosen_def choice_time_over_def enter_cut_scene_def
    by (intro ca.rules ca_steps s fr_update [THEN frames_carries] fr_choose [THEN frames_carries])+
  then show ?thesis unfolding cut_scene_def by (intro ca.rules ca_steps)
qed

lemma ca_match_opening: "within (carries L) (match_opening i oc)"
  unfolding match_opening_def choice_loop_def
  by (intro ca.rules ca.repeated ca_steps ca_cut_scene fr_TrySend [THEN frames_carries] fr_default_items [THEN frames_carries])

end

end
