(* ===== verification/Server_Run.thy ===== *)
theory Server_Run
  imports Placement Match_Laws
begin

text \<open>
  The server as a state machine: its events, one at a time, and the states they reach.  A received
  message counts as one event for each packet in it, in the order in which the receive loop hands
  them over, beside the changes of the buffers.  Of a match, its beginning, its end and the stages in
  between are events; during the pauses of a stage other events and other stages happen.
\<close>

section \<open>Events\<close>

datatype server_event =
    Packet_in nat "u8 list"
  | Buffers nat "u8 list" "u8 list" int
  | Arrives nat bool
  | Gone nat bool
  | Announces
  | Checks
  | Clock int
  | Begins nat
  | Ends nat

definition by_thread :: "(thread \<Rightarrow> thread) \<Rightarrow> server \<Rightarrow> server result" where
  "by_thread f sv = Inr (sv\<lparr>svWorld := thWorld (f (thread_start (svWorld sv) []))\<rparr>)"

fun serve :: "server_event \<Rightarrow> server \<Rightarrow> server result" where
  "serve (Packet_in conn buf) sv = with_world (ProcessPacket conn buf) sv"
| "serve (Buffers conn io buf n) sv = with_world (modify_client conn (\<lambda>c.
     Inr (c\<lparr>clIoBuf := io, clPacketBuf := buf, clPrevSize := n\<rparr>))) sv"
| "serve (Arrives s registered) sv = accept_client s registered sv"
| "serve (Gone p b) sv = with_world (Disconnect (int p) b) sv"
| "serve Announces sv = announce sv"
| "serve Checks sv = check_connections sv"
| "serve (Clock t) sv = with_world (\<lambda>w. Inr (w\<lparr>wNow := t\<rparr>)) sv"
| "serve (Begins i) sv = by_thread (begin_match i) sv"
| "serve (Ends i) sv = by_thread (close_room i) sv"

text \<open>
  The events that can happen: packets come from connected clients and stay in range, and the clock does
  not go back.
\<close>

fun allowed :: "server_event \<Rightarrow> server \<Rightarrow> bool" where
  "allowed (Packet_in conn buf) sv \<longleftrightarrow>
     conn < length (wClients (svWorld sv)) \<and> clStatus (client_of (svWorld sv) conn) = ACTIVE \<and>
     length buf = MAX_PACKET_SIZE \<and> in_range conn buf (svWorld sv)"
| "allowed (Buffers conn io buf n) sv \<longleftrightarrow> conn < length (wClients (svWorld sv)) \<and> length buf = MAX_PACKET_SIZE"
| "allowed (Gone p b) sv \<longleftrightarrow> p < length (wClients (svWorld sv))"
| "allowed (Clock t) sv \<longleftrightarrow> wNow (svWorld sv) \<le> t"
| "allowed (Begins i) sv \<longleftrightarrow> i < length (wRooms (svWorld sv)) \<and> rmIsRun (room_of (svWorld sv) i)"
| "allowed (Ends i) sv \<longleftrightarrow> i < length (wRooms (svWorld sv))"
| "allowed _ sv \<longleftrightarrow> True"

text \<open>A well-behaved event: nobody asks for a match who is waiting for one already.\<close>

fun orderly :: "server_event \<Rightarrow> world \<Rightarrow> bool" where
  "orderly (Packet_in conn buf) w \<longleftrightarrow> (rd_type buf = Some pt_cs_startMatching \<longrightarrow> conn \<notin> set (queue_list (wQueue w)))"
| "orderly _ w \<longleftrightarrow> True"

text \<open>
  Events as something other threads do during a pause, one after the other; what cannot happen then is
  left out.  The counters of the server, which only go into messages, are given.
\<close>

definition happens :: "nat \<Rightarrow> nat \<Rightarrow> server_event \<Rightarrow> world \<Rightarrow> world result" where
  "happens a b e w =
     (let sv = \<lparr>svWorld = w, svConnectCount = a, svCurrConnectionCount = b\<rparr>
      in if allowed e sv then map_sum id svWorld (serve e sv) else Inr w)"

fun meanwhile :: "nat \<Rightarrow> nat \<Rightarrow> server_event list \<Rightarrow> world \<Rightarrow> world result" where
  "meanwhile a b [] w = Inr w"
| "meanwhile a b (e # es) w = rbind (happens a b e w) (meanwhile a b es)"

section \<open>Stages\<close>

text \<open>The parts of the thread of a match between its beginning and its end.\<close>

datatype stage_kind = Opens | Readies bool | Fights | Meets_creep | Counts

fun play :: "nat \<Rightarrow> stage_kind \<Rightarrow> step" where
  "play i Opens t = match_opening i (rmOpenCount (room_of (thWorld t) i)) t"
| "play i (Readies battle) t = stage (ReadyStage i battle) t"
| "play i Fights t = stage (BattleStage i) t"
| "play i Meets_creep t = stage (CreepStage i) t"
| "play i Counts t = (if rmRound (room_of (thWorld t) i) < INT_MAX then next_round i t else Inr (Next, t))"

text \<open>A part that a room with a thread plays, with what other threads do during its pauses.\<close>

definition plays_part :: "nat \<Rightarrow> stage_kind \<Rightarrow> (world \<Rightarrow> world result) list \<Rightarrow> world \<Rightarrow> world result" where
  "plays_part i k others w =
     (if i < length (wRooms w) \<and> \<not> rmIsFinishThread (room_of w i)
      then rbind (play i k (thread_start w others)) (\<lambda>(go, t). Inr (thWorld t)) else Inr w)"

text \<open>What happens on the server: events, stages, and one after the other; with \<open>once\<close>, only well-behaved events.\<close>

inductive deed :: "bool \<Rightarrow> (world \<Rightarrow> world result) \<Rightarrow> bool" for once :: bool where
  Event: "deed once (\<lambda>w. if once \<longrightarrow> orderly e w then happens a b e w else Inr w)"
| After: "deed once f \<Longrightarrow> deed once g \<Longrightarrow> deed once (\<lambda>w. rbind (f w) g)"
| Stage: "\<forall>f. f \<in> set others \<longrightarrow> deed once f \<Longrightarrow> deed once (plays_part i k others)"

text \<open>The states the server reaches; with \<open>once\<close>, as long as all its clients are well-behaved.\<close>

inductive server_run :: "bool \<Rightarrow> server \<Rightarrow> bool" for once :: bool where
  Start: "server_run once (server_new rng now)"
| Step: "server_run once sv \<Longrightarrow> allowed e sv \<Longrightarrow> once \<longrightarrow> orderly e (svWorld sv) \<Longrightarrow> serve e sv = Inr sv' \<Longrightarrow> server_run once sv'"
| Deed: "server_run once sv \<Longrightarrow> deed once f \<Longrightarrow> f (svWorld sv) = Inr w \<Longrightarrow> server_run once (sv\<lparr>svWorld := w\<rparr>)"

section \<open>Events return\<close>

definition sound :: "nat \<Rightarrow> nat \<Rightarrow> world \<Rightarrow> bool" where
  "sound n m w \<longleftrightarrow> world_ok w \<and> length (wClients w) = n \<and> length (wRooms w) = m"

definition stands :: "nat \<Rightarrow> nat \<Rightarrow> world \<Rightarrow> bool" where
  "stands n m w \<longleftrightarrow> world_ok w \<and> placed w \<and> length (wClients w) = n \<and> length (wRooms w) = m"

lemma with_world_Inr: "f (svWorld sv) = Inr w \<Longrightarrow> with_world f sv = Inr (sv\<lparr>svWorld := w\<rparr>)"
  by (simp add: with_world_def)

text \<open>What every disconnect keeps, the check keeps.\<close>

lemma check_clients_inv:
  assumes keep: "\<And>w p. P w \<Longrightarrow> p < n \<Longrightarrow> \<exists>w'. Disconnect (int p) True w = Inr w' \<and> P w'"
    and nid: "\<And>w p. P w \<Longrightarrow> p < n \<Longrightarrow> clNetworkID (client_of w p) = int p"
    and "\<forall>p \<in> set ps. p < n" and "P (svWorld sv)"
  shows "\<exists>sv'. check_clients ps sv = Inr sv' \<and> P (svWorld sv')"
  using assms(3,4)
proof (induction ps arbitrary: sv)
  case Nil
  then show ?case by simp
next
  case (Cons p ps)
  obtain w' where w': "Disconnect (int p) True (svWorld sv) = Inr w'" "P w'" using keep [of "svWorld sv" p] Cons.prems by auto
  have "with_world (Disconnect (clNetworkID (client_of (svWorld sv) p)) True) sv = Inr (sv\<lparr>svWorld := w'\<rparr>)"
    using nid [OF Cons.prems(2)] Cons.prems(1) w'(1) by (simp add: with_world_def)
  then show ?case using Cons w'(2) by (simp add: Let_def)
qed

lemma announce_sent:
  assumes "world_ok (svWorld sv)"
  shows "\<exists>bs. announce sv = Inr (sv\<lparr>svWorld := (svWorld sv)\<lparr>wSent := bs\<rparr>\<rparr>)"
proof -
  let ?w = "svWorld sv"
  have each: "\<exists>bs. send_each (map (\<lambda>p. clNetworkID (client_of w p)) ps) (MatchingInfo a b) w = Inr (w\<lparr>wSent := bs\<rparr>)"
    if "world_ok w" "\<forall>p \<in> set ps. p < length (wClients w)" for ps w a b
    using that
  proof (induction ps arbitrary: w)
    case Nil
    then show ?case by (auto intro: exI [of _ "wSent w"])
  next
    case (Cons p ps)
    have "SendBytes (clNetworkID (client_of w p)) (Packet_Write (MatchingInfo a b)) w =
        Inr (w\<lparr>wSent := wSent w @ [(p, Packet_Write (MatchingInfo a b))]\<rparr>)" (is "_ = Inr ?v")
      using Cons.prems Packet_Write_small [of "MatchingInfo a b"] by (intro SendBytes_ok) simp_all
    then show ?case using Cons.IH [of ?v] Cons.prems by simp
  qed
  obtain xs where xs: "queue_rep (wQueue ?w) xs" using assms by (auto simp: world_ok_def queue_good_def)
  have "QueueClients (wQueue ?w) = Inr (queue_list (wQueue ?w))"
    using xs collect_seg [of "sqHeap (wQueue ?w)" "sqClientQueue (wQueue ?w)" None xs None]
    by (auto simp: QueueClients_def queue_rep_def queue_list_rep [OF xs])
  moreover have "\<forall>p \<in> set (queue_list (wQueue ?w)). p < length (wClients ?w)" using assms by (simp add: world_ok_def)
  then obtain bs where "send_each (map (\<lambda>p. clNetworkID (client_of ?w p)) (queue_list (wQueue ?w)))
      (MatchingInfo (of_nat (sqSize (wQueue ?w))) (of_nat (svCurrConnectionCount sv))) ?w = Inr (?w\<lparr>wSent := bs\<rparr>)"
    using each [OF assms] by blast
  ultimately have "SendMatchingQueueInfo (svCurrConnectionCount sv) ?w = Inr (?w\<lparr>wSent := if sqSize (wQueue ?w) = 0 then wSent ?w else bs\<rparr>)"
    by (simp add: SendMatchingQueueInfo_def)
  then show ?thesis unfolding announce_def with_world_def by (simp only: rbind_simps) blast
qed

lemma stands_set_client:
  assumes "stands n m w" and "p < n" and "client_ok m p c" and "seat c = seat (client_of w p)"
  shows "stands n m (set_client p c w)"
proof -
  have "quiet w (set_client p c w)" using assms(4) by (intro quiet_set_client) simp_all
  then show ?thesis
    using assms placed_quiet [of w "set_client p c w"] world_ok_set_client [of w p c] by (simp add: stands_def)
qed

text \<open>A room of a match that begins or ends.\<close>

lemma stands_set_room:
  assumes "stands n m w" and "i < m" and "room_ok n r" and "rmClients r \<noteq> [] \<Longrightarrow>
    rmOpenCount r = rmOpenCount (room_of w i) \<and> rmClients r = rmClients (room_of w i)"
  shows "stands n m (set_room i r w)"
proof -
  have "placed (set_room i r w)"
    by (rule placed_frame [of w]) (use assms in \<open>auto simp: stands_def room_of_set_room\<close>)
  then show ?thesis using assms world_ok_set_room [of w i r] by (simp add: stands_def)
qed

lemma accept_ok:
  assumes ok: "world_ok (svWorld sv)"
  shows "\<exists>sv'. accept_client s r sv = Inr sv' \<and> keeps_ok (svWorld sv) (svWorld sv') \<and>
    wRooms (svWorld sv') = wRooms (svWorld sv)"
proof (cases "find_free (wClients (svWorld sv))")
  case None
  then show ?thesis using ok accept_client_none by (auto simp: keeps_ok_def)
next
  case (Some p)
  let ?w = "svWorld sv"
  note f = find_free_Some [OF Some]
  have c: "client_ok (length (wRooms ?w)) p (client_of ?w p)" using world_ok_client [OF ok] f by blast
  have "world_ok (set_client p (connected s (wNow ?w) (client_of ?w p)) (?w\<lparr>wSent := bs\<rparr>))" for bs
    by (intro world_ok_set_client) (use ok f client_ok_cong [OF c] in \<open>simp_all add: connected_def\<close>)
  moreover have "world_ok (set_client p ((client_of ?w p)\<lparr>clStatus := ALLOCATED\<rparr>) ?w)"
    by (intro world_ok_set_client) (use ok f client_ok_cong [OF c] in simp_all)
  ultimately show ?thesis using accept_client_spec [OF ok Some, of s] accept_client_refused [OF Some, of s]
    by (cases r) (simp_all add: keeps_ok_def)
qed

text \<open>
  What an invariant of the server has to satisfy: its events, guarded by \<open>G\<close>, keep it when the
  operations they consist of do.
\<close>

locale event_law =
  fixes n m :: nat and P :: "world \<Rightarrow> bool" and G :: "server_event \<Rightarrow> world \<Rightarrow> bool"
  assumes P_sound: "P w \<Longrightarrow> sound n m w"
    and P_packet: "P w \<Longrightarrow> conn < n \<Longrightarrow> clStatus (client_of w conn) = ACTIVE \<Longrightarrow>
      length buf = MAX_PACKET_SIZE \<Longrightarrow> in_range conn buf w \<Longrightarrow> G (Packet_in conn buf) w \<Longrightarrow> ProcessPacket conn buf w = Inr w' \<Longrightarrow> P w'"
    and P_client: "P w \<Longrightarrow> p < n \<Longrightarrow> client_ok m p c \<Longrightarrow> seat c = seat (client_of w p) \<Longrightarrow> P (set_client p c w)"
    and P_accept: "P (svWorld sv) \<Longrightarrow> accept_client s r sv = Inr sv' \<Longrightarrow> P (svWorld sv')"
    and P_leave: "P w \<Longrightarrow> p < n \<Longrightarrow> Disconnect (int p) told w = Inr w' \<Longrightarrow> P w'"
    and P_sent: "P w \<Longrightarrow> P (w\<lparr>wSent := bs\<rparr>)"
    and P_now: "P w \<Longrightarrow> P (w\<lparr>wNow := t\<rparr>)"
    and P_begin: "P w \<Longrightarrow> i < m \<Longrightarrow> rmIsRun (room_of w i) \<Longrightarrow> G (Begins i) w \<Longrightarrow>
      P (set_room i ((room_of w i)\<lparr>rmIsFinishThread := False, rmCurRoomStatusType := St_ChoiceCharacter\<rparr>) w)"
    and P_end: "P w \<Longrightarrow> i < m \<Longrightarrow> G (Ends i) w \<Longrightarrow> P (set_room i ((Room_Init (room_of w i))\<lparr>rmIsFinishThread := True\<rparr>) w)"
begin

lemma leaves: "P w \<Longrightarrow> p < n \<Longrightarrow> \<exists>w'. Disconnect (int p) told w = Inr w' \<and> P w'"
  using P_sound [of w] P_leave Disconnect_ok [of w p told] by (fastforce simp: sound_def)

lemma serves:
  assumes p: "P (svWorld sv)" and al: "allowed e sv" and g: "G e (svWorld sv)"
  shows "\<exists>sv'. serve e sv = Inr sv' \<and> P (svWorld sv')"
proof -
  let ?w = "svWorld sv"
  have ok: "world_ok ?w" and len: "length (wClients ?w) = n" "length (wRooms ?w) = m"
    using P_sound [OF p] by (simp_all add: sound_def)
  show ?thesis
  proof (cases e)
    case (Packet_in conn buf)
    then have a: "conn < length (wClients ?w)" "length buf = MAX_PACKET_SIZE" "in_range conn buf ?w" using al by simp_all
    obtain w' where w': "ProcessPacket conn buf ?w = Inr w'"
      using ProcessPacket_defined [OF ok a] by (auto simp: defined_def)
    then have "P w'" using P_packet [OF p _ _ _ _ _ w'] al g Packet_in len by simp
    then show ?thesis using w' Packet_in by (simp add: with_world_Inr)
  next
    case (Buffers conn io buf k)
    have "client_ok m conn ((client_of ?w conn)\<lparr>clIoBuf := io, clPacketBuf := buf, clPrevSize := k\<rparr>)"
      using al Buffers len client_ok_cong [OF world_ok_client [OF ok, of conn]] world_ok_client [OF ok, of conn]
      by (simp add: client_ok_def)
    then have "P (set_client conn ((client_of ?w conn)\<lparr>clIoBuf := io, clPacketBuf := buf, clPrevSize := k\<rparr>) ?w)"
      using al Buffers len by (intro P_client [OF p]) (simp_all add: seat_def)
    then show ?thesis using Buffers by (simp add: with_world_def modify_client_def)
  next
    case (Arrives s r)
    then show ?thesis using accept_ok [OF ok, of s r] P_accept [OF p] by auto
  next
    case (Gone q told)
    then show ?thesis using leaves [OF p, of q told] al len by (auto simp: with_world_Inr)
  next
    case Announces
    then show ?thesis using announce_sent [OF ok] P_sent [OF p] by auto
  next
    case Checks
    have "\<exists>sv'. check_clients [0..<n] (sv\<lparr>svCurrConnectionCount := 0\<rparr>) = Inr sv' \<and> P (svWorld sv')"
      by (rule check_clients_inv [where n = n]) (use leaves p P_sound world_ok_nid in \<open>auto simp: sound_def\<close>)
    then show ?thesis using Checks len by (simp add: check_connections_def)
  next
    case (Clock t)
    then show ?thesis using P_now [OF p] by (simp add: with_world_def)
  next
    case (Begins i)
    then show ?thesis using P_begin [OF p, of i] al g len by (simp add: by_thread_def begin_match_def thread_start_def)
  next
    case (Ends i)
    then show ?thesis using P_end [OF p, of i] al g len by (simp add: by_thread_def close_room_def thread_start_def)
  qed
qed

end

text \<open>The invariant of the server, whatever the clients do.\<close>

interpretation so: event_law n m "sound n m" "\<lambda>e w. True" for n m
proof
  show "sound n m w'" if "sound n m w" "conn < n" "ProcessPacket conn buf w = Inr w'" for w w' conn buf
  proof -
    have "keeps_ok w w'" by (rule postD [OF ProcessPacket_keeps that(3)]) (use that(1,2) in \<open>simp_all add: sound_def\<close>)
    then show ?thesis using that(1) by (simp add: sound_def keeps_ok_def)
  qed
  show "sound n m (set_client p c w)" if "sound n m w" "p < n" "client_ok m p c" for w p c
    using that world_ok_set_client [of w p c] by (simp add: sound_def)
  show "sound n m (svWorld sv')" if "sound n m (svWorld sv)" "accept_client s r sv = Inr sv'" for sv sv' s r
    using that accept_ok [of sv s r] by (auto simp: sound_def keeps_ok_def)
  show "sound n m w'" if "sound n m w" "p < n" "Disconnect (int p) told w = Inr w'" for w w' p told
    using that Disconnect_ok [of w p told] by (auto simp: sound_def)
  show "sound n m (set_room i ((room_of w i)\<lparr>rmIsFinishThread := False, rmCurRoomStatusType := St_ChoiceCharacter\<rparr>) w)"
    if "sound n m w" "i < m" for w i
    using that world_ok_room [of w i] by (auto simp: sound_def room_ok_def intro!: world_ok_set_room)
  show "sound n m (set_room i ((Room_Init (room_of w i))\<lparr>rmIsFinishThread := True\<rparr>) w)" if "sound n m w" "i < m" for w i
    using that by (auto simp: sound_def room_ok_def Room_Init_def intro!: world_ok_set_room)
qed (simp_all add: sound_def)

text \<open>With one place for every client, as long as they behave well.\<close>

interpretation st: event_law n m "stands n m" orderly for n m
proof
  show "sound n m w" if "stands n m w" for w using that by (simp add: stands_def sound_def)
  show "stands n m w'" if "stands n m w" "conn < n" "clStatus (client_of w conn) = ACTIVE" "in_range conn buf w"
    "orderly (Packet_in conn buf) w" "ProcessPacket conn buf w = Inr w'" for w w' conn buf
  proof -
    have w: "world_ok w" "placed w" "conn < length (wClients w)" using that(1,2) by (simp_all add: stands_def)
    have "keeps_ok w w'" by (rule postD [OF ProcessPacket_keeps [OF w(1,3)] that(6)])
    moreover have "placed w'" by (rule placed_ProcessPacket [OF w(2,1,3) that(3,4) _ that(6)]) (use that(5) in simp)
    ultimately show ?thesis using that(1) by (simp add: stands_def keeps_ok_def)
  qed
  show "stands n m (set_client p c w)" if "stands n m w" "p < n" "client_ok m p c" "seat c = seat (client_of w p)" for w p c
    by (rule stands_set_client [OF that])
  show "stands n m (svWorld sv')" if "stands n m (svWorld sv)" "accept_client s r sv = Inr sv'" for sv sv' s r
    using that accept_ok [of sv s r] placed_accept [of sv s r sv'] by (auto simp: stands_def keeps_ok_def)
  show "stands n m w'" if "stands n m w" "p < n" "Disconnect (int p) told w = Inr w'" for w w' p told
    using that Disconnect_ok [of w p told] placed_Disconnect [of w p told w'] by (auto simp: stands_def)
  show "stands n m (set_room i ((room_of w i)\<lparr>rmIsFinishThread := False, rmCurRoomStatusType := St_ChoiceCharacter\<rparr>) w)"
    if "stands n m w" "i < m" "rmIsRun (room_of w i)" for w i
    by (rule stands_set_room [OF that(1,2)]) (use that world_ok_room [of w i] in \<open>auto simp: stands_def room_ok_def\<close>)
  show "stands n m (set_room i ((Room_Init (room_of w i))\<lparr>rmIsFinishThread := True\<rparr>) w)" if "stands n m w" "i < m" for w i
    by (rule stands_set_room [OF that]) (simp_all add: room_ok_def Room_Init_def)
qed (simp_all add: stands_def)

end
