(* ===== verification/Stage_Run.thy ===== *)
theory Stage_Run
  imports Server_Run
begin

text \<open>
  The stages of a match as events of the server: an invariant of the server that has the laws of
  \<open>event_law\<close> and is kept by wounds and changes of rooms is kept by everything the threads of the
  matches do.
\<close>

section \<open>Relations that events and stages respect\<close>

locale deed_law =
  fixes once :: bool and L :: "world \<Rightarrow> world \<Rightarrow> bool"
  assumes laws: "stage_laws i L"
    and any_room: "(\<And>n. room_ok n (room_of w i) \<Longrightarrow> room_ok n r) \<Longrightarrow> rmClients r = rmClients (room_of w i) \<Longrightarrow>
      rmOpenCount r = rmOpenCount (room_of w i) \<Longrightarrow> L w (set_room i r w)"
    and event: "once \<longrightarrow> orderly e w \<Longrightarrow> happens a b e w = Inr w' \<Longrightarrow> L w w'"
begin

lemma draws: "within (carries L) (draw_battle_opponents i)"
proof (rule withinI)
  fix t c t' assume "draw_battle_opponents i t = Inr (c, t')"
  then obtain r rng ps where r: "ApplyRandomBattleOpponent (client_of (thWorld t)) (room_of (thWorld t) i) (wRng (thWorld t)) = Inr (r, rng)"
    and t': "t' = t\<lparr>thWorld := set_room i r ((thWorld t)\<lparr>wRng := rng\<rparr>), thStream := ps\<rparr>"
    by (auto simp: draw_battle_opponents_def rbind_Inr_iff emit_def)
  have "L ((thWorld t)\<lparr>wRng := rng\<rparr>) (set_room i r ((thWorld t)\<lparr>wRng := rng\<rparr>))"
    by (rule any_room) (use r in \<open>auto simp: ApplyRandomBattleOpponent_def rbind_Inr_iff room_ok_def split: if_splits\<close>)
  then have "L (thWorld t) (set_room i r ((thWorld t)\<lparr>wRng := rng\<rparr>))"
    using stage_laws.law_trans [OF laws] stage_laws.law_rng [OF laws] by blast
  then show "carries L t t'" by (intro carriesI) (simp_all add: t')
qed

lemma counts: "within (carries L) (play i Counts)"
proof -
  have "L w (set_room i ((room_of w i)\<lparr>rmRound := i32 (rmRound (room_of w i) + 1)\<rparr>) w)" if lt: "rmRound (room_of w i) < INT_MAX" for w
  proof (rule any_room)
    show "room_ok n ((room_of w i)\<lparr>rmRound := i32 (rmRound (room_of w i) + 1)\<rparr>)" if ok: "room_ok n (room_of w i)" for n
    proof -
      have "0 \<le> rmRound (room_of w i)" using ok by (simp add: room_ok_def)
      then have "i32 (rmRound (room_of w i) + 1) = rmRound (room_of w i) + 1"
        using lt by (intro i32_id) (simp_all add: INT_MIN_def)
      then show ?thesis using ok by (simp add: room_ok_def)
    qed
  qed simp_all
  then show ?thesis using stage_laws.law_refl [OF laws]
    by (auto simp: within_def next_round_def on_room_def on_server_def intro!: carriesI)
qed

lemma parts: "within (carries L) (play i k)"
proof (cases k)
  case Opens
  then show ?thesis using stage_laws.ca_match_opening [OF laws, of i] by (simp add: within_def)
next
  case (Readies b)
  then show ?thesis using stage_laws.ca_ReadyStage [OF laws draws, of i b] by (simp add: within_def)
next
  case Fights
  then show ?thesis using stage_laws.ca_BattleStage [OF laws, of i] by (simp add: within_def)
next
  case Meets_creep
  then show ?thesis using stage_laws.ca_CreepStage [OF laws, of i] by (simp add: within_def)
next
  case Counts
  then show ?thesis using counts by simp
qed

lemma deeds: "deed once f \<Longrightarrow> obeys L f"
proof (induction rule: deed.induct)
  case (Event e a b)
  then show ?case using event stage_laws.law_refl [OF laws] by (auto simp: obeys_def)
next
  case (After f g)
  then show ?case unfolding obeys_def rbind_Inr_iff using stage_laws.law_trans [OF laws] by blast
next
  case (Stage others i k)
  have "able L (thread_start w others)" for w using Stage by (auto simp: able_def thread_start_def list_all_iff)
  moreover have "thWorld (thread_start w others) = w" for w by (simp add: thread_start_def)
  ultimately have "L w (thWorld t)" if "play i k (thread_start w others) = Inr (go, t)" for w go t
    using withinD [OF parts that] unfolding carries_def by metis
  then show ?case using stage_laws.law_refl [OF laws] by (auto simp: obeys_def plays_part_def rbind_Inr_iff)
qed

end

section \<open>The invariant of the server\<close>

definition keeps_sound :: "world \<Rightarrow> world \<Rightarrow> bool" where
  "keeps_sound w w' \<longleftrightarrow> (\<forall>n m. sound n m w \<longrightarrow> sound n m w')"

definition keeps_places :: "world \<Rightarrow> world \<Rightarrow> bool" where
  "keeps_places w w' \<longleftrightarrow> (\<forall>n m. stands n m w \<longrightarrow> stands n m w')"

lemmas keeps_defs = keeps_sound_def sound_def keeps_places_def stands_def

lemma keeps_hp: "keeps_sound w (set_client p ((client_of w p)\<lparr>clHp := h\<rparr>) w)" "keeps_places w (set_client p ((client_of w p)\<lparr>clHp := h\<rparr>) w)"
proof -
  have "world_ok (set_client p ((client_of w p)\<lparr>clHp := h\<rparr>) w)" if ok: "world_ok w"
  proof (cases "p < length (wClients w)")
    case False
    then show ?thesis using ok by (simp add: set_client_def list_update_beyond)
  next
    case True
    show ?thesis using world_ok_client [OF ok True] True ok by (intro world_ok_set_client) (auto intro: client_ok_cong)
  qed
  then show "keeps_sound w (set_client p ((client_of w p)\<lparr>clHp := h\<rparr>) w)" "keeps_places w (set_client p ((client_of w p)\<lparr>clHp := h\<rparr>) w)"
    using placed_hp by (simp_all add: keeps_defs)
qed

lemma keeps_damage:
  assumes "ToDamageCharacter d force a w = Inr (a', w')"
  shows "keeps_sound w w'" and "keeps_places w w'"
proof -
  have "Client_ToDamage c d = c\<lparr>clHp := clHp (Client_ToDamage c d)\<rparr>" for c by (simp add: Client_ToDamage_def Let_def)
  then have h: "keeps_sound w (set_client p (Client_ToDamage (client_of w p) d) w)"
    "keeps_places w (set_client p (Client_ToDamage (client_of w p) d) w)" for p using keeps_hp by metis+
  show "keeps_sound w w'" and "keeps_places w w'"
    using assms h by (auto simp: ToDamageCharacter_def keeps_sound_def keeps_places_def split: if_splits option.splits)
qed

lemma keeps_room:
  assumes "\<And>n. room_ok n (room_of w i) \<Longrightarrow> room_ok n r" and "rmClients r = rmClients (room_of w i)"
    and "rmOpenCount r = rmOpenCount (room_of w i)"
  shows "keeps_sound w (set_room i r w)" and "keeps_places w (set_room i r w)"
proof -
  consider "\<not> i < length (wRooms w)" | "i < length (wRooms w)" by blast
  then have "keeps_sound w (set_room i r w) \<and> keeps_places w (set_room i r w)"
  proof cases
    case 1
    then show ?thesis by (simp add: keeps_sound_def keeps_places_def set_room_def list_update_beyond)
  next
    case 2
    have "room_ok n r" if "sound n m w" for n m using assms(1) world_ok_room [of w i] that 2 by (auto simp: sound_def)
    then show ?thesis using assms(2,3) 2 stands_set_room [of _ _ w i r] world_ok_set_room [of w i r]
      by (auto simp: keeps_sound_def keeps_places_def sound_def stands_def)
  qed
  then show "keeps_sound w (set_room i r w)" and "keeps_places w (set_room i r w)" by blast+
qed

lemma keeps_still: "still w w' \<Longrightarrow> keeps_sound w w'" "still w w' \<Longrightarrow> keeps_places w w'"
proof -
  have len: "length (wClients w') = length (wClients w)" "wRooms w' = wRooms w" if "still w w'"
    using that unfolding still_def quiet_def by (metis length_map, simp)
  show "still w w' \<Longrightarrow> keeps_sound w w'" "still w w' \<Longrightarrow> keeps_places w w'"
    using len placed_quiet [of w w'] by (auto simp: keeps_defs still_def)
qed

lemma keeps_leave: "Disconnect k told w = Inr w' \<Longrightarrow> keeps_sound w w'" "Disconnect k told w = Inr w' \<Longrightarrow> keeps_places w w'"
proof -
  have "0 \<le> k \<and> nat k < length (wClients w)" if "Disconnect k told w = Inr w'"
    using that by (auto simp: Disconnect_def client_idx_def split: if_splits)
  then show "Disconnect k told w = Inr w' \<Longrightarrow> keeps_sound w w'" "Disconnect k told w = Inr w' \<Longrightarrow> keeps_places w w'"
    using so.P_leave [of _ _ w "nat k" told w'] st.P_leave [of _ _ w "nat k" told w']
    by (auto simp: keeps_sound_def keeps_places_def sound_def stands_def)
qed

lemma keeps_laws: "stage_laws i keeps_sound" "stage_laws i keeps_places"
proof -
  have w: "keeps_sound w w'" "keeps_places w w'" if "wound i a b w = Inr (a', w')" for a b w a' w'
    using that keeps_damage by (auto simp: wound_def rbind_Inr_iff)
  show "stage_laws i keeps_sound"
  proof
    show "keeps_sound w w" for w by (simp add: keeps_sound_def)
    show "keeps_sound u w" if "keeps_sound u v" "keeps_sound v w" for u v w using that by (simp add: keeps_sound_def)
    show "keeps_sound w w'" if "world_ok w \<Longrightarrow> keeps_sound w w'" for w w' using that by (auto simp: keeps_defs)
    show "keeps_sound w w'" if "still w w'" for w w' by (rule keeps_still(1) [OF that])
    show "keeps_sound w w'" if "Disconnect k told w = Inr w'" for k told w w' by (rule keeps_leave(1) [OF that])
    show "keeps_sound w (set_room i r w)" if "\<And>n. room_ok n (room_of w i) \<Longrightarrow> room_ok n r"
      "rmClients r = rmClients (room_of w i)" "rmOpenCount r = rmOpenCount (room_of w i)" for w r
      by (rule keeps_room(1) [OF that])
    show "keeps_sound w w'" if "wound i a b w = Inr (a', w')" for a b w a' w' by (rule w(1) [OF that])
    show "keeps_sound w w'" if "ToDamageCharacter d True a w = Inr (a', w')" for d a w a' w' by (rule keeps_damage(1) [OF that])
  qed
  show "stage_laws i keeps_places"
  proof
    show "keeps_places w w" for w by (simp add: keeps_places_def)
    show "keeps_places u w" if "keeps_places u v" "keeps_places v w" for u v w using that by (simp add: keeps_places_def)
    show "keeps_places w w'" if "world_ok w \<Longrightarrow> keeps_places w w'" for w w' using that by (auto simp: keeps_defs)
    show "keeps_places w w'" if "still w w'" for w w' by (rule keeps_still(2) [OF that])
    show "keeps_places w w'" if "Disconnect k told w = Inr w'" for k told w w' by (rule keeps_leave(2) [OF that])
    show "keeps_places w (set_room i r w)" if "\<And>n. room_ok n (room_of w i) \<Longrightarrow> room_ok n r"
      "rmClients r = rmClients (room_of w i)" "rmOpenCount r = rmOpenCount (room_of w i)" for w r
      by (rule keeps_room(2) [OF that])
    show "keeps_places w w'" if "wound i a b w = Inr (a', w')" for a b w a' w' by (rule w(2) [OF that])
    show "keeps_places w w'" if "ToDamageCharacter d True a w = Inr (a', w')" for d a w a' w' by (rule keeps_damage(2) [OF that])
  qed
qed

lemma happens_serves: "happens a b e w = Inr w' \<Longrightarrow> w' = w \<or> (\<exists>sv sv'. svWorld sv = w \<and> allowed e sv \<and> serve e sv = Inr sv' \<and> w' = svWorld sv')"
  by (cases "serve e \<lparr>svWorld = w, svConnectCount = a, svCurrConnectionCount = b\<rparr>")
    (force simp: happens_def Let_def split: if_splits)+

interpretation ds: deed_law once keeps_sound for once
proof (rule deed_law.intro)
  show "stage_laws i keeps_sound" for i by (rule keeps_laws(1))
  show "keeps_sound w (set_room i r w)" if "\<And>n. room_ok n (room_of w i) \<Longrightarrow> room_ok n r"
    "rmClients r = rmClients (room_of w i)" "rmOpenCount r = rmOpenCount (room_of w i)" for w i r
    by (rule keeps_room(1) [OF that])
  show "keeps_sound w w'" if "happens a b e w = Inr w'" for a b e w w'
    using happens_serves [OF that] so.serves unfolding keeps_sound_def by fastforce
qed

interpretation dp: deed_law True keeps_places
proof (rule deed_law.intro)
  show "stage_laws i keeps_places" for i by (rule keeps_laws(2))
  show "keeps_places w (set_room i r w)" if "\<And>n. room_ok n (room_of w i) \<Longrightarrow> room_ok n r"
    "rmClients r = rmClients (room_of w i)" "rmOpenCount r = rmOpenCount (room_of w i)" for w i r
    by (rule keeps_room(2) [OF that])
  show "keeps_places w w'" if "True \<longrightarrow> orderly e w" "happens a b e w = Inr w'" for a b e w w'
    using happens_serves [OF that(2)] st.serves that(1) unfolding keeps_places_def by fastforce
qed

end
