(* ===== verification/Match_Properties.thy ===== *)
theory Match_Properties
  imports Match_Safe Other_Threads
begin

text \<open>
  The properties of a running match: its stages and its thread, what the other threads leave alone,
  the wounds of the characters.  Each follows from the facts about steps; the witnesses run a
  match of two.
\<close>

section \<open>A match of two\<close>

definition fighter :: "nat \<Rightarrow> client" where
  "fighter p = (Client_new (int p))\<lparr>clStatus := ACTIVE, clSocket := Some (of_nat p), clRoomPtr := Some 0,
     clRoomOpenCount := 1\<rparr>"

definition two_fighters :: world where
  "two_fighters = \<lparr>wClients = [fighter 0, fighter 1],
     wRooms = [Room_new\<lparr>rmClients := [0, 1], rmSize := 2, rmIsRun := True, rmOpenCount := 1, rmRound := 1,
       rmIsFinishThread := False, rmBattleOpponents := [0, 1],
       rmBattleManager := \<lparr>bmUnMatching = [\<lparr>biClient = 0, biInfos = [\<lparr>bhClient = 1, bhCount = 0\<rparr>]\<rparr>,
         \<lparr>biClient = 1, biInfos = [\<lparr>bhClient = 0, bhCount = 0\<rparr>]\<rparr>], bmMatching = []\<rparr>\<rparr>],
     wQueue = ServerQueue_new, wThreads = [], wSent = [], wRng = [], wNow = 0\<rparr>"

lemma brawler_ok: "client_ok 1 p (fighter p)"
proof -
  have "inventory_ok (fighter p)" using inventory_ok_new [of "int p"]
    by (simp add: fighter_def inventory_ok_def inv_shape_def Slots_def)
  then show ?thesis by (simp add: client_ok_def) (simp add: fighter_def Client_new_def)
qed

lemma two_fighters_ok: "match_ok 2 1 0 0 two_fighters"
proof -
  have "world_ok two_fighters"
    using sq.empty_members brawler_ok [of 0] brawler_ok [of 1]
    by (auto simp: world_ok_def two_fighters_def room_ok_def less_Suc_eq)
  moreover have "manager_ok {0, 1} 0 (rmBattleManager (room_of two_fighters 0))"
    by (auto simp: manager_ok_def info_ok_def two_fighters_def)
  ultimately show ?thesis by (auto simp: match_ok_def two_fighters_def opponents_ok_def)
qed

text \<open>While it sleeps, a client uses an emoticon, and another one leaves.\<close>

definition match_of_two :: thread where
  "match_of_two = thread_start two_fighters
     [handle 0 ([8, 0, 8, 0, 0, 0, 0, 3] @ replicate 1292 0), Disconnect 1 True]"

lemma match_of_two_ok: "thread_ok 2 1 0 0 match_of_two"
  using two_fighters_ok disconnect_other [of 1 2 1 0 True]
  by (simp add: thread_ok_def match_of_two_def thread_start_def handle_ok)

section \<open>Stages\<close>

text \<open>
  C5 (battle). A battle returns, whatever items the clients carry, whatever numbers are drawn, and
  whoever leaves while it goes on: no index leaves its array, no pointer is null, no conversion
  overflows, no message is longer than the buffer of the network; and the invariant of the match holds.
\<close>

theorem battle_stage_returns:
  assumes "thread_ok n m K i t"
  shows "\<exists>go t'. BattleStage i t = Inr (go, t') \<and> thread_ok n m K i t'"
  using BattleStage_ok [OF assms] .

theorem battle_stage_returns_witness:
  "\<exists>go t'. BattleStage 0 match_of_two = Inr (go, t') \<and> world_ok (thWorld t')"
  using battle_stage_returns [OF match_of_two_ok] match_okD(1) by (fastforce simp: thread_ok_def)

text \<open>
  C6 (creep). A stage against the monsters returns in the same way and keeps the invariant of the match.
\<close>

theorem creep_stage_returns:
  assumes "thread_ok n m K i t"
  shows "\<exists>go t'. CreepStage i t = Inr (go, t') \<and> thread_ok n m K i t'"
  using CreepStage_ok [OF assms] .

theorem creep_stage_returns_witness:
  "\<exists>go t'. CreepStage 0 match_of_two = Inr (go, t') \<and> world_ok (thWorld t')"
  using creep_stage_returns [OF match_of_two_ok] match_okD(1) by (fastforce simp: thread_ok_def)

text \<open>
  C7 (ready). The ready stage returns and keeps the invariant; before a battle the common bound on all counters of past
  fights, which the draw needs below the range of its 64 bits, rises by one at most, otherwise it stays.
\<close>

theorem ready_stage_returns:
  assumes "thread_ok n m K i t" and "K < INT64_MAX"
  shows "\<exists>go t'. ReadyStage i battle t = Inr (go, t') \<and> thread_ok n m (if battle then Suc K else K) i t'"
  using ReadyStage_ok [OF assms] .

theorem ready_stage_returns_witness:
  "\<exists>go t'. ReadyStage 0 True match_of_two = Inr (go, t') \<and> thread_ok 2 1 1 0 t'"
  using ready_stage_returns [OF match_of_two_ok, of True] by (simp add: INT64_MAX_def)

section \<open>The thread of a match\<close>

lemma match_loop_end:
  "steps (replicate r (match_round i)) t = Inr (c, t') \<Longrightarrow> c \<noteq> Next \<Longrightarrow> match_loop i t = Some (Inr t')"
proof (induction r arbitrary: t)
  case 0
  then show ?case by simp
next
  case (Suc r)
  then obtain d t1 where d: "match_round i t = Inr (d, t1)" by (auto elim: rbind_InrE)
  show ?case
  proof (cases "d = Next")
    case True
    then show ?thesis using Suc d by (simp add: match_loop.simps [of i t])
  next
    case False
    then show ?thesis using Suc.prems d by (auto simp: match_loop.simps [of i t])
  qed
qed

lemma close_room_ok: "thread_ok n m K i t \<Longrightarrow> world_ok (thWorld (close_room i t))"
  using match_okD [of n m K i "thWorld t"]
  by (auto simp: thread_ok_def close_room_def room_ok_def Room_Init_def intro!: world_ok_set_room)

lemma rounds_ok:
  assumes "1 + 4 * int r + 2 \<le> INT_MAX"
  shows "runs (thread_ok n m (1 + 4 * r) i) (thread_ok n m 1 i) (steps (replicate r (match_round i))) (thread_ok n m (1 + 4 * r) i)"
proof -
  have "runs (thread_ok n m (1 + 4 * r) i) (thread_ok n m (1 + 4 * j) i) (match_round i) (thread_ok n m (1 + 4 * Suc j) i)"
    if "j < r" for j
  proof -
    have K: "int (1 + 4 * j) + 6 \<le> INT_MAX" using that assms by simp
    have "runs (thread_ok n m (1 + 4 * r) i) (thread_ok n m (1 + 4 * j) i) (match_round i) (thread_ok n m (1 + 4 * j + 4) i)"
      by (rule runs_exits [OF runs_match_round [OF K]]) (use that thread_ok_mono in \<open>fastforce\<close>)
    then show ?thesis by (simp add: algebra_simps)
  qed
  from runs_repeat [where P = "\<lambda>j. thread_ok n m (1 + 4 * j) i", OF this] show ?thesis by simp
qed

text \<open>
  The thread of a match, whatever other threads do that keeps the invariant: for any number \<open>r\<close> of rounds that the
  round counter can hold, either the thread has come back, with every index and pointer of the server in
  range, or the match goes on after \<open>r\<close> rounds in its invariant.  It never leaves the defined behaviour.
\<close>

theorem progress_thread_defined:
  assumes "thread_ok n m 0 i (begin_match i t)" and "4 * int r + 7 \<le> INT_MAX"
  shows "(\<exists>t'. ProgressThread i t = Some (Inr t') \<and> world_ok (thWorld t')) \<or>
    (\<exists>t'. steps ([match_opening i (rmOpenCount (room_of (thWorld (begin_match i t)) i)), first_creeps i] @
            replicate r (match_round i)) (begin_match i t) = Inr (Next, t') \<and> thread_ok n m (1 + 4 * r) i t')"
proof -
  let ?t = "begin_match i t" and ?K = "1 + 4 * r"
  let ?oc = "rmOpenCount (room_of (thWorld ?t) i)"
  let ?open = "[match_opening i ?oc, first_creeps i]"
  have up: "thread_ok n m j i u \<Longrightarrow> j \<le> ?K \<Longrightarrow> thread_ok n m ?K i u" for j u by (erule thread_ok_mono)
  have small: "int 0 + 6 \<le> INT_MAX" by (simp add: INT_MAX_def)
  have opened: "runs (thread_ok n m 1 i) (thread_ok n m 0 i) (steps ?open) (thread_ok n m 1 i)"
  proof (rule runs_Cons [OF runs_exits [OF runs_match_opening] runs_Cons [OF _ runs_Nil]])
    show "thread_ok n m 0 i u \<Longrightarrow> thread_ok n m 1 i u" for u by (erule thread_ok_mono) simp
    show "runs (thread_ok n m 1 i) (thread_ok n m 0 i) (first_creeps i) (thread_ok n m 1 i)"
      using runs_first_creeps [OF small] by simp
  qed
  obtain c t1 where c: "steps ?open ?t = Inr (c, t1)" "thread_ok n m 1 i t1"
    using runsD [OF opened assms(1)] by auto
  show ?thesis
  proof (cases "c = Next")
    case False
    then show ?thesis using c close_room_ok [OF c(2)] match_okD(1) [of n m 1 i "thWorld t1"]
      by (auto simp: ProgressThread_def Let_def thread_ok_def simp del: steps.simps)
  next
    case True
    obtain d t2 where d: "steps (replicate r (match_round i)) t1 = Inr (d, t2)" "thread_ok n m ?K i t2"
      using runsD [OF rounds_ok c(2), of r] assms(2) by auto
    show ?thesis
    proof (cases "d = Next")
      case True
      then have "steps (?open @ replicate r (match_round i)) ?t = Inr (Next, t2)"
        using \<open>c = Next\<close> c(1) d(1) by (simp add: steps_append [of ?open] del: steps.simps append.simps)
      then show ?thesis using d(2) by blast
    next
      case False
      then have "ProgressThread i t = Some (Inr (close_room i t2))"
        using \<open>c = Next\<close> c(1) match_loop_end [OF d(1) False] by (simp add: ProgressThread_def Let_def del: steps.simps)
      then show ?thesis using close_room_ok [OF d(2)] by blast
    qed
  qed
qed

theorem progress_thread_defined_witness:
  "(\<exists>t'. ProgressThread 0 match_of_two = Some (Inr t') \<and> world_ok (thWorld t')) \<or>
    (\<exists>t'. thread_ok 2 1 401 0 t')"
proof -
  have "thread_ok 2 1 0 0 (begin_match 0 match_of_two)"
  proof -
    have "room_ok 2 ((room_of (thWorld match_of_two) 0)\<lparr>rmIsFinishThread := False, rmCurRoomStatusType := St_ChoiceCharacter\<rparr>)"
      by (auto simp: match_of_two_def thread_start_def two_fighters_def room_ok_def)
    then have "match_ok 2 1 0 0 (thWorld (begin_match 0 match_of_two))"
      using match_of_two_ok unfolding begin_match_def
      by (auto simp: thread_ok_def match_ok_def room_of_set_room intro: world_ok_set_room)
    then show ?thesis using match_of_two_ok by (simp add: thread_ok_def begin_match_def)
  qed
  from progress_thread_defined [OF this, of 100] show ?thesis by (auto simp: INT_MAX_def simp del: steps.simps)
qed

section \<open>The other threads\<close>

text \<open>
  C8 (others). A packet that stays in range, handled while a match runs, changes nothing of the room of
  the match: the handlers keep the invariant on which the thread of the match relies.
\<close>

theorem handlers_leave_matches_alone:
  assumes "match_ok n m K i w" and "conn < n" and "length buf = MAX_PACKET_SIZE" and "in_range conn buf w"
  shows "\<exists>w'. ProcessPacket conn buf w = Inr w' \<and> room_of w' i = room_of w i \<and> match_ok n m K i w'"
proof -
  note d = match_okD [OF assms(1)]
  obtain w' where w': "handle conn buf w = Inr w'" "match_ok n m K i w'"
    using handle_ok [OF assms(2,3), of m i] assms(1) unfolding other_ok_def by blast
  then have pp: "ProcessPacket conn buf w = Inr w'" using assms(4) by (simp add: handle_def)
  moreover have "room_of w' i = room_of w i"
    by (rule ProcessPacket_room [OF d(1) _ _ assms(4) pp]) (use assms d in \<open>simp_all add: match_ok_def\<close>)
  ultimately show ?thesis using w'(2) by blast
qed

theorem handlers_leave_matches_alone_witness:
  "\<exists>w'. ProcessPacket 0 ([8, 0, 8, 0, 0, 0, 0, 3] @ replicate 1292 0) two_fighters = Inr w' \<and>
    room_of w' 0 = room_of two_fighters 0"
proof -
  have "\<exists>w'. ProcessPacket 0 ([8, 0, 8, 0, 0, 0, 0, 3] @ replicate 1292 0) two_fighters = Inr w' \<and>
      room_of w' 0 = room_of two_fighters 0 \<and> match_ok 2 1 0 0 w'"
    by (rule handlers_leave_matches_alone [OF two_fighters_ok])
      (simp_all add: two_fighters_def in_range_def rd_type_def of_num_def packet_types_def rd_u16_def)
  then show ?thesis by blast
qed

section \<open>Wounds\<close>

text \<open>An avatar whose character is hurt: it is down, no copy, its character was not hurt before, and its client is still in the room.\<close>

definition struck :: "avatar \<Rightarrow> world \<Rightarrow> bool" where
  "struck a w \<longleftrightarrow> avHp a \<le> 0 \<and> \<not> avIsGhost a \<and> \<not> avIsCharacterDamage a \<and> IsValidBattleAvatarInRoom a w"

text \<open>The client \<open>p\<close> of the avatar \<open>a\<close> after a wound of damage \<open>d\<close> and two for every round; zero is the least.\<close>

definition beaten :: "nat \<Rightarrow> avatar \<Rightarrow> int \<Rightarrow> nat \<Rightarrow> world \<Rightarrow> client" where
  "beaten i a d p w = (if struck a w
     then (client_of w p)\<lparr>clHp := max 0 (i32 (clHp (client_of w p) - i32 (d + i32 (rmRound (room_of w i) * 2))))\<rparr>
     else client_of w p)"

definition marked :: "avatar \<Rightarrow> world \<Rightarrow> avatar" where
  "marked a w = a\<lparr>avIsCharacterDamage := avIsCharacterDamage a \<or> struck a w\<rparr>"

lemma wound_result:
  assumes "GetDamage b = Inr d" and "avClient a = Some p" and "p < length (wClients w)"
  shows "wound i a b w = Inr (marked a w, set_client p (beaten i a d p w) w)"
proof -
  have "a\<lparr>avIsCharacterDamage := avIsCharacterDamage a\<rparr> = a" by simp
  moreover have "set_client p (client_of w p) w = w" by (simp add: set_client_def)
  moreover have "\<not> avIsCharacterDamage a \<Longrightarrow> a\<lparr>avIsCharacterDamage := False\<rparr> = a" by simp
  moreover have "avIsCharacterDamage a \<Longrightarrow> a\<lparr>avIsCharacterDamage := True\<rparr> = a" by simp
  ultimately show ?thesis using assms
    by (auto simp: wound_def ToDamageCharacter_def marked_def beaten_def struck_def Client_ToDamage_def Let_def max_def)
qed

text \<open>A wound leaves the places of the clients alone.\<close>

lemma beaten_valid:
  assumes "p < length (wClients w)"
  shows "IsValidClientInThisRoom j c (set_client p (beaten i a d p w) w) = IsValidClientInThisRoom j c w"
  using assms by (auto simp: IsValidClientInThisRoom_def client_of_set_client beaten_def split: option.splits)

text \<open>
  C15 (defeat). After an attack nothing happens while both avatars of the pair have hit points.  As soon as
  either is down, the acting one or its opponent, the character of each one that is down takes the damage
  of the other and two more for every round, once; a copy and a client that is gone take none, and an
  avatar that still stands keeps its character unhurt.  The fight of the pair is over then, and exactly
  the clients of the pair without hit points that are in the room are put on the list of those to dismiss.
\<close>

theorem settle_wounds_losers:
  assumes t: "thAvatars t ! k = a" "thAvatars t ! l = b" "k < length (thAvatars t)" "l < length (thAvatars t)" "k \<noteq> l"
    and hp: "0 \<le> avHp a" "0 \<le> avHp b" and d: "GetDamage b = Inr db" "GetDamage a = Inr da"
    and p: "avClient a = Some p" "avClient b = Some q" "p \<noteq> q" "p < length (wClients (thWorld t))" "q < length (wClients (thWorld t))"
  shows "settle i k l t = Inr (Next, if 0 < avHp a \<and> 0 < avHp b then t else t
    \<lparr>thWorld := set_client q (beaten i b da q (thWorld t)) (set_client p (beaten i a db p (thWorld t)) (thWorld t)),
     thAvatars := (thAvatars t)[k := (marked a (thWorld t))\<lparr>avIsFinish := True\<rparr>, l := (marked b (thWorld t))\<lparr>avIsFinish := True\<rparr>],
     thLeavers := thLeavers t @
       (if clHp (beaten i a db p (thWorld t)) = 0 \<and> IsValidClientInThisRoom i (Some p) (thWorld t) then [avNetworkID a] else []) @
       (if clHp (beaten i b da q (thWorld t)) = 0 \<and> IsValidClientInThisRoom i (Some q) (thWorld t) then [avNetworkID b] else [])\<rparr>)"
proof (cases "0 < avHp a \<and> 0 < avHp b")
  case True
  then show ?thesis using t by (simp add: settle_def with_pair_def at_idx_def)
next
  case False
  then have down: "avHp a = 0 \<or> avHp b = 0" using hp by auto
  let ?w = "thWorld t"
  let ?w1 = "set_client p (beaten i a db p ?w) ?w"
  let ?w2 = "set_client q (beaten i b da q ?w) ?w1"
  have v1: "IsValidClientInThisRoom j c ?w1 = IsValidClientInThisRoom j c ?w" for j c by (rule beaten_valid [OF p(4)])
  then have "struck b ?w1 = struck b ?w" by (simp add: struck_def IsValidBattleAvatarInRoom_def split: option.split)
  then have w1: "beaten i b da q ?w1 = beaten i b da q ?w" "marked b ?w1 = marked b ?w"
    using p(3,4) client_of_set_client [of p ?w _ q] by (simp_all add: beaten_def [of i b] marked_def)
  have v2: "IsValidClientInThisRoom j c ?w2 = IsValidClientInThisRoom j c ?w" for j c
    using beaten_valid [of q ?w1 j c i b da] p(5) v1 w1 by simp
  have "GetDamage (marked a ?w) = Inr da" using d(2) by (simp add: GetDamage_def marked_def)
  then have "wound i b (marked a ?w) ?w1 = Inr (marked b ?w, ?w2)"
    using wound_result [of "marked a ?w" da b q ?w1 i] p w1 by simp
  moreover have "lost i (marked a ?w) ?w2 = Inr (if clHp (beaten i a db p ?w) = 0 \<and> IsValidClientInThisRoom i (Some p) ?w then [avNetworkID a] else [])"
    using p v2 by (simp add: lost_def marked_def client_of_set_client)
  moreover have "lost i (marked b ?w) ?w2 = Inr (if clHp (beaten i b da q ?w) = 0 \<and> IsValidClientInThisRoom i (Some q) ?w then [avNetworkID b] else [])"
    using p v2 by (simp add: lost_def marked_def client_of_set_client)
  ultimately show ?thesis unfolding if_not_P [OF False] using t down wound_result [OF d(1) p(1,4), of i]
    by (simp add: settle_def with_pair_def at_idx_def put_pair_def SetFinish_def)
qed

text \<open>The avatar of the first fighter is down.\<close>

definition after_a_hit :: thread where
  "after_a_hit = match_of_two\<lparr>thAvatars :=
     [BattleAvatar_new\<lparr>avClient := Some 0, avRoom := Some 0, avNetworkID := 0, avMaxHp := 50\<rparr>,
      BattleAvatar_new\<lparr>avClient := Some 1, avRoom := Some 0, avNetworkID := 1, avMaxHp := 50, avHp := 30\<rparr>]\<rparr>"

theorem settle_wounds_losers_witness:
  "\<exists>t'. settle 0 1 0 after_a_hit = Inr (Next, t') \<and> clHp (client_of (thWorld t') 0) = MAX_CHARACTER_MAX_HP - 2 \<and>
    clHp (client_of (thWorld t') 1) = MAX_CHARACTER_MAX_HP \<and> map avIsFinish (thAvatars t') = [True, True] \<and> thLeavers t' = []"
proof -
  let ?a = "thAvatars after_a_hit ! 0" and ?b = "thAvatars after_a_hit ! 1"
  have av: "avHp ?a = 0" "avHp ?b = 30" "avClient ?a = Some 0" "avClient ?b = Some 1"
    "avUsingItem ?a = replicate 6 Item_new" "avUsingItem ?b = replicate 6 Item_new"
    "length (thAvatars after_a_hit) = 2" "thWorld after_a_hit = two_fighters" "thLeavers after_a_hit = []"
    by (simp_all add: after_a_hit_def BattleAvatar_new_def match_of_two_def thread_start_def)
  have dmg: "GetDamage ?b = Inr 0" "GetDamage ?a = Inr 0"
    using av by (simp_all add: GetDamage_def Item_new_def numeral_eq_Suc)
  have len: "length (wClients two_fighters) = 2" by (simp add: two_fighters_def)
  have hurt: "clHp (beaten 0 ?a 0 0 two_fighters) = MAX_CHARACTER_MAX_HP - 2" "clHp (beaten 0 ?b 0 1 two_fighters) = MAX_CHARACTER_MAX_HP"
    "MAX_CHARACTER_MAX_HP - 2 \<noteq> 0" "MAX_CHARACTER_MAX_HP \<noteq> 0"
    unfolding after_a_hit_def by code_simp+
  have two: "xs[1 := x, 0 := y] = [y, x]" if "length xs = 2" for xs :: "avatar list" and x y
    using that by (cases xs; cases "tl xs") auto
  have "settle 0 1 0 after_a_hit = Inr (Next, after_a_hit
    \<lparr>thWorld := set_client 0 (beaten 0 ?a 0 0 two_fighters) (set_client 1 (beaten 0 ?b 0 1 two_fighters) two_fighters),
     thAvatars := [(marked ?a two_fighters)\<lparr>avIsFinish := True\<rparr>, (marked ?b two_fighters)\<lparr>avIsFinish := True\<rparr>],
     thLeavers := []\<rparr>)"
    using settle_wounds_losers [of after_a_hit 1 ?b 0 ?a 0 0 1 0 0] av dmg len hurt by (simp add: two [simplified])
  then show ?thesis using len hurt by (simp add: client_of_set_client)
qed

end
