(* ===== verification/Server_Properties.thy ===== *)
theory Server_Properties
  imports Stage_Run Match_Properties
begin

text \<open>
  The properties of the running server: one place for every client, new and silent connections, and
  what all of that leaves of a match in progress.
\<close>

section \<open>Beside a match\<close>

text \<open>What happens beside the match of room \<open>i\<close>: everything but its own beginning and end.\<close>

definition beside :: "nat \<Rightarrow> server_event \<Rightarrow> bool" where
  "beside i e \<longleftrightarrow> e \<noteq> Begins i \<and> e \<noteq> Ends i"

lemma match_ok_other_room:
  assumes "match_ok n m K i w" and "j < m" and "j \<noteq> i" and "room_ok n r"
  shows "match_ok n m K i (set_room j r w)"
  using assms world_ok_set_room [of w j r] match_okD [OF assms(1)]
  by (intro match_ok_same_room [OF assms(1)]) (simp_all add: room_of_set_room)

text \<open>The invariant of a match, whatever happens beside it.\<close>

interpretation ma: event_law n m "match_ok n m K i" "\<lambda>e w. beside i e" for n m K i
proof
  show "sound n m w" if "match_ok n m K i w" for w using match_okD [OF that] by (simp add: sound_def)
  show "match_ok n m K i w'" if "match_ok n m K i w" "conn < n" "length buf = MAX_PACKET_SIZE" "in_range conn buf w"
    "ProcessPacket conn buf w = Inr w'" for w w' conn buf
  proof -
    have "\<exists>w2. handle conn buf w = Inr w2 \<and> match_ok n m K i w2"
      using handle_ok [OF that(2,3), of m i] that(1) unfolding other_ok_def by blast
    then show ?thesis using that(4,5) by (simp add: handle_def)
  qed
  show "match_ok n m K i (set_client p c w)" if "match_ok n m K i w" "p < n" "client_ok m p c" for w p c
    by (rule match_ok_set_client [OF that])
  show "match_ok n m K i (svWorld sv')" if "match_ok n m K i (svWorld sv)" "accept_client s r sv = Inr sv'" for sv sv' s r
    using accept_ok [OF match_okD(1) [OF that(1)], of s r] match_ok_rooms [OF that(1)] that(2) by (auto simp: keeps_ok_def)
  show "match_ok n m K i w'" if "match_ok n m K i w" "p < n" "Disconnect (int p) told w = Inr w'" for w w' p told
    using Disconnect_match [OF that(1,2), of told] that(3) by auto
  show "match_ok n m K i (set_room j ((room_of w j)\<lparr>rmIsFinishThread := False, rmCurRoomStatusType := St_ChoiceCharacter\<rparr>) w)"
    if "match_ok n m K i w" "j < m" "beside i (Begins j)" for w j
    using world_ok_room [OF match_okD(1) [OF that(1)], of j] that match_okD [OF that(1)]
    by (intro match_ok_other_room [OF that(1,2)]) (simp_all add: room_ok_def beside_def)
  show "match_ok n m K i (set_room j ((Room_Init (room_of w j))\<lparr>rmIsFinishThread := True\<rparr>) w)"
    if "match_ok n m K i w" "j < m" "beside i (Ends j)" for w j
    using that by (intro match_ok_other_room [OF that(1,2)]) (simp_all add: room_ok_def Room_Init_def beside_def)
qed simp_all

lemma happens_other: "beside i e \<Longrightarrow> match_ok n m K i w \<Longrightarrow> \<exists>w'. happens a b e w = Inr w' \<and> match_ok n m K i w'"
  using ma.serves [of n m K i "\<lparr>svWorld = w, svConnectCount = a, svCurrConnectionCount = b\<rparr>" e]
  by (fastforce simp: happens_def Let_def)

lemma meanwhile_other: "\<forall>e \<in> set es. beside i e \<Longrightarrow> other_ok n m i (meanwhile a b es)"
proof -
  have "\<exists>w'. meanwhile a b es w = Inr w' \<and> match_ok n m K i w'" if "\<forall>e \<in> set es. beside i e" "match_ok n m K i w" for K w
    using that
  proof (induction es arbitrary: w)
    case Nil
    then show ?case by simp
  next
    case (Cons e es)
    have "beside i e" "match_ok n m K i w" using Cons.prems by simp_all
    then obtain u where "happens a b e w = Inr u" "match_ok n m K i u" using happens_other [of i e n m K w a b] by blast
    then show ?case using Cons.IH [of u] Cons.prems(1) by simp
  qed
  then show "\<forall>e \<in> set es. beside i e \<Longrightarrow> other_ok n m i (meanwhile a b es)" unfolding other_ok_def by blast
qed

section \<open>Reachable states\<close>

lemma stands_start: "stands MAX_USER MAX_ROOM_COUNT (world_new rng now)"
proof -
  have "client_ok n p (Client_new (int p))" for n p
    using inventory_ok_new [of "int p"] by (simp add: client_ok_def) (simp add: Client_new_def)
  moreover have "MAX_ROOM_COUNT = 2500" by (simp add: MAX_ROOM_COUNT_def MAX_USER_def)
  ultimately have "world_ok (world_new rng now)"
    using sq.empty_members by (simp add: world_ok_def world_new_def room_ok_def Room_new_def)
  moreover have "placed (world_new rng now)"
    using sq.empty_members by (simp add: placed_def world_new_def Room_new_def Client_new_def)
  ultimately show ?thesis by (simp add: stands_def world_new_def)
qed

lemma run_sound: "server_run once sv \<Longrightarrow> sound MAX_USER MAX_ROOM_COUNT (svWorld sv)"
proof (induction rule: server_run.induct)
  case (Start rng now)
  then show ?case using st.P_sound [OF stands_start] by (simp add: server_new_def)
next
  case (Step sv e sv')
  then show ?case using so.serves [of _ _ sv e] by fastforce
next
  case (Deed sv f w)
  then show ?case using ds.deeds [of once f] by (auto simp: obeys_def keeps_sound_def)
qed

lemma run_stands: "server_run True sv \<Longrightarrow> stands MAX_USER MAX_ROOM_COUNT (svWorld sv)"
proof (induction rule: server_run.induct)
  case (Start rng now)
  then show ?case by (simp add: server_new_def stands_start)
next
  case (Step sv e sv')
  then show ?case using st.serves [of _ _ sv e] by fastforce
next
  case (Deed sv f w)
  then show ?case using dp.deeds [of f] by (auto simp: obeys_def keeps_places_def)
qed

text \<open>
  C1 (reachable). In every state the server reaches by events and stages of matches, with other events and
  stages in the pauses of a stage, every index and pointer is in range, the inventories are well-formed
  and the sizes are those of the lists; and every event that can happen then, packets that stay in range
  among them, is handled without leaving the defined behaviour.  As long as no client asks for a match
  while it waits for one, every client also occurs at most once in the queue and all rooms together, and
  only while it is connected.
\<close>

theorem reachable_states:
  assumes "server_run once sv"
  shows "world_ok (svWorld sv) \<and> length (wClients (svWorld sv)) = MAX_USER \<and> length (wRooms (svWorld sv)) = MAX_ROOM_COUNT \<and>
    (\<forall>e. allowed e sv \<longrightarrow> (\<exists>sv'. serve e sv = Inr sv' \<and> ((once \<longrightarrow> orderly e (svWorld sv)) \<longrightarrow> server_run once sv'))) \<and>
    (once \<longrightarrow> (\<forall>p. count_list (queue_list (wQueue (svWorld sv)) @ concat (map rmClients (wRooms (svWorld sv)))) p
      \<le> (if p < MAX_USER \<and> clStatus (client_of (svWorld sv) p) = ACTIVE then 1 else 0)))"
proof -
  have s: "sound MAX_USER MAX_ROOM_COUNT (svWorld sv)" by (rule run_sound [OF assms])
  have "\<exists>sv'. serve e sv = Inr sv' \<and> ((once \<longrightarrow> orderly e (svWorld sv)) \<longrightarrow> server_run once sv')" if "allowed e sv" for e
    using so.serves [OF s that] server_run.Step [OF assms that] by blast
  moreover have "count_list (queue_list (wQueue (svWorld sv)) @ concat (map rmClients (wRooms (svWorld sv)))) p
      \<le> (if p < MAX_USER \<and> clStatus (client_of (svWorld sv) p) = ACTIVE then 1 else 0)" if once for p
  proof -
    have "stands MAX_USER MAX_ROOM_COUNT (svWorld sv)" using assms that by (intro run_stands) simp
    then show ?thesis using placed_count [of "svWorld sv" p] by (simp add: stands_def)
  qed
  ultimately show ?thesis using s by (simp add: sound_def)
qed

text \<open>The first client connects.\<close>

lemma first_free: "find_free (wClients (world_new rng now)) = Some 0"
proof -
  have "0 < MAX_USER" by (simp add: MAX_USER_def)
  then have "[0..<MAX_USER] = 0 # [Suc 0..<MAX_USER]" by (rule upt_conv_Cons)
  then show ?thesis by (simp add: world_new_def Client_new_def)
qed

lemma one_connected:
  "\<exists>sv. server_run True sv \<and> clStatus (client_of (svWorld sv) 0) = ACTIVE \<and> clSocket (client_of (svWorld sv) 0) = Some 7 \<and>
    wSent (svWorld sv) = [(0, Packet_Write (Notification 0 ConnectServer))]"
proof -
  let ?sv = "server_new [] 0"
  have ok: "world_ok (svWorld ?sv)" using stands_start by (simp add: server_new_def stands_def)
  have free: "find_free (wClients (svWorld ?sv)) = Some 0" using first_free by (simp add: server_new_def)
  have len: "0 < length (wClients (svWorld ?sv))" using find_free_Some [OF free] by simp
  have "allowed (Arrives 7 True) ?sv" "True \<longrightarrow> orderly (Arrives 7 True) (svWorld ?sv)" by simp_all
  from server_run.Step [OF server_run.Start this] show ?thesis
    using accept_client_spec [OF ok free, of 7] len
    by (fastforce simp: client_of_set_client connected_def server_new_def world_new_def)
qed

theorem reachable_states_witness:
  "\<exists>sv sv'. server_run True sv \<and> clStatus (client_of (svWorld sv) 0) = ACTIVE \<and> world_ok (svWorld sv) \<and>
    count_list (queue_list (wQueue (svWorld sv)) @ concat (map rmClients (wRooms (svWorld sv)))) 0 \<le> 1 \<and>
    serve Checks sv = Inr sv' \<and> server_run True sv'"
proof -
  obtain sv where sv: "server_run True sv" "clStatus (client_of (svWorld sv) 0) = ACTIVE" using one_connected by blast
  have m: "(0::nat) < MAX_USER" by (simp add: MAX_USER_def)
  have al: "allowed Checks sv" "True \<longrightarrow> orderly Checks (svWorld sv)" by simp_all
  note r = reachable_states [OF sv(1)]
  obtain sv' where "serve Checks sv = Inr sv'" "server_run True sv'" using r al by blast
  moreover have "count_list (queue_list (wQueue (svWorld sv)) @ concat (map rmClients (wRooms (svWorld sv)))) 0 \<le> 1"
  proof -
    have "count_list (queue_list (wQueue (svWorld sv)) @ concat (map rmClients (wRooms (svWorld sv)))) 0
        \<le> (if (0::nat) < MAX_USER \<and> clStatus (client_of (svWorld sv) 0) = ACTIVE then 1 else 0)" using r by blast
    then show ?thesis by (simp only: sv(2) m simp_thms if_True)
  qed
  ultimately show ?thesis using sv r by blast
qed

section \<open>Connections\<close>

text \<open>
  C21 (accept). A new connection gets the first place that is free: the client there is connected from
  then on, with this socket, nothing received and just heard of, and is greeted with its number; when
  the socket cannot be registered the place stays reserved; without a free place nothing happens.
\<close>

theorem accepted_client:
  assumes "world_ok (svWorld sv)"
  shows "\<exists>sv'. accept_client s registered sv = Inr sv' \<and>
    (if \<forall>c \<in> set (wClients (svWorld sv)). clStatus c \<noteq> FREE then sv' = sv
     else \<exists>p < length (wClients (svWorld sv)). clStatus (client_of (svWorld sv) p) = FREE \<and>
       (\<forall>q < p. clStatus (client_of (svWorld sv) q) \<noteq> FREE) \<and>
       (if registered
        then svWorld sv' = set_client p ((client_of (svWorld sv) p)\<lparr>clPrevSize := 0, clSocket := Some s,
               clLastConnectCheckPacketTime := wNow (svWorld sv), clStatus := ACTIVE\<rparr>)
             ((svWorld sv)\<lparr>wSent := wSent (svWorld sv) @ [(p, Packet_Write (Notification (int p) ConnectServer))]\<rparr>)
        else sv' = sv\<lparr>svWorld := set_client p ((client_of (svWorld sv) p)\<lparr>clStatus := ALLOCATED\<rparr>) (svWorld sv)\<rparr>))"
proof (cases "find_free (wClients (svWorld sv))")
  case None
  then show ?thesis using accept_client_none by (simp add: find_free_None)
next
  case (Some p)
  note f = find_free_Some [OF Some]
  have "\<not> (\<forall>c \<in> set (wClients (svWorld sv)). clStatus c \<noteq> FREE)" using f nth_mem by blast
  then show ?thesis using f accept_client_spec [OF assms Some, of s] accept_client_refused [OF Some, of s]
    by (cases registered) (auto simp: connected_def intro!: exI [of _ p])
qed

theorem accepted_client_witness:
  "\<exists>sv'. accept_client 7 True (server_new [] 0) = Inr sv' \<and> clStatus (client_of (svWorld sv') 0) = ACTIVE"
proof -
  have ok: "world_ok (svWorld (server_new [] 0))" using stands_start by (simp add: server_new_def stands_def)
  note f = find_free_Some [OF first_free [of "[]" 0]]
  obtain sv' p where sv': "accept_client 7 True (server_new [] 0) = Inr sv'" "p < length (wClients (svWorld (server_new [] 0)))"
    "\<forall>q < p. clStatus (client_of (svWorld (server_new [] 0)) q) \<noteq> FREE"
    "svWorld sv' = set_client p ((client_of (svWorld (server_new [] 0)) p)\<lparr>clPrevSize := 0, clSocket := Some 7,
       clLastConnectCheckPacketTime := wNow (svWorld (server_new [] 0)), clStatus := ACTIVE\<rparr>)
       ((svWorld (server_new [] 0))\<lparr>wSent := wSent (svWorld (server_new [] 0)) @ [(p, Packet_Write (Notification (int p) ConnectServer))]\<rparr>)"
    using accepted_client [OF ok, of 7 True] f nth_mem by (fastforce simp: server_new_def split: if_splits)
  have "p = 0" using sv'(3) f by (cases p) (auto simp: server_new_def)
  then show ?thesis using sv'(1,2,4) by (simp add: client_of_set_client)
qed

text \<open>
  C22 (check). The check of the main thread disconnects exactly the connected clients that were silent for
  longer than the interval: they are reset and free, all others are as before, and the counter of
  connections is the number of those still connected.
\<close>

theorem connection_check:
  assumes "world_ok (svWorld sv)" and "length (wClients (svWorld sv)) < 2 ^ 64"
  shows "\<exists>sv'. check_connections sv = Inr sv' \<and> world_ok (svWorld sv') \<and>
    (\<forall>p < length (wClients (svWorld sv)). client_of (svWorld sv') p =
      (if clStatus (client_of (svWorld sv) p) = ACTIVE \<and>
          clLastConnectCheckPacketTime (client_of (svWorld sv) p) + CONNECT_CHECK_INTERVAL * 1000 < wNow (svWorld sv)
       then dropped (client_of (svWorld sv) p) else client_of (svWorld sv) p)) \<and>
    svCurrConnectionCount sv' = length (filter (\<lambda>c. clStatus c = ACTIVE) (wClients (svWorld sv')))"
proof -
  let ?w = "svWorld sv"
  obtain sv' where c: "check_connections sv = Inr sv'" "keeps_ok ?w (svWorld sv')"
    "\<forall>q < length (wClients ?w). client_of (svWorld sv') q =
      (if silent (wNow ?w) (client_of ?w q) then dropped (client_of ?w q) else client_of ?w q)"
    "svCurrConnectionCount sv' = length (filter (alive (wNow ?w)) (wClients ?w))"
    using check_connections_spec [OF assms] by blast
  have "wClients (svWorld sv') = map (\<lambda>c. if silent (wNow ?w) c then dropped c else c) (wClients ?w)"
    using c(2,3) by (intro nth_equalityI) (simp_all add: keeps_ok_def)
  then have "length (filter (\<lambda>c. clStatus c = ACTIVE) (wClients (svWorld sv'))) =
      length (filter (\<lambda>c. clStatus (if silent (wNow ?w) c then dropped c else c) = ACTIVE) (wClients ?w))"
    by (simp add: filter_map o_def)
  also have "(\<lambda>c. clStatus (if silent (wNow ?w) c then dropped c else c) = ACTIVE) = alive (wNow ?w)"
    by (auto simp: silent_def alive_def dropped_def Client_reset_def)
  finally show ?thesis using c by (simp add: keeps_ok_def silent_def IsValidConnect_def)
qed

text \<open>Two connected clients, half a minute and a second after the last sign of the first one.\<close>

definition one_silent :: server where
  "one_silent = \<lparr>svWorld = (set_client 1 ((fighter 1)\<lparr>clLastConnectCheckPacketTime := 5000\<rparr>) two_fighters)\<lparr>wNow := 31000\<rparr>,
     svConnectCount = 2, svCurrConnectionCount = 2\<rparr>"

lemma one_silent_ok: "world_ok (svWorld one_silent)"
proof -
  have "client_ok 1 1 ((fighter 1)\<lparr>clLastConnectCheckPacketTime := 5000\<rparr>)"
    by (rule client_ok_cong [OF brawler_ok]) simp_all
  then have "world_ok (set_client 1 ((fighter 1)\<lparr>clLastConnectCheckPacketTime := 5000\<rparr>) two_fighters)"
    using match_okD(1) [OF two_fighters_ok] by (intro world_ok_set_client) (simp_all add: two_fighters_def)
  then show ?thesis by (simp add: one_silent_def)
qed

theorem connection_check_witness:
  "\<exists>sv'. check_connections one_silent = Inr sv' \<and> clStatus (client_of (svWorld sv') 0) = FREE \<and>
    clStatus (client_of (svWorld sv') 1) = ACTIVE"
proof -
  have len: "length (wClients (svWorld one_silent)) = 2" by (simp add: one_silent_def two_fighters_def)
  have c: "clStatus (client_of (svWorld one_silent) 0) = ACTIVE" "clStatus (client_of (svWorld one_silent) 1) = ACTIVE"
    "clLastConnectCheckPacketTime (client_of (svWorld one_silent) 0) = 0"
    "clLastConnectCheckPacketTime (client_of (svWorld one_silent) 1) = 5000" "wNow (svWorld one_silent) = 31000"
    by (simp_all add: one_silent_def set_client_def two_fighters_def fighter_def Client_new_def)
  show ?thesis using connection_check [OF one_silent_ok] len c
    by (fastforce simp: CONNECT_CHECK_INTERVAL_def dropped_def Client_reset_def)
qed

section \<open>Worker threads\<close>

lemma map_sum_Inr: "map_sum id f m = Inr y \<Longrightarrow> \<exists>x. m = Inr x \<and> y = f x"
  by (cases m) auto

lemma complete_keeps:
  assumes ok: "world_ok (svWorld sv)" and c: "complete c sv = Some (Inr sv1)"
    and r: "\<forall>u bytes. c = Recv u bytes \<longrightarrow> u < length (wClients (svWorld sv))" "\<forall>u n. c = Send u n \<longrightarrow> u < length (wClients (svWorld sv))"
  shows "keeps_ok (svWorld sv) (svWorld sv1)"
proof -
  have d: "keeps_ok (svWorld sv) (svWorld sv1)"
    if "with_world (Disconnect (int u) True) sv = Inr sv1" "u < length (wClients (svWorld sv))" for u
    using Disconnect_ok [OF ok that(2), of True] that(1) by (auto simp: with_world_def rbind_Inr_iff keeps_ok_def)
  show ?thesis
  proof (cases c)
    case (Recv u bytes)
    then show ?thesis using c r d receive_keeps [OF ok, of u bytes] by (auto simp: sum.map_comp split: if_splits dest!: map_sum_Inr)
  next
    case (Send u n)
    then show ?thesis using c r d ok by (auto simp: keeps_ok_def split: if_splits)
  next
    case (Accept s registered)
    then show ?thesis using c accept_ok [OF ok, of s registered] by auto
  qed
qed

text \<open>
  C3 (worker). Whatever completions a worker thread takes, with whatever bytes on whatever connection:
  as long as it comes back without leaving the defined behaviour, every index and pointer of the server
  is in range, the inventories are well-formed and the sizes of rooms and queue are those of their lists.
\<close>

theorem worker_invariant:
  assumes "world_ok (svWorld sv)" and "WorkerThread cs sv = Some (Inr sv')"
    and "\<forall>c \<in> set cs. (\<forall>u bytes. c = Recv u bytes \<longrightarrow> u < length (wClients (svWorld sv))) \<and>
      (\<forall>u n. c = Send u n \<longrightarrow> u < length (wClients (svWorld sv)))"
  shows "world_ok (svWorld sv') \<and> length (wClients (svWorld sv')) = length (wClients (svWorld sv)) \<and>
    length (wRooms (svWorld sv')) = length (wRooms (svWorld sv))"
  using assms
proof (induction cs arbitrary: sv)
  case Nil
  then show ?case by simp
next
  case (Cons c cs)
  obtain sv1 where sv1: "complete c sv = Some (Inr sv1)" "WorkerThread cs sv1 = Some (Inr sv')"
    using Cons.prems(2) by (auto split: option.splits sum.splits)
  have "keeps_ok (svWorld sv) (svWorld sv1)"
    using complete_keeps [OF Cons.prems(1) sv1(1)] Cons.prems(3) by auto
  then show ?case using Cons.IH [OF _ sv1(2)] Cons.prems(3) by (auto simp: keeps_ok_def)
qed

text \<open>One after the other: a connection, a packet on it, the message sent, and nothing more.\<close>

theorem worker_invariant_witness:
  "\<exists>sv'. WorkerThread [Send 1 8, Recv 1 [], Accept 9 True] one_silent = Some (Inr sv') \<and> world_ok (svWorld sv')"
proof -
  have len: "length (wClients (svWorld one_silent)) = 2" by (simp add: one_silent_def two_fighters_def)
  obtain w where w: "Disconnect (int 1) True (svWorld one_silent) = Inr w" "world_ok w"
    using Disconnect_ok [OF one_silent_ok, of 1 True] len by auto
  obtain sv' where "accept_client 9 True (one_silent\<lparr>svWorld := w\<rparr>) = Inr sv'"
    using accept_ok [of "one_silent\<lparr>svWorld := w\<rparr>" 9 True] w(2) by auto
  then have r: "WorkerThread [Send 1 8, Recv 1 [], Accept 9 True] one_silent = Some (Inr sv')"
    using w(1) by (simp add: with_world_def)
  show ?thesis using worker_invariant [OF one_silent_ok r] r len by auto
qed

section \<open>The match and the rest of the server\<close>

text \<open>
  C9 (beside). Connections that come and go, packets in range of connected clients, announcements, checks,
  the clock, and the beginnings and ends of other matches: each of these events that can happen beside a
  match is handled and keeps its invariant; and a battle during each of whose pauses any number of them
  happen one after the other returns with the invariant kept.
\<close>

theorem match_among_events:
  assumes "match_ok n m K i w" and "\<forall>es \<in> set ess. \<forall>e \<in> set es. beside i e"
  shows "(\<forall>e sv. beside i e \<longrightarrow> svWorld sv = w \<longrightarrow> allowed e sv \<longrightarrow>
      (\<exists>sv'. serve e sv = Inr sv' \<and> match_ok n m K i (svWorld sv'))) \<and>
    (\<exists>go t'. BattleStage i (thread_start w (map (meanwhile a b) ess)) = Inr (go, t') \<and> match_ok n m K i (thWorld t'))"
proof -
  have "thread_ok n m K i (thread_start w (map (meanwhile a b) ess))"
    using assms meanwhile_other by (fastforce simp: thread_ok_def thread_start_def list_all_iff)
  then have "\<exists>go t'. BattleStage i (thread_start w (map (meanwhile a b) ess)) = Inr (go, t') \<and> match_ok n m K i (thWorld t')"
    using BattleStage_ok by (fastforce simp: thread_ok_def)
  then show ?thesis using assms(1) ma.serves by blast
qed

theorem match_among_events_witness:
  "\<exists>go t'. BattleStage 0 (thread_start two_fighters (map (meanwhile 2 2) [[Clock 31000, Checks], [], [Gone 1 True]])) = Inr (go, t') \<and>
    world_ok (thWorld t')"
  using match_among_events [OF two_fighters_ok, of "[[Clock 31000, Checks], [], [Gone 1 True]]" 2 2] match_okD(1)
  by (fastforce simp: beside_def)

end
