(* ===== verification/Channel.thy ===== *)
theory Channel
  imports Prelude
begin

text \<open>
  What the streams of the library promise to those who write packets into them and read them back:
  a write appends the code of its argument, a read takes the code of one value from the front.  The
  promises are stated once, over any stream, and the lemmas about whole sequences of writes and
  reads are proved from them.
\<close>

section \<open>Sequences of writes and reads\<close>

primrec put_all :: "('c \<Rightarrow> 's \<Rightarrow> 's result) \<Rightarrow> 'c list \<Rightarrow> 's \<Rightarrow> 's result" where
  "put_all put [] s = Inr s"
| "put_all put (c # cs) s = rbind (put c s) (put_all put cs)"

primrec get_all :: "('k \<Rightarrow> 'r \<Rightarrow> ('c \<times> 'r) result) \<Rightarrow> 'k list \<Rightarrow> 'r \<Rightarrow> ('c list \<times> 'r) result" where
  "get_all get [] r = Inr ([], r)"
| "get_all get (k # ks) r =
     rbind (get k r) (\<lambda>(c, r1). rbind (get_all get ks r1) (\<lambda>(cs, r2). Inr (c # cs, r2)))"

section \<open>Streams that are written\<close>

locale sink =
  fixes put :: "'c \<Rightarrow> 's \<Rightarrow> 's result"
    and enc :: "'c \<Rightarrow> 'e list"
    and ok :: "'s \<Rightarrow> bool"
    and written :: "'s \<Rightarrow> 'e list"
    and room_left :: "'s \<Rightarrow> nat"
    and fits :: "'c \<Rightarrow> bool"
  assumes put_law: "\<lbrakk>ok s; fits c; length (enc c) \<le> room_left s\<rbrakk> \<Longrightarrow>
      \<exists>s'. put c s = Inr s' \<and> ok s' \<and> written s' = written s @ enc c \<and>
        room_left s' = room_left s - length (enc c)"
begin

lemma put_all_law:
  assumes "ok s" and "list_all fits cs" and "length (concat (map enc cs)) \<le> room_left s"
  shows "\<exists>s'. put_all put cs s = Inr s' \<and> ok s' \<and> written s' = written s @ concat (map enc cs) \<and>
    room_left s' = room_left s - length (concat (map enc cs))"
  using assms
proof (induction cs arbitrary: s)
  case Nil
  then show ?case by simp
next
  case (Cons c cs)
  have "length (enc c) \<le> room_left s" and "fits c" using Cons.prems by simp_all
  with put_law [OF Cons.prems(1)] obtain s1 where s1: "put c s = Inr s1" "ok s1"
      "written s1 = written s @ enc c" "room_left s1 = room_left s - length (enc c)" by blast
  have "length (concat (map enc cs)) \<le> room_left s1" using Cons.prems(3) s1(4) by simp
  from Cons.IH [OF s1(2) _ this] Cons.prems(2) show ?case using s1 by force
qed

end

section \<open>Streams that are read\<close>

locale source =
  fixes get :: "'k \<Rightarrow> 'r \<Rightarrow> ('c \<times> 'r) result"
    and enc :: "'c \<Rightarrow> 'e list"
    and shape :: "'c \<Rightarrow> 'k"
    and valid :: "'c \<Rightarrow> bool"
    and readable :: "'r \<Rightarrow> bool"
    and rest :: "'r \<Rightarrow> 'e list"
  assumes get_law: "\<lbrakk>readable r; valid c; rest r = enc c @ x\<rbrakk> \<Longrightarrow>
      \<exists>r'. get (shape c) r = Inr (c, r') \<and> readable r' \<and> rest r' = x"
begin

lemma get_all_law:
  assumes "readable r" and "list_all valid cs" and "rest r = concat (map enc cs) @ x"
  shows "\<exists>r'. get_all get (map shape cs) r = Inr (cs, r') \<and> readable r' \<and> rest r' = x"
  using assms
proof (induction cs arbitrary: r)
  case Nil
  then show ?case by simp
next
  case (Cons c cs)
  have "rest r = enc c @ (concat (map enc cs) @ x)" and "valid c" using Cons.prems by simp_all
  with get_law [OF Cons.prems(1)] obtain r1 where r1: "get (shape c) r = Inr (c, r1)" "readable r1"
      "rest r1 = concat (map enc cs) @ x" by blast
  from Cons.IH [OF r1(2) _ r1(3)] Cons.prems(2) show ?case using r1(1) by auto
qed

end

section \<open>A stream handed from a writer to a reader\<close>

locale channel =
  sink put enc ok written room_left fits + source get enc shape valid readable rest
  for put :: "'c \<Rightarrow> 's \<Rightarrow> 's result" and enc :: "'c \<Rightarrow> 'e list" and ok written room_left fits
    and get :: "'k \<Rightarrow> 'r \<Rightarrow> ('c \<times> 'r) result" and shape valid readable rest +
  fixes handed :: "'s \<Rightarrow> 'r"
  assumes handed_law: "ok s \<Longrightarrow> readable (handed s) \<and> (\<exists>x. rest (handed s) = written s @ x)"
begin

lemma round_trip:
  assumes "ok s" and "written s = []" and "list_all fits cs" and "list_all valid cs"
    and "length (concat (map enc cs)) \<le> room_left s"
  shows "\<exists>s' r. put_all put cs s = Inr s' \<and> get_all get (map shape cs) (handed s') = Inr (cs, r)"
proof -
  obtain s' where s': "put_all put cs s = Inr s'" "ok s'" "written s' = concat (map enc cs)"
    using put_all_law [OF assms(1,3,5)] assms(2) by auto
  obtain x where "readable (handed s')" "rest (handed s') = concat (map enc cs) @ x"
    using handed_law [OF s'(2)] s'(3) by auto
  from get_all_law [OF this(1) assms(4) this(2)] s'(1) show ?thesis by blast
qed

end

end
