(* ===== verification/Bit_Streams.thy ===== *)
theory Bit_Streams
  imports Channel Packets
begin

unbundle bit_operations_syntax

text \<open>
  \<open>MemoryBitStream.h\<close>, \<open>MemoryBitStream.cpp\<close>: fields of any number of bits, packed without gaps,
  lowest bit first.  A block of memory is the list of its bytes; an access outside of it is an
  error.  Below the model: the bits of a block, and the laws of a channel for the two streams.
\<close>

section \<open>OutputMemoryBitStream\<close>

text \<open>The empty list stands for the null pointer of a stream whose block is not allocated yet.\<close>

record bit_output =
  boBuffer :: "u8 list"
  boBitHead :: u32
  boBitCapacity :: u32

definition bits_ReallocBuffer :: "u32 \<Rightarrow> bit_output \<Rightarrow> bit_output result" where
  "bits_ReallocBuffer inNewBitLength s =
     (let temp = replicate (unat (drop_bit 3 inNewBitLength)) 0;
          old = unat (drop_bit 3 (boBitCapacity s))
      in if boBuffer s = [] then Inr (s\<lparr>boBuffer := temp, boBitCapacity := inNewBitLength\<rparr>)
         else if old \<le> length temp \<and> old \<le> length (boBuffer s)
         then Inr (s\<lparr>boBuffer := take old (boBuffer s) @ drop old temp, boBitCapacity := inNewBitLength\<rparr>)
         else Inl OutOfBounds)"

definition new_bit_output :: "bit_output result" where
  "new_bit_output = bits_ReallocBuffer (1500 * 8) \<lparr>boBuffer = [], boBitHead = 0, boBitCapacity = 0\<rparr>"

definition WriteBits8 :: "u8 \<Rightarrow> u32 \<Rightarrow> bit_output \<Rightarrow> bit_output result" where
  "WriteBits8 inData inBitCount s =
     (let nextBitHead = boBitHead s + inBitCount
      in rbind (if boBitCapacity s < nextBitHead
                then bits_ReallocBuffer (max (boBitCapacity s * 2) nextBitHead) s else Inr s)
        (\<lambda>s. let byteOffset = unat (drop_bit 3 (boBitHead s));
              bitOffset = unat (boBitHead s AND 0x7);
              currentMask = NOT (push_bit bitOffset 0xff)
          in rbind (at_idx (boBuffer s) byteOffset)
            (\<lambda>b. let buffer = (boBuffer s)[byteOffset := (b AND currentMask) OR push_bit bitOffset inData];
                  bitsFreeThisByte = 8 - bitOffset
              in if of_nat bitsFreeThisByte < inBitCount
                 then if byteOffset + 1 < length buffer
                      then Inr (s\<lparr>boBuffer := buffer[byteOffset + 1 := drop_bit bitsFreeThisByte inData],
                             boBitHead := nextBitHead\<rparr>)
                      else Inl OutOfBounds
                 else Inr (s\<lparr>boBuffer := buffer, boBitHead := nextBitHead\<rparr>))))"

text \<open>The bytes are those the pointer points to; reading past them is an error of the caller.\<close>

fun WriteBits :: "u8 list \<Rightarrow> nat \<Rightarrow> bit_output \<Rightarrow> bit_output result" where
  "WriteBits inData inBitCount s =
     (if 8 < inBitCount
      then case inData of [] \<Rightarrow> Inl OutOfBounds
        | srcByte # others \<Rightarrow> rbind (WriteBits8 srcByte 8 s) (\<lambda>s. WriteBits others (inBitCount - 8) s)
      else if 0 < inBitCount
      then case inData of [] \<Rightarrow> Inl OutOfBounds | srcByte # _ \<Rightarrow> WriteBits8 srcByte (of_nat inBitCount) s
      else Inr s)"

declare WriteBits.simps [simp del]

definition bits_WriteBytes :: "u8 list \<Rightarrow> u32 \<Rightarrow> bit_output \<Rightarrow> bit_output result" where
  "bits_WriteBytes inData inByteCount = WriteBits inData (unat (push_bit 3 inByteCount))"

text \<open>A value of \<open>k\<close> bytes, little-endian, with the number of bits the caller wants.\<close>

definition bits_Write :: "nat \<Rightarrow> int \<Rightarrow> u32 \<Rightarrow> bit_output \<Rightarrow> bit_output result" where
  "bits_Write k inData inBitCount = WriteBits (int_bytes k inData) (unat inBitCount)"

definition bits_Write_bool :: "bool \<Rightarrow> bit_output \<Rightarrow> bit_output result" where
  "bits_Write_bool inData = WriteBits [of_bool inData] 1"

primrec bits_Write_elements :: "u8 list \<Rightarrow> bit_output \<Rightarrow> bit_output result" where
  "bits_Write_elements [] s = Inr s"
| "bits_Write_elements (element # elements) s =
     rbind (bits_Write 1 (uint element) 8 s) (bits_Write_elements elements)"

definition bits_Write_string :: "u8 list \<Rightarrow> bit_output \<Rightarrow> bit_output result" where
  "bits_Write_string inString s =
     rbind (bits_Write 4 (int (length inString)) 32 s) (bits_Write_elements inString)"

definition GetByteLength :: "bit_output \<Rightarrow> u32" where
  "GetByteLength s = drop_bit 3 (boBitHead s + 7)"

section \<open>InputMemoryBitStream\<close>

record bit_input =
  biBuffer :: "u8 list"
  biBitHead :: u32
  biBitCapacity :: u32
  biIsBufferOwner :: bool

definition new_bit_input :: "u8 list \<Rightarrow> u32 \<Rightarrow> bit_input" where
  "new_bit_input inBuffer inBitCount =
     \<lparr>biBuffer = inBuffer, biBitHead = 0, biBitCapacity = inBitCount, biIsBufferOwner = False\<rparr>"

text \<open>The copy gets a block of its own, of the whole bytes of the capacity.\<close>

definition copy_bit_input :: "bit_input \<Rightarrow> bit_input result" where
  "copy_bit_input inOther =
     (let byteCount = unat (biBitCapacity inOther div 8)
      in if byteCount \<le> length (biBuffer inOther)
         then Inr \<lparr>biBuffer = take byteCount (biBuffer inOther), biBitHead = biBitHead inOther,
           biBitCapacity = biBitCapacity inOther, biIsBufferOwner = True\<rparr>
         else Inl OutOfBounds)"

definition GetRemainingBitCount :: "bit_input \<Rightarrow> u32" where
  "GetRemainingBitCount s = biBitCapacity s - biBitHead s"

definition ReadBits8 :: "u32 \<Rightarrow> bit_input \<Rightarrow> (u8 \<times> bit_input) result" where
  "ReadBits8 inBitCount s =
     (let byteOffset = unat (drop_bit 3 (biBitHead s));
          bitOffset = unat (biBitHead s AND 0x7)
      in rbind (at_idx (biBuffer s) byteOffset)
        (\<lambda>b. let outData = drop_bit bitOffset b; bitsFreeThisByte = 8 - bitOffset
          in rbind (if of_nat bitsFreeThisByte < inBitCount
                    then rbind (at_idx (biBuffer s) (byteOffset + 1))
                      (\<lambda>b2. Inr (outData OR push_bit bitsFreeThisByte b2))
                    else Inr outData)
            (\<lambda>outData. Inr (outData AND NOT (push_bit (unat inBitCount) 0xff),
               s\<lparr>biBitHead := biBitHead s + inBitCount\<rparr>))))"

fun ReadBits :: "nat \<Rightarrow> bit_input \<Rightarrow> (u8 list \<times> bit_input) result" where
  "ReadBits inBitCount s =
     (if 8 < inBitCount
      then rbind (ReadBits8 8 s) (\<lambda>(destByte, s1).
             rbind (ReadBits (inBitCount - 8) s1) (\<lambda>(others, s2). Inr (destByte # others, s2)))
      else if 0 < inBitCount
      then rbind (ReadBits8 (of_nat inBitCount) s) (\<lambda>(destByte, s1). Inr ([destByte], s1))
      else Inr ([], s))"

declare ReadBits.simps [simp del]

definition bits_ReadBytes :: "u32 \<Rightarrow> bit_input \<Rightarrow> (u8 list \<times> bit_input) result" where
  "bits_ReadBytes inByteCount = ReadBits (unat (push_bit 3 inByteCount))"

text \<open>The value read into a variable of unsigned type whose bytes were zero before.\<close>

definition bits_Read :: "u32 \<Rightarrow> bit_input \<Rightarrow> (int \<times> bit_input) result" where
  "bits_Read inBitCount s =
     rbind (ReadBits (unat inBitCount) s) (\<lambda>(bs, s1). Inr (bytes_uint bs, s1))"

definition bits_Read_bool :: "bit_input \<Rightarrow> (bool \<times> bit_input) result" where
  "bits_Read_bool s = rbind (ReadBits 1 s) (\<lambda>(bs, s1). Inr (bytes_uint bs \<noteq> 0, s1))"

definition ResetToCapacity :: "u32 \<Rightarrow> bit_input \<Rightarrow> bit_input" where
  "ResetToCapacity inByteCapacity s = s\<lparr>biBitCapacity := push_bit 3 inByteCapacity, biBitHead := 0\<rparr>"

primrec bits_Read_elements :: "nat \<Rightarrow> bit_input \<Rightarrow> (u8 list \<times> bit_input) result" where
  "bits_Read_elements 0 s = Inr ([], s)"
| "bits_Read_elements (Suc n) s =
     rbind (bits_Read 8 s) (\<lambda>(element, s1).
       rbind (bits_Read_elements n s1) (\<lambda>(elements, s2). Inr (word_of_int element # elements, s2)))"

definition bits_Read_string :: "bit_input \<Rightarrow> (u8 list \<times> bit_input) result" where
  "bits_Read_string s =
     rbind (bits_Read 32 s) (\<lambda>(elementCount, s1). bits_Read_elements (nat elementCount) s1)"

end
