(* ===== verification/Bit_Channel.thy ===== *)
theory Bit_Channel
  imports Bit_Streams
begin

text \<open>
  The bit streams against a list of bits: a write appends the lowest bits of its data, whatever its
  number of bits and wherever in a byte the stream stands, and grows the block when it must; a read
  takes the bits from the front.  With these laws the two streams are a channel.
\<close>

section \<open>The bits of a block\<close>

definition byte_bits :: "u8 \<Rightarrow> bool list" where
  "byte_bits b = map (bit b) [0..<8]"

definition bits_of :: "u8 list \<Rightarrow> bool list" where
  "bits_of bs = concat (map byte_bits bs)"

lemma length_byte_bits [simp]: "length (byte_bits b) = 8"
  by (simp add: byte_bits_def)

lemma bits_of_simps [simp]:
  "bits_of [] = []" "bits_of (b # bs) = byte_bits b @ bits_of bs" "bits_of (as @ bs) = bits_of as @ bits_of bs"
  by (simp_all add: bits_of_def)

lemma length_bits_of [simp]: "length (bits_of bs) = 8 * length bs"
  by (induction bs) simp_all

lemma nth_byte_bits [simp]: "i < 8 \<Longrightarrow> byte_bits b ! i = bit b i"
  by (simp add: byte_bits_def)

lemma nth_bits_of: "k < 8 * length bs \<Longrightarrow> bits_of bs ! k = bit (bs ! (k div 8)) (k mod 8)"
proof (induction bs arbitrary: k)
  case Nil
  then show ?case by simp
next
  case (Cons b bs)
  show ?case
  proof (cases "k < 8")
    case True
    then show ?thesis by (simp add: nth_append)
  next
    case False
    then have "k div 8 = Suc ((k - 8) div 8)" "k mod 8 = (k - 8) mod 8"
      by (simp_all add: le_div_geq le_mod_geq)
    then show ?thesis using False Cons by (simp add: nth_append)
  qed
qed

lemma byte_bits_inj: "byte_bits a = byte_bits b \<Longrightarrow> a = b"
proof (rule bit_word_eqI)
  fix i
  assume e: "byte_bits a = byte_bits b" and i: "i < LENGTH(8)"
  show "bit a i \<longleftrightarrow> bit b i" using arg_cong [OF e, of "\<lambda>l. l ! i"] i by simp
qed

lemma all_ones: "(0xff :: u8) = - 1" by simp

text \<open>What the two expressions of a write and a read leave in a byte.\<close>

lemma bit_written: "i < 8 \<Longrightarrow>
    bit ((b AND NOT (push_bit o' 0xff)) OR push_bit o' d :: u8) i = (if i < o' then bit b i else bit d (i - o'))"
  unfolding all_ones by (auto simp: bit_simps)

lemma bit_masked: "i < 8 \<Longrightarrow> bit (x AND NOT (push_bit n 0xff) :: u8) i = (i < n \<and> bit x i)"
  unfolding all_ones by (auto simp: bit_simps)

lemma next_byte:
  assumes "i < (8 :: nat)" and "8 \<le> h mod 8 + i"
  shows "(h + i) div 8 = h div 8 + 1" and "(h + i) mod 8 = i - (8 - h mod 8)"
proof -
  define q r where "q = h div 8" and "r = h mod 8"
  have h: "h = 8 * q + r" "r < 8" by (simp_all add: q_def r_def)
  have e: "h + i = 8 * (q + 1) + (r + i - 8)" "r + i - 8 < 8" using assms h by (simp_all add: r_def [symmetric])
  show d: "(h + i) div 8 = h div 8 + 1" unfolding e(1) q_def [symmetric] using e(2) by simp
  show "(h + i) mod 8 = i - (8 - h mod 8)"
    using minus_mult_div_eq_mod [of "h + i" 8] assms h unfolding d q_def [symmetric] r_def [symmetric] by simp
qed

section \<open>Writing\<close>

definition bit_output_ok :: "bit_output \<Rightarrow> bool" where
  "bit_output_ok s \<longleftrightarrow> 8 * length (boBuffer s) = unat (boBitCapacity s) \<and> boBuffer s \<noteq> [] \<and>
     boBitHead s \<le> boBitCapacity s \<and> unat (boBitHead s) < 2 ^ 31"

definition out_bits :: "bit_output \<Rightarrow> bool list" where
  "out_bits s = take (unat (boBitHead s)) (bits_of (boBuffer s))"

lemma unat_shift3: "unat (drop_bit 3 (x :: u32)) = unat x div 8"
  by (simp only: unat_drop_bit_eq) (simp add: drop_bit_eq_div)

lemma unat_low3: "unat ((x :: u32) AND 0x7) = unat x mod 8"
proof -
  have "(0x7 :: u32) = mask 3" by (simp add: mask_eq_exp_minus_1)
  then have "x AND 0x7 = take_bit 3 x" by (simp add: take_bit_eq_mask)
  then show ?thesis by (simp only: unsigned_take_bit_eq) (simp add: take_bit_eq_mod)
qed

lemma carry_iff: "n \<le> 8 \<Longrightarrow> of_nat (8 - k) < (of_nat n :: u32) \<longleftrightarrow> 8 - k < n"
proof -
  have "unat (of_nat j :: u32) = j" if "j \<le> 8" for j using that by (simp add: unat_of_nat)
  then show "n \<le> 8 \<Longrightarrow> of_nat (8 - k) < (of_nat n :: u32) \<longleftrightarrow> 8 - k < n"
    unfolding word_less_nat_alt by (metis diff_le_self)
qed

lemma new_bit_output_ok:
  "\<exists>s. new_bit_output = Inr s \<and> bit_output_ok s \<and> out_bits s = [] \<and> boBitHead s = 0"
  by (simp add: new_bit_output_def bits_ReallocBuffer_def bit_output_ok_def out_bits_def unat_shift3)

text \<open>Growing keeps the bits that are written and makes room for a field of at most eight more.\<close>

lemma grown:
  assumes ok: "bit_output_ok s" and n: "unat n \<le> 8" "unat (boBitHead s) + unat n < 2 ^ 31"
  obtains s' where
    "(if boBitCapacity s < boBitHead s + n
      then bits_ReallocBuffer (max (boBitCapacity s * 2) (boBitHead s + n)) s else Inr s) = Inr s'"
    "8 * length (boBuffer s') = unat (boBitCapacity s')" "boBuffer s' \<noteq> []" "boBitHead s' = boBitHead s"
    "unat (boBitHead s) + unat n \<le> unat (boBitCapacity s')" "out_bits s' = out_bits s"
proof (cases "boBitCapacity s < boBitHead s + n")
  case False
  have "unat (boBitHead s + n) = unat (boBitHead s) + unat n" using n(2) by (simp add: unat_word_ariths)
  then have "unat (boBitHead s) + unat n \<le> unat (boBitCapacity s)" using False by (simp add: word_le_nat_alt not_less)
  then show ?thesis using that [of s] ok False by (simp add: bit_output_ok_def)
next
  case True
  let ?h = "unat (boBitHead s)" and ?c = "unat (boBitCapacity s)"
  let ?m = "max (boBitCapacity s * 2) (boBitHead s + n)"
  have b: "8 * length (boBuffer s) = ?c" "boBuffer s \<noteq> []" "?h \<le> ?c"
    using ok by (simp_all add: bit_output_ok_def word_le_nat_alt)
  have next': "unat (boBitHead s + n) = ?h + unat n" using n(2) by (simp add: unat_word_ariths)
  then have c: "?c < ?h + unat n" using True by (simp add: word_less_nat_alt)
  have c8: "8 \<le> ?c" using b(1,2) by (cases "boBuffer s") simp_all
  have "?c * 2 < 2 ^ 32" using c n(2) by simp
  then have d: "unat (boBitCapacity s * 2) = ?c * 2" by (simp add: unat_word_ariths)
  have "boBitHead s + n \<le> boBitCapacity s * 2"
    unfolding word_le_nat_alt d next' using b(3) n(1) c8 by linarith
  then have m: "?m = boBitCapacity s * 2" by simp
  define L where "L = length (boBuffer s)"
  have l: "?c div 8 = L" "?c * 2 div 8 = L + L" unfolding b(1) [symmetric] L_def by simp_all
  define B where "B = boBuffer s @ replicate L 0"
  have "bits_ReallocBuffer ?m s = Inr (s\<lparr>boBuffer := B, boBitCapacity := boBitCapacity s * 2\<rparr>)"
    unfolding m bits_ReallocBuffer_def Let_def unat_shift3 d l using b(2) by (simp add: B_def L_def drop_replicate)
  moreover have "8 * length B = ?c * 2" using b(1) by (simp add: B_def L_def)
  moreover have "?h + unat n \<le> ?c * 2" using b(3) n(1) c8 by linarith
  ultimately show ?thesis
    using that [of "s\<lparr>boBuffer := B, boBitCapacity := boBitCapacity s * 2\<rparr>"] True b
    by (simp add: d B_def out_bits_def)
qed

text \<open>The bits of a block after the one or two bytes of a field are stored.\<close>

lemma stored_bits:
  assumes B: "h + n \<le> 8 * length B" and n: "0 < n" "n \<le> 8"
    and C: "length C = length B"
    and low: "C ! (h div 8) = (B ! (h div 8) AND NOT (push_bit (h mod 8) 0xff)) OR push_bit (h mod 8) d"
    and high: "8 - h mod 8 < n \<Longrightarrow> C ! (h div 8 + 1) = drop_bit (8 - h mod 8) d"
    and others: "\<And>j. j < h div 8 \<Longrightarrow> C ! j = B ! j"
  shows "take (h + n) (bits_of C) = take h (bits_of B) @ take n (byte_bits d)"
proof (rule nth_equalityI)
  show "length (take (h + n) (bits_of C)) = length (take h (bits_of B) @ take n (byte_bits d))"
    using B C n by simp
next
  fix k
  assume "k < length (take (h + n) (bits_of C))"
  then have k: "k < h + n" "k < 8 * length C" using B C by simp_all
  have lhs: "take (h + n) (bits_of C) ! k = bit (C ! (k div 8)) (k mod 8)" using k by (simp add: nth_bits_of)
  have rhs: "(take h (bits_of B) @ take n (byte_bits d)) ! k =
      (if k < h then bit (B ! (k div 8)) (k mod 8) else bit d (k - h))"
    using k B C n by (simp add: nth_append nth_bits_of)
  have m8: "k mod 8 < 8" and hq: "h = 8 * (h div 8) + h mod 8" "h mod 8 < 8" and kq: "k = 8 * (k div 8) + k mod 8"
    by simp_all
  consider "k div 8 < h div 8" | "k div 8 = h div 8" | "k div 8 = h div 8 + 1" "8 - h mod 8 < n" "h \<le> k"
    using k(1) n(2) hq kq m8 by linarith
  then show "take (h + n) (bits_of C) ! k = (take h (bits_of B) @ take n (byte_bits d)) ! k"
  proof cases
    case 1
    then have "k < h" using hq kq m8 by linarith
    then show ?thesis unfolding lhs rhs using others [OF 1] by simp
  next
    case 2
    then have "k < h \<longleftrightarrow> k mod 8 < h mod 8" and "h \<le> k \<Longrightarrow> k - h = k mod 8 - h mod 8"
      using hq kq by linarith+
    then show ?thesis unfolding lhs rhs 2 low bit_written [OF m8] by auto
  next
    case 3
    then have "k - h = k mod 8 + (8 - h mod 8)" using hq kq by linarith
    then show ?thesis unfolding lhs rhs 3(1) high [OF 3(2)] using 3(3) by (simp add: bit_simps add.commute)
  qed
qed

lemma WriteBits8_law:
  assumes ok: "bit_output_ok s" and n: "0 < n" "n \<le> 8" "unat (boBitHead s) + n < 2 ^ 31"
  shows "\<exists>s'. WriteBits8 d (of_nat n) s = Inr s' \<and> bit_output_ok s' \<and> out_bits s' = out_bits s @ take n (byte_bits d) \<and>
    unat (boBitHead s') = unat (boBitHead s) + n"
proof -
  have un: "unat (of_nat n :: u32) = n" using n by (simp add: unat_of_nat)
  obtain v where v: "(if boBitCapacity s < boBitHead s + of_nat n
      then bits_ReallocBuffer (max (boBitCapacity s * 2) (boBitHead s + of_nat n)) s else Inr s) = Inr v"
    "8 * length (boBuffer v) = unat (boBitCapacity v)" "boBuffer v \<noteq> []" "boBitHead v = boBitHead s"
    "unat (boBitHead s) + n \<le> unat (boBitCapacity v)" "out_bits v = out_bits s"
    using grown [OF ok, of "of_nat n"] n un by auto
  define h where "h = unat (boBitHead s)"
  have h': "unat (boBitHead s + of_nat n) = h + n" using n(3) un by (simp add: h_def unat_word_ariths)
  define B where "B = boBuffer v"
  have B: "h + n \<le> 8 * length B" using v(2,5) by (simp add: h_def B_def)
  have off: "h div 8 < length B" using B n(1) by linarith
  define low where "low = (B ! (h div 8) AND NOT (push_bit (h mod 8) 0xff)) OR push_bit (h mod 8) d"
  define C where "C = (if 8 - h mod 8 < n then B[h div 8 := low, h div 8 + 1 := drop_bit (8 - h mod 8) d] else B[h div 8 := low])"
  have two: "h div 8 + 1 < length B" if "8 - h mod 8 < n"
    using that B div_mult_mod_eq [of h 8] by linarith
  have carry: "of_nat (8 - h mod 8) < (of_nat n :: u32) \<longleftrightarrow> 8 - h mod 8 < n"
    using n(2) by (rule carry_iff)
  have "WriteBits8 d (of_nat n) s = Inr (v\<lparr>boBuffer := C, boBitHead := boBitHead s + of_nat n\<rparr>)"
    unfolding WriteBits8_def v(1) Let_def unat_shift3 unat_low3 v(4) h_def [symmetric] B_def [symmetric] rbind_simps
      at_idx_def carry
    using off two by (simp add: C_def low_def)
  moreover have "take (h + n) (bits_of C) = take h (bits_of B) @ take n (byte_bits d)"
    by (rule stored_bits [OF B n(1,2)]) (use off two in \<open>simp_all add: C_def low_def nth_list_update\<close>)
  moreover have "length C = length B" by (simp add: C_def)
  ultimately show ?thesis
    using v n(3) h' by (simp add: bit_output_ok_def out_bits_def h_def B_def word_le_nat_alt) force
qed

lemma WriteBits_law:
  assumes "bit_output_ok s" and "n \<le> 8 * length bs" and "unat (boBitHead s) + n < 2 ^ 31"
  shows "\<exists>s'. WriteBits bs n s = Inr s' \<and> bit_output_ok s' \<and> out_bits s' = out_bits s @ take n (bits_of bs) \<and>
    unat (boBitHead s') = unat (boBitHead s) + n"
  using assms
proof (induction bs arbitrary: n s)
  case Nil
  then show ?case by (simp add: WriteBits.simps)
next
  case (Cons b bs)
  consider "8 < n" | "n = 0" | "0 < n" "n \<le> 8" by linarith
  then show ?case
  proof cases
    case 1
    obtain s1 where s1: "WriteBits8 b 8 s = Inr s1" "bit_output_ok s1" "out_bits s1 = out_bits s @ byte_bits b"
        "unat (boBitHead s1) = unat (boBitHead s) + 8"
      using WriteBits8_law [OF Cons.prems(1), of 8 b] Cons.prems(3) 1 by auto
    have "n - 8 \<le> 8 * length bs" "unat (boBitHead s1) + (n - 8) < 2 ^ 31" using Cons.prems s1(4) 1 by simp_all
    from Cons.IH [OF s1(2) this] show ?thesis using 1 s1 by (subst WriteBits.simps) auto
  next
    case 2
    then show ?thesis using Cons.prems by (subst WriteBits.simps) simp
  next
    case 3
    then show ?thesis using WriteBits8_law [OF Cons.prems(1) 3 Cons.prems(3), of b] by (subst WriteBits.simps) simp
  qed
qed

section \<open>Reading\<close>

definition bit_input_ok :: "bit_input \<Rightarrow> bool" where
  "bit_input_ok r \<longleftrightarrow> unat (biBitHead r) \<le> 8 * length (biBuffer r) \<and> 8 * length (biBuffer r) < 2 ^ 32"

definition in_bits :: "bit_input \<Rightarrow> bool list" where
  "in_bits r = drop (unat (biBitHead r)) (bits_of (biBuffer r))"

lemma ReadBits8_law:
  assumes ok: "bit_input_ok r" and n: "0 < n" "n \<le> 8" and x: "n \<le> length (in_bits r)"
  shows "\<exists>v r'. ReadBits8 (of_nat n) r = Inr (v, r') \<and> bit_input_ok r' \<and> in_bits r' = drop n (in_bits r) \<and>
    byte_bits v = take n (in_bits r) @ replicate (8 - n) False"
proof -
  define h where "h = unat (biBitHead r)"
  define B where "B = biBuffer r"
  have B: "h + n \<le> 8 * length B" "8 * length B < 2 ^ 32"
    using x ok n by (simp_all add: in_bits_def bit_input_ok_def h_def B_def)
  have un: "unat (of_nat n :: u32) = n" using n by (simp add: unat_of_nat)
  have h': "unat (biBitHead r + of_nat n) = h + n" using B un by (simp add: h_def unat_word_ariths)
  have off: "h div 8 < length B" using B n(1) by linarith
  have two: "h div 8 + 1 < length B" if "8 - h mod 8 < n"
    using that B(1) div_mult_mod_eq [of h 8] by linarith
  have carry: "of_nat (8 - h mod 8) < (of_nat n :: u32) \<longleftrightarrow> 8 - h mod 8 < n"
    using n(2) by (rule carry_iff)
  define w where "w = (if 8 - h mod 8 < n then drop_bit (h mod 8) (B ! (h div 8)) OR push_bit (8 - h mod 8) (B ! (h div 8 + 1))
      else drop_bit (h mod 8) (B ! (h div 8)))"
  define v where "v = w AND NOT (push_bit n 0xff)"
  let ?r = "r\<lparr>biBitHead := biBitHead r + of_nat n\<rparr>"
  have "ReadBits8 (of_nat n) r = Inr (v, ?r)"
    unfolding ReadBits8_def Let_def unat_shift3 unat_low3 h_def [symmetric] B_def [symmetric] carry un at_idx_def
    using off two by (simp add: v_def w_def)
  moreover have "bit_input_ok ?r \<and> in_bits ?r = drop n (in_bits r)"
    using h' B by (simp add: bit_input_ok_def in_bits_def h_def B_def add.commute)
  moreover have split: "(h + i) div 8 = q \<and> (h + i) mod 8 = h + i - 8 * q" if "8 * q \<le> h + i" "h + i < 8 * q + 8" for q i
  proof -
    have "(h + i) div 8 = q" using that by (intro div_nat_eqI) simp_all
    then show ?thesis using minus_mult_div_eq_mod [of "h + i" 8] by simp
  qed
  moreover have "byte_bits v = take n (in_bits r) @ replicate (8 - n) False"
  proof (rule nth_equalityI)
    show "length (byte_bits v) = length (take n (in_bits r) @ replicate (8 - n) False)" using n x by simp
  next
    fix i
    assume "i < length (byte_bits v)"
    then have i: "i < 8" by simp
    have hq: "8 * (h div 8) + h mod 8 = h" "h mod 8 < 8" by simp_all
    have "bit w i = bit (B ! ((h + i) div 8)) ((h + i) mod 8)" if "i < n"
    proof (cases "h mod 8 + i < 8")
      case True
      then have "(h + i) div 8 = h div 8" "(h + i) mod 8 = h mod 8 + i"
        using split [of "h div 8" i] hq by linarith+
      then show ?thesis using True i by (auto simp: w_def bit_simps add.commute)
    next
      case False
      then have "(h + i) div 8 = h div 8 + 1" "(h + i) mod 8 = i - (8 - h mod 8)"
        using next_byte [OF i, of h] by simp_all
      moreover have "\<not> bit (B ! (h div 8)) (i + h mod 8)"
        using False bit_imp_le_length [of "B ! (h div 8)" "i + h mod 8"] by auto
      moreover have "8 - h mod 8 \<le> i" using False by linarith
      ultimately show ?thesis using i that by (auto simp: w_def bit_simps add.commute)
    qed
    moreover have "in_bits r ! i = bit (B ! ((h + i) div 8)) ((h + i) mod 8)" if "i < n"
      using that B by (simp add: in_bits_def h_def [symmetric] B_def [symmetric] nth_bits_of)
    ultimately show "byte_bits v ! i = (take n (in_bits r) @ replicate (8 - n) False) ! i"
      using i n x by (auto simp: v_def bit_masked nth_append)
  qed
  ultimately show ?thesis by blast
qed

text \<open>A field: the bytes of the caller's variable, with every bit beyond the field clear.\<close>

definition field_ok :: "u8 list \<times> nat \<Rightarrow> bool" where
  "field_ok f \<longleftrightarrow> length (fst f) = (snd f + 7) div 8 \<and> list_all Not (drop (snd f) (bits_of (fst f)))"

definition field_bits :: "u8 list \<times> nat \<Rightarrow> bool list" where
  "field_bits f = take (snd f) (bits_of (fst f))"

lemma ReadBits_law:
  assumes "bit_input_ok r" and "field_ok (bs, n)" and "in_bits r = field_bits (bs, n) @ x"
  shows "\<exists>r'. ReadBits n r = Inr (bs, r') \<and> bit_input_ok r' \<and> in_bits r' = x"
  using assms
proof (induction bs arbitrary: n r)
  case Nil
  then have "n = 0" by (simp add: field_ok_def)
  then show ?case using Nil by (subst ReadBits.simps) (simp add: field_bits_def)
next
  case (Cons b bs)
  have n0: "0 < n" using Cons.prems(2) by (cases n) (simp_all add: field_ok_def)
  show ?case
  proof (cases "8 < n")
    case True
    have f: "field_ok (bs, n - 8)" using Cons.prems(2) True le_div_geq [of 8 "n + 7"] by (simp add: field_ok_def)
    have e: "in_bits r = byte_bits b @ (field_bits (bs, n - 8) @ x)"
      using Cons.prems(3) True by (simp add: field_bits_def)
    obtain v r1 where r1: "ReadBits8 8 r = Inr (v, r1)" "bit_input_ok r1" "in_bits r1 = field_bits (bs, n - 8) @ x"
        "byte_bits v = byte_bits b"
      using ReadBits8_law [OF Cons.prems(1), of 8] e by auto
    from Cons.IH [OF r1(2) f r1(3)] byte_bits_inj [OF r1(4)] show ?thesis
      using True r1(1) by (subst ReadBits.simps) auto
  next
    case False
    then have "(n + 7) div 8 \<le> 15 div 8" by (intro div_le_mono) simp
    moreover have "Suc (length bs) = (n + 7) div 8" using Cons.prems(2) by (simp add: field_ok_def)
    ultimately have "length bs = 0" by linarith
    then have bs: "bs = []" by simp
    have e: "in_bits r = take n (byte_bits b) @ x" using Cons.prems(3) False bs by (simp add: field_bits_def)
    have "list_all Not (drop n (byte_bits b))" using Cons.prems(2) False bs by (simp add: field_ok_def)
    then have "drop n (byte_bits b) = replicate (8 - n) False"
      by (intro replicate_eqI) (auto simp: list_all_iff)
    then have p: "take n (byte_bits b) @ replicate (8 - n) False = byte_bits b" by (metis append_take_drop_id)
    obtain v r1 where r1: "ReadBits8 (of_nat n) r = Inr (v, r1)" "bit_input_ok r1" "in_bits r1 = x"
        "byte_bits v = byte_bits b"
      using ReadBits8_law [OF Cons.prems(1) n0, of] e False p by auto
    then show ?thesis using False n0 bs byte_bits_inj [OF r1(4)] by (subst ReadBits.simps) simp
  qed
qed

section \<open>The channel\<close>

definition bits_left :: "bit_output \<Rightarrow> nat" where
  "bits_left s = 2 ^ 31 - 1 - unat (boBitHead s)"

definition sent_bits :: "bit_output \<Rightarrow> bit_input" where
  "sent_bits s = new_bit_input (boBuffer s) (boBitHead s)"

lemma length_field_bits [simp]: "field_ok f \<Longrightarrow> length (field_bits f) = snd f"
  by (simp add: field_ok_def field_bits_def)

definition write_field :: "u8 list \<times> nat \<Rightarrow> bit_output \<Rightarrow> bit_output result" where
  "write_field f = WriteBits (fst f) (snd f)"

definition read_field :: "nat \<Rightarrow> bit_input \<Rightarrow> ((u8 list \<times> nat) \<times> bit_input) result" where
  "read_field n r = rbind (ReadBits n r) (\<lambda>(bs, r'). Inr ((bs, n), r'))"

interpretation bits: channel write_field field_bits bit_output_ok out_bits bits_left field_ok
  read_field snd field_ok bit_input_ok in_bits sent_bits
proof
  fix s f
  assume s: "bit_output_ok s" and f: "field_ok f" and l: "length (field_bits f) \<le> bits_left s"
  have "snd f \<le> 8 * length (fst f)" using f by (simp add: field_ok_def)
  moreover have "unat (boBitHead s) + snd f < 2 ^ 31" using length_field_bits [OF f] l s
    unfolding bits_left_def bit_output_ok_def by linarith
  ultimately show "\<exists>s'. write_field f s = Inr s' \<and> bit_output_ok s' \<and>
      out_bits s' = out_bits s @ field_bits f \<and> bits_left s' = bits_left s - length (field_bits f)"
    using WriteBits_law [OF s, of "snd f" "fst f"] f by (auto simp: write_field_def field_bits_def [of f, symmetric] bits_left_def)
next
  fix r f x
  assume "bit_input_ok r" and "field_ok f" and "in_bits r = field_bits f @ x"
  then show "\<exists>r'. read_field (snd f) r = Inr (f, r') \<and> bit_input_ok r' \<and> in_bits r' = x"
    using ReadBits_law [of r "fst f" "snd f" x] by (auto simp: read_field_def)
next
  fix s
  assume "bit_output_ok s"
  then show "bit_input_ok (sent_bits s) \<and> (\<exists>x. in_bits (sent_bits s) = out_bits s @ x)"
    using unsigned_less [of "boBitCapacity s", where 'a = nat]
    by (auto simp: sent_bits_def new_bit_input_def bit_input_ok_def bit_output_ok_def in_bits_def out_bits_def
        intro: append_take_drop_id [symmetric])
qed

end
