(* ===== verification/Byte_Streams.thy ===== *)
theory Byte_Streams
  imports Channel Packets
begin

text \<open>
  \<open>LinkingContext.h\<close>, \<open>MemoryStream.h\<close>, \<open>MemoryStream.cpp\<close>: the streams of bytes the packets are
  written into.  A block of memory is the list of its bytes, an access outside of it an error; the
  bytes a block holds before they are written are those of \<open>fresh\<close>, any function.
\<close>

section \<open>LinkingContext\<close>

text \<open>A pointer to a game object is a number, the null pointer 0.\<close>

type_synonym game_object = nat

record linking_context =
  mNetworkIdToGameObjectMap :: "u32 \<Rightarrow> game_object option"
  mGameObjectToNetworkIdMap :: "game_object \<Rightarrow> u32 option"
  mNextNetworkId :: u32

definition new_LinkingContext :: linking_context where
  "new_LinkingContext =
     \<lparr>mNetworkIdToGameObjectMap = (\<lambda>_. None), mGameObjectToNetworkIdMap = (\<lambda>_. None), mNextNetworkId = 1\<rparr>"

definition AddGameObject :: "game_object \<Rightarrow> u32 \<Rightarrow> linking_context \<Rightarrow> linking_context" where
  "AddGameObject inGameObject inNetworkId c =
     c\<lparr>mNetworkIdToGameObjectMap := (mNetworkIdToGameObjectMap c)(inNetworkId \<mapsto> inGameObject),
       mGameObjectToNetworkIdMap := (mGameObjectToNetworkIdMap c)(inGameObject \<mapsto> inNetworkId)\<rparr>"

definition GetNetworkId :: "game_object \<Rightarrow> bool \<Rightarrow> linking_context \<Rightarrow> u32 \<times> linking_context" where
  "GetNetworkId inGameObject inShouldCreateIfNotFound c =
     (case mGameObjectToNetworkIdMap c inGameObject of
        Some networkId \<Rightarrow> (networkId, c)
      | None \<Rightarrow>
          if inShouldCreateIfNotFound
          then let c = c\<lparr>mNextNetworkId := mNextNetworkId c + 1\<rparr>
               in (mNextNetworkId c, AddGameObject inGameObject (mNextNetworkId c) c)
          else (0, c))"

definition GetGameObject :: "u32 \<Rightarrow> linking_context \<Rightarrow> game_object" where
  "GetGameObject inNetworkId c =
     (case mNetworkIdToGameObjectMap c inNetworkId of Some gameObject \<Rightarrow> gameObject | None \<Rightarrow> 0)"

text \<open>The bracket operator enters an unknown object with the number 0, which the erasure takes out again.\<close>

definition RemoveGameObject :: "game_object \<Rightarrow> linking_context \<Rightarrow> linking_context" where
  "RemoveGameObject inGameObject c =
     (let networkId = (case mGameObjectToNetworkIdMap c inGameObject of Some i \<Rightarrow> i | None \<Rightarrow> 0)
      in c\<lparr>mGameObjectToNetworkIdMap := (mGameObjectToNetworkIdMap c)(inGameObject := None),
           mNetworkIdToGameObjectMap := (mNetworkIdToGameObjectMap c)(networkId := None)\<rparr>)"

section \<open>OutputMemoryStream\<close>

record output_stream =
  osBuffer :: "u8 list"
  osHead :: u32
  osCapacity :: u32
  osLinkingContext :: "linking_context option"

definition ReallocBuffer :: "(nat \<Rightarrow> u8) \<Rightarrow> u32 \<Rightarrow> output_stream \<Rightarrow> output_stream" where
  "ReallocBuffer fresh inNewLength s =
     s\<lparr>osBuffer := take (unat inNewLength) (osBuffer s) @ map fresh [length (osBuffer s)..<unat inNewLength],
       osCapacity := inNewLength\<rparr>"

text \<open>The capacity is a \<open>size_t\<close>, its conversion to 32 bits is the code's.\<close>

definition new_OutputMemoryStream :: "(nat \<Rightarrow> u8) \<Rightarrow> nat \<Rightarrow> output_stream" where
  "new_OutputMemoryStream fresh capacity =
     ReallocBuffer fresh (of_nat capacity)
       \<lparr>osBuffer = [], osHead = 0, osCapacity = of_nat capacity, osLinkingContext = None\<rparr>"

definition default_OutputMemoryStream :: "(nat \<Rightarrow> u8) \<Rightarrow> output_stream" where
  "default_OutputMemoryStream fresh = new_OutputMemoryStream fresh 32"

definition stream_Write :: "(nat \<Rightarrow> u8) \<Rightarrow> u8 list \<Rightarrow> output_stream \<Rightarrow> output_stream result" where
  "stream_Write fresh inData s =
     (let resultHead = osHead s + of_nat (length inData);
          s = (if osCapacity s < resultHead then ReallocBuffer fresh (max (osCapacity s * 2) resultHead) s else s);
          head = unat (osHead s)
      in if head + length inData \<le> length (osBuffer s)
         then Inr (s\<lparr>osBuffer := take head (osBuffer s) @ inData @ drop (head + length inData) (osBuffer s),
                osHead := resultHead\<rparr>)
         else Inl OutOfBounds)"

text \<open>
  A value of \<open>k\<close> bytes; the two endiannesses are equal, so it is not swapped.  \<open>size_t\<close> has \<open>z\<close> bytes,
  4 or 8 by the platform of the build.
\<close>

definition stream_Write_value :: "(nat \<Rightarrow> u8) \<Rightarrow> nat \<Rightarrow> int \<Rightarrow> output_stream \<Rightarrow> output_stream result" where
  "stream_Write_value fresh k inData = stream_Write fresh (int_bytes k inData)"

definition stream_Write_ints :: "(nat \<Rightarrow> u8) \<Rightarrow> nat \<Rightarrow> int list \<Rightarrow> output_stream \<Rightarrow> output_stream result" where
  "stream_Write_ints fresh z inIntVector s =
     rbind (stream_Write_value fresh z (int (length inIntVector)) s)
       (stream_Write fresh (concat (map (int_bytes 4) inIntVector)))"

primrec stream_Write_each :: "('a \<Rightarrow> output_stream \<Rightarrow> output_stream result) \<Rightarrow> 'a list \<Rightarrow>
    output_stream \<Rightarrow> output_stream result" where
  "stream_Write_each write [] s = Inr s"
| "stream_Write_each write (element # elements) s = rbind (write element s) (stream_Write_each write elements)"

definition stream_Write_vector :: "(nat \<Rightarrow> u8) \<Rightarrow> ('a \<Rightarrow> output_stream \<Rightarrow> output_stream result) \<Rightarrow> 'a list \<Rightarrow>
    output_stream \<Rightarrow> output_stream result" where
  "stream_Write_vector fresh write inVector s =
     rbind (stream_Write_value fresh 4 (int (length inVector)) s) (stream_Write_each write inVector)"

definition stream_Write_string :: "(nat \<Rightarrow> u8) \<Rightarrow> nat \<Rightarrow> u8 list \<Rightarrow> output_stream \<Rightarrow> output_stream result" where
  "stream_Write_string fresh z inString s =
     rbind (stream_Write_value fresh z (int (length inString)) s) (stream_Write fresh inString)"

definition stream_Write_object :: "(nat \<Rightarrow> u8) \<Rightarrow> game_object \<Rightarrow> output_stream \<Rightarrow> output_stream result" where
  "stream_Write_object fresh inGameObject s =
     (case osLinkingContext s of None \<Rightarrow> Inl NullDeref
      | Some c \<Rightarrow> stream_Write_value fresh 4 (uint (fst (GetNetworkId inGameObject False c))) s)"

section \<open>InputMemoryStream\<close>

record input_stream =
  isBuffer :: "u8 list"
  isHead :: u32
  isCapacity :: u32
  isLinkingContext :: "linking_context option"

definition new_InputMemoryStream :: "u8 list \<Rightarrow> u32 \<Rightarrow> input_stream" where
  "new_InputMemoryStream inBuffer inByteCount =
     \<lparr>isBuffer = inBuffer, isHead = 0, isCapacity = inByteCount, isLinkingContext = None\<rparr>"

definition GetRemainingDataSize :: "input_stream \<Rightarrow> u32" where
  "GetRemainingDataSize s = isCapacity s - isHead s"

text \<open>The test against the capacity has an empty body: only the block itself bounds a read.\<close>

definition stream_Read :: "u32 \<Rightarrow> input_stream \<Rightarrow> (u8 list \<times> input_stream) result" where
  "stream_Read inByteCount s =
     (let resultHead = isHead s + inByteCount; head = unat (isHead s)
      in if head + unat inByteCount \<le> length (isBuffer s)
         then Inr (take (unat inByteCount) (drop head (isBuffer s)), s\<lparr>isHead := resultHead\<rparr>)
         else Inl OutOfBounds)"

definition stream_Read_value :: "nat \<Rightarrow> input_stream \<Rightarrow> (int \<times> input_stream) result" where
  "stream_Read_value k s = rbind (stream_Read (of_nat k) s) (\<lambda>(bs, s1). Inr (bytes_uint bs, s1))"

definition stream_Read_object :: "input_stream \<Rightarrow> (game_object \<times> input_stream) result" where
  "stream_Read_object s =
     rbind (stream_Read_value 4 s) (\<lambda>(networkId, s1).
       case isLinkingContext s1 of None \<Rightarrow> Inl NullDeref
       | Some c \<Rightarrow> Inr (GetGameObject (word_of_int networkId) c, s1))"

section \<open>The numbers of the game objects\<close>

text \<open>The two maps are inverse to each other, and numbers above the last one given are free.\<close>

definition linking_ok :: "linking_context \<Rightarrow> bool" where
  "linking_ok c \<longleftrightarrow>
     (\<forall>g i. mGameObjectToNetworkIdMap c g = Some i \<longleftrightarrow> mNetworkIdToGameObjectMap c i = Some g) \<and>
     (\<forall>g i. mGameObjectToNetworkIdMap c g = Some i \<longrightarrow> 0 < i \<and> i \<le> mNextNetworkId c)"

lemma new_LinkingContext_ok: "linking_ok new_LinkingContext"
  by (simp add: linking_ok_def new_LinkingContext_def)

lemma linking_inj:
  "linking_ok c \<Longrightarrow> mGameObjectToNetworkIdMap c g = Some i \<Longrightarrow> mGameObjectToNetworkIdMap c h = Some i \<Longrightarrow> g = h"
  unfolding linking_ok_def by (metis option.inject)

lemma RemoveGameObject_ok:
  assumes "linking_ok c"
  shows "linking_ok (RemoveGameObject g c)" and "mGameObjectToNetworkIdMap (RemoveGameObject g c) g = None"
    and "h \<noteq> g \<Longrightarrow> mGameObjectToNetworkIdMap (RemoveGameObject g c) h = mGameObjectToNetworkIdMap c h"
proof -
  show "linking_ok (RemoveGameObject g c)"
    using assms unfolding linking_ok_def RemoveGameObject_def
    by (auto simp: Let_def split: option.splits) (metis option.distinct(1) option.inject)+
qed (simp_all add: RemoveGameObject_def Let_def)

text \<open>An object asked for gets a number of its own, which leads back to it and which it keeps.\<close>

lemma GetNetworkId_spec:
  assumes ok: "linking_ok c" and next': "unat (mNextNetworkId c) < 2 ^ 32 - 1" and get: "GetNetworkId g True c = (i, d)"
  shows "linking_ok d" and "GetGameObject i d = g" and "GetNetworkId g b d = (i, d)"
    and "h \<noteq> g \<Longrightarrow> mGameObjectToNetworkIdMap d h = mGameObjectToNetworkIdMap c h"
    and "h \<noteq> g \<Longrightarrow> mGameObjectToNetworkIdMap d h \<noteq> Some i"
proof -
  have fresh: "mGameObjectToNetworkIdMap c h \<noteq> Some (mNextNetworkId c + 1)"
    "mNetworkIdToGameObjectMap c (mNextNetworkId c + 1) = None" "0 < mNextNetworkId c + 1"
    "j \<le> mNextNetworkId c \<Longrightarrow> j \<le> mNextNetworkId c + 1" for h j
  proof -
    have less: "mNextNetworkId c < mNextNetworkId c + 1" using next' by (simp add: word_less_nat_alt unat_word_ariths)
    show f: "mGameObjectToNetworkIdMap c h \<noteq> Some (mNextNetworkId c + 1)" for h
      using ok less unfolding linking_ok_def by (metis leD)
    show "mNetworkIdToGameObjectMap c (mNextNetworkId c + 1) = None"
      using ok f unfolding linking_ok_def by (metis not_None_eq)
    show "0 < mNextNetworkId c + 1" by (rule le_less_trans [OF _ less]) simp
    show "j \<le> mNextNetworkId c \<Longrightarrow> j \<le> mNextNetworkId c + 1" using less by simp
  qed
  let ?n = "mNextNetworkId c + 1"
  have inv: "mGameObjectToNetworkIdMap c h = Some j \<longleftrightarrow> mNetworkIdToGameObjectMap c j = Some h"
    "mGameObjectToNetworkIdMap c h = Some j \<Longrightarrow> 0 < j \<and> j \<le> mNextNetworkId c" for h j
    using ok by (simp_all add: linking_ok_def)
  have "linking_ok d \<and> mGameObjectToNetworkIdMap d g = Some i \<and>
    (\<forall>h. h \<noteq> g \<longrightarrow> mGameObjectToNetworkIdMap d h = mGameObjectToNetworkIdMap c h)"
  proof (cases "mGameObjectToNetworkIdMap c g")
    case (Some k)
    then show ?thesis using get ok by (simp add: GetNetworkId_def)
  next
    case None
    then have d: "i = ?n" "mNetworkIdToGameObjectMap d = (mNetworkIdToGameObjectMap c)(?n \<mapsto> g)"
      "mGameObjectToNetworkIdMap d = (mGameObjectToNetworkIdMap c)(g \<mapsto> ?n)" "mNextNetworkId d = ?n"
      using get by (auto simp: GetNetworkId_def AddGameObject_def Let_def)
    have "mGameObjectToNetworkIdMap d h = Some j \<longleftrightarrow> mNetworkIdToGameObjectMap d j = Some h" for h j
      using fresh(1) [of h] inv(1) [of h j] inv(1) [of g j] None
      by (cases "h = g"; cases "j = ?n") (auto simp: d(2,3))
    moreover have "mGameObjectToNetworkIdMap d h = Some j \<Longrightarrow> 0 < j \<and> j \<le> mNextNetworkId d" for h j
      using fresh(3,4) inv(2) [of h j] by (auto simp: d(3,4) split: if_splits)
    ultimately show ?thesis unfolding linking_ok_def by (simp add: d(1,3))
  qed
  then have d: "linking_ok d" "mGameObjectToNetworkIdMap d g = Some i"
    "h \<noteq> g \<Longrightarrow> mGameObjectToNetworkIdMap d h = mGameObjectToNetworkIdMap c h" for h by blast+
  show "linking_ok d" "h \<noteq> g \<Longrightarrow> mGameObjectToNetworkIdMap d h = mGameObjectToNetworkIdMap c h" by (fact d)+
  show "GetNetworkId g b d = (i, d)" by (simp add: GetNetworkId_def d(2))
  show "GetGameObject i d = g" using d(1,2) by (simp add: GetGameObject_def linking_ok_def)
  show "h \<noteq> g \<Longrightarrow> mGameObjectToNetworkIdMap d h \<noteq> Some i" using linking_inj [OF d(1,2)] by blast
qed

section \<open>The streams as lists of bytes\<close>

definition output_ok :: "output_stream \<Rightarrow> bool" where
  "output_ok s \<longleftrightarrow> length (osBuffer s) = unat (osCapacity s) \<and> osHead s \<le> osCapacity s"

definition out_bytes :: "output_stream \<Rightarrow> u8 list" where
  "out_bytes s = take (unat (osHead s)) (osBuffer s)"

definition bytes_left :: "output_stream \<Rightarrow> nat" where
  "bytes_left s = 2 ^ 32 - 1 - unat (osHead s)"

lemma new_OutputMemoryStream_ok:
  "output_ok (new_OutputMemoryStream fresh k)" "out_bytes (new_OutputMemoryStream fresh k) = []"
  "bytes_left (new_OutputMemoryStream fresh k) = 2 ^ 32 - 1"
  by (simp_all add: new_OutputMemoryStream_def ReallocBuffer_def output_ok_def out_bytes_def bytes_left_def)

lemma stream_Write_law:
  assumes ok: "output_ok s" and l: "length bs \<le> bytes_left s"
  shows "\<exists>s'. stream_Write fresh bs s = Inr s' \<and> output_ok s' \<and> out_bytes s' = out_bytes s @ bs \<and>
    bytes_left s' = bytes_left s - length bs \<and> osLinkingContext s' = osLinkingContext s"
proof -
  let ?r = "osHead s + of_nat (length bs)" and ?h = "unat (osHead s)"
  define v where "v = (if osCapacity s < ?r then ReallocBuffer fresh (max (osCapacity s * 2) ?r) s else s)"
  have h: "?h < 2 ^ 32" by (rule order_less_le_trans [OF unsigned_less]) simp
  have r: "unat ?r = ?h + length bs"
    using l h by (simp add: bytes_left_def unat_word_ariths unat_of_nat)
  have "length (osBuffer v) = unat (osCapacity v)" "?r \<le> osCapacity v"
    using ok by (auto simp: v_def ReallocBuffer_def output_ok_def max_def not_less)
  moreover have "take ?h (osBuffer v) = out_bytes s" "osHead v = osHead s" "osLinkingContext v = osLinkingContext s"
    using ok by (auto simp: v_def ReallocBuffer_def output_ok_def out_bytes_def word_le_nat_alt min_def max_def
        word_less_nat_alt)
  ultimately have v: "length (osBuffer v) = unat (osCapacity v)" "?r \<le> osCapacity v"
    "take ?h (osBuffer v) = out_bytes s" "osHead v = osHead s" "osLinkingContext v = osLinkingContext s" .
  have fits: "?h + length bs \<le> length (osBuffer v)" using v(1,2) r by (simp add: word_le_nat_alt)
  have "stream_Write fresh bs s =
      Inr (v\<lparr>osBuffer := out_bytes s @ bs @ drop (?h + length bs) (osBuffer v), osHead := ?r\<rparr>)"
    using fits by (simp add: stream_Write_def Let_def v_def [symmetric] v)
  moreover have "length (out_bytes s) = ?h" using ok by (simp add: out_bytes_def output_ok_def word_le_nat_alt)
  ultimately show ?thesis
    using v fits r by (auto simp: output_ok_def out_bytes_def [of "_\<lparr>osHead := _\<rparr>"] bytes_left_def)
qed

text \<open>A write fails exactly when the length of the stream would not fit 32 bits.\<close>

lemma stream_Write_fails:
  assumes ok: "output_ok s" and l: "bytes_left s < length bs" "length bs < 2 ^ 32"
  shows "stream_Write fresh bs s = Inl OutOfBounds"
proof -
  let ?r = "osHead s + of_nat (length bs)" and ?h = "unat (osHead s)"
  have h: "?h < 2 ^ 32" by (rule order_less_le_trans [OF unsigned_less]) simp
  have "2 ^ 32 \<le> ?h + length bs" "?h + length bs - 2 ^ 32 < 2 ^ 32" using l h unfolding bytes_left_def by linarith+
  moreover have "unat ?r = (?h + length bs) mod 2 ^ 32" using l(2) by (simp add: unat_word_ariths unat_of_nat)
  ultimately have "unat ?r = ?h + length bs - 2 ^ 32" using le_mod_geq [of "2 ^ 32" "?h + length bs"] by simp
  then have "unat ?r \<le> ?h" using l by linarith
  then have "\<not> osCapacity s < ?r" using ok by (simp add: output_ok_def word_le_nat_alt word_less_nat_alt)
  moreover have "unat (osCapacity s) < 2 ^ 32" by (rule order_less_le_trans [OF unsigned_less]) simp
  ultimately show ?thesis using ok l by (simp add: stream_Write_def Let_def output_ok_def bytes_left_def)
qed

section \<open>The channel\<close>

definition input_ok :: "input_stream \<Rightarrow> bool" where
  "input_ok r \<longleftrightarrow> unat (isHead r) \<le> length (isBuffer r) \<and> length (isBuffer r) < 2 ^ 32"

definition in_bytes :: "input_stream \<Rightarrow> u8 list" where
  "in_bytes r = drop (unat (isHead r)) (isBuffer r)"

definition sent_bytes :: "output_stream \<Rightarrow> input_stream" where
  "sent_bytes s = new_InputMemoryStream (osBuffer s) (osHead s)"

interpretation bytes: channel "stream_Write fresh" "\<lambda>bs. bs" output_ok out_bytes bytes_left "\<lambda>_. True"
  "\<lambda>n. stream_Read (of_nat n)" length "\<lambda>bs. length bs < 2 ^ 32" input_ok in_bytes sent_bytes
  for fresh
proof
  fix s :: output_stream and bs :: "u8 list"
  assume "output_ok s" and "length bs \<le> bytes_left s"
  then show "\<exists>s'. stream_Write fresh bs s = Inr s' \<and> output_ok s' \<and> out_bytes s' = out_bytes s @ bs \<and>
      bytes_left s' = bytes_left s - length bs" using stream_Write_law by blast
next
  fix r bs x
  assume r: "input_ok r" and bs: "length bs < 2 ^ 32" and e: "in_bytes r = bs @ x"
  have "length (isBuffer r) - unat (isHead r) = length bs + length x"
    using arg_cong [OF e, of length] by (simp add: in_bytes_def)
  then have l: "unat (isHead r) + length bs + length x = length (isBuffer r)"
    using r unfolding input_ok_def by linarith
  then have h: "unat (isHead r + of_nat (length bs)) = unat (isHead r) + length bs"
    using r bs by (simp add: input_ok_def unat_word_ariths unat_of_nat)
  have "drop (unat (isHead r) + length bs) (isBuffer r) = x"
    using arg_cong [OF e, of "drop (length bs)"] by (simp add: in_bytes_def add.commute)
  then show "\<exists>r'. stream_Read (of_nat (length bs)) r = Inr (bs, r') \<and> input_ok r' \<and> in_bytes r' = x"
    using e l r h bs by (simp add: stream_Read_def Let_def unat_of_nat in_bytes_def input_ok_def)
next
  fix s
  assume "output_ok s"
  then show "input_ok (sent_bytes s) \<and> (\<exists>x. in_bytes (sent_bytes s) = out_bytes s @ x)"
    using unsigned_less [of "osCapacity s", where 'a = nat]
    by (auto simp: sent_bytes_def new_InputMemoryStream_def input_ok_def output_ok_def in_bytes_def out_bytes_def
        intro: append_take_drop_id [symmetric])
qed

end
