(* ===== verification/Byte_Swap.thy ===== *)
theory Byte_Swap
  imports Packets
begin

unbundle bit_operations_syntax

text \<open>
  \<open>ByteSwap.h\<close>: the byte order of a value turned round, and \<open>SocketAddress.h\<close>, whose addresses hold
  it turned round.  Below the definitions: a swap reverses the bytes of its value, and equal
  addresses have equal hashes.
\<close>

section \<open>ByteSwap\<close>

definition ByteSwap2 :: "u16 \<Rightarrow> u16" where
  "ByteSwap2 inData = drop_bit 8 inData OR push_bit 8 inData"

definition ByteSwap4 :: "u32 \<Rightarrow> u32" where
  "ByteSwap4 inData =
     (drop_bit 24 inData AND 0x000000ff) OR (drop_bit 8 inData AND 0x0000ff00) OR
     (push_bit 8 inData AND 0x00ff0000) OR (push_bit 24 inData AND 0xff000000)"

definition ByteSwap8 :: "u64 \<Rightarrow> u64" where
  "ByteSwap8 inData =
     (drop_bit 56 inData AND 0x00000000000000ff) OR (drop_bit 40 inData AND 0x000000000000ff00) OR
     (drop_bit 24 inData AND 0x0000000000ff0000) OR (drop_bit 8 inData AND 0x00000000ff000000) OR
     (push_bit 8 inData AND 0x000000ff00000000) OR (push_bit 24 inData AND 0x0000ff0000000000) OR
     (push_bit 40 inData AND 0x00ff000000000000) OR (push_bit 56 inData AND 0xff00000000000000)"

text \<open>
  \<open>TypeAliaser\<close> reads the bytes of one type as another.  A value of a type of 1, 2, 4 or 8 bytes is
  the list of its bytes; for other sizes \<open>ByteSwapper\<close> has no specialisation.
\<close>

definition aliased :: "u8 list \<Rightarrow> 'a::len word" where
  "aliased bs = word_of_int (bytes_uint bs)"

definition ByteSwap :: "u8 list \<Rightarrow> u8 list option" where
  "ByteSwap inData =
     (if length inData = 1 then Some inData
      else if length inData = 2 then Some (int_bytes 2 (uint (ByteSwap2 (aliased inData))))
      else if length inData = 4 then Some (int_bytes 4 (uint (ByteSwap4 (aliased inData))))
      else if length inData = 8 then Some (int_bytes 8 (uint (ByteSwap8 (aliased inData))))
      else None)"

section \<open>SocketAddress\<close>

text \<open>The fields of a \<open>sockaddr_in\<close>; on the little-endian host \<open>htonl\<close> and \<open>htons\<close> swap the bytes.\<close>

record socket_address =
  sa_family :: u16
  sin_port :: u16
  sin_addr :: u32

definition AF_INET :: u16 where "AF_INET = 2"

definition new_SocketAddress :: "u32 \<Rightarrow> u16 \<Rightarrow> socket_address" where
  "new_SocketAddress inAddress inPort =
     \<lparr>sa_family = AF_INET, sin_port = ByteSwap2 inPort, sin_addr = ByteSwap4 inAddress\<rparr>"

definition any_SocketAddress :: socket_address where
  "any_SocketAddress = \<lparr>sa_family = AF_INET, sin_port = 0, sin_addr = 0\<rparr>"

definition same_SocketAddress :: "socket_address \<Rightarrow> socket_address \<Rightarrow> bool" where
  "same_SocketAddress s inOther \<longleftrightarrow>
     (sa_family s = AF_INET \<and> sin_port s = sin_port inOther) \<and> sin_addr s = sin_addr inOther"

definition GetHash :: "socket_address \<Rightarrow> u32" where
  "GetHash s = sin_addr s OR push_bit 13 (ucast (sin_port s)) OR ucast (sa_family s)"

section \<open>The bytes of a swapped value\<close>

lemma nth_int_bytes: "i < n \<Longrightarrow> int_bytes n x ! i = word_of_int (x div 256 ^ i)"
proof (induction n arbitrary: x i)
  case 0
  then show ?case by simp
next
  case (Suc n)
  show ?case
  proof (cases i)
    case 0
    then show ?thesis by simp
  next
    case (Suc j)
    then show ?thesis using Suc.IH [of j "x div 256"] Suc.prems by (simp add: div_mult2_eq zdiv_zmult2_eq)
  qed
qed

lemma bit_nth_int_bytes:
  assumes "i < n" and "j < 8"
  shows "bit (int_bytes n (uint (w :: 'a::len word)) ! i) j = bit w (8 * i + j)"
proof -
  have "(256 :: int) ^ i = 2 ^ (8 * i)" by (simp add: power_mult)
  then have "bit (uint w div 256 ^ i) j = bit (uint w) (8 * i + j)"
    by (simp add: drop_bit_eq_div [symmetric] bit_drop_bit_eq)
  then show ?thesis using assms by (simp add: nth_int_bytes bit_word_of_int_iff bit_uint_iff)
    (metis bit_imp_le_length)
qed

lemma bytes_uint_bound: "0 \<le> bytes_uint bs \<and> bytes_uint bs < 2 ^ (8 * length bs)"
proof (induction bs)
  case Nil
  then show ?case by simp
next
  case (Cons b bs)
  have "uint b < 2 ^ 8" using uint_lt2p [of b] by simp
  then show ?case using Cons by (simp add: power_add)
qed

lemma bit_bytes_uint: "bit (bytes_uint bs) k \<longleftrightarrow> k < 8 * length bs \<and> bit (bs ! (k div 8)) (k mod 8)"
proof (induction bs arbitrary: k)
  case Nil
  then show ?case by simp
next
  case (Cons b bs)
  have "uint b + 256 * bytes_uint bs = uint b OR push_bit 8 (bytes_uint bs)"
  proof -
    have "uint b AND push_bit 8 (bytes_uint bs) = 0"
      by (rule bit_eqI) (auto simp: bit_simps dest: bit_imp_le_length)
    then have "uint b + push_bit 8 (bytes_uint bs) = uint b OR push_bit 8 (bytes_uint bs)"
      by (rule disjunctive_add_eq_or)
    then show ?thesis by (simp add: push_bit_eq_mult mult.commute)
  qed
  then have e: "bit (bytes_uint (b # bs)) k \<longleftrightarrow> bit b k \<or> (8 \<le> k \<and> bit (bytes_uint bs) (k - 8))"
    by (auto simp: bit_simps)
  show ?case
  proof (cases "k < 8")
    case True
    then show ?thesis unfolding e by simp
  next
    case False
    then have "k div 8 = Suc ((k - 8) div 8)" "k mod 8 = (k - 8) mod 8"
      by (simp_all add: le_div_geq le_mod_geq)
    moreover have "\<not> bit b k" using False bit_imp_le_length [of b k] by auto
    ultimately show ?thesis unfolding e Cons.IH using False by auto
  qed
qed

lemma bit_aliased: "k < LENGTH('a) \<Longrightarrow> LENGTH('a) = 8 * length bs \<Longrightarrow>
    bit (aliased bs :: 'a::len word) k = bit (bs ! (k div 8)) (k mod 8)"
  by (simp add: aliased_def bit_word_of_int_iff bit_bytes_uint)

text \<open>A word whose bytes are those of a list in reverse.\<close>

lemma reversed_bytes:
  fixes w :: "'a::len word"
  assumes n: "length bs = n" "LENGTH('a) = 8 * n"
    and w: "\<And>i j. i < n \<Longrightarrow> j < 8 \<Longrightarrow> bit w (8 * i + j) = bit (aliased bs :: 'a word) (8 * (n - Suc i) + j)"
  shows "int_bytes n (uint w) = rev bs"
proof (rule nth_equalityI)
  show "length (int_bytes n (uint w)) = length (rev bs)" using n by simp
next
  fix i
  assume "i < length (int_bytes n (uint w))"
  then have i: "i < n" by simp
  show "int_bytes n (uint w) ! i = rev bs ! i"
  proof (rule bit_word_eqI)
    fix j
    assume "j < LENGTH(8)"
    then have j: "j < 8" by simp
    have k: "8 * (n - Suc i) + j < LENGTH('a)" using i j n(2) by auto
    have "bit (int_bytes n (uint w) ! i) j = bit (aliased bs :: 'a word) (8 * (n - Suc i) + j)"
      using bit_nth_int_bytes [OF i j, of w] w [OF i j] by simp
    also have "\<dots> = bit (bs ! (n - Suc i)) j" using bit_aliased [OF k, of bs] n j by simp
    finally show "bit (int_bytes n (uint w) ! i) j = bit (rev bs ! i) j" using i n by (simp add: rev_nth)
  qed
qed

text \<open>The masks of the code, as a byte moved into its place.\<close>

lemma masks4:
  "(0x000000ff :: u32) = push_bit 0 (mask 8)" "(0x0000ff00 :: u32) = push_bit 8 (mask 8)"
  "(0x00ff0000 :: u32) = push_bit 16 (mask 8)" "(0xff000000 :: u32) = push_bit 24 (mask 8)"
  by (simp_all add: mask_eq_exp_minus_1)

lemma masks8:
  "(0x00000000000000ff :: u64) = push_bit 0 (mask 8)" "(0x000000000000ff00 :: u64) = push_bit 8 (mask 8)"
  "(0x0000000000ff0000 :: u64) = push_bit 16 (mask 8)" "(0x00000000ff000000 :: u64) = push_bit 24 (mask 8)"
  "(0x000000ff00000000 :: u64) = push_bit 32 (mask 8)" "(0x0000ff0000000000 :: u64) = push_bit 40 (mask 8)"
  "(0x00ff000000000000 :: u64) = push_bit 48 (mask 8)" "(0xff00000000000000 :: u64) = push_bit 56 (mask 8)"
  by (simp_all add: mask_eq_exp_minus_1)

lemma less_cases:
  "i < (2 :: nat) \<longleftrightarrow> i = 0 \<or> i = 1" "i < (4 :: nat) \<longleftrightarrow> i = 0 \<or> i = 1 \<or> i = 2 \<or> i = 3"
  "i < (8 :: nat) \<longleftrightarrow> i = 0 \<or> i = 1 \<or> i = 2 \<or> i = 3 \<or> i = 4 \<or> i = 5 \<or> i = 6 \<or> i = 7"
  by auto

lemma swapped_bytes:
  "length bs = 2 \<Longrightarrow> int_bytes 2 (uint (ByteSwap2 (aliased bs))) = rev bs"
  "length bs = 4 \<Longrightarrow> int_bytes 4 (uint (ByteSwap4 (aliased bs))) = rev bs"
  "length bs = 8 \<Longrightarrow> int_bytes 8 (uint (ByteSwap8 (aliased bs))) = rev bs"
proof -
  have no_bit: "16 \<le> k \<Longrightarrow> \<not> bit (x :: u16) k" for x k using bit_imp_le_length [of x k] by auto
  have b2: "bit (ByteSwap2 x) (8 * i + j) = bit x (8 * (2 - Suc i) + j)" if "i < 2" "j < 8" for x i j
    using that(1) unfolding less_cases(1)
    by (elim disjE; use that(2) in \<open>simp add: ByteSwap2_def bit_or_iff bit_drop_bit_eq bit_push_bit_iff no_bit add.commute\<close>)
  have b4: "bit (ByteSwap4 x) (8 * i + j) = bit x (8 * (4 - Suc i) + j)" if "i < 4" "j < 8" for x i j
    using that(1) unfolding less_cases(2)
    by (elim disjE; use that(2) in \<open>simp add: ByteSwap4_def masks4 bit_or_iff bit_and_iff bit_drop_bit_eq bit_push_bit_iff
        bit_mask_iff add.commute\<close>)
  have b8: "bit (ByteSwap8 x) (8 * i + j) = bit x (8 * (8 - Suc i) + j)" if "i < 8" "j < 8" for x i j
    using that(1) unfolding less_cases(3)
    by (elim disjE; use that(2) in \<open>simp add: ByteSwap8_def masks8 bit_or_iff bit_and_iff bit_drop_bit_eq bit_push_bit_iff
        bit_mask_iff add.commute\<close>)
  show "length bs = 2 \<Longrightarrow> int_bytes 2 (uint (ByteSwap2 (aliased bs))) = rev bs"
    by (rule reversed_bytes) (simp_all add: b2)
  show "length bs = 4 \<Longrightarrow> int_bytes 4 (uint (ByteSwap4 (aliased bs))) = rev bs"
    by (rule reversed_bytes) (simp_all add: b4)
  show "length bs = 8 \<Longrightarrow> int_bytes 8 (uint (ByteSwap8 (aliased bs))) = rev bs"
    by (rule reversed_bytes) (simp_all add: b8)
qed

theorem ByteSwap_rev:
  "ByteSwap bs = (if length bs \<in> {1, 2, 4, 8} then Some (rev bs) else None)"
  using swapped_bytes [of bs] by (cases bs rule: rev_cases) (auto simp: ByteSwap_def)

section \<open>Equality and hash of addresses\<close>

lemma same_hash: "same_SocketAddress s t \<Longrightarrow> sa_family t = AF_INET \<Longrightarrow> GetHash s = GetHash t"
  by (simp add: same_SocketAddress_def GetHash_def)

text \<open>The family of the other address is not compared: an address equals one of another family.\<close>

lemma other_family_same:
  "same_SocketAddress any_SocketAddress \<lparr>sa_family = 23, sin_port = 0, sin_addr = 0\<rparr> \<and>
    \<not> same_SocketAddress \<lparr>sa_family = 23, sin_port = 0, sin_addr = 0\<rparr> any_SocketAddress \<and>
    GetHash any_SocketAddress \<noteq> GetHash \<lparr>sa_family = 23, sin_port = 0, sin_addr = 0\<rparr>"
  by (simp add: same_SocketAddress_def GetHash_def any_SocketAddress_def AF_INET_def)

end
