(* ===== verification/Library_Properties.thy ===== *)
theory Library_Properties
  imports Bit_Channel Byte_Streams Byte_Swap World
begin

text \<open>
  The properties of the library: what is written into a stream is read back from it, the packets of
  the server reach the buffer they are sent from unchanged, and two shortcomings of the copies.
\<close>

section \<open>Bit streams\<close>

text \<open>
  C32 (bits). Fields of any numbers of bits, up to 2^31 bits together, are written without leaving the
  block, whose size grows as needed, and read back in the same order with the same values, wherever
  in a byte a field begins.
\<close>

theorem bit_stream_round_trip:
  assumes "list_all field_ok fs" and "sum_list (map snd fs) < 2 ^ 31"
  shows "\<exists>s0 s r. new_bit_output = Inr s0 \<and> put_all write_field fs s0 = Inr s \<and>
    unat (boBitHead s) = sum_list (map snd fs) \<and>
    get_all read_field (map snd fs) (sent_bits s) = Inr (fs, r)"
proof -
  obtain s0 where s0: "new_bit_output = Inr s0" "bit_output_ok s0" "out_bits s0 = []" "boBitHead s0 = 0"
    using new_bit_output_ok by blast
  have "length (concat (map field_bits fs)) = sum_list (map snd fs)"
    using assms(1) by (induction fs) simp_all
  then have l: "length (concat (map field_bits fs)) \<le> bits_left s0" "length (concat (map field_bits fs)) = sum_list (map snd fs)"
    using assms(2) s0(4) by (simp_all add: bits_left_def)
  obtain s r where s: "put_all write_field fs s0 = Inr s" "get_all read_field (map snd fs) (sent_bits s) = Inr (fs, r)"
    using bits.round_trip [OF s0(2,3) assms(1,1) l(1)] by blast
  have "out_bits s = concat (map field_bits fs)" "bit_output_ok s"
    using bits.put_all_law [OF s0(2) assms(1) l(1)] s(1) s0(3) by auto
  then have "unat (boBitHead s) = sum_list (map snd fs)"
    using l(2) by (simp add: out_bits_def bit_output_ok_def word_le_nat_alt) (metis length_bits_of length_take min.absorb2)
  then show ?thesis using s0(1) s by blast
qed

text \<open>The fields of \<open>test1\<close>, a number of 20 bits and a flag.\<close>

theorem bit_stream_round_trip_witness:
  "\<exists>s0 s r. new_bit_output = Inr s0 \<and>
    put_all write_field [([11], 5), ([52], 6), ([0x45, 0x23, 1], 20), ([1], 1)] s0 = Inr s \<and>
    get_all read_field [5, 6, 20, 1] (sent_bits s) = Inr ([([11], 5), ([52], 6), ([0x45, 0x23, 1], 20), ([1], 1)], r)"
  using bit_stream_round_trip [of "[([11], 5), ([52], 6), ([0x45, 0x23, 1], 20), ([1], 1)]"]
  by (auto simp: field_ok_def byte_bits_def upt_rec [of _ 8] bit_numeral_word_iff)

text \<open>A string is a field of 32 bits, its length, and a byte for each character.\<close>

lemma string_fields: "bits_Write_string str =
    put_all write_field ((int_bytes 4 (int (length str)), 32) # map (\<lambda>c. ([c], 8)) str)"
proof -
  have "bits_Write_elements str = put_all write_field (map (\<lambda>c. ([c], 8)) str)"
  proof (induction str)
    case Nil
    show ?case by (rule ext) simp
  next
    case (Cons c str)
    have "write_field ([c], 8) = WriteBits [c] 8" by (simp add: write_field_def)
    then show ?case by (intro ext) (simp add: Cons bits_Write_def)
  qed
  moreover have "write_field (bs, 32) = WriteBits bs 32" for bs by (simp add: write_field_def)
  ultimately show ?thesis by (intro ext) (simp add: bits_Write_string_def bits_Write_def del: int_bytes.simps)
qed

lemma string_round_trip:
  assumes "length str < 2 ^ 27"
  shows "\<exists>s0 s r. new_bit_output = Inr s0 \<and> bits_Write_string str s0 = Inr s \<and>
    bits_Read_string (sent_bits s) = Inr (str, r)"
proof -
  let ?fs = "(int_bytes 4 (int (length str)), 32) # map (\<lambda>c. ([c], 8)) str"
  have fs: "list_all field_ok ?fs" by (simp add: list_all_iff field_ok_def)
  obtain s0 where s0: "new_bit_output = Inr s0" "bit_output_ok s0" "out_bits s0 = []" "boBitHead s0 = 0"
    using new_bit_output_ok by blast
  have "length (concat (map field_bits ?fs)) = 32 + 8 * length str"
    by (induction str) (simp_all add: field_ok_def field_bits_def comp_def)
  then have l: "length (concat (map field_bits ?fs)) \<le> bits_left s0"
    using assms s0(4) by (simp add: bits_left_def)
  obtain s r where s: "put_all write_field ?fs s0 = Inr s" "get_all read_field (map snd ?fs) (sent_bits s) = Inr (?fs, r)"
    using bits.round_trip [OF s0(2,3) fs fs l] by blast
  have chars: "bits_Read_elements (length cs) q = Inr (cs, r)"
    if "get_all read_field (replicate (length cs) 8) q = Inr (map (\<lambda>c. ([c], 8)) cs, r)" for cs q
    using that
    by (induction cs arbitrary: q) (auto simp: rbind_Inr_iff read_field_def bits_Read_def split: prod.splits)
  have "map (snd \<circ> (\<lambda>c. ([c], 8))) str = replicate (length str) (8 :: nat)" by (induction str) simp_all
  then have "\<exists>q. ReadBits 32 (sent_bits s) = Inr (int_bytes 4 (int (length str)), q) \<and>
      get_all read_field (replicate (length str) 8) q = Inr (map (\<lambda>c. ([c], 8)) str, r)"
    using s(2) by (auto simp: rbind_Inr_iff read_field_def simp del: int_bytes.simps split: prod.splits)
  moreover have "bytes_uint (int_bytes 4 (int (length str))) = int (length str)"
    using assms by (simp add: bytes_uint_int_bytes)
  ultimately have "bits_Read_string (sent_bits s) = Inr (str, r)"
    using chars by (auto simp: bits_Read_string_def bits_Read_def simp del: int_bytes.simps)
  then show ?thesis using s0(1) s(1) by (auto simp: string_fields)
qed

text \<open>
  The copy of a stream has a block of the whole bytes of the capacity only: the last bits of a stream
  that ends within a byte are lost, and reading them leaves the block.
\<close>

lemma copy_loses_bits:
  "fst ` set_option (case ReadBits 12 (new_bit_input [0xff, 0x0f] 12) of Inr x \<Rightarrow> Some x | _ \<Rightarrow> None) = {[0xff, 0x0f]} \<and>
   (\<exists>c. copy_bit_input (new_bit_input [0xff, 0x0f] 12) = Inr c \<and> biBuffer c = [0xff] \<and>
     GetRemainingBitCount c = 12 \<and> ReadBits 12 c = Inl OutOfBounds)"
  by (simp add: copy_bit_input_def new_bit_input_def GetRemainingBitCount_def ReadBits.simps ReadBits8_def at_idx_def)

section \<open>Byte streams\<close>

text \<open>
  C31 (stream). Packets written piece by piece into a new stream, whatever its first capacity and
  however their bytes are divided into writes, are its contents in order, up to the length the
  stream reports.
\<close>

theorem packets_in_stream:
  assumes "concat pieces = stream ps" and "length (stream ps) < 2 ^ 32"
  shows "\<exists>s. put_all (stream_Write fresh) pieces (new_OutputMemoryStream fresh capacity) = Inr s \<and>
    unat (osHead s) = length (stream ps) \<and> take (unat (osHead s)) (osBuffer s) = stream ps"
proof -
  let ?s = "new_OutputMemoryStream fresh capacity"
  obtain s where s: "put_all (stream_Write fresh) pieces ?s = Inr s" "output_ok s" "out_bytes s = stream ps"
    using bytes.put_all_law [of ?s pieces fresh] assms new_OutputMemoryStream_ok [of fresh capacity]
    by (auto simp: list_all_iff)
  then have "length (stream ps) = unat (osHead s)"
    by (simp add: out_bytes_def output_ok_def word_le_nat_alt) (metis length_take min.absorb2)
  then show ?thesis using s by (auto simp: out_bytes_def)
qed

theorem packets_in_stream_witness:
  "\<exists>s. put_all (stream_Write (\<lambda>_. 0xcd)) (map Packet_Write [FadeIn 1, UseEmoticon 4 2]) (new_OutputMemoryStream (\<lambda>_. 0xcd) 8) = Inr s \<and>
    take (unat (osHead s)) (osBuffer s) = Packet_Write (FadeIn 1) @ Packet_Write (UseEmoticon 4 2)"
  using packets_in_stream [of "map Packet_Write [FadeIn 1, UseEmoticon 4 2]" "[FadeIn 1, UseEmoticon 4 2]" "\<lambda>_. 0xcd" 8]
  by (auto simp: stream_def Packet_Write_def)

text \<open>A stream has no linking context, and nothing gives it one: writing a game object follows a null pointer.\<close>

lemma stream_Write_object_fails:
  assumes "put_all (stream_Write fresh) pieces (new_OutputMemoryStream fresh capacity) = Inr s"
    and "length (concat pieces) < 2 ^ 32"
  shows "stream_Write_object fresh g s = Inl NullDeref"
proof -
  have keep: "osLinkingContext s' = osLinkingContext s" if "stream_Write fresh bs s = Inr s'" for bs s s'
    using that by (auto simp: stream_Write_def ReallocBuffer_def Let_def split: if_splits)
  have "osLinkingContext s' = osLinkingContext s" if "put_all (stream_Write fresh) pieces s = Inr s'" for s s'
    using that by (induction pieces arbitrary: s) (auto simp: rbind_Inr_iff dest: keep)
  from this [OF assms(1)] show ?thesis
    by (simp add: stream_Write_object_def new_OutputMemoryStream_def ReallocBuffer_def)
qed

end
