(* ===== verification/Sockets.thy ===== *)
theory Sockets
  imports Byte_Swap
begin

text \<open>
  The socket wrappers of the library (Windows branches): \<open>SocketAddressFactory.cpp\<close>,
  \<open>SocketUtil.cpp\<close>, \<open>TCPSocket.cpp\<close>, \<open>UDPSocket.cpp\<close>.  What the operating system answers is an
  argument: the value a call returns and the error number it leaves behind, the addresses of a name
  and the sockets that are ready.  Below the definitions: what the callers may rely on.
\<close>

section \<open>Addresses from text\<close>

text \<open>The text before and after the last colon; without a colon the port is 0.\<close>

definition split_address :: "string \<Rightarrow> string \<times> string" where
  "split_address inString =
     (if CHR '':'' \<in> set inString
      then (rev (tl (dropWhile (\<lambda>c. c \<noteq> CHR '':'') (rev inString))), rev (takeWhile (\<lambda>c. c \<noteq> CHR '':'') (rev inString)))
      else (inString, ''0''))"

text \<open>
  The answer of \<open>getaddrinfo\<close>: its error number and a linked list, the empty one being the null
  pointer; each member may have an address.
\<close>

fun first_address :: "socket_address option list \<Rightarrow> socket_address option result" where
  "first_address [] = Inl NullDeref"
| "first_address [a] = Inr a"
| "first_address (Some a # as) = Inr (Some a)"
| "first_address (None # as) = first_address as"

definition CreateIPv4FromString :: "(string \<Rightarrow> string \<Rightarrow> int \<times> socket_address option list) \<Rightarrow> string \<Rightarrow>
    socket_address option result" where
  "CreateIPv4FromString getaddrinfo inString =
     (let (host, service) = split_address inString; (error, found) = getaddrinfo host service
      in if error \<noteq> 0 \<and> found \<noteq> [] then Inr None else first_address found)"

section \<open>Waiting for sockets\<close>

record user_info =
  nuSocket :: u64
  nuAddress :: socket_address

definition FD_SETSIZE :: nat where "FD_SETSIZE = 64"

text \<open>The macro of the platform: a socket that is there is not added twice, and a full set stays as it is.\<close>

definition FD_SET :: "u64 \<Rightarrow> u64 list \<Rightarrow> u64 list" where
  "FD_SET s fds = (if s \<in> set fds \<or> FD_SETSIZE \<le> length fds then fds else fds @ [s])"

definition FillSetFromVector :: "user_info list option \<Rightarrow> u64 list option" where
  "FillSetFromVector inUserInfo = map_option (\<lambda>us. fold (\<lambda>u. FD_SET (nuSocket u)) us []) inUserInfo"

definition FillVectorFromSet :: "user_info list option \<Rightarrow> user_info list option \<Rightarrow> u64 list option \<Rightarrow> user_info list option" where
  "FillVectorFromSet outUserInfo inUserInfo inSet =
     (case (inUserInfo, outUserInfo) of
        (Some us, Some _) \<Rightarrow> Some (filter (\<lambda>u. nuSocket u \<in> set (the inSet)) us)
      | _ \<Rightarrow> outUserInfo)"

type_synonym fd_sets = "u64 list option \<times> u64 list option \<times> u64 list option"
type_synonym user_vectors = "user_info list option \<times> user_info list option \<times> user_info list option"

definition Select :: "(fd_sets \<Rightarrow> int \<times> fd_sets) \<Rightarrow> user_vectors \<Rightarrow> user_vectors \<Rightarrow> int \<times> user_vectors" where
  "Select select ins outs =
     (let (inRead, inWrite, inExcept) = ins; (outRead, outWrite, outExcept) = outs;
          (toRet, read, write, except) =
            select (FillSetFromVector inRead, FillSetFromVector inWrite, FillSetFromVector inExcept)
      in (toRet,
          if 0 < toRet
          then (FillVectorFromSet outRead inRead read, FillVectorFromSet outWrite inWrite write,
                FillVectorFromSet outExcept inExcept except)
          else outs))"

section \<open>Results of the calls\<close>

text \<open>\<open>r\<close> is what the system call returned, \<open>e\<close> the number \<open>GetLastError\<close> then gives.\<close>

definition TCPSocket_Connect :: "int \<Rightarrow> int \<Rightarrow> int" where
  "TCPSocket_Connect r e = (if r < 0 then - e else 0)"

definition TCPSocket_Listen :: "int \<Rightarrow> int \<Rightarrow> int" where
  "TCPSocket_Listen r e = (if r < 0 then - e else 0)"

definition TCPSocket_Send :: "int \<Rightarrow> int \<Rightarrow> int" where
  "TCPSocket_Send r e = (if r < 0 then - e else r)"

definition TCPSocket_Receive :: "int \<Rightarrow> int \<Rightarrow> int" where
  "TCPSocket_Receive r e = (if r < 0 then - e else r)"

definition TCPSocket_Bind :: "int \<Rightarrow> int \<Rightarrow> int" where
  "TCPSocket_Bind r e = (if r \<noteq> 0 then e else 0)"

definition INVALID_SOCKET :: u64 where "INVALID_SOCKET = - 1"

definition TCPSocket_Accept :: "u64 \<Rightarrow> u64 option" where
  "TCPSocket_Accept newSocket = (if newSocket \<noteq> INVALID_SOCKET then Some newSocket else None)"

definition UDPSocket_Bind :: "int \<Rightarrow> int \<Rightarrow> int" where
  "UDPSocket_Bind r e = (if r \<noteq> 0 then e else 0)"

definition UDPSocket_SendTo :: "int \<Rightarrow> int \<Rightarrow> int" where
  "UDPSocket_SendTo r e = (if r \<le> 0 then - e else r)"

definition WSAEWOULDBLOCK :: int where "WSAEWOULDBLOCK = 10035"
definition WSAECONNRESET :: int where "WSAECONNRESET = 10054"

definition UDPSocket_ReceiveFrom :: "int \<Rightarrow> int \<Rightarrow> int" where
  "UDPSocket_ReceiveFrom r e =
     (if 0 \<le> r then r
      else if e = WSAEWOULDBLOCK then 0
      else if e = WSAECONNRESET then - WSAECONNRESET
      else - e)"

definition UDPSocket_SetNonBlockingMode :: "int \<Rightarrow> int \<Rightarrow> int" where
  "UDPSocket_SetNonBlockingMode r e = (if r = -1 then e else 0)"

definition CreateSocket :: "u64 \<Rightarrow> u64 option" where
  "CreateSocket s = (if s \<noteq> INVALID_SOCKET then Some s else None)"

section \<open>What the callers rely on\<close>

text \<open>Host and port are what surrounds the last colon.\<close>

lemma split_address_colon:
  assumes "CHR '':'' \<notin> set service"
  shows "split_address (host @ '':'' @ service) = (host, service)"
proof -
  have s: "\<forall>c \<in> set (rev service). c \<noteq> CHR '':''" using assms by auto
  then have "takeWhile (\<lambda>c. c \<noteq> CHR '':'') (rev service @ CHR '':'' # rev host) = rev service"
    "dropWhile (\<lambda>c. c \<noteq> CHR '':'') (rev service @ CHR '':'' # rev host) = CHR '':'' # rev host"
    by (subst takeWhile_append2 dropWhile_append2; use s in simp)+
  then show ?thesis by (simp add: split_address_def)
qed

lemma split_address_plain: "CHR '':'' \<notin> set host \<Longrightarrow> split_address host = (host, ''0'')"
  by (simp add: split_address_def)

text \<open>
  An address is found when the system has one.  A name that cannot be resolved leaves no list, and
  the test for an error asks for one: the null pointer is followed.
\<close>

lemma first_address_found: "Some a \<in> set as \<Longrightarrow> \<exists>b. first_address as = Inr (Some b) \<and> Some b \<in> set as"
  by (induction as rule: first_address.induct) auto

lemma address_found:
  assumes "getaddrinfo (fst (split_address s)) (snd (split_address s)) = (0, found)" and "Some a \<in> set found"
  shows "\<exists>b. CreateIPv4FromString getaddrinfo s = Inr (Some b) \<and> Some b \<in> set found"
  using assms first_address_found [OF assms(2)] by (auto simp: CreateIPv4FromString_def split_beta)

lemma unresolved_name_crashes:
  "getaddrinfo (fst (split_address s)) (snd (split_address s)) = (e, []) \<Longrightarrow>
    CreateIPv4FromString getaddrinfo s = Inl NullDeref"
  by (simp add: CreateIPv4FromString_def split_beta)

text \<open>
  The users reported are those whose sockets the system left in the set, in the order of the vector;
  the set holds the first 64 different sockets, and nobody else is ever reported.
\<close>

lemma fold_FD_SET: "set (fold (\<lambda>u. FD_SET (nuSocket u)) us fds) \<subseteq> set fds \<union> nuSocket ` set us \<and>
    length (fold (\<lambda>u. FD_SET (nuSocket u)) us fds) \<le> max (length fds) FD_SETSIZE"
proof (induction us arbitrary: fds)
  case Nil
  then show ?case by simp
next
  case (Cons u us)
  have "set (FD_SET (nuSocket u) fds) \<subseteq> insert (nuSocket u) (set fds)"
    "length (FD_SET (nuSocket u) fds) \<le> max (length fds) FD_SETSIZE" by (auto simp: FD_SET_def)
  then show ?case using Cons.IH [of "FD_SET (nuSocket u) fds"] by auto
qed

lemma fold_FD_SET_all:
  assumes "card (set fds \<union> nuSocket ` set us) \<le> FD_SETSIZE" and "distinct fds"
  shows "set (fold (\<lambda>u. FD_SET (nuSocket u)) us fds) = set fds \<union> nuSocket ` set us"
  using assms
proof (induction us arbitrary: fds)
  case Nil
  then show ?case by simp
next
  case (Cons u us)
  have "set (FD_SET (nuSocket u) fds) = insert (nuSocket u) (set fds) \<and> distinct (FD_SET (nuSocket u) fds)"
  proof (cases "nuSocket u \<in> set fds")
    case False
    have "card (insert (nuSocket u) (set fds)) \<le> card (set fds \<union> nuSocket ` set (u # us))"
      by (rule card_mono) auto
    then have "length fds < FD_SETSIZE" using Cons.prems False by (simp add: distinct_card)
    then show ?thesis using False Cons.prems(2) by (auto simp: FD_SET_def)
  qed (use Cons.prems(2) in \<open>auto simp: FD_SET_def\<close>)
  then show ?case using Cons.IH [of "FD_SET (nuSocket u) fds"] Cons.prems(1) by simp
qed

theorem Select_reports:
  assumes select: "select (Some fds, None, None) = (k, Some ready, None, None)"
    and fds: "fds = fold (\<lambda>u. FD_SET (nuSocket u)) us []" and k: "0 < k"
  shows "Select select (Some us, None, None) (Some old, None, None) =
      (k, Some (filter (\<lambda>u. nuSocket u \<in> set ready) us), None, None)"
    and "length fds \<le> FD_SETSIZE"
    and "card (nuSocket ` set us) \<le> FD_SETSIZE \<Longrightarrow> set fds = nuSocket ` set us"
  using select k fold_FD_SET [of us "[]"] fold_FD_SET_all [of "[]" us]
  by (simp_all add: Select_def FillSetFromVector_def FillVectorFromSet_def fds Let_def)

end
