(* ===== verification/Seats.thy ===== *)
theory Seats
  imports Placement
begin

text \<open>
  The members of one room: each is in it once, connected, points back to it, and does not wait for a match.  Unlike
  the places of all clients (\<open>placed\<close>), this is kept for a room in play even when somebody asks for a
  match twice.
\<close>

definition seated :: "nat \<Rightarrow> world \<Rightarrow> bool" where
  "seated i w \<longleftrightarrow> distinct (rmClients (room_of w i)) \<and>
     (\<forall>p \<in> set (rmClients (room_of w i)). clStatus (client_of w p) = ACTIVE \<and> clRoomPtr (client_of w p) = Some i \<and>
        clRoomOpenCount (client_of w p) = rmOpenCount (room_of w i) \<and> clSocket (client_of w p) \<noteq> None \<and>
        p \<notin> set (queue_list (wQueue w)))"

lemma placed_seated: "placed w \<Longrightarrow> world_ok w \<Longrightarrow> i < length (wRooms w) \<Longrightarrow> seated i w"
  using world_ok_members [of w i] by (auto simp: placed_def seated_def)

lemma seated_simps [simp]:
  "seated i (w\<lparr>wSent := s\<rparr>) = seated i w" "seated i (w\<lparr>wThreads := t\<rparr>) = seated i w"
  "seated i (w\<lparr>wNow := n\<rparr>) = seated i w" "seated i (w\<lparr>wRng := r\<rparr>) = seated i w"
  by (simp_all add: seated_def)

text \<open>It depends on the seats of the members, the room and the queue.\<close>

lemma seated_frame:
  assumes "seated i w"
    and "\<And>p. p \<in> set (rmClients (room_of w i)) \<Longrightarrow> seat (client_of w' p) = seat ((client_of w p)\<lparr>clHp := clHp (client_of w' p)\<rparr>)"
    and "rmClients (room_of w' i) = rmClients (room_of w i)" and "rmOpenCount (room_of w' i) = rmOpenCount (room_of w i)"
    and "set (queue_list (wQueue w')) \<inter> set (rmClients (room_of w i)) = {}"
  shows "seated i w'"
  using assms by (auto simp: seated_def seat_def)

lemma seated_same: "seated i w \<Longrightarrow> wClients w' = wClients w \<Longrightarrow> wQueue w' = wQueue w \<Longrightarrow>
    rmClients (room_of w' i) = rmClients (room_of w i) \<Longrightarrow> rmOpenCount (room_of w' i) = rmOpenCount (room_of w i) \<Longrightarrow> seated i w'"
  by (simp add: seated_def)

lemma seated_quiet:
  assumes s: "seated i w" and ok: "world_ok w" "i < length (wRooms w)" and q: "quiet w w'"
  shows "seated i w'"
proof (rule seated_frame [OF s])
  have len: "length (wClients w') = length (wClients w)" using q unfolding quiet_def by (metis length_map)
  fix p assume "p \<in> set (rmClients (room_of w i))"
  then have "p < length (wClients w)" using world_ok_members [OF ok] by blast
  then have "seat (client_of w' p) = seat (client_of w p)" using q len unfolding quiet_def by (metis nth_map)
  then show "seat (client_of w' p) = seat ((client_of w p)\<lparr>clHp := clHp (client_of w' p)\<rparr>)" by (simp add: seat_def)
qed (use s q in \<open>auto simp: quiet_def seated_def\<close>)

lemma seated_hp:
  assumes "seated i w"
  shows "seated i (set_client p ((client_of w p)\<lparr>clHp := h\<rparr>) w)"
  by (rule seated_frame [OF assms]; use assms in \<open>cases "p < length (wClients w)"\<close>)
    (auto simp: set_client_def list_update_beyond seat_def nth_list_update seated_def)

lemma seated_set_client:
  assumes "seated i w" and "clStatus (client_of w p) \<noteq> ACTIVE"
  shows "seated i (set_client p c w)"
proof -
  have "p \<notin> set (rmClients (room_of w i))" using assms by (auto simp: seated_def)
  then have "client_of (set_client p c w) q = client_of w q" if "q \<in> set (rmClients (room_of w i))" for q
    using that by (cases "q = p") (simp_all add: set_client_def)
  then show ?thesis using assms(1) by (intro seated_frame [OF assms(1)]) (auto simp: seat_def seated_def)
qed

section \<open>Leaving and arriving\<close>

lemma seated_Disconnect:
  assumes s: "seated i w" and ok: "world_ok w" and i: "i < length (wRooms w)" and p: "p < length (wClients w)"
    and w': "Disconnect (int p) b w = Inr w'"
  shows "seated i w'"
proof (cases "clStatus (client_of w p) = FREE")
  case True
  then have "w' = w" using w' p by (simp add: Disconnect_def client_idx_def)
  then show ?thesis using s by simp
next
  case False
  note e = Disconnect_effect [OF ok p False w']
  have "rmClients (room_of w' i) = remove1 p (rmClients (room_of w i))"
    using s e(5) [OF i] by (cases "p \<in> set (rmClients (room_of w i))") (auto simp: seated_def remove1_idem)
  then show ?thesis using s e(1,2) e(4) [OF i] by (auto simp: seated_def dest: notin_set_remove1)
qed

lemma seated_accept:
  assumes s: "seated i (svWorld sv)" and ok: "world_ok (svWorld sv)" and a: "accept_client h r sv = Inr sv'"
  shows "seated i (svWorld sv')"
proof (cases "find_free (wClients (svWorld sv))")
  case None
  then show ?thesis using s a accept_client_none by simp
next
  case (Some p)
  note f = find_free_Some [OF Some]
  show ?thesis
    using s a accept_client_spec [OF ok Some, of h] accept_client_refused [OF Some, of h] f
    by (cases r) (auto intro!: seated_set_client)
qed

section \<open>A match begins\<close>

lemma seated_fill:
  assumes s: "seated i w" and j: "j \<noteq> i" and ps: "\<forall>p \<in> set ps. p < length (wClients w)"
    and q: "set ps \<union> set (queue_list q) \<subseteq> set (queue_list (wQueue w))"
  shows "seated i ((set_rooms j ps (set_room j rm w))\<lparr>wQueue := q\<rparr>)"
proof (rule seated_frame [OF s])
  have room: "room_of (set_rooms j ps (set_room j rm w)) i = room_of w i"
    using j by (simp add: set_room_def)
  then show "rmClients (room_of ((set_rooms j ps (set_room j rm w))\<lparr>wQueue := q\<rparr>) i) = rmClients (room_of w i)"
    and "rmOpenCount (room_of ((set_rooms j ps (set_room j rm w))\<lparr>wQueue := q\<rparr>) i) = rmOpenCount (room_of w i)"
    by simp_all
  have "p \<notin> set (queue_list (wQueue w))" if "p \<in> set (rmClients (room_of w i))" for p using s that by (simp add: seated_def)
  then show "set (queue_list (wQueue ((set_rooms j ps (set_room j rm w))\<lparr>wQueue := q\<rparr>))) \<inter> set (rmClients (room_of w i)) = {}"
    using q by auto
  fix p assume p: "p \<in> set (rmClients (room_of w i))"
  then have "p \<notin> set ps" using s q by (auto simp: seated_def)
  then have "client_of (set_rooms j ps (set_room j rm w)) p = client_of w p"
    using set_rooms_client [of ps "set_room j rm w" j p] ps by simp
  then show "seat (client_of ((set_rooms j ps (set_room j rm w))\<lparr>wQueue := q\<rparr>) p) =
      seat ((client_of w p)\<lparr>clHp := clHp (client_of ((set_rooms j ps (set_room j rm w))\<lparr>wQueue := q\<rparr>) p)\<rparr>)"
    by (simp add: seat_def)
qed

lemma seated_TryCreate:
  assumes s: "seated i w" and ok: "world_ok w" and run: "\<not> rmIsFinishThread (room_of w i)"
    and free: "length (queue_list (wQueue w)) < MAX_ROOM_PLAYER \<or> find_unused (wRooms w) \<noteq> None"
    and w': "TryCreateRoomOrNullPtr w = Inr (r, w')"
  shows "seated i w'"
proof (cases "length (queue_list (wQueue w)) < MAX_ROOM_PLAYER")
  case True
  then have "TakeRoomClients (wQueue w) = Inr (None, wQueue w)" using sq.take_few ok by (simp add: world_ok_def)
  then show ?thesis using w' s by (simp add: TryCreateRoomOrNullPtr_def)
next
  case False
  then obtain j where j: "find_unused (wRooms w) = Some j" using free by auto
  then have ne: "j \<noteq> i" using find_unused_Some [OF j] run by auto
  let ?ps = "take MAX_ROOM_PLAYER (queue_list (wQueue w))"
  obtain rm q where f: "w' = (set_rooms j ?ps (set_room j rm w))\<lparr>wQueue := q\<rparr>"
    "queue_list q = drop MAX_ROOM_PLAYER (queue_list (wQueue w))"
    using TryCreate_form [OF ok _ j w'] False by auto
  have "set ?ps \<union> set (queue_list q) \<subseteq> set (queue_list (wQueue w))"
    using f(2) by (auto dest: in_set_takeD in_set_dropD)
  moreover have "\<forall>p \<in> set ?ps. p < length (wClients w)" using ok by (auto simp: world_ok_def dest: in_set_takeD)
  ultimately show ?thesis unfolding f(1) using seated_fill [OF s ne] by blast
qed

lemma seated_start_matching:
  assumes s: "seated i w" and ok: "world_ok w" and i: "i < length (wRooms w)" and run: "\<not> rmIsFinishThread (room_of w i)"
    and conn: "conn < length (wClients w)"
    and cm: "clRoomPtr (client_of w conn) \<noteq> None \<or> can_match buf w" and w': "start_matching conn buf w = Inr w'"
  shows "seated i w'"
proof (cases "clRoomPtr (client_of w conn) \<noteq> None")
  case True
  then show ?thesis using w' s by (simp add: start_matching_def)
next
  case False
  then obtain w1 q r w2 where st: "modify_client conn (take_name buf) w = Inr w1" "AddClient (wQueue w1) conn = Inr q"
    "TryCreateRoomOrNullPtr (w1\<lparr>wQueue := q\<rparr>) = Inr (r, w2)"
    and rest: "(case r of None \<Rightarrow> Inr w2 | Some i \<Rightarrow> rbind (sc_ConnectRoomPacket (map (client_of w2) (rmClients (room_of w2 i))))
      (\<lambda>pkt. rbind (SendStreamToAllClients i [SetChoiceCharacterTime (of_nat CHOICE_CHARACTER_TIME), pkt] w2) (\<lambda>w3.
        Inr (w3\<lparr>wThreads := wThreads w3 @ [i]\<rparr>)))) = Inr w'"
    using w' by (auto simp: start_matching_def rbind_Inr_iff)
  have qt: "quiet w w1" by (rule quiet_modify [OF seated_take_name st(1)])
  have k: "keeps_ok w w1" using modify_keeps [OF keeps_ok_refl [OF ok] conn] take_name_client_ok [OF world_ok_client [OF ok conn]]
    st(1) by (auto simp: post_def)
  then have ok1: "world_ok w1" and conn1: "conn < length (wClients w1)" using conn by (auto simp: keeps_ok_def)
  obtain q' where q': "AddClient (wQueue w1) conn = Inr q'" "queue_good q'" "queue_list q' = queue_list (wQueue w1) @ [conn]"
    using sq.enq_members [of "wQueue w1" conn] ok1 by (auto simp: world_ok_def)
  then have qq: "q' = q" using st(2) by simp
  note s1 = seated_quiet [OF s ok i qt]
  have "conn \<notin> set (rmClients (room_of w i))" using s False by (auto simp: seated_def)
  then have s2: "seated i (w1\<lparr>wQueue := q\<rparr>)" using s1 q' qq qt by (auto simp: seated_def quiet_def)
  have ok2: "world_ok (w1\<lparr>wQueue := q\<rparr>)"
    using q' qq ok1 conn1 by (intro world_ok_queue) (auto simp: world_ok_def)
  have s3: "seated i w2"
    by (rule seated_TryCreate [OF s2 ok2 _ _ st(3)]) (use cm False q' qq qt run in \<open>auto simp: can_match_def quiet_def\<close>)
  show ?thesis
  proof (cases r)
    case None
    then show ?thesis using rest s3 by simp
  next
    case (Some j)
    then obtain pkt w3 where w3: "SendStreamToAllClients j pkt w2 = Inr w3" "w' = w3\<lparr>wThreads := wThreads w3 @ [j]\<rparr>"
      using rest by (auto simp: rbind_Inr_iff)
    have "sent_only w2 w3" using w3(1) send_sent(1) by (simp add: SendStreamToAllClients_def)
    then obtain bs where "w3 = w2\<lparr>wSent := bs\<rparr>" unfolding sent_only_def by blast
    then show ?thesis using w3(2) s3 by simp
  qed
qed

lemma seated_ProcessPacket:
  assumes "seated i w" and "world_ok w" and "i < length (wRooms w)" and "\<not> rmIsFinishThread (room_of w i)"
    and "conn < length (wClients w)" and "in_range conn buf w" and "ProcessPacket conn buf w = Inr w'"
  shows "seated i w'"
proof (cases "rd_type buf = Some pt_cs_startMatching")
  case True
  then show ?thesis using seated_start_matching [OF assms(1-5)] assms(6,7) by (simp add: ProcessPacket_def in_range_def)
next
  case False
  then show ?thesis using seated_quiet [OF assms(1-3)] postD [OF ProcessPacket_quiet assms(7)] by blast
qed

end
