(* ===== verification/Losses.thy ===== *)
theory Losses
  imports Seats Match_Laws
begin

text \<open>
  What a match can only lose: the members of its room and their hit points.  The relation \<open>loses\<close>
  between two states of the server says so, together with the little that its preservation needs.
  It has the laws of \<open>stage_laws\<close>, so every stage only loses.
\<close>

section \<open>The server\<close>

definition ok_world :: "nat \<Rightarrow> world \<Rightarrow> bool" where
  "ok_world i w \<longleftrightarrow> world_ok w \<and> seated i w \<and> i < length (wRooms w) \<and> \<not> rmIsFinishThread (room_of w i) \<and>
     0 \<le> rmRound (room_of w i) \<and> rmRound (room_of w i) \<le> 1000 \<and>
     (\<forall>p \<in> set (rmClients (room_of w i)). 0 \<le> clHp (client_of w p) \<and> clHp (client_of w p) \<le> INT_MAX)"

definition fewer :: "nat \<Rightarrow> world \<Rightarrow> world \<Rightarrow> bool" where
  "fewer i w w' \<longleftrightarrow>
     set (rmClients (room_of w' i)) \<subseteq> set (rmClients (room_of w i)) \<and>
     (\<forall>p \<in> set (rmClients (room_of w' i)). clHp (client_of w' p) \<le> clHp (client_of w p)) \<and>
     (rmClients (room_of w' i) \<noteq> [] \<longrightarrow> rmRound (room_of w' i) = rmRound (room_of w i)) \<and>
     rmRound (room_of w' i) \<le> rmRound (room_of w i)"

definition loses :: "nat \<Rightarrow> world \<Rightarrow> world \<Rightarrow> bool" where
  "loses i w w' \<longleftrightarrow> (ok_world i w \<longrightarrow> ok_world i w' \<and> fewer i w w' \<and>
     rmBattleOpponents (room_of w' i) = rmBattleOpponents (room_of w i))"

lemma fewer_refl [simp]: "fewer i w w" by (simp add: fewer_def)

lemma fewer_trans:
  assumes "fewer i a b" and "fewer i b c"
  shows "fewer i a c"
proof -
  have m: "set (rmClients (room_of c i)) \<subseteq> set (rmClients (room_of b i))" "set (rmClients (room_of b i)) \<subseteq> set (rmClients (room_of a i))"
    using assms by (simp_all add: fewer_def)
  then have "rmClients (room_of c i) \<noteq> [] \<Longrightarrow> rmClients (room_of b i) \<noteq> []" by auto
  moreover have "clHp (client_of c p) \<le> clHp (client_of a p)" if "p \<in> set (rmClients (room_of c i))" for p
    using assms that m(1) unfolding fewer_def by (meson order_trans subsetD)
  ultimately show ?thesis using assms m unfolding fewer_def by auto
qed

lemma loses_refl [simp]: "loses i w w" by (simp add: loses_def)

lemma loses_trans: "loses i a b \<Longrightarrow> loses i b c \<Longrightarrow> loses i a c"
  unfolding loses_def using fewer_trans by force

lemma loses_simps [simp]:
  "loses i w (v\<lparr>wRng := r\<rparr>) = loses i w v" "loses i w (v\<lparr>wSent := s\<rparr>) = loses i w v" "loses i w (v\<lparr>wNow := n\<rparr>) = loses i w v"
  by (simp_all add: loses_def ok_world_def fewer_def)

lemma loses_still: "still w w' \<Longrightarrow> loses i w w'"
proof -
  assume s: "still w w'"
  have "clHp (client_of w' p) = clHp (client_of w p)" if "p < length (wClients w)" for p
  proof -
    have m: "map seat (wClients w') = map seat (wClients w)" using s by (simp add: still_def quiet_def)
    then have "length (wClients w') = length (wClients w)" by (metis length_map)
    then have "seat (client_of w' p) = seat (client_of w p)" using m that by (metis nth_map)
    then show ?thesis by (simp add: seat_def)
  qed
  then show ?thesis
    using s seated_quiet [of i w w'] world_ok_members [of w i]
    by (auto simp: still_def loses_def ok_world_def fewer_def quiet_def)
qed

lemma loses_sent: "sent_only w w' \<Longrightarrow> loses i w w'"
  using loses_still still_sent by blast

lemma loses_seat:
  "seat c = seat (client_of w p) \<Longrightarrow> (\<And>n. client_ok n p (client_of w p) \<Longrightarrow> client_ok n p c) \<Longrightarrow> loses i w (set_client p c w)"
  by (rule loses_still) (rule still_set_client)

text \<open>A wound.\<close>

lemma loses_hp:
  assumes "\<And>p'. p' = p \<Longrightarrow> p \<in> set (rmClients (room_of w i)) \<Longrightarrow> ok_world i w \<Longrightarrow> 0 \<le> h \<and> h \<le> clHp (client_of w p)"
  shows "loses i w (set_client p ((client_of w p)\<lparr>clHp := h\<rparr>) w)"
proof (cases "p < length (wClients w)")
  case False
  then show ?thesis by (simp add: set_client_def list_update_beyond)
next
  case True
  have "world_ok (set_client p ((client_of w p)\<lparr>clHp := h\<rparr>) w)" if "world_ok w"
    using that True world_ok_client [OF that True] by (intro world_ok_set_client) (auto intro: client_ok_cong)
  then show ?thesis using assms True seated_hp [of i w p h]
    by (fastforce simp: loses_def ok_world_def fewer_def client_of_set_client)
qed

lemma Client_ToDamage_hp:
  assumes "0 \<le> clHp c" and "clHp c \<le> INT_MAX" and "0 \<le> d" and "d \<le> INT_MAX"
  shows "Client_ToDamage c d = c\<lparr>clHp := max 0 (clHp c - d)\<rparr>"
proof -
  have "i32 (clHp c - d) = clHp c - d" using assms by (intro i32_id) (simp_all add: INT_MIN_def INT_MAX_def)
  then show ?thesis by (simp add: Client_ToDamage_def max_def)
qed

lemma loses_damage: "0 \<le> d \<Longrightarrow> d \<le> INT_MAX \<Longrightarrow> loses i w (set_client p (Client_ToDamage (client_of w p) d) w)"
proof -
  assume d: "0 \<le> d" "d \<le> INT_MAX"
  let ?h = "clHp (Client_ToDamage (client_of w p) d)"
  have "Client_ToDamage (client_of w p) d = (client_of w p)\<lparr>clHp := ?h\<rparr>" by (simp add: Client_ToDamage_def Let_def)
  moreover have "loses i w (set_client p ((client_of w p)\<lparr>clHp := ?h\<rparr>) w)"
    by (rule loses_hp) (use d Client_ToDamage_hp [of "client_of w p" d] in \<open>auto simp: ok_world_def\<close>)
  ultimately show ?thesis by simp
qed

text \<open>A change of the room of the match that leaves its members alone.\<close>

lemma loses_room:
  assumes "\<And>n. room_ok n (room_of w i) \<Longrightarrow> room_ok n r" and "rmClients r = rmClients (room_of w i)"
    and "rmOpenCount r = rmOpenCount (room_of w i)" and "rmBattleOpponents r = rmBattleOpponents (room_of w i)"
    and "rmRound r = rmRound (room_of w i)" and "rmIsFinishThread r = rmIsFinishThread (room_of w i)"
  shows "loses i w (set_room i r w)"
proof -
  have "ok_world i (set_room i r w) \<and> fewer i w (set_room i r w) \<and>
      rmBattleOpponents (room_of (set_room i r w) i) = rmBattleOpponents (room_of w i)" if ok: "ok_world i w"
  proof -
    have i: "i < length (wRooms w)" and w: "world_ok w" "seated i w" using ok by (simp_all add: ok_world_def)
    have "seated i (set_room i r w)" by (rule seated_same [OF w(2)]) (use i assms in \<open>simp_all add: room_of_set_room\<close>)
    then show ?thesis using ok assms i world_ok_set_room [OF w(1) i] world_ok_room [OF w(1) i]
      by (simp add: ok_world_def fewer_def room_of_set_room)
  qed
  then show ?thesis by (simp add: loses_def)
qed

text \<open>A client that leaves, from this room or another.\<close>

lemma RemoveClient_rest:
  assumes "room_ok n r" and "remove1 p (rmClients r) \<noteq> []"
  shows "rmRound (Room_RemoveClient cl p r) = rmRound r"
proof -
  have "rmClients (Room_RemoveClient cl p r) \<noteq> []" using remove_members(1) [OF assms(1)] assms(2) by simp
  then show ?thesis by (auto simp: Room_RemoveClient_def Let_def Room_Init_def split: if_splits)
qed

lemma RemoveClient_keep:
  "rmBattleOpponents (Room_RemoveClient cl p r) = rmBattleOpponents r"
  "rmIsFinishThread (Room_RemoveClient cl p r) = rmIsFinishThread r"
  "rmRound (Room_RemoveClient cl p r) \<in> {0, rmRound r}"
  by (auto simp: Room_RemoveClient_def Let_def Room_Init_def)

lemma Disconnect_member:
  assumes ok: "ok_world i w" and w': "Disconnect (int p) b w = Inr w'"
  shows "ok_world i w' \<and> fewer i w w' \<and> rmBattleOpponents (room_of w' i) = rmBattleOpponents (room_of w i) \<and>
    p \<notin> set (rmClients (room_of w' i))"
proof -
  have p: "p < length (wClients w)" using w' by (simp add: Disconnect_def client_idx_def split: if_splits)
  note w = ok [unfolded ok_world_def]
  have m: "q < length (wClients w) \<and> clRoomPtr (client_of w q) = Some i \<and> clStatus (client_of w q) = ACTIVE \<and> distinct (rmClients (room_of w i))"
    if "q \<in> set (rmClients (room_of w i))" for q
    using that w world_ok_members [of w i] by (auto simp: seated_def)
  show ?thesis
  proof (cases "clStatus (client_of w p) = FREE")
    case True
    then have "w' = w" using w' p by (simp add: Disconnect_def client_idx_def)
    then show ?thesis using ok m [of p] True by auto
  next
    case False
    have i: "i < length (wRooms w)" and wo: "world_ok w" and pl: "seated i w" using w by auto
    note e = Disconnect_effect [OF wo p False w']
    have ok': "world_ok w'" "length (wRooms w') = length (wRooms w)" using Disconnect_ok [OF wo p, of b] w' by auto
    have mem: "rmClients (room_of w' i) = remove1 p (rmClients (room_of w i))"
      by (cases "p \<in> set (rmClients (room_of w i))") (use e(5) [OF i] m [of p] in \<open>auto simp: remove1_idem\<close>)
    obtain q s where form: "w' = Client_Init p (set_client p ((client_of w p)\<lparr>clStatus := ALLOCATED\<rparr>) (w\<lparr>wQueue := q, wSent := s\<rparr>))"
      using Disconnect_form [OF p False w'] by blast
    have same: "room_of w' i = room_of w i \<or> (\<exists>cl. room_of w' i = Room_RemoveClient cl p (room_of w i))"
      using i by (auto simp: form Client_Init_room)
    note ro = world_ok_room [OF wo i]
    have room: "rmBattleOpponents (room_of w' i) = rmBattleOpponents (room_of w i)"
      "rmIsFinishThread (room_of w' i) = rmIsFinishThread (room_of w i)"
      using same RemoveClient_keep(1,2) by (metis, metis)
    have round: "rmRound (room_of w' i) = 0 \<or> rmRound (room_of w' i) = rmRound (room_of w i)"
      using same RemoveClient_keep(3) by (metis empty_iff insert_iff)
    have kept: "rmClients (room_of w' i) \<noteq> [] \<longrightarrow> rmRound (room_of w' i) = rmRound (room_of w i)"
      using same RemoveClient_rest [OF ro] mem by metis
    have "p \<notin> set (rmClients (room_of w' i))" using mem m [of p] by (cases "p \<in> set (rmClients (room_of w i))") auto
    moreover have hp: "clHp (client_of w' q) = clHp (client_of w q)" if "q \<in> set (rmClients (room_of w' i))" for q
      using e(1) that calculation by metis
    moreover have sub: "set (rmClients (room_of w' i)) \<subseteq> set (rmClients (room_of w i))" using mem set_remove1_subset by simp
    moreover have "ok_world i w'"
      using w ok' room round sub hp seated_Disconnect [OF pl wo i p w'] unfolding ok_world_def by auto
    moreover have "rmRound (room_of w' i) \<le> rmRound (room_of w i)" using round w by auto
    ultimately show ?thesis using room kept unfolding fewer_def by simp
  qed
qed

lemma loses_Disconnect: "Disconnect n b w = Inr w' \<Longrightarrow> loses i w w'"
proof -
  assume w': "Disconnect n b w = Inr w'"
  then have "0 \<le> n" by (auto simp: Disconnect_def client_idx_def split: if_splits)
  then have "n = int (nat n)" by simp
  then show ?thesis using Disconnect_member w' unfolding loses_def by metis
qed

section \<open>Wounds\<close>

lemma blow: "ok_world i w \<Longrightarrow> 0 \<le> d \<Longrightarrow> d \<le> 30 \<Longrightarrow>
    i32 (d + i32 (rmRound (room_of w i) * 2)) = d + 2 * rmRound (room_of w i) \<and>
    0 \<le> d + 2 * rmRound (room_of w i) \<and> d + 2 * rmRound (room_of w i) \<le> INT_MAX"
  by (simp add: ok_world_def i32_id INT_MIN_def INT_MAX_def)

lemma ToDamageCharacter_loses:
  assumes "ToDamageCharacter d force a w = Inr (a', w')"
  shows "0 \<le> d \<Longrightarrow> d \<le> INT_MAX \<Longrightarrow> loses i w w'"
  using assms by (auto simp: ToDamageCharacter_def wounded_def loses_damage split: if_splits option.splits)

lemma loses_if: "(ok_world i w \<Longrightarrow> loses i w w') \<Longrightarrow> loses i w w'"
  unfolding loses_def by blast

lemma wound_loses:
  assumes "wound i a b w = Inr (a', w')" and "six b"
  shows "loses i w w'"
proof -
  obtain d where d: "GetDamage b = Inr d"
    "ToDamageCharacter (i32 (d + i32 (rmRound (room_of w i) * 2))) False a w = Inr (a', w')"
    using assms(1) by (auto simp: wound_def rbind_Inr_iff)
  show "loses i w w'"
  proof (rule loses_if)
    assume ok: "ok_world i w"
    show "loses i w w'"
      by (rule ToDamageCharacter_loses [OF d(2)]) (use blow [OF ok] GetDamage_bound [OF assms(2) d(1)] in auto)
  qed
qed

lemma timed_loses:
  assumes "ToDamageCharacter (i32 (10 + i32 (rmRound (room_of w i) * 2))) True a w = Inr (a', w')"
  shows "loses i w w'"
  by (rule loses_if, rule ToDamageCharacter_loses [OF assms]) (use blow [of i w 10] in auto)

section \<open>The thread\<close>

interpretation ls: stage_laws i "loses i" for i
proof
  show "loses i u w" if "loses i u v" "loses i v w" for u v w using loses_trans that .
  show "loses i w w'" if "world_ok w \<Longrightarrow> loses i w w'" for w w' using that by (auto simp: loses_def ok_world_def)
qed (auto intro: loses_still loses_Disconnect loses_room wound_loses timed_loses)

abbreviation losing :: "nat \<Rightarrow> thread \<Rightarrow> thread \<Rightarrow> bool" where
  "losing i \<equiv> carries (loses i)"

abbreviation framing :: "nat \<Rightarrow> thread \<Rightarrow> thread \<Rightarrow> bool" where
  "framing i \<equiv> frames (loses i)"

definition sane :: "nat \<Rightarrow> thread \<Rightarrow> bool" where
  "sane i t \<longleftrightarrow> ok_world i (thWorld t) \<and> able (loses i) t"

lemma losing_sane: "losing i t t' \<Longrightarrow> sane i t \<Longrightarrow> sane i t' \<and> fewer i (thWorld t) (thWorld t') \<and>
    rmBattleOpponents (room_of (thWorld t') i) = rmBattleOpponents (room_of (thWorld t) i)"
  by (simp add: carries_def sane_def loses_def)

lemma sane_pair: "sane i t \<Longrightarrow> k < length (thAvatars t) \<Longrightarrow> six (thAvatars t ! k)"
  by (simp add: sane_def able_def six_at)

section \<open>The next round\<close>

text \<open>The round counter advances; when the room was cleared in the meantime it starts from zero.\<close>

lemma next_round_step:
  assumes "next_round i t = Inr (c, t')" and "sane i t" and "rmRound (room_of (thWorld t) i) < 1000"
  shows "c = Next" and "sane i t'" and "rmRound (room_of (thWorld t') i) = rmRound (room_of (thWorld t) i) + 1"
    and "rmClients (room_of (thWorld t') i) = rmClients (room_of (thWorld t) i)"
    and "\<And>p. client_of (thWorld t') p = client_of (thWorld t) p"
proof -
  let ?r = "room_of (thWorld t) i"
  have ok: "ok_world i (thWorld t)" and i: "i < length (wRooms (thWorld t))" using assms(2) by (simp_all add: sane_def ok_world_def)
  then have w: "world_ok (thWorld t)" "seated i (thWorld t)" and nn: "0 \<le> rmRound ?r" by (simp_all add: ok_world_def)
  have round: "i32 (rmRound ?r + 1) = rmRound ?r + 1"
    using assms(3) nn by (intro i32_id) (simp_all add: INT_MIN_def INT_MAX_def)
  have t': "c = Next" "t' = t\<lparr>thWorld := set_room i (?r\<lparr>rmRound := rmRound ?r + 1\<rparr>) (thWorld t)\<rparr>"
    using assms(1) round by (auto simp: next_round_def on_room_def on_server_def)
  have "room_ok (length (wClients (thWorld t))) (?r\<lparr>rmRound := rmRound ?r + 1\<rparr>)"
    using world_ok_room [OF w(1) i] nn by (simp add: room_ok_def)
  then have "world_ok (thWorld t')" unfolding t' using world_ok_set_room [OF w(1) i] by simp
  moreover have "seated i (thWorld t')"
    unfolding t' by (simp, rule seated_same [OF w(2)]) (use i in \<open>simp_all add: room_of_set_room\<close>)
  ultimately show "sane i t'"
    using assms(2,3) i by (simp add: sane_def able_def ok_world_def t' room_of_set_room)
  show "c = Next" by (rule t'(1))
  show "rmRound (room_of (thWorld t') i) = rmRound ?r + 1" and "rmClients (room_of (thWorld t') i) = rmClients ?r"
    using i by (simp_all add: t' room_of_set_room)
  show "client_of (thWorld t') p = client_of (thWorld t) p" for p by (simp add: t')
qed

end
