(* ===== verification/Partial.thy ===== *)
theory Partial
  imports Losses
begin

text \<open>
  Partial correctness of the steps of the thread: what holds when a step comes back, where the
  fact that it comes back is known already.
\<close>

section \<open>Triples\<close>

text \<open>
  From \<open>P\<close> the step goes on with the next one, in \<open>Q\<close>.  The second notion lets a step leave the
  loop, in \<open>B\<close>, or the stage.
\<close>

definition sure :: "(thread \<Rightarrow> bool) \<Rightarrow> step \<Rightarrow> (thread \<Rightarrow> bool) \<Rightarrow> bool" where
  "sure P f Q \<longleftrightarrow> (\<forall>t c t'. P t \<longrightarrow> f t = Inr (c, t') \<longrightarrow> c = Next \<and> Q t')"

definition hoare :: "(thread \<Rightarrow> bool) \<Rightarrow> (thread \<Rightarrow> bool) \<Rightarrow> step \<Rightarrow> (thread \<Rightarrow> bool) \<Rightarrow> bool" where
  "hoare B P f Q \<longleftrightarrow> (\<forall>t c t'. P t \<longrightarrow> f t = Inr (c, t') \<longrightarrow> (c = Next \<longrightarrow> Q t') \<and> (c = Break \<longrightarrow> B t'))"

lemma sureI: "(\<And>t c t'. P t \<Longrightarrow> f t = Inr (c, t') \<Longrightarrow> c = Next \<and> Q t') \<Longrightarrow> sure P f Q"
  and sureD: "sure P f Q \<Longrightarrow> P t \<Longrightarrow> f t = Inr (c, t') \<Longrightarrow> c = Next \<and> Q t'"
  by (simp_all add: sure_def)

lemma sure_Nil: "sure P (steps []) P"
  by (simp add: sure_def)

lemma sure_Cons: "sure P f Q \<Longrightarrow> sure Q (steps fs) S \<Longrightarrow> sure P (steps (f # fs)) S"
  by (rule sureI) (auto simp: rbind_Inr_iff split: if_splits dest: sureD)

lemma sure_inv: "sure P f P \<Longrightarrow> sure P (steps fs) P \<Longrightarrow> sure P (steps (f # fs)) P"
  by (rule sure_Cons)

lemma sure_all: "(\<And>f. f \<in> set fs \<Longrightarrow> sure P f P) \<Longrightarrow> sure P (steps fs) P"
  by (induction fs) (auto simp: sure_Nil intro: sure_Cons simp del: steps.simps)

text \<open>A loop that meets \<open>k\<close>.\<close>

lemma sure_reach:
  assumes "\<And>j. j \<in> set js \<Longrightarrow> sure P (f j) P" and "\<And>j. j \<in> set js \<Longrightarrow> sure Q (f j) Q" and "sure P (f k) Q" and "k \<in> set js"
  shows "sure P (steps (map f js)) Q"
  using assms(1,2,4)
proof (induction js)
  case Nil
  then show ?case by simp
next
  case (Cons j js)
  show ?case
  proof (cases "k = j")
    case True
    have "sure Q (steps (map f js)) Q" using Cons.prems(2) by (intro sure_all) auto
    then show ?thesis using assms(3) True by (auto intro: sure_Cons simp del: steps.simps)
  next
    case False
    then show ?thesis using Cons by (auto intro: sure_Cons simp del: steps.simps)
  qed
qed

lemma sure_places:
  assumes "\<And>n j. j \<in> set (pl n) \<Longrightarrow> sure P (f j) P"
  shows "sure P (each_place pl f) P"
proof -
  have "sure P (steps (map f (pl n))) P" for n by (rule sure_all) (use assms in auto)
  then show ?thesis unfolding sure_def each_place_def by blast
qed

lemma sure_fighting: "sure P f P \<Longrightarrow> sure P (if_fighting k f) P"
  by (auto simp: sure_def if_fighting_def rbind_Inr_iff split: if_splits)

lemma sure_hoare: "sure P f Q \<Longrightarrow> hoare B P f Q"
  by (auto simp: sure_def hoare_def)

lemma hoareI: "(\<And>t c t'. P t \<Longrightarrow> f t = Inr (c, t') \<Longrightarrow> (c = Next \<longrightarrow> Q t') \<and> (c = Break \<longrightarrow> B t')) \<Longrightarrow> hoare B P f Q"
  and hoareD: "hoare B P f Q \<Longrightarrow> P t \<Longrightarrow> f t = Inr (c, t') \<Longrightarrow> (c = Next \<longrightarrow> Q t') \<and> (c = Break \<longrightarrow> B t')"
  by (simp_all add: hoare_def)

lemma hoare_Nil: "hoare B P (steps []) P"
  by (simp add: hoare_def)

lemma hoare_Cons: "hoare B P f Q \<Longrightarrow> hoare B Q (steps fs) S \<Longrightarrow> hoare B P (steps (f # fs)) S"
  by (rule hoareI) (auto simp: rbind_Inr_iff split: if_splits dest: hoareD)

lemma hoare_append: "hoare B P (steps fs) Q \<Longrightarrow> hoare B Q (steps gs) S \<Longrightarrow> hoare B P (steps (fs @ gs)) S"
  by (rule hoareI) (auto simp: steps_append rbind_Inr_iff split: if_splits dest: hoareD)

lemma hoare_all: "(\<And>f. f \<in> set fs \<Longrightarrow> hoare B P f P) \<Longrightarrow> hoare B P (steps fs) P"
  by (induction fs) (auto simp: hoare_Nil intro: hoare_Cons simp del: steps.simps)

lemma hoare_leave: "hoare B P (leave_if_stopped i oc) P"
  by (simp add: hoare_def leave_if_stopped_def)

lemma hoare_breakable: "hoare Q P f Q \<Longrightarrow> hoare B P (breakable f) Q"
  by (auto simp: hoare_def breakable_def rbind_Inr_iff split: if_splits)

text \<open>Steps that always go on.\<close>

definition nexts :: "step \<Rightarrow> bool" where
  "nexts f \<longleftrightarrow> (\<forall>t c t'. f t = Inr (c, t') \<longrightarrow> c = Next)"

lemma nextsD: "nexts f \<Longrightarrow> f t = Inr (c, t') \<Longrightarrow> c = Next"
  unfolding nexts_def by blast

lemma nexts_on_server: "nexts (on_server f)"
  by (auto simp: nexts_def on_server_def rbind_Inr_iff)

lemma nexts_steps: "(\<And>f. f \<in> set fs \<Longrightarrow> nexts f) \<Longrightarrow> nexts (steps fs)"
  using sure_all [of fs "\<lambda>_. True"] by (simp add: nexts_def sure_def)

lemma nexts_fighting: "nexts f \<Longrightarrow> nexts (if_fighting k f)"
  by (auto simp: nexts_def if_fighting_def rbind_Inr_iff split: if_splits)

lemma nexts_places: "(\<And>k. nexts (f k)) \<Longrightarrow> nexts (each_place pl f)"
  using sure_places [where P = "\<lambda>_. True" and f = f] by (simp add: nexts_def sure_def)

lemma nexts_locals:
  "nexts (emit p)" "nexts (emit_all ps)" "nexts count_item" "nexts emit_time" "nexts open_block"
  by (auto simp: nexts_def emit_def emit_all_def count_item_def emit_time_def open_block_def rbind_Inr_iff)

lemma nexts_sends:
  "nexts Sleep" "nexts (send_stream j)" "nexts (send_packet j p)" "nexts (send_if_any j)" "nexts (set_status i st)"
proof -
  show st: "nexts (send_stream j)" using nexts_on_server by (auto simp: nexts_def send_stream_def)
  show "nexts (send_if_any j)" using st by (auto simp: nexts_def send_if_any_def)
  show "nexts (send_packet j p)" "nexts (set_status i st)"
    unfolding send_packet_def set_status_def on_room_def by (rule nexts_on_server)+
  show "nexts Sleep" by (auto simp: nexts_def Sleep_def rbind_Inr_iff split: list.splits)
qed

lemma nexts_with_pair: "(\<And>a b. nexts (f a b)) \<Longrightarrow> nexts (with_pair k l f)"
  unfolding nexts_def using with_pairD by blast

lemma nexts_intros:
  "nexts (\<lambda>t. Inr (Next, g t))"
  "(\<And>x. nexts (f x)) \<Longrightarrow> nexts (\<lambda>t. rbind (m t) (\<lambda>x. f x t))"
  "(\<And>x y. nexts (h x y)) \<Longrightarrow> nexts (\<lambda>t. rbind (n t) (\<lambda>(x, y). h x y t))"
  "nexts v \<Longrightarrow> nexts w \<Longrightarrow> nexts (\<lambda>t. if Q t then v t else w t)"
  unfolding nexts_def by (simp_all add: rbind_Inr_iff split_paired_all) blast+

lemma nexts_pairs:
  "nexts (counter_attack slot k l)" "nexts (bleed k l)" "nexts (emit_infos k l)" "nexts (end_cycle k l)"
  "nexts (line_up i k)" "nexts (settle i k l)" "nexts (time_up_pair i k)"
  subgoal unfolding counter_attack_def Let_def case_prod_unfold by (intro nexts_with_pair nexts_intros)
  subgoal unfolding bleed_def by (intro nexts_with_pair nexts_intros)
  subgoal unfolding emit_infos_def emit_all_def by (intro nexts_with_pair nexts_intros)
  subgoal unfolding end_cycle_def by (intro nexts_with_pair nexts_intros)
  subgoal unfolding line_up_def Let_def by (intro nexts_with_pair nexts_intros)
  subgoal unfolding settle_def by (intro nexts_with_pair nexts_intros)
  subgoal unfolding time_up_pair_def Let_def by (intro nexts_with_pair nexts_intros)
  done

lemma nexts_ones:
  "nexts (draw_order k)" "nexts (emit_info k)" "nexts (emit_active k slot)" "nexts (emit_init_slot ident k)" "nexts (fit k)"
  subgoal by (auto simp: nexts_def draw_order_def rbind_Inr_iff Let_def SetActiveQueue_def case_prod_unfold split: if_splits)
  subgoal by (auto simp: nexts_def emit_info_def emit_def rbind_Inr_iff)
  subgoal by (auto simp: nexts_def emit_active_def emit_def rbind_Inr_iff)
  subgoal by (auto simp: nexts_def emit_init_slot_def emit_def rbind_Inr_iff)
  subgoal by (auto simp: nexts_def fit_def rbind_Inr_iff)
  done

lemmas nexts_plain = nexts_locals nexts_sends nexts_pairs nexts_ones

lemma nexts_cons: "nexts (steps [])" "nexts f \<Longrightarrow> nexts (steps fs) \<Longrightarrow> nexts (steps (f # fs))"
    "nexts (steps fs) \<Longrightarrow> nexts (steps gs) \<Longrightarrow> nexts (steps (fs @ gs))" "(\<And>k. nexts (g k)) \<Longrightarrow> nexts (steps (map g ks))"
proof -
  show "nexts (steps [])" by (simp add: nexts_def)
  show c: "nexts f \<Longrightarrow> nexts (steps fs) \<Longrightarrow> nexts (steps (f # fs))" for f fs
    using sure_Cons [of "\<lambda>_. True" f "\<lambda>_. True" fs "\<lambda>_. True"] by (simp add: nexts_def sure_def)
  show "nexts (steps fs) \<Longrightarrow> nexts (steps gs) \<Longrightarrow> nexts (steps (fs @ gs))"
    unfolding nexts_def steps_append by (simp add: rbind_Inr_iff split_paired_all) blast
  show "(\<And>k. nexts (g k)) \<Longrightarrow> nexts (steps (map g ks))" by (rule nexts_steps) auto
qed

lemmas nexts_rules = nexts_cons nexts_fighting nexts_places nexts_on_server nexts_plain

lemma nexts_dismiss: "nexts (dismiss i)"
proof -
  have "nexts (\<lambda>t. if thStream t \<noteq> [] then steps [send_stream i, Sleep] t else Inr (Next, t))"
    by (intro nexts_intros nexts_rules)
  then have "nexts (steps ([emit_all ps, (\<lambda>t. if thStream t \<noteq> [] then steps [send_stream i, Sleep] t else Inr (Next, t))] @
        map (\<lambda>n. on_server (Disconnect n False)) gone))" for ps gone
    by (intro nexts_rules)
  then show ?thesis by (simp add: nexts_def dismiss_def Let_def)
qed

lemma nexts_prepare: "nexts (prepare k)"
proof -
  have "nexts (prepare_slot k j)" for j
    by (auto simp: nexts_def prepare_slot_def draw_hamburger_def copy_item_def emit_def rbind_Inr_iff Let_def case_prod_unfold split: if_splits)
  then show ?thesis unfolding prepare_def by (intro nexts_rules)
qed

end
