(* ===== verification/Battle_Loss.thy ===== *)
theory Battle_Loss
  imports Partial
begin

text \<open>
  A battle costs: when it is over and the match goes on, a member of the room has left or has fewer
  hit points than before.  For this, one pair of avatars of two members is followed through the
  battle; their fight ends with a wound, at the latest when the time is up.
\<close>

section \<open>Losses\<close>

text \<open>Since the server \<open>w0\<close>, a member of the room was lost or wounded.\<close>

definition hurt :: "nat \<Rightarrow> world \<Rightarrow> world \<Rightarrow> bool" where
  "hurt i w0 w \<longleftrightarrow> (\<exists>p \<in> set (rmClients (room_of w0 i)).
     p \<notin> set (rmClients (room_of w i)) \<or> clHp (client_of w p) < clHp (client_of w0 p))"

lemma hurt_mono: "hurt i w0 w \<Longrightarrow> fewer i w w' \<Longrightarrow> hurt i w0 w'"
  unfolding hurt_def fewer_def by (metis order_le_less_trans subsetD)

lemma hurt_gone: "p \<in> set (rmClients (room_of w i)) \<Longrightarrow> fewer i w0 w \<Longrightarrow> p \<notin> set (rmClients (room_of w' i)) \<Longrightarrow> hurt i w0 w'"
  unfolding hurt_def fewer_def by blast

lemma member_valid:
  assumes "ok_world i w" and "p \<in> set (rmClients (room_of w i))"
  shows "p < length (wClients w)" and "IsValidClientInThisRoom i (Some p) w"
proof -
  have w: "world_ok w" "seated i w" "i < length (wRooms w)" using assms(1) by (simp_all add: ok_world_def)
  show p: "p < length (wClients w)" using world_ok_members [OF w(1,3)] assms(2) by blast
  show "IsValidClientInThisRoom i (Some p) w"
    using w assms(2) p unfolding seated_def IsValidClientInThisRoom_def by auto
qed

section \<open>The pair\<close>

text \<open>The avatar of the client \<open>p\<close> in the room, whose fight is not over.\<close>

definition plays :: "nat \<Rightarrow> avatar \<Rightarrow> nat \<Rightarrow> bool" where
  "plays i a p \<longleftrightarrow> (\<exists>n. core a = (Some p, Some i, int p, False, False, False, n))"

lemma plays_core: "core a = core b \<Longrightarrow> plays i a p = plays i b p"
  by (simp add: plays_def)

text \<open>At the places \<open>k\<close> and \<open>k + 1\<close> two members fight.\<close>

definition undecided :: "nat \<Rightarrow> nat \<Rightarrow> thread \<Rightarrow> bool" where
  "undecided i k t \<longleftrightarrow> even k \<and> k + 1 < length (thAvatars t) \<and>
     (\<exists>p q. plays i (thAvatars t ! k) p \<and> plays i (thAvatars t ! (k + 1)) q \<and>
       p \<in> set (rmClients (room_of (thWorld t) i)) \<and> q \<in> set (rmClients (room_of (thWorld t) i)))"

text \<open>A member is on the list of those who have to go.\<close>

definition pend :: "nat \<Rightarrow> thread \<Rightarrow> bool" where
  "pend i t \<longleftrightarrow> (\<exists>p \<in> set (rmClients (room_of (thWorld t) i)). int p \<in> set (thLeavers t))"

text \<open>Since \<open>w0\<close> the thread did nothing but lose.\<close>

definition since :: "nat \<Rightarrow> world \<Rightarrow> thread \<Rightarrow> bool" where
  "since i w0 t \<longleftrightarrow> sane i t \<and> fewer i w0 (thWorld t) \<and> 1 \<le> rmRound (room_of w0 i)"

definition bleeding :: "nat \<Rightarrow> world \<Rightarrow> thread \<Rightarrow> bool" where
  "bleeding i w0 t \<longleftrightarrow> since i w0 t \<and> hurt i w0 (thWorld t)"

definition settled :: "nat \<Rightarrow> world \<Rightarrow> thread \<Rightarrow> bool" where
  "settled i w0 t \<longleftrightarrow> since i w0 t \<and> (hurt i w0 (thWorld t) \<or> pend i t)"

definition fight :: "nat \<Rightarrow> nat \<Rightarrow> world \<Rightarrow> thread \<Rightarrow> bool" where
  "fight i k w0 t \<longleftrightarrow> since i w0 t \<and> (hurt i w0 (thWorld t) \<or> undecided i k t)"

definition bout :: "nat \<Rightarrow> nat \<Rightarrow> world \<Rightarrow> thread \<Rightarrow> bool" where
  "bout i k w0 t \<longleftrightarrow> since i w0 t \<and> (hurt i w0 (thWorld t) \<or> pend i t \<or> undecided i k t)"

lemmas fight_defs = bleeding_def settled_def fight_def bout_def

lemma fight_bout: "fight i k w0 t \<Longrightarrow> bout i k w0 t" "settled i w0 t \<Longrightarrow> bout i k w0 t" "bleeding i w0 t \<Longrightarrow> settled i w0 t"
  by (auto simp: fight_defs)

lemma since_losing: "since i w0 t \<Longrightarrow> losing i t t' \<Longrightarrow> since i w0 t'"
  using losing_sane [of i t t'] fewer_trans by (auto simp: since_def)

lemma since_fewer: "since i w0 t \<Longrightarrow> losing i t t' \<Longrightarrow> fewer i (thWorld t) (thWorld t')"
  using losing_sane [of i t t'] by (simp add: since_def)

lemma since_hurt: "since i w0 t \<Longrightarrow> losing i t t' \<Longrightarrow> hurt i w0 (thWorld t) \<Longrightarrow> hurt i w0 (thWorld t')"
  using hurt_mono since_fewer by blast

text \<open>Whoever was a member is one still, or there was a loss.\<close>

lemma since_member: "since i w0 t \<Longrightarrow> p \<in> set (rmClients (room_of (thWorld t) i)) \<Longrightarrow>
    p \<in> set (rmClients (room_of w' i)) \<or> hurt i w0 w'"
  using hurt_gone unfolding since_def by blast

lemma undecided_kept:
  assumes "undecided i k t" and s: "since i w0 t" and len: "length (thAvatars t') = length (thAvatars t)"
    and k: "core (thAvatars t' ! k) = core (thAvatars t ! k)" "core (thAvatars t' ! (k + 1)) = core (thAvatars t ! (k + 1))"
  shows "undecided i k t' \<or> hurt i w0 (thWorld t')"
  using assms(1) since_member [OF s, of _ "thWorld t'"] len plays_core [OF k(1)] plays_core [OF k(2)]
  unfolding undecided_def by metis

lemma pend_kept: "pend i t \<Longrightarrow> since i w0 t \<Longrightarrow> set (thLeavers t) \<subseteq> set (thLeavers t') \<Longrightarrow> pend i t' \<or> hurt i w0 (thWorld t')"
  using since_member unfolding pend_def by blast

lemma framing_kept:
  assumes "framing i t t'"
  shows "bleeding i w0 t \<Longrightarrow> bleeding i w0 t'" and "settled i w0 t \<Longrightarrow> settled i w0 t'"
    and "fight i k w0 t \<Longrightarrow> fight i k w0 t'" and "bout i k w0 t \<Longrightarrow> bout i k w0 t'"
proof -
  have f: "losing i t t'" "set (thLeavers t) \<subseteq> set (thLeavers t')" "map core (thAvatars t') = map core (thAvatars t)"
    using assms by (simp_all add: frames_def)
  have len: "length (thAvatars t') = length (thAvatars t)" using f(3) by (metis length_map)
  have c: "core (thAvatars t' ! j) = core (thAvatars t ! j)" if "j < length (thAvatars t)" for j
    using f(3) len that by (metis nth_map)
  have w: "undecided i k t' \<or> hurt i w0 (thWorld t')" if "undecided i k t" "since i w0 t"
    using undecided_kept [OF that len] c that(1) unfolding undecided_def by simp
  show "bleeding i w0 t \<Longrightarrow> bleeding i w0 t'" and "settled i w0 t \<Longrightarrow> settled i w0 t'"
    and "fight i k w0 t \<Longrightarrow> fight i k w0 t'" and "bout i k w0 t \<Longrightarrow> bout i k w0 t'"
    using since_losing [OF _ f(1)] since_hurt [OF _ f(1)] pend_kept [OF _ _ f(2)] w unfolding fight_defs by blast+
qed

lemma sure_framing:
  assumes "within (framing i) f" and "nexts f"
  shows "sure (bleeding i w0) f (bleeding i w0)" and "sure (settled i w0) f (settled i w0)"
    and "sure (fight i k w0) f (fight i k w0)" and "sure (bout i k w0) f (bout i k w0)"
  using framing_kept [OF withinD [OF assms(1)]] nextsD [OF assms(2)] by (simp_all add: sure_def)

section \<open>Those who have to go\<close>

text \<open>A member on the list is gone afterwards.\<close>

lemma dismiss_gone:
  assumes s: "since i w0 t" and p: "int p \<in> set (thLeavers t)" and d: "dismiss i t = Inr (c, t')"
  shows "p \<notin> set (rmClients (room_of (thWorld t') i))"
proof -
  let ?Q = "\<lambda>t. since i w0 t \<and> p \<notin> set (rmClients (room_of (thWorld t) i))"
  let ?kick = "\<lambda>n. on_server (Disconnect n False)"
  have P: "sure (since i w0) f (since i w0)" if "within (framing i) f" "nexts f" for f
    using withinD [OF that(1)] nextsD [OF that(2)] since_losing by (fastforce simp: sure_def frames_def)
  have kick: "sure (since i w0) (?kick n) (since i w0)" for n
    by (rule P [OF ls.fr_Disconnect nexts_on_server])
  have Q: "sure ?Q (?kick n) ?Q" for n
  proof (rule sureI)
    fix t c t' assume t: "?Q t" "?kick n t = Inr (c, t')"
    then have f: "losing i t t'" using withinD [OF ls.fr_Disconnect] by (simp add: frames_def)
    show "c = Next \<and> ?Q t'"
      using t since_losing [OF _ f] since_fewer [OF _ f] nextsD [OF nexts_on_server t(2)] by (auto simp: fewer_def)
  qed
  have hit: "sure (since i w0) (?kick (int p)) ?Q"
  proof (rule sureI)
    fix t c t' assume t: "since i w0 t" "?kick (int p) t = Inr (c, t')"
    then obtain w where w: "Disconnect (int p) False (thWorld t) = Inr w" "t' = t\<lparr>thWorld := w\<rparr>"
      by (auto simp: on_server_def rbind_Inr_iff)
    have "ok_world i (thWorld t)" using t(1) by (simp add: since_def sane_def)
    then show "c = Next \<and> ?Q t'" using sureD [OF kick t] Disconnect_member [OF _ w(1)] w(2) by simp
  qed
  have go: "int p \<in> set (leavers (thLeavers t))" using p by (simp add: leavers_def)
  have send: "sure (since i w0) (\<lambda>t. if thStream t \<noteq> [] then steps [send_stream i, Sleep] t else Inr (Next, t)) (since i w0)"
    by (rule P) (intro ls.fr.rules ls.fr_steps nexts_intros nexts_rules)+
  have "sure (since i w0) (steps (map ?kick (leavers (thLeavers t)))) ?Q"
    by (rule sure_reach [where f = ?kick and k = "int p"]) (use kick Q hit go in blast)+
  then have "sure (since i w0) (steps ([emit_all ps, (\<lambda>t. if thStream t \<noteq> [] then steps [send_stream i, Sleep] t else Inr (Next, t))] @
      map ?kick (leavers (thLeavers t)))) ?Q" for ps
    unfolding append.simps by (intro sure_Cons [OF P] sure_Cons [OF send] ls.fr_steps nexts_rules)
  from sureD [OF this s] show ?thesis using d by (simp add: dismiss_def Let_def)
qed

lemma sure_dismiss: "sure (bout i k w0) (dismiss i) (fight i k w0)" "sure (settled i w0) (dismiss i) (bleeding i w0)"
proof -
  have h: "hurt i w0 (thWorld t')" if "since i w0 t" "pend i t" "dismiss i t = Inr (c, t')" for t c t'
    using that dismiss_gone [OF that(1) _ that(3)] hurt_gone unfolding pend_def since_def by blast
  show "sure (bout i k w0) (dismiss i) (fight i k w0)"
  proof (rule sureI)
    fix t c t' assume t: "bout i k w0 t" "dismiss i t = Inr (c, t')"
    have f: "framing i t t'" "c = Next" using withinD [OF ls.fr_dismiss t(2)] nextsD [OF nexts_dismiss t(2)] by blast+
    have "since i w0 t" using t(1) by (simp add: bout_def)
    then show "c = Next \<and> fight i k w0 t'"
    proof (cases "pend i t")
      case True
      then show ?thesis using h [OF \<open>since i w0 t\<close> True t(2)] framing_kept(4) [OF f(1) t(1)] f(2) by (simp add: bout_def fight_def)
    next
      case False
      then have "fight i k w0 t" using t(1) by (simp add: bout_def fight_def)
      then show ?thesis using framing_kept(3) [OF f(1)] f(2) by simp
    qed
  qed
  show "sure (settled i w0) (dismiss i) (bleeding i w0)"
  proof (rule sureI)
    fix t c t' assume t: "settled i w0 t" "dismiss i t = Inr (c, t')"
    have f: "framing i t t'" "c = Next" using withinD [OF ls.fr_dismiss t(2)] nextsD [OF nexts_dismiss t(2)] by blast+
    have s: "since i w0 t" using t(1) by (simp add: settled_def)
    then have "since i w0 t'" using f(1) since_losing by (simp add: frames_def)
    moreover have "hurt i w0 (thWorld t')"
      using t(1) h [OF s _ t(2)] since_hurt [OF s] f(1) by (auto simp: settled_def frames_def)
    ultimately show "c = Next \<and> bleeding i w0 t'" using f(2) by (simp add: bleeding_def)
  qed
qed

section \<open>The wound\<close>

lemma bitten:
  assumes w: "ok_world i w" "fewer i w0 w" and p: "p \<in> set (rmClients (room_of w i))" and a: "plays i a p"
    and hit: "ToDamageCharacter d force a w = Inr (a', w1)" "force \<or> avHp a = 0" "1 \<le> d" "d \<le> INT_MAX"
    and rest: "loses i w1 w2" "lost i a' w2 = Inr l"
  shows "hurt i w0 w2 \<or> (p \<in> set (rmClients (room_of w2 i)) \<and> int p \<in> set l)"
proof -
  note v = member_valid [OF w(1) p]
  have c: "avClient a = Some p" "avRoom a = Some i" "avNetworkID a = int p" "\<not> avIsGhost a" "\<not> avIsCharacterDamage a"
    using a by (auto simp: plays_def core_def)
  have hp: "0 \<le> clHp (client_of w p)" "clHp (client_of w p) \<le> INT_MAX" using w(1) p by (auto simp: ok_world_def)
  have e: "a' = a\<lparr>avIsCharacterDamage := True\<rparr>" "w1 = set_client p (Client_ToDamage (client_of w p) d) w"
    using hit(1,2) c v(2) by (auto simp: ToDamageCharacter_def IsValidBattleAvatarInRoom_def split: if_splits)
  have new: "clHp (client_of w1 p) = max 0 (clHp (client_of w p) - d)"
    using v(1) Client_ToDamage_hp [OF hp, of d] hit(3,4) by (simp add: e client_of_set_client)
  have l1: "loses i w w1" using ToDamageCharacter_loses [OF hit(1)] hit(3,4) by simp
  then have ok: "ok_world i w1" "fewer i w w1" "ok_world i w2" "fewer i w1 w2" using w(1) rest(1) by (auto simp: loses_def)
  show ?thesis
  proof (cases "p \<in> set (rmClients (room_of w2 i))")
    case False
    then show ?thesis using hurt_gone [OF p w(2)] by blast
  next
    case True
    then have old: "p \<in> set (rmClients (room_of w0 i))" "clHp (client_of w p) \<le> clHp (client_of w0 p)"
      using p w(2) by (auto simp: fewer_def)
    have le: "clHp (client_of w2 p) \<le> clHp (client_of w1 p)" "0 \<le> clHp (client_of w2 p)"
      using True ok(3,4) by (auto simp: fewer_def ok_world_def)
    show ?thesis
    proof (cases "clHp (client_of w p) = 0")
      case True
      then have "clHp (client_of w2 p) = 0" using le new hit(3) by simp
      then have "l = [int p]"
        using rest(2) member_valid(2) [OF ok(3) \<open>p \<in> set (rmClients (room_of w2 i))\<close>] c by (simp add: lost_def e)
      then show ?thesis using \<open>p \<in> set (rmClients (room_of w2 i))\<close> by simp
    next
      case False
      then have "clHp (client_of w2 p) < clHp (client_of w0 p)" using le old(2) new hit(3) hp(1) by simp
      then show ?thesis using old(1) unfolding hurt_def by blast
    qed
  qed
qed

lemma round_now: "fewer i w0 w \<Longrightarrow> p \<in> set (rmClients (room_of w i)) \<Longrightarrow> rmRound (room_of w i) = rmRound (room_of w0 i)"
  by (auto simp: fewer_def)

lemma wound_bites:
  assumes w: "ok_world i w" "fewer i w0 w" "1 \<le> rmRound (room_of w0 i)" and p: "p \<in> set (rmClients (room_of w i))" "plays i a p"
    and hit: "wound i a b w = Inr (a', w1)" "six b" "avHp a = 0" and rest: "loses i w1 w2" "lost i a' w2 = Inr l"
  shows "hurt i w0 w2 \<or> (p \<in> set (rmClients (room_of w2 i)) \<and> int p \<in> set l)"
proof -
  obtain d where d: "GetDamage b = Inr d"
    "ToDamageCharacter (i32 (d + i32 (rmRound (room_of w i) * 2))) False a w = Inr (a', w1)"
    using hit(1) by (auto simp: wound_def rbind_Inr_iff)
  have b: "0 \<le> d" "d \<le> 30" using GetDamage_bound [OF hit(2) d(1)] by auto
  show ?thesis
    by (rule bitten [OF w(1,2) p d(2) _ _ _ rest]) (use blow [OF w(1) b] b hit(3) w(3) round_now [OF w(2) p(1)] in auto)
qed

end
