(* ===== verification/Battle_Cost.thy ===== *)
theory Battle_Cost
  imports Battle_Loss
begin

text \<open>
  The steps of a battle that end a fight, and the battle as a undecided.
\<close>

section \<open>Pairs of places\<close>

lemma pair_cases:
  assumes "even k" and "l = partner a"
  obtains (same) "a = k" "l = k + 1" | (swapped) "a = k + 1" "l = k" | (other) "a \<noteq> k" "a \<noteq> k + 1" "l \<noteq> k" "l \<noteq> k + 1"
proof -
  have "a = k \<and> l = k + 1 \<or> a = k + 1 \<and> l = k \<or> (a \<noteq> k \<and> a \<noteq> k + 1 \<and> l \<noteq> k \<and> l \<noteq> k + 1)"
  proof (cases "even a")
    case True
    then have "l = a + 1" "a \<noteq> k + 1" "l \<noteq> k" using assms by (auto simp: partner_def)
    then show ?thesis by auto
  next
    case False
    then have "a = l + 1" "a \<noteq> k" "even l" using assms by (auto simp: partner_def elim!: oddE)
    moreover have "l \<noteq> k + 1" using assms(1) \<open>even l\<close> by auto
    ultimately show ?thesis by auto
  qed
  then show thesis using that by blast
qed

lemma undecided_elsewhere:
  assumes "undecided i k t" and "since i w0 t" and "a \<noteq> k" "a \<noteq> k + 1" "l \<noteq> k" "l \<noteq> k + 1"
  shows "undecided i k (put_pair a x l y (t\<lparr>thWorld := w, thLeavers := ls\<rparr>)) \<or> hurt i w0 w"
  using undecided_kept [OF assms(1,2), of "put_pair a x l y (t\<lparr>thWorld := w, thLeavers := ls\<rparr>)"] assms(3-6) by simp

text \<open>The members at the two places, in the order of the step.\<close>

lemma undecided_pair:
  assumes "undecided i k t" and "a = k \<and> l = k + 1 \<or> a = k + 1 \<and> l = k"
  obtains p q where "plays i (thAvatars t ! a) p" "plays i (thAvatars t ! l) q"
    "p \<in> set (rmClients (room_of (thWorld t) i))" "q \<in> set (rmClients (room_of (thWorld t) i))"
  using assms unfolding undecided_def by blast

section \<open>The end of a fight\<close>

lemma settledI:
  assumes "since i w0 t'" and "hurt i w0 (thWorld t') \<or> (p \<in> set (rmClients (room_of (thWorld t') i)) \<and> int p \<in> set (thLeavers t'))"
  shows "settled i w0 t'"
  using assms by (auto simp: settled_def pend_def)

text \<open>What follows the wounds of a pair: the second avatar is wounded after the first.\<close>

lemma settle_pair:
  assumes s: "since i w0 t" and p: "plays i a p" "p \<in> set (rmClients (room_of (thWorld t) i))"
    and q: "plays i b q" "q \<in> set (rmClients (room_of (thWorld t) i))" and six: "six a" "six b"
    and w: "wound i a b (thWorld t) = Inr (a1, w1)" "wound i b a1 w1 = Inr (b1, w2)"
    and l: "lost i a1 w2 = Inr l1" "lost i b1 w2 = Inr l2" and down: "avHp a = 0 \<or> avHp b = 0"
    and t': "since i w0 t'" "thWorld t' = w2" "set l1 \<union> set l2 \<subseteq> set (thLeavers t')"
  shows "settled i w0 t'"
proof -
  have ok: "ok_world i (thWorld t)" "fewer i w0 (thWorld t)" "1 \<le> rmRound (room_of w0 i)"
    using s by (simp_all add: since_def sane_def)
  have a1: "six a1" using wounded_six [OF wound_wounded [OF w(1)]] six(1) by simp
  note l1 = wound_loses [OF w(1) six(2)] and l2 = wound_loses [OF w(2) a1]
  have ok1: "ok_world i w1" "fewer i w0 w1" "fewer i w1 w2"
    using ok l1 l2 fewer_trans by (auto simp: loses_def)
  show ?thesis
  proof (cases "avHp a = 0")
    case True
    show ?thesis
      by (rule settledI [OF t'(1)]) (use wound_bites [OF ok p(2,1) w(1) six(2) True l2 l(1)] t'(2,3) in blast)
  next
    case False
    then have b: "avHp b = 0" using down by simp
    show ?thesis
    proof (cases "q \<in> set (rmClients (room_of w1 i))")
      case True
      show ?thesis
        by (rule settledI [OF t'(1)])
          (use wound_bites [OF ok1(1,2) ok(3) True q(1) w(2) a1 b loses_refl l(2)] t'(2,3) in blast)
    next
      case False
      then have "hurt i w0 w2" using hurt_gone [OF q(2) ok(2)] hurt_mono [OF _ ok1(3)] by blast
      then show ?thesis using t'(1,2) by (simp add: settled_def)
    qed
  qed
qed

lemma sure_settle:
  assumes l: "l = partner a"
  shows "sure (bout i k w0) (settle i a l) (bout i k w0)"
proof (rule sureI)
  fix t c t' assume t: "bout i k w0 t" and f: "settle i a l t = Inr (c, t')"
  let ?a = "thAvatars t ! a" and ?b = "thAvatars t ! l"
  have n: "c = Next" using nextsD [OF nexts_pairs(6) f] .
  note p = with_pairD [OF f [unfolded settle_def]]
  have s: "since i w0 t" using t by (simp add: bout_def)
  then have s': "since i w0 t'" and h': "hurt i w0 (thWorld t) \<Longrightarrow> hurt i w0 (thWorld t')"
    using since_losing [OF s] since_hurt [OF s] withinD [OF ls.ca_settle f] by blast+
  show "c = Next \<and> bout i k w0 t'"
  proof (cases "avHp ?a = 0 \<or> avHp ?b = 0")
    case False
    then show ?thesis using p t n by simp
  next
    case True
    then obtain a1 w1 b1 w2 l1 l2 where w: "wound i ?a ?b (thWorld t) = Inr (a1, w1)" "wound i ?b a1 w1 = Inr (b1, w2)"
        "lost i a1 w2 = Inr l1" "lost i b1 w2 = Inr l2"
      and t': "t' = put_pair a (SetFinish a1) l (SetFinish b1) (t\<lparr>thWorld := w2, thLeavers := thLeavers t @ l1 @ l2\<rparr>)"
      using p by (auto simp: rbind_Inr_iff)
    have ls: "set (thLeavers t) \<subseteq> set (thLeavers t')" "set l1 \<union> set l2 \<subseteq> set (thLeavers t')" "thWorld t' = w2"
      by (auto simp: t')
    have six: "six ?a" "six ?b" using s p sane_pair unfolding since_def by blast+
    have "hurt i w0 (thWorld t') \<or> pend i t' \<or> undecided i k t'" if W: "undecided i k t"
    proof -
      have "even k" using W by (simp add: undecided_def)
      then consider (same) "a = k" "l = k + 1" | (swapped) "a = k + 1" "l = k" | (other) "a \<noteq> k" "a \<noteq> k + 1" "l \<noteq> k" "l \<noteq> k + 1"
        using pair_cases [OF _ l] by blast
      then show ?thesis
      proof cases
        case other
        have "undecided i k t' \<or> hurt i w0 w2" unfolding t' by (rule undecided_elsewhere [OF W s other])
        then show ?thesis using ls(3) by blast
      next
        case same
        then obtain p q where "plays i ?a p" "p \<in> set (rmClients (room_of (thWorld t) i))"
          "plays i ?b q" "q \<in> set (rmClients (room_of (thWorld t) i))" using undecided_pair [OF W] by metis
        from settle_pair [OF s this six w True s' ls(3,2)] show ?thesis by (auto simp: settled_def)
      next
        case swapped
        then obtain p q where "plays i ?a p" "p \<in> set (rmClients (room_of (thWorld t) i))"
          "plays i ?b q" "q \<in> set (rmClients (room_of (thWorld t) i))" using undecided_pair [OF W] by metis
        from settle_pair [OF s this six w True s' ls(3,2)] show ?thesis by (auto simp: settled_def)
      qed
    qed
    then show ?thesis using t n s' h' pend_kept [OF _ s ls(1)] unfolding bout_def by blast
  qed
qed

text \<open>When the time is up, the pair at \<open>k\<close> is wounded if it still fights.\<close>

lemma time_up_other:
  assumes "even j"
  shows "sure (bout i k w0) (time_up_pair i j) (bout i k w0)" and "sure (settled i w0) (time_up_pair i j) (settled i w0)"
    and "sure (bout i j w0) (time_up_pair i j) (settled i w0)"
proof -
  have f: "c = Next \<and> (bout i k w0 t \<longrightarrow> bout i k w0 t') \<and> (settled i w0 t \<longrightarrow> settled i w0 t') \<and>
      (bout i j w0 t \<longrightarrow> settled i w0 t')"
    if s: "since i w0 t" and f: "time_up_pair i j t = Inr (c, t')" for t c t'
  proof -
    let ?a = "thAvatars t ! j" and ?b = "thAvatars t ! (j + 1)"
    let ?d = "\<lambda>w. i32 (10 + i32 (rmRound (room_of w i) * 2))"
    obtain a1 w1 b1 w2 l1 l2 where w: "ToDamageCharacter (?d (thWorld t)) True ?a (thWorld t) = Inr (a1, w1)"
        "ToDamageCharacter (?d w1) True ?b w1 = Inr (b1, w2)" "lost i a1 w2 = Inr l1" "lost i b1 w2 = Inr l2"
      and t': "t' = put_pair j a1 (j + 1) b1 (t\<lparr>thWorld := w2, thLeavers := thLeavers t @ l1 @ l2\<rparr>)"
      using with_pairD [OF f [unfolded time_up_pair_def]] by (auto simp: rbind_Inr_iff Let_def)
    note lo = withinD [OF ls.ca_time_up(1) f]
    have s': "since i w0 t'" and h': "hurt i w0 (thWorld t) \<Longrightarrow> hurt i w0 (thWorld t')"
      using since_losing [OF s lo] since_hurt [OF s lo] by blast+
    have ls: "set (thLeavers t) \<subseteq> set (thLeavers t')" "set l1 \<subseteq> set (thLeavers t')" "thWorld t' = w2"
      by (auto simp: t')
    have old: "settled i w0 t \<Longrightarrow> settled i w0 t'"
      using h' s' pend_kept [OF _ s ls(1)] unfolding settled_def by blast
    have ok: "ok_world i (thWorld t)" "fewer i w0 (thWorld t)" using s by (simp_all add: since_def sane_def)
    have hit: "settled i w0 t'" if W: "undecided i j t"
    proof -
      obtain p where p: "plays i ?a p" "p \<in> set (rmClients (room_of (thWorld t) i))" using W by (auto simp: undecided_def)
      have "hurt i w0 w2 \<or> (p \<in> set (rmClients (room_of w2 i)) \<and> int p \<in> set l1)"
        by (rule bitten [OF ok p(2,1) w(1) _ _ _ timed_loses [OF w(2)] w(3)]) (use blow [OF ok(1), of 10] ok(1) in \<open>auto simp: ok_world_def\<close>)
      then show ?thesis by (intro settledI [OF s']) (use ls in blast)
    qed
    have "bout i k w0 t'" if "bout i k w0 t"
    proof (cases "undecided i k t \<and> j \<noteq> k")
      case True
      then have "even k" by (simp add: undecided_def)
      then have n: "j \<noteq> k" "j \<noteq> k + 1" "j + 1 \<noteq> k" "j + 1 \<noteq> k + 1" using assms True by auto
      have "undecided i k t' \<or> hurt i w0 w2" unfolding t' by (rule undecided_elsewhere [OF _ s n]) (use True in simp)
      then show ?thesis using ls(3) s' unfolding bout_def by blast
    next
      case False
      then have "settled i w0 t'" using that hit old s unfolding bout_def settled_def by blast
      then show ?thesis by (rule fight_bout)
    qed
    moreover have "settled i w0 t'" if "bout i j w0 t"
      using that hit old s unfolding bout_def settled_def by blast
    ultimately show ?thesis using old nextsD [OF nexts_pairs(7) f] by blast
  qed
  show "sure (bout i k w0) (time_up_pair i j) (bout i k w0)" "sure (settled i w0) (time_up_pair i j) (settled i w0)"
    "sure (bout i j w0) (time_up_pair i j) (settled i w0)"
    using f unfolding sure_def bout_def [of i _ w0] settled_def by meson+
qed

section \<open>Turns\<close>

lemma evens_even: "j \<in> set (evens n) \<Longrightarrow> even j" and odds_odd: "j \<in> set (odds n) \<Longrightarrow> odd j"
  by (auto simp: evens_def odds_def)

lemma evens_all: "even k \<Longrightarrow> k + 1 < n \<Longrightarrow> k \<in> set (evens n)"
proof -
  assume "even k" "k + 1 < n"
  then obtain b where b: "k = 2 * b" by blast
  then have "b < (n + 1) div 2" using \<open>k + 1 < n\<close> by simp
  then show ?thesis by (simp add: evens_def b)
qed

lemma evens_partner: "j \<in> set (evens n) \<Longrightarrow> j + 1 = partner j" and odds_partner: "j \<in> set (odds n) \<Longrightarrow> j - 1 = partner j"
  using evens_even odds_odd by (simp_all add: partner_def)

lemma sure_bout:
  "sure (bout i k w0) count_item (bout i k w0)" "sure (bout i k w0) emit_time (bout i k w0)"
  "sure (bout i k w0) (counter_attack slot a l) (bout i k w0)" "sure (bout i k w0) (bleed a l) (bout i k w0)"
  "sure (bout i k w0) (emit_infos a l) (bout i k w0)" "sure (bout i k w0) (end_cycle a l) (bout i k w0)"
  "sure (bout i k w0) (emit_active a slot) (bout i k w0)"
  by (intro sure_framing(4) ls.fr_steps ls.fr_pair ls.fr_emits nexts_rules)+

lemma sure_fight:
  "sure (fight i k w0) Sleep (fight i k w0)" "sure (fight i k w0) (emit p) (fight i k w0)"
  "sure (fight i k w0) (send_stream i) (fight i k w0)" "sure (fight i k w0) (send_packet i p) (fight i k w0)"
  "sure (fight i k w0) (send_if_any i) (fight i k w0)" "sure (fight i k w0) (prepare a) (fight i k w0)"
  "sure (fight i k w0) (emit_info a) (fight i k w0)" "sure (fight i k w0) (emit_init_slot ident a) (fight i k w0)"
  "sure (fight i k w0) (draw_order a) (fight i k w0)"
  by (intro sure_framing(3) ls.fr_steps ls.fr_prepare ls.fr_emits ls.fr_order nexts_rules nexts_prepare)+

lemma sure_open: "sure (fight i k w0) open_block (fight i k w0)" "sure (fight i k w0) open_block (bout i k w0)"
proof -
  have f: "c = Next \<and> fight i k w0 t'" if "fight i k w0 t" "open_block t = Inr (c, t')" for t c t'
  proof -
    have s: "since i w0 t" using that(1) by (simp add: fight_def)
    have "losing i t t'" using withinD [OF ls.ca_open that(2)] .
    moreover have "t' = t\<lparr>thStream := [], thLeavers := []\<rparr>" "c = Next" using that(2) by (simp_all add: open_block_def)
    moreover from this have "undecided i k t' = undecided i k t" by (simp add: undecided_def)
    ultimately show ?thesis using that(1) since_losing [OF s] by (auto simp: fight_def)
  qed
  then show "sure (fight i k w0) open_block (fight i k w0)" "sure (fight i k w0) open_block (bout i k w0)"
    using fight_bout(1) unfolding sure_def by blast+
qed

lemma sure_turn:
  assumes "l = partner a"
  shows "sure (bout i k w0) (battle_turn i index a l) (bout i k w0)"
  unfolding battle_turn_def
proof (rule sure_fighting, rule sureI)
  fix t c t' assume t: "bout i k w0 t"
    and "rbind (activate index a l t) (\<lambda>(activeSlot, t1). steps [settle i a l, counter_attack activeSlot a l, bleed a l,
              emit_active a activeSlot, emit_infos a l, settle i a l] t1) = Inr (c, t')"
  then obtain slot t1 where a: "activate index a l t = Inr (slot, t1)"
    and r: "steps [settle i a l, counter_attack slot a l, bleed a l, emit_active a slot, emit_infos a l, settle i a l] t1 = Inr (c, t')"
    by (auto simp: rbind_Inr_iff simp del: steps.simps)
  have "bout i k w0 t1" using framing_kept(4) [OF ls.fr_activate [OF a] t] .
  moreover have "sure (bout i k w0) (steps [settle i a l, counter_attack slot a l, bleed a l, emit_active a slot, emit_infos a l, settle i a l]) (bout i k w0)"
    by (intro sure_inv sure_Nil sure_bout sure_settle assms)
  ultimately show "c = Next \<and> bout i k w0 t'" using r sureD by blast
qed

lemma sure_half:
  assumes "\<And>n j. j \<in> set (pl n) \<Longrightarrow> other j = partner j"
  shows "sure (fight i k w0) (battle_half i index pl other) (fight i k w0)"
  unfolding battle_half_def
  by (rule sure_Cons [OF sure_open(2)] sure_Cons [OF sure_bout(1)] sure_Cons [OF sure_places] sure_turn assms
      sure_Cons [OF sure_bout(2)] sure_Cons [OF sure_dismiss(1)] sure_Nil | assumption)+

text \<open>With all fights over, that of the pair is.\<close>

lemma hoare_finished: "hoare (bleeding i w0) (fight i k w0) break_if_finished (fight i k w0)"
proof (rule hoareI)
  fix t c t' assume t: "fight i k w0 t" "break_if_finished t = Inr (c, t')"
  have "\<not> undecided i k t" if "list_all avIsFinish (thAvatars t)"
    using that unfolding undecided_def plays_def core_def list_all_length by auto
  then show "(c = Next \<longrightarrow> fight i k w0 t') \<and> (c = Break \<longrightarrow> bleeding i w0 t')"
    using t by (auto simp: break_if_finished_def fight_def bleeding_def split: if_splits)
qed

section \<open>Cycles\<close>

lemma hoare_index: "hoare (bleeding i w0) (fight i k w0) (battle_index i oc index) (fight i k w0)"
proof -
  have half: "sure (fight i k w0) (battle_half i index evens (\<lambda>k. k + 1)) (fight i k w0)"
    "sure (fight i k w0) (battle_half i index odds (\<lambda>k. k - 1)) (fight i k w0)"
    by (rule sure_half; rule evens_partner odds_partner; assumption)+
  show ?thesis unfolding battle_index_def
    by (intro hoare_Cons [OF sure_hoare [OF half(1)]] hoare_Cons [OF sure_hoare [OF half(2)]] hoare_Cons [OF sure_hoare [OF sure_fight(1)]]
        hoare_Cons [OF hoare_finished] hoare_Cons [OF hoare_leave] hoare_Nil)
qed

lemma sure_cycle_end: "sure (fight i k w0) (battle_cycle_end i) (fight i k w0)"
proof -
  have "sure (bout i k w0) (each_place evens (\<lambda>k. if_fighting k
        (steps [end_cycle k (k + 1), emit_infos k (k + 1), settle i k (k + 1)]))) (bout i k w0)"
    by (intro sure_places sure_fighting sure_inv sure_Nil sure_bout sure_settle evens_partner)
  then show ?thesis unfolding battle_cycle_end_def
    by (intro sure_Cons [OF sure_open(2)] sure_Cons [OF _ sure_Cons [OF sure_dismiss(1) sure_Nil]])
qed

lemma hoare_cycle: "hoare (bleeding i w0) (fight i k w0) (battle_cycle i oc) (fight i k w0)"
proof -
  have a: "sure (fight i k w0) (each_place (\<lambda>n. [0..<n]) (\<lambda>k. if_fighting k (draw_order k))) (fight i k w0)"
    "sure (fight i k w0) (each_place (\<lambda>n. [0..<n]) (\<lambda>k. if_fighting k (emit_init_slot shown_id k))) (fight i k w0)"
    by (intro sure_places sure_fighting sure_fight)+
  have "sure (fight i k w0) (steps [each_place (\<lambda>n. [0..<n]) (\<lambda>k. if_fighting k (draw_order k)),
       open_block, each_place (\<lambda>n. [0..<n]) (\<lambda>k. if_fighting k (emit_init_slot shown_id k)), send_if_any i, Sleep]) (fight i k w0)"
    by (intro sure_Cons [OF a(1)] sure_Cons [OF a(2)] sure_Cons [OF sure_open(1)] sure_Cons [OF sure_fight(5)] sure_Cons [OF sure_fight(1)] sure_Nil)
  moreover have "hoare (bleeding i w0) (fight i k w0) (steps (map (battle_index i oc) [0..<MAX_USING_ITEM_COUNT])) (fight i k w0)"
    by (rule hoare_all) (use hoare_index in auto)
  moreover have "sure (fight i k w0) (steps [battle_cycle_end i]) (fight i k w0)"
    by (intro sure_Cons [OF sure_cycle_end] sure_Nil)
  ultimately show ?thesis unfolding battle_cycle_def by (intro hoare_append [OF sure_hoare] hoare_append [OF _ sure_hoare])
qed

text \<open>When the time is up the pair has fought or is wounded now.\<close>

lemma sure_time_up: "sure (fight i k w0) (battle_time_up i) (bleeding i w0)"
proof -
  let ?f = "\<lambda>k. if_fighting k (time_up_pair i k)"
  have keep: "sure (bout i k w0) (?f j) (bout i k w0)" "sure (settled i w0) (?f j) (settled i w0)" if "j \<in> set (evens n)" for j n
    by (rule sure_fighting, rule time_up_other, rule evens_even [OF that])+
  have hit: "sure (bout i k w0) (?f k) (settled i w0)" if k: "even k"
  proof (rule sureI)
    fix t c t' assume t: "bout i k w0 t" "?f k t = Inr (c, t')"
    show "c = Next \<and> settled i w0 t'"
    proof (cases "avIsFinish (thAvatars t ! k)")
      case True
      then have "\<not> undecided i k t" unfolding undecided_def plays_def core_def by auto
      then show ?thesis using t True by (auto simp: bout_def settled_def if_fighting_def rbind_Inr_iff)
    next
      case False
      then have "time_up_pair i k t = Inr (c, t')" using t(2) by (auto simp: if_fighting_def rbind_Inr_iff)
      then show ?thesis using sureD [OF time_up_other(3) [OF k] t(1)] by blast
    qed
  qed
  have loop: "sure (bout i k w0) (each_place evens ?f) (settled i w0)"
  proof (rule sureI)
    fix t c t' assume t: "bout i k w0 t" "each_place evens ?f t = Inr (c, t')"
    let ?js = "evens (length (thAvatars t))"
    have r: "steps (map ?f ?js) t = Inr (c, t')" using t(2) by (simp add: each_place_def)
    show "c = Next \<and> settled i w0 t'"
    proof (cases "undecided i k t")
      case True
      then have k: "even k" "k \<in> set ?js" using evens_all by (auto simp: undecided_def)
      have "sure (bout i k w0) (steps (map ?f ?js)) (settled i w0)"
        by (rule sure_reach [where f = ?f and k = k]) (use keep hit k in blast)+
      then show ?thesis using sureD t(1) r by blast
    next
      case False
      then have "settled i w0 t" using t(1) by (auto simp: bout_def settled_def)
      moreover have "sure (settled i w0) (steps (map ?f ?js)) (settled i w0)" by (rule sure_all) (use keep(2) in auto)
      ultimately show ?thesis using sureD r by blast
    qed
  qed
  show ?thesis unfolding battle_time_up_def
    by (intro sure_Cons [OF sure_fight(1)] sure_Cons [OF sure_open(2)] sure_Cons [OF loop] sure_Cons [OF sure_dismiss(2)] sure_Nil)
qed

end
