(* ===== verification/Battle_Start.thy ===== *)
theory Battle_Start
  imports Battle_Cost
begin

text \<open>
  The draw of the opponents pairs two members, the avatars of the battle are set up for them, and
  the battle costs one of them a wound, or the room a member.
\<close>

section \<open>The draw\<close>

text \<open>Two members are drawn at the places \<open>k\<close> and \<open>k + 1\<close>.\<close>

definition facing :: "nat \<Rightarrow> nat \<Rightarrow> world \<Rightarrow> bool" where
  "facing i k w \<longleftrightarrow> even k \<and> k + 1 < length (rmBattleOpponents (room_of w i)) \<and>
     (\<exists>p q. rmBattleOpponents (room_of w i) ! k = int p \<and> rmBattleOpponents (room_of w i) ! (k + 1) = int q \<and>
       p \<in> set (rmClients (room_of w i)) \<and> q \<in> set (rmClients (room_of w i)))"

definition matched :: "nat \<Rightarrow> nat \<Rightarrow> world \<Rightarrow> thread \<Rightarrow> bool" where
  "matched i k w0 t \<longleftrightarrow> since i w0 t \<and> (hurt i w0 (thWorld t) \<or> facing i k (thWorld t))"

lemma matched_losing:
  assumes "matched i k w0 t" and l: "losing i t t'"
  shows "matched i k w0 t'"
proof -
  have s: "since i w0 t" using assms(1) by (simp add: matched_def)
  have o: "rmBattleOpponents (room_of (thWorld t') i) = rmBattleOpponents (room_of (thWorld t) i)"
    using losing_sane [OF l] s by (simp add: since_def)
  have "facing i k (thWorld t') \<or> hurt i w0 (thWorld t')" if "facing i k (thWorld t)"
    using that since_member [OF s, of _ "thWorld t'"] unfolding facing_def o by metis
  then show ?thesis using assms(1) since_losing [OF s l] since_hurt [OF s l] unfolding matched_def by blast
qed

text \<open>With a negative entry in every pair there would be too many of them.\<close>

lemma negatives: "\<forall>(a, b) \<in> set ps. a < 0 \<or> b < 0 \<Longrightarrow> length ps \<le> length (filter (\<lambda>x. x < 0) (flat ps))"
  by (induction ps) auto

lemma pair_of_members:
  assumes "pairs_ok cl us [] ps" and "2 \<le> length us"
  obtains j a b where "j < length ps" "ps ! j = (a, b)" "0 \<le> a" "0 \<le> b"
proof -
  have "length us mod 2 < (length us + 1) div 2" using assms(2) by (cases "even (length us)") (auto elim!: evenE oddE)
  then have "\<not> length ps \<le> length (filter (\<lambda>x. x < 0) (flat ps))" using assms(1) by (simp add: pairs_ok_def)
  then have "\<not> (\<forall>(a, b) \<in> set ps. a < 0 \<or> b < 0)" using negatives by blast
  then obtain a b where "(a, b) \<in> set ps" "0 \<le> a" "0 \<le> b" by force
  then show thesis using that by (metis in_set_conv_nth)
qed

lemma draw_faces:
  assumes w: "match_ok n m K i w" and K: "K < INT64_MAX" and two: "\<not> rmSize (room_of w i) < 2"
    and r: "ApplyRandomBattleOpponent (client_of w) (room_of w i) rng = Inr (r, rng')"
  shows "\<exists>k. facing i k (set_room i r w)" and "rmClients r = rmClients (room_of w i)"
    and "rmRound r = rmRound (room_of w i)" and "rmOpenCount r = rmOpenCount (room_of w i)"
    and "rmIsFinishThread r = rmIsFinishThread (room_of w i)"
proof -
  let ?r = "room_of w i" and ?S = "set (rmClients (room_of w i))"
  note d = match_okD [OF w]
  have mgr: "manager_ok ?S K (rmBattleManager ?r)" and dis: "distinct (rmClients ?r)" and sz: "rmSize ?r = length (rmClients ?r)"
    using w d(5) by (simp_all add: match_ok_def room_ok_def)
  have "card ?S \<noteq> 1" using two sz distinct_card [OF dis] by simp
  from GetBattleOpponent_ok [OF mgr match_ok_ids [OF w] K this, of rng]
  obtain ps bm' rng2 order where g: "GetBattleOpponent (client_of w) (rmBattleManager ?r) rng = Inr (flat ps, bm', rng2)"
    "distinct order" "set order = ?S" "pairs_ok (client_of w) order [] ps" by blast
  have r': "r = ?r\<lparr>rmBattleManager := bm', rmBattleOpponents := flat ps\<rparr>"
    using r g(1) two by (simp add: ApplyRandomBattleOpponent_def)
  then show "rmClients r = rmClients ?r" "rmRound r = rmRound ?r" "rmOpenCount r = rmOpenCount ?r"
    "rmIsFinishThread r = rmIsFinishThread ?r" by simp_all
  have "2 \<le> length order" using two sz distinct_card [OF dis] distinct_card [OF g(2)] g(3) by simp
  from pair_of_members [OF g(4) this] obtain j a b where j: "j < length ps" "ps ! j = (a, b)" "0 \<le> a" "0 \<le> b" by blast
  have f: "flat ps ! (2 * j) = a" "flat ps ! (2 * j + 1) = b" "2 * j + 1 < length (flat ps)"
    using flat_nth [OF j(1)] j(1,2) by (simp_all add: length_flat)
  have mem: "\<exists>p \<in> ?S. x = int p" if "x \<in> set (flat ps)" "0 \<le> x" for x
  proof -
    have "owner x \<in> (\<lambda>p. clNetworkID (client_of w p)) ` (set order \<union> set [])"
      using g(4) that(1) unfolding pairs_ok_def by blast
    then show ?thesis using that(2) g(3) match_ok_nid [OF w] match_ok_members [OF w] by auto
  qed
  have "a \<in> set (flat ps)" "b \<in> set (flat ps)" using f nth_mem by (metis add_lessD1, metis)
  then obtain p q where "p \<in> ?S" "a = int p" "q \<in> ?S" "b = int q" using mem j(3,4) by blast
  then have "facing i (2 * j) (set_room i r w)"
    using f d(3,4) by (auto simp: facing_def room_of_set_room r')
  then show "\<exists>k. facing i k (set_room i r w)" by blast
qed

section \<open>Setting up\<close>

lemma make_avatars_plays:
  "make_avatars i os w = Inr avs \<Longrightarrow> length avs = length os \<and> (\<forall>k < length os. \<forall>p. os ! k = int p \<longrightarrow> plays i (avs ! k) p)"
proof (induction os arbitrary: avs)
  case Nil
  then show ?case by simp
next
  case (Cons o1 os)
  obtain p av avs' where a: "client_idx w (if 0 \<le> o1 then o1 else not o1) = Inr p"
    "SetAvatar p (client_of w p) (Some i) (if 0 \<le> o1 then o1 else not o1) (o1 < 0) (rmRound (room_of w i)) BattleAvatar_new = Inr av"
    "make_avatars i os w = Inr avs'" "avs = av # avs'"
    using Cons.prems by (auto simp: rbind_Inr_iff Let_def)
  have "plays i av q" if "o1 = int q" for q
    using a(1,2) that by (auto simp: SetAvatar_def Let_def plays_def core_def client_idx_def split: if_splits)
  then show ?case using Cons.IH [OF a(3)] a(4) by (auto simp: nth_Cons split: nat.splits)
qed

lemma sure_set_up: "sure (matched i k w0) (set_up_avatars i) (fight i k w0)"
proof (rule sureI)
  fix t c t' assume t: "matched i k w0 t" "set_up_avatars i t = Inr (c, t')"
  then obtain avs where a: "make_avatars i (rmBattleOpponents (room_of (thWorld t) i)) (thWorld t) = Inr avs"
    "c = Next" "t' = t\<lparr>thAvatars := avs, thEffectItemCount := 0\<rparr>"
    by (auto simp: set_up_avatars_def rbind_Inr_iff)
  have s: "since i w0 t" using t(1) by (simp add: matched_def)
  have "since i w0 t'" using since_losing [OF s withinD [OF ls.ca_set_up(1) t(2)]] .
  moreover have "undecided i k t'" if f: "facing i k (thWorld t)"
  proof -
    obtain p q where pq: "rmBattleOpponents (room_of (thWorld t) i) ! k = int p" "rmBattleOpponents (room_of (thWorld t) i) ! (k + 1) = int q"
      "p \<in> set (rmClients (room_of (thWorld t) i))" "q \<in> set (rmClients (room_of (thWorld t) i))"
      and k: "even k" "k + 1 < length (rmBattleOpponents (room_of (thWorld t) i))"
      using f unfolding facing_def by blast
    have "plays i (avs ! k) p" "plays i (avs ! (k + 1)) q" "length avs = length (rmBattleOpponents (room_of (thWorld t) i))"
      using make_avatars_plays [OF a(1)] pq(1,2) k(2) by simp_all
    then show ?thesis using pq(3,4) k unfolding undecided_def a(3) by auto
  qed
  ultimately show "c = Next \<and> fight i k w0 t'" using t(1) a by (auto simp: matched_def fight_def)
qed

text \<open>The order of the two may change; with two valid clients their fight begins.\<close>

lemma sure_line_up:
  assumes j: "even j"
  shows "sure (fight i k w0) (line_up i j) (fight i k w0)"
proof (rule sureI)
  fix t c t' assume t: "fight i k w0 t" "line_up i j t = Inr (c, t')"
  let ?a = "thAvatars t ! j" and ?b = "thAvatars t ! (j + 1)"
  have s: "since i w0 t" using t(1) by (simp add: fight_def)
  note l = withinD [OF ls.ca_line_up t(2)]
  note p = with_pairD [OF t(2) [unfolded line_up_def]]
  obtain p q where pq: "client_idx (thWorld t) (avNetworkID ?a) = Inr p" "client_idx (thWorld t) (avNetworkID ?b) = Inr q"
    using p by (auto simp: rbind_Inr_iff)
  define ok where "ok = (IsValidClientInThisRoom i (Some p) (thWorld t) \<and> IsValidClientInThisRoom i (Some q) (thWorld t))"
  obtain a1 b1 x y where ab: "a1 = (if ok then ?a else SetFinish ?a)" "b1 = (if ok then ?b else SetFinish ?b)"
    and t': "t' = put_pair j x (j + 1) y t" "x = b1 \<and> y = a1 \<or> x = a1 \<and> y = b1"
    using p pq by (auto simp: rbind_Inr_iff Let_def ok_def split: if_splits)
  have world: "thWorld t' = thWorld t" by (simp add: t')
  have "undecided i k t' \<or> hurt i w0 (thWorld t')" if W: "undecided i k t"
  proof (cases "j = k")
    case True
    obtain p0 q0 where m: "plays i ?a p0" "plays i ?b q0" "p0 \<in> set (rmClients (room_of (thWorld t) i))"
      "q0 \<in> set (rmClients (room_of (thWorld t) i))" using W True by (auto simp: undecided_def)
    have o: "ok_world i (thWorld t)" using s by (simp add: since_def sane_def)
    have "p = p0" "q = q0" using pq m by (auto simp: plays_def core_def client_idx_def split: if_splits)
    then have ok using member_valid(2) [OF o] m(3,4) by (simp add: ok_def)
    then have "x = ?b \<and> y = ?a \<or> x = ?a \<and> y = ?b" using ab t'(2) by simp
    then have "undecided i k t'" using W m True p unfolding undecided_def t'(1) by auto
    then show ?thesis by blast
  next
    case False
    have "even k" using W by (simp add: undecided_def)
    then have n: "j \<noteq> k" "j \<noteq> k + 1" "j + 1 \<noteq> k" "j + 1 \<noteq> k + 1" using False j by auto
    have "t\<lparr>thWorld := thWorld t, thLeavers := thLeavers t\<rparr> = t" by simp
    then show ?thesis using undecided_elsewhere [OF W s n, where x = x and y = y and w = "thWorld t" and ls = "thLeavers t"] t' world by simp
  qed
  moreover have "c = Next" using nextsD [OF nexts_pairs(5) t(2)] .
  ultimately show "c = Next \<and> fight i k w0 t'" using t(1) since_losing [OF s l] since_hurt [OF s l] unfolding fight_def by blast
qed

section \<open>The battle\<close>

abbreviation anyhow :: "thread \<Rightarrow> bool" where
  "anyhow \<equiv> \<lambda>_. True"

lemma hoare_losing:
  assumes "within (losing i) f"
  shows "hoare anyhow (matched i k w0) f (matched i k w0)" and "hoare anyhow (since i w0) f (since i w0)"
    and "hoare anyhow (bleeding i w0) f (bleeding i w0)"
  using matched_losing withinD [OF assms] since_losing since_hurt unfolding hoare_def bleeding_def by blast+

lemma hoare_prologue: "hoare anyhow (matched i k w0) (battle_prologue i oc) (fight i k w0)"
proof -
  have p: "sure (fight i k w0) (each_place (\<lambda>n. [0..<n]) prepare) (fight i k w0)"
    "sure (fight i k w0) (each_place (\<lambda>n. [0..<n]) emit_info) (fight i k w0)"
    "sure (fight i k w0) (each_place evens (line_up i)) (fight i k w0)"
    by (intro sure_places sure_fight sure_line_up evens_even; assumption)+
  show ?thesis unfolding battle_prologue_def
    by (intro hoare_Cons [OF hoare_leave] hoare_Cons [OF sure_hoare [OF sure_set_up]] hoare_Cons [OF sure_hoare [OF sure_open(1)]]
        hoare_Cons [OF sure_hoare [OF p(1)]] hoare_Cons [OF sure_hoare [OF p(2)]] hoare_Cons [OF sure_hoare [OF p(3)]]
        hoare_Cons [OF sure_hoare [OF sure_fight(1)]] hoare_Cons [OF sure_hoare [OF sure_fight(2)]]
        hoare_Cons [OF sure_hoare [OF sure_fight(3)]] hoare_Cons [OF sure_hoare [OF sure_fight(4)]] hoare_Nil)
qed

lemma BattleStage_costs:
  assumes "matched i k w0 t" and b: "BattleStage i t = Inr (True, t')"
  shows "bleeding i w0 t'"
proof -
  let ?oc = "rmOpenCount (room_of (thWorld t) i)"
  have cycles: "hoare (bleeding i w0) (fight i k w0) (steps (replicate 10 (battle_cycle i ?oc))) (fight i k w0)"
    by (rule hoare_all) (auto simp: hoare_cycle split: if_splits)
  have "hoare (bleeding i w0) (fight i k w0) (steps [battle_time_up i]) (bleeding i w0)"
    by (intro hoare_Cons [OF sure_hoare [OF sure_time_up]] hoare_Nil)
  then have fight: "hoare anyhow (fight i k w0) (breakable (steps (replicate 10 (battle_cycle i ?oc) @ [battle_time_up i]))) (bleeding i w0)"
    by (intro hoare_breakable hoare_append [OF cycles])
  have "hoare anyhow (matched i k w0) (steps [set_status i St_BattleStage, battle_prologue i ?oc,
      breakable (steps (replicate 10 (battle_cycle i ?oc) @ [battle_time_up i])), finish_stage i ?oc]) (bleeding i w0)"
    by (intro hoare_Cons [OF hoare_losing(1) [OF ls.fr_status [THEN frames_carries]]] hoare_Cons [OF hoare_prologue] hoare_Cons [OF fight]
        hoare_Cons [OF hoare_losing(3) [OF ls.fr_finish [THEN frames_carries]]] hoare_Nil)
  then show ?thesis using assms(1) b
    by (fastforce simp: BattleStage_def Let_def stage_value_def rbind_Inr_iff simp del: steps.simps dest: hoareD)
qed

end
