(* ===== verification/Match_Rounds.thy ===== *)
theory Match_Rounds
  imports Battle_Start Match_Properties
begin

text \<open>
  Every round of a match costs its room a member or a hit point, so a match has only so many of them.
\<close>

section \<open>The ready stage before a battle\<close>

text \<open>A total fact about a step, at a step that came back.\<close>

lemma runs_result: "runs R P f Q \<Longrightarrow> P t \<Longrightarrow> f t = Inr (c, t') \<Longrightarrow> if c = Next then Q t' else R t'"
  using runsD by fastforce

definition poised :: "nat \<Rightarrow> nat \<Rightarrow> nat \<Rightarrow> nat \<Rightarrow> world \<Rightarrow> thread \<Rightarrow> bool" where
  "poised n m K i w0 t \<longleftrightarrow> thread_ok n m K i t \<and> since i w0 t"

lemma hoare_poised:
  assumes "runs R (thread_ok n m K i) f (thread_ok n m K i)" and "within (losing i) f"
  shows "hoare anyhow (poised n m K i w0) f (poised n m K i w0)"
  using runs_result [OF assms(1)] since_losing withinD [OF assms(2)] unfolding hoare_def poised_def by fastforce

lemma draw_matches:
  assumes t: "poised n m K i w0 t" and K: "K < INT64_MAX" and two: "\<not> rmSize (room_of (thWorld t) i) < 2"
    and d: "draw_battle_opponents i t = Inr (c, t')"
  shows "c = Next \<and> (\<exists>k. matched i k w0 t')"
proof -
  let ?w = "thWorld t" and ?r = "room_of (thWorld t) i"
  have m: "match_ok n m K i ?w" and s: "since i w0 t" using t by (simp_all add: poised_def thread_ok_def)
  obtain r rng ps where r: "ApplyRandomBattleOpponent (client_of ?w) ?r (wRng ?w) = Inr (r, rng)"
    and t': "c = Next" "t' = t\<lparr>thWorld := set_room i r (?w\<lparr>wRng := rng\<rparr>), thStream := ps\<rparr>"
    using d by (auto simp: draw_battle_opponents_def rbind_Inr_iff emit_def)
  note f = draw_faces [OF m K two r]
  have i: "i < length (wRooms ?w)" and ok: "ok_world i ?w" "fewer i w0 ?w" using s by (simp_all add: since_def sane_def ok_world_def)
  have e: "set_room i r (?w\<lparr>wRng := rng\<rparr>) = (set_room i r ?w)\<lparr>wRng := rng\<rparr>" by (simp add: set_room_def)
  have "match_ok n m (Suc K) i (set_room i r ?w)" using draw_opponents_ok [OF m K, of "wRng ?w"] r by auto
  then have wo: "world_ok (set_room i r ?w)" by (rule match_okD)
  have pl: "seated i (set_room i r ?w)"
    by (rule seated_same [of i ?w]) (use ok(1) i f in \<open>simp_all add: ok_world_def room_of_set_room\<close>)
  have "ok_world i (set_room i r ?w)" using ok(1) i f wo pl by (simp add: ok_world_def room_of_set_room)
  moreover have "fewer i w0 (set_room i r ?w)" using ok(2) i f by (simp add: fewer_def room_of_set_room)
  moreover have simps: "ok_world i (v\<lparr>wRng := rng\<rparr>) = ok_world i v" "fewer i w0 (v\<lparr>wRng := rng\<rparr>) = fewer i w0 v"
    "facing i k (v\<lparr>wRng := rng\<rparr>) = facing i k v" for v k
    by (simp_all add: ok_world_def fewer_def facing_def)
  ultimately have "since i w0 t'" using s by (simp add: since_def sane_def able_def t' e)
  then show ?thesis using f(1) t' simps by (auto simp: matched_def e)
qed

lemma ReadyStage_matches:
  assumes t: "poised n m K i w0 t" and K: "K < INT64_MAX" and r: "ReadyStage i True t = Inr (True, t')"
  shows "\<exists>k. matched i k w0 t'"
proof -
  let ?oc = "rmOpenCount (room_of (thWorld t) i)" and ?time = "ready_time (room_of (thWorld t) i)"
  let ?P = "poised n m K i w0" and ?Q = "\<lambda>t. poised n m K i w0 t \<and> \<not> rmSize (room_of (thWorld t) i) < 2"
  let ?M = "\<lambda>t. \<exists>k. matched i k w0 t"
  have M: "hoare anyhow ?M f ?M" if "within (losing i) f" for f
    using hoare_losing(1) [OF that] unfolding hoare_def by blast
  have status: "hoare anyhow ?P (set_status i St_ReadyStage) ?P"
    by (rule hoare_poised [OF runs_thread(5) ls.fr_status [THEN frames_carries]])
  have leave: "hoare anyhow ?P (leave_if_stopped i ?oc) ?Q"
    by (auto simp: hoare_def leave_if_stopped_def stopped_def)
  have block: "hoare anyhow ?Q open_block ?Q"
    using since_losing withinD [OF ls.ca_open] by (fastforce simp: hoare_def open_block_def poised_def thread_ok_def)
  have draw: "hoare anyhow ?Q (draw_battle_opponents i) ?M"
    using draw_matches [OF _ K] by (auto simp: hoare_def)
  have begun: "hoare anyhow ?Q (ready_opening i True ?time) ?M"
    unfolding ready_opening_def if_True append.simps
    by (rule hoare_Cons [OF block hoare_Cons [OF draw M [OF ls.ca_ready_rest]]])
  have "hoare anyhow ?P (steps ([set_status i St_ReadyStage, leave_if_stopped i ?oc, ready_opening i True ?time] @
      [Sleep, send_packet i (FadeOut 1)] @ concat (replicate (nat ?time) [Sleep, leave_if_stopped i ?oc]) @
      [ready_closing i, leave_if_stopped i ?oc, send_packet i (FadeIn 1), Sleep])) ?M"
    by (intro hoare_append [OF _ M [OF ls.ca_ready_wait]] hoare_Cons [OF status] hoare_Cons [OF leave] hoare_Cons [OF begun] hoare_Nil)
  then show ?thesis using t r
    by (fastforce simp: ReadyStage_def Let_def stage_value_def rbind_Inr_iff simp del: steps.simps dest: hoareD)
qed

section \<open>A round\<close>

definition worse :: "nat \<Rightarrow> nat \<Rightarrow> nat \<Rightarrow> nat \<Rightarrow> world \<Rightarrow> thread \<Rightarrow> bool" where
  "worse n m K i w0 t \<longleftrightarrow> thread_ok n m K i t \<and> bleeding i w0 t"

lemma worse_poised: "worse n m K i w0 t \<Longrightarrow> poised n m K i w0 t"
  by (simp add: worse_def poised_def bleeding_def)

lemma stage_True: "stage f t = Inr (Next, t') \<longleftrightarrow> f t = Inr (True, t')"
  by (auto simp: stage_def rbind_Inr_iff split: if_splits)

lemma hoare_battle:
  assumes K: "K < INT64_MAX"
  shows "hoare anyhow (poised n m K i w0) (steps [stage (ReadyStage i True), stage (BattleStage i)]) (worse n m (Suc K) i w0)"
proof (rule hoareI)
  fix t c t' assume t: "poised n m K i w0 t" and r: "steps [stage (ReadyStage i True), stage (BattleStage i)] t = Inr (c, t')"
  have "worse n m (Suc K) i w0 t'" if "c = Next"
  proof -
    obtain t1 where t1: "ReadyStage i True t = Inr (True, t1)" "BattleStage i t1 = Inr (True, t')"
      using r \<open>c = Next\<close> by (auto simp: rbind_Inr_iff stage_True split: if_splits)
    obtain k where "matched i k w0 t1" using ReadyStage_matches [OF t K t1(1)] by blast
    then have "bleeding i w0 t'" using BattleStage_costs t1(2) by blast
    moreover have ok: "thread_ok n m (Suc K) i t1" using ReadyStage_ok [of n m K i t True] t t1(1) K by (auto simp: poised_def)
    have "thread_ok n m (Suc K) i t'" using BattleStage_ok [OF ok] t1(2) by auto
    ultimately show ?thesis by (simp add: worse_def)
  qed
  then show "(c = Next \<longrightarrow> worse n m (Suc K) i w0 t') \<and> (c = Break \<longrightarrow> anyhow t')" by simp
qed

lemma hoare_worse:
  assumes "runs (thread_ok n m K i) (thread_ok n m K i) f (thread_ok n m K i)" and "within (losing i) f"
  shows "hoare anyhow (worse n m K i w0) f (worse n m K i w0)"
  using runs_result [OF assms(1)] hoare_losing(3) [OF assms(2)] unfolding hoare_def worse_def by fastforce

lemma hoare_pre: "hoare B P f Q \<Longrightarrow> (\<And>t. P' t \<Longrightarrow> P t) \<Longrightarrow> hoare B P' f Q"
  unfolding hoare_def by blast

text \<open>Three battles and the fight against a monster, without the count of the rounds.\<close>

lemma round_costs:
  assumes t: "poised n m K i w0 t" and K: "K + 3 < INT64_MAX"
    and r: "steps (concat (replicate 3 [stage (ReadyStage i True), stage (BattleStage i)]) @
      [stage (ReadyStage i False), stage (CreepStage i)]) t = Inr (Next, t')"
  shows "worse n m (K + 3) i w0 t'"
proof -
  let ?b = "[stage (ReadyStage i True), stage (BattleStage i)]"
  have b: "hoare anyhow (poised n m K i w0) (steps ?b) (worse n m (Suc K) i w0)"
    "hoare anyhow (worse n m (Suc K) i w0) (steps ?b) (worse n m (Suc (Suc K)) i w0)"
    "hoare anyhow (worse n m (Suc (Suc K)) i w0) (steps ?b) (worse n m (K + 3) i w0)"
    using hoare_battle [of K] hoare_pre [OF hoare_battle [of "Suc K"] worse_poised] hoare_pre [OF hoare_battle [of "Suc (Suc K)"] worse_poised] K
    by (simp_all add: numeral_3_eq_3 del: steps.simps)
  have c: "hoare anyhow (worse n m (K + 3) i w0) (steps [stage (ReadyStage i False), stage (CreepStage i)]) (worse n m (K + 3) i w0)"
    by (intro hoare_Cons [OF hoare_worse [OF runs_ready(2) [OF K] ls.ca_ReadyStage_creep]]
        hoare_Cons [OF hoare_worse [OF runs_ready(4) [OF K] ls.ca_CreepStage]] hoare_Nil)
  have "concat (replicate 3 ?b) @ [stage (ReadyStage i False), stage (CreepStage i)] =
      ?b @ ?b @ ?b @ [stage (ReadyStage i False), stage (CreepStage i)]" by (simp add: numeral_3_eq_3)
  moreover have "hoare anyhow (poised n m K i w0) (steps (?b @ ?b @ ?b @ [stage (ReadyStage i False), stage (CreepStage i)])) (worse n m (K + 3) i w0)"
    by (rule hoare_append [OF b(1) hoare_append [OF b(2) hoare_append [OF b(3) c]]])
  ultimately show ?thesis using hoareD t r by fastforce
qed

section \<open>The measure\<close>

text \<open>The members of the room, and the hit points of each.\<close>

definition vigour :: "nat \<Rightarrow> world \<Rightarrow> nat" where
  "vigour i w = (\<Sum>p \<in> set (rmClients (room_of w i)). Suc (nat (clHp (client_of w p))))"

lemma vigour_fewer: "fewer i w w' \<Longrightarrow> vigour i w' \<le> vigour i w"
proof -
  assume f: "fewer i w w'"
  have "vigour i w' \<le> (\<Sum>p \<in> set (rmClients (room_of w' i)). Suc (nat (clHp (client_of w p))))"
    unfolding vigour_def by (rule sum_mono) (use f in \<open>simp add: fewer_def nat_mono\<close>)
  also have "\<dots> \<le> vigour i w" unfolding vigour_def by (rule sum_mono2) (use f in \<open>auto simp: fewer_def\<close>)
  finally show ?thesis .
qed

lemma vigour_hurt:
  assumes f: "fewer i w w'" and ok: "ok_world i w'" and h: "hurt i w w'"
  shows "vigour i w' < vigour i w"
proof -
  let ?A = "set (rmClients (room_of w i))" and ?B = "set (rmClients (room_of w' i))"
  let ?f = "\<lambda>v p. Suc (nat (clHp (client_of v p)))"
  have sub: "?B \<subseteq> ?A" and le: "?f w' p \<le> ?f w p" if "p \<in> ?B" for p using f that by (auto simp: fewer_def nat_mono)
  have sub: "?B \<subseteq> ?A" using f by (simp add: fewer_def)
  obtain p where p: "p \<in> ?A" "p \<notin> ?B \<or> clHp (client_of w' p) < clHp (client_of w p)" using h by (auto simp: hurt_def)
  have "sum (?f w') ?B < sum (?f w) ?A"
  proof (cases "p \<in> ?B")
    case True
    then have "0 \<le> clHp (client_of w' p)" using ok by (simp add: ok_world_def)
    then have "?f w' p < ?f w p" using p True by simp
    then have "sum (?f w') ?B < sum (?f w) ?B" by (intro sum_strict_mono_ex1) (use le True in auto)
    also have "\<dots> \<le> sum (?f w) ?A" by (rule sum_mono2) (use sub in auto)
    finally show ?thesis .
  next
    case False
    have "sum (?f w') ?B \<le> sum (?f w) ?B" by (rule sum_mono) (use le in blast)
    also have "\<dots> < sum (?f w) ?A" by (rule sum_strict_mono2 [OF _ sub]) (use p False in auto)
    finally show ?thesis .
  qed
  then show ?thesis by (simp add: vigour_def)
qed

end
