(* ===== verification/Match_End.thy ===== *)
theory Match_End
  imports Match_Rounds Server_Properties
begin

text \<open>
  Every match ends: whatever happens beside it, its room loses with every round, and no loop of its
  thread goes on for ever.
\<close>

section \<open>What happens beside a match\<close>

lemma loses_same_room:
  assumes "ok_world i w \<Longrightarrow> world_ok w' \<and> seated i w' \<and> i < length (wRooms w') \<and> room_of w' i = room_of w i \<and>
    (\<forall>p \<in> set (rmClients (room_of w i)). clHp (client_of w' p) = clHp (client_of w p))"
  shows "loses i w w'"
  using assms by (auto simp: loses_def ok_world_def fewer_def)

lemma set_rooms_hp: "clHp (client_of (set_rooms j ps w) q) = clHp (client_of w q)"
proof (induction ps arbitrary: w)
  case Nil
  then show ?case by simp
next
  case (Cons p ps)
  have "clHp (client_of (set_client p ((client_of w p)\<lparr>clRoomPtr := a, clRoomOpenCount := b\<rparr>) w) q) = clHp (client_of w q)" for a b
    by (cases "q = p"; cases "p < length (wClients w)") (simp_all add: set_client_def list_update_beyond)
  then show ?case using Cons by simp
qed

lemma quiet_hp: "quiet w w' \<Longrightarrow> p < length (wClients w) \<Longrightarrow> clHp (client_of w' p) = clHp (client_of w p)"
proof -
  assume q: "quiet w w'" and p: "p < length (wClients w)"
  have m: "map seat (wClients w') = map seat (wClients w)" using q by (simp add: quiet_def)
  then have "length (wClients w') = length (wClients w)" by (metis length_map)
  then have "seat (client_of w' p) = seat (client_of w p)" using m p by (metis nth_map)
  then show ?thesis by (simp add: seat_def)
qed

lemma TryCreate_hp: "TryCreateRoomOrNullPtr w = Inr (r, w') \<Longrightarrow> clHp (client_of w' p) = clHp (client_of w p)"
  by (auto simp: TryCreateRoomOrNullPtr_def GetUnUsedRoom_def World_AddClients_def Let_def rbind_Inr_iff set_rooms_hp
      split: option.splits prod.splits)

lemma start_matching_hp:
  assumes "start_matching conn buf w = Inr w'" and "p < length (wClients w)"
  shows "clHp (client_of w' p) = clHp (client_of w p)"
proof (cases "clRoomPtr (client_of w conn) \<noteq> None")
  case True
  then show ?thesis using assms(1) by (simp add: start_matching_def)
next
  case False
  then obtain w1 q r w2 where s: "modify_client conn (take_name buf) w = Inr w1"
    "TryCreateRoomOrNullPtr (w1\<lparr>wQueue := q\<rparr>) = Inr (r, w2)"
    and rest: "(case r of None \<Rightarrow> Inr w2 | Some i \<Rightarrow> rbind (sc_ConnectRoomPacket (map (client_of w2) (rmClients (room_of w2 i))))
      (\<lambda>pkt. rbind (SendStreamToAllClients i [SetChoiceCharacterTime (of_nat CHOICE_CHARACTER_TIME), pkt] w2) (\<lambda>w3.
        Inr (w3\<lparr>wThreads := wThreads w3 @ [i]\<rparr>)))) = Inr w'"
    using assms(1) by (auto simp: start_matching_def rbind_Inr_iff)
  have "clHp (client_of w' p) = clHp (client_of w2 p)"
  proof (cases r)
    case None
    then show ?thesis using rest by simp
  next
    case (Some i)
    then obtain pkt w3 where w3: "SendStreamToAllClients i pkt w2 = Inr w3" "w' = w3\<lparr>wThreads := wThreads w3 @ [i]\<rparr>"
      using rest by (auto simp: rbind_Inr_iff)
    have "sent_only w2 w3" using w3(1) send_sent(1) by (simp add: SendStreamToAllClients_def)
    then obtain bs where "w3 = w2\<lparr>wSent := bs\<rparr>" unfolding sent_only_def by blast
    then show ?thesis using w3(2) by simp
  qed
  also have "\<dots> = clHp (client_of w1 p)" using TryCreate_hp [OF s(2)] by simp
  also have "\<dots> = clHp (client_of w p)" by (rule quiet_hp [OF quiet_modify [OF seated_take_name s(1)] assms(2)])
  finally show ?thesis .
qed

lemma ProcessPacket_hp:
  assumes "ProcessPacket conn buf w = Inr w'" and "p < length (wClients w)"
  shows "clHp (client_of w' p) = clHp (client_of w p)"
proof (cases "rd_type buf = Some pt_cs_startMatching")
  case True
  then show ?thesis using assms start_matching_hp by (simp add: ProcessPacket_def)
next
  case False
  then show ?thesis using quiet_hp [OF postD [OF ProcessPacket_quiet assms(1)] assms(2)] by blast
qed

lemma loses_checks: "check_clients ps sv = Inr sv' \<Longrightarrow> loses i (svWorld sv) (svWorld sv')"
proof (induction ps arbitrary: sv)
  case Nil
  then show ?case by simp
next
  case (Cons p ps)
  show ?case
  proof (cases "clStatus (client_of (svWorld sv) p) = ACTIVE \<and> \<not> IsValidConnect (client_of (svWorld sv) p) (wNow (svWorld sv))")
    case True
    then obtain w where w: "Disconnect (clNetworkID (client_of (svWorld sv) p)) True (svWorld sv) = Inr w"
      "check_clients ps (sv\<lparr>svWorld := w\<rparr>) = Inr sv'"
      using Cons.prems by (auto simp: Let_def rbind_Inr_iff with_world_def)
    then show ?thesis using loses_trans [OF loses_Disconnect [OF w(1)]] Cons.IH [OF w(2)] by simp
  next
    case False
    then show ?thesis using Cons.prems Cons.IH by (fastforce simp: Let_def split: if_splits)
  qed
qed

lemma accept_hp:
  assumes "world_ok (svWorld sv)" and "accept_client s r sv = Inr sv'"
  shows "clHp (client_of (svWorld sv') p) = clHp (client_of (svWorld sv) p)"
proof (cases "find_free (wClients (svWorld sv))")
  case None
  then show ?thesis using assms(2) accept_client_none by auto
next
  case (Some q)
  have "clHp (client_of (set_client q c w) p) = clHp (client_of w p)" if "clHp c = clHp (client_of w q)" for c w
    using that by (cases "p = q"; cases "q < length (wClients w)") (simp_all add: set_client_def list_update_beyond)
  then show ?thesis using assms(2) accept_client_spec [OF assms(1) Some, of s] accept_client_refused [OF Some, of s]
    by (cases r) (auto simp: connected_def)
qed

text \<open>Every event beside the match only loses, as far as the room of the match is concerned.\<close>

text \<open>The members keep their seats as well, waiting twice or not.\<close>

lemma seated_event:
  assumes s: "seated i (svWorld sv)" and ok: "world_ok (svWorld sv)" and i: "i < length (wRooms (svWorld sv))"
    and run: "\<not> rmIsFinishThread (room_of (svWorld sv) i)"
    and be: "beside i e" and al: "allowed e sv" and e: "serve e sv = Inr sv'" and leave: "e \<noteq> Checks" "\<forall>p told. e \<noteq> Gone p told"
  shows "seated i (svWorld sv')"
proof (cases e)
  case (Packet_in conn buf)
  then show ?thesis using seated_ProcessPacket [OF s ok i run] al e by (auto simp: with_world_def rbind_Inr_iff)
next
  case (Buffers conn io buf n)
  have "quiet (svWorld sv) (svWorld sv')"
    using Buffers e by (auto simp: with_world_def modify_client_def seat_def intro!: quiet_set_client)
  then show ?thesis by (rule seated_quiet [OF s ok i])
next
  case (Arrives h r)
  then show ?thesis using seated_accept [OF s ok] e by simp
next
  case Announces
  then show ?thesis using announce_sent [OF ok] e s by auto
next
  case (Clock t)
  then show ?thesis using e s by (auto simp: with_world_def)
next
  case (Begins j)
  then show ?thesis using e al be
    by (intro seated_same [OF s]) (auto simp: by_thread_def begin_match_def thread_start_def room_of_set_room beside_def)
next
  case (Ends j)
  then show ?thesis using e al be
    by (intro seated_same [OF s]) (auto simp: by_thread_def close_room_def thread_start_def room_of_set_room beside_def)
qed (use leave in auto)

lemma loses_event:
  assumes be: "beside i e" and al: "allowed e sv" and e: "serve e sv = Inr sv'"
  shows "loses i (svWorld sv) (svWorld sv')"
proof (rule loses_if)
  let ?w = "svWorld sv"
  assume ok: "ok_world i ?w"
  then have w: "world_ok ?w" "seated i ?w" "i < length (wRooms ?w)" "\<not> rmIsFinishThread (room_of ?w i)" by (simp_all add: ok_world_def)
  have "\<exists>sv2. serve e sv = Inr sv2 \<and> sound (length (wClients ?w)) (length (wRooms ?w)) (svWorld sv2)"
    by (rule so.serves [OF _ al]) (simp_all add: sound_def w(1))
  then have w': "world_ok (svWorld sv')" "length (wRooms (svWorld sv')) = length (wRooms ?w)" using e by (auto simp: sound_def)
  have mem: "p < length (wClients ?w)" if "p \<in> set (rmClients (room_of ?w i))" for p using member_valid(1) [OF ok that] .
  have same: "loses i ?w (svWorld sv')"
    if "room_of (svWorld sv') i = room_of ?w i" "\<And>p. p < length (wClients ?w) \<Longrightarrow> clHp (client_of (svWorld sv') p) = clHp (client_of ?w p)"
      "e \<noteq> Checks" "\<forall>p told. e \<noteq> Gone p told"
    by (rule loses_same_room) (use that w w' mem seated_event [OF w(2,1,3,4) be al e that(3,4)] in simp)
  show "loses i ?w (svWorld sv')"
  proof (cases e)
    case (Packet_in conn buf)
    then have p: "conn < length (wClients ?w)" "in_range conn buf ?w" "ProcessPacket conn buf ?w = Inr (svWorld sv')"
      using al e by (auto simp: with_world_def rbind_Inr_iff)
    show ?thesis by (rule same) (use ProcessPacket_room [OF w(1,4) p] ProcessPacket_hp [OF p(3)] Packet_in in auto)
  next
    case (Buffers conn io buf k)
    then show ?thesis using e al by (intro same) (auto simp: with_world_def modify_client_def client_of_set_client)
  next
    case (Arrives s r)
    then show ?thesis using e accept_ok [OF w(1), of s r] accept_hp [OF w(1)] by (intro same) auto
  next
    case (Gone p b)
    then show ?thesis using e loses_Disconnect by (auto simp: with_world_def rbind_Inr_iff)
  next
    case Announces
    then show ?thesis using e announce_sent [OF w(1)] by auto
  next
    case Checks
    then show ?thesis using e loses_checks [of _ "sv\<lparr>svCurrConnectionCount := 0\<rparr>"] by (simp add: check_connections_def)
  next
    case (Clock t)
    then show ?thesis using e by (auto simp: with_world_def)
  next
    case (Begins j)
    then have "j \<noteq> i" using be by (simp add: beside_def)
    then show ?thesis using Begins e al by (intro same) (auto simp: by_thread_def begin_match_def thread_start_def room_of_set_room)
  next
    case (Ends j)
    then have "j \<noteq> i" using be by (simp add: beside_def)
    then show ?thesis using Ends e al by (intro same) (auto simp: by_thread_def close_room_def thread_start_def room_of_set_room)
  qed
qed

lemma meanwhile_loses: "\<forall>e \<in> set es. beside i e \<Longrightarrow> obeys (loses i) (meanwhile a b es)"
proof -
  have one: "loses i w w'" if "beside i e" "happens a b e w = Inr w'" for e w w'
    using happens_serves [OF that(2)] loses_event [OF that(1)] by auto
  have "loses i w w'" if "\<forall>e \<in> set es. beside i e" "meanwhile a b es w = Inr w'" for w w'
    using that
  proof (induction es arbitrary: w)
    case Nil
    then show ?case by simp
  next
    case (Cons e es)
    then obtain u where u: "happens a b e w = Inr u" "meanwhile a b es u = Inr w'" by (auto simp: rbind_Inr_iff)
    have "loses i u w'" using Cons.IH [OF _ u(2)] Cons.prems(1) by simp
    then show ?case using loses_trans [OF one [OF _ u(1)]] Cons.prems(1) by simp
  qed
  then show "\<forall>e \<in> set es. beside i e \<Longrightarrow> obeys (loses i) (meanwhile a b es)" unfolding obeys_def by blast
qed

section \<open>The rounds come to an end\<close>

text \<open>The thread between two rounds; the round counter and the strength left stay within bounds.\<close>

definition between :: "nat \<Rightarrow> nat \<Rightarrow> nat \<Rightarrow> nat \<Rightarrow> thread \<Rightarrow> bool" where
  "between n m K i t \<longleftrightarrow> thread_ok n m K i t \<and> sane i t \<and> 1 \<le> rmRound (room_of (thWorld t) i)"

lemma between_round:
  assumes t: "between n m K i t" and K: "int K + 6 \<le> INT_MAX" and lim: "rmRound (room_of (thWorld t) i) < 1000"
    and r: "match_round i t = Inr (Next, t')"
  shows "between n m (K + 4) i t' \<and> vigour i (thWorld t') < vigour i (thWorld t) \<and>
    rmRound (room_of (thWorld t') i) \<le> rmRound (room_of (thWorld t) i) + 1"
proof -
  let ?w = "thWorld t"
  let ?fs = "concat (replicate 3 [stage (ReadyStage i True), stage (BattleStage i)]) @ [stage (ReadyStage i False), stage (CreepStage i)]"
  have rd: "poised n m K i ?w t" using t by (simp add: poised_def since_def between_def)
  have "match_round i t = steps (?fs @ [next_round i]) t" by (simp add: match_round_def del: steps.simps)
  then have "rbind (steps ?fs t) (\<lambda>(c, t'). if c = Next then steps [next_round i] t' else Inr (c, t')) = Inr (Next, t')"
    using r steps_append [of ?fs "[next_round i]" t] by simp
  then obtain t1 where t1: "steps ?fs t = Inr (Next, t1)" "steps [next_round i] t1 = Inr (Next, t')"
    unfolding rbind_Inr_iff by (fastforce simp del: steps.simps split: if_splits)
  then have nr: "next_round i t1 = Inr (Next, t')" by (auto simp: rbind_Inr_iff split: if_splits)
  have wo: "worse n m (K + 3) i ?w t1" by (rule round_costs [OF rd _ t1(1)]) (use INT64_le [OF K] in simp)
  then have s: "sane i t1" "fewer i ?w (thWorld t1)" "hurt i ?w (thWorld t1)"
    by (simp_all add: worse_def bleeding_def since_def)
  then have "vigour i (thWorld t1) < vigour i ?w" by (intro vigour_hurt) (simp_all add: sane_def)
  moreover have r1: "rmRound (room_of (thWorld t1) i) \<le> rmRound (room_of ?w i)" using s(2) by (simp add: fewer_def)
  moreover note n = next_round_step [OF nr s(1)]
  have "0 \<le> rmRound (room_of (thWorld t1) i)" using s(1) by (simp add: sane_def ok_world_def)
  moreover have "thread_ok n m (K + 4) i t'"
    using runs_result [OF runs_match_round [OF K, of n m i] _ r] t by (simp add: between_def)
  moreover have "vigour i (thWorld t') = vigour i (thWorld t1)" using n(4,5) r1 lim by (simp add: vigour_def)
  ultimately show ?thesis using n(2,3) r1 lim by (simp add: between_def)
qed

text \<open>So a match has only so many rounds, and each of them costs its room a member or a hit point.\<close>

lemma rounds_cost:
  assumes "between n m K i t" and "rmRound (room_of (thWorld t) i) + int (vigour i (thWorld t)) < 1000"
    and "int K + 4 * int (vigour i (thWorld t)) + 6 \<le> INT_MAX"
    and "steps (replicate k (match_round i)) t = Inr (Next, t')"
  shows "vigour i (thWorld t') + k \<le> vigour i (thWorld t)"
  using assms
proof (induction k arbitrary: t K)
  case 0
  then show ?case by simp
next
  case (Suc k)
  obtain t1 where t1: "match_round i t = Inr (Next, t1)" "steps (replicate k (match_round i)) t1 = Inr (Next, t')"
    using Suc.prems(4) by (auto simp: rbind_Inr_iff split: if_splits)
  have b: "between n m (K + 4) i t1" "vigour i (thWorld t1) < vigour i (thWorld t)"
    "rmRound (room_of (thWorld t1) i) \<le> rmRound (room_of (thWorld t) i) + 1"
    using between_round [OF Suc.prems(1) _ _ t1(1)] Suc.prems(2,3) by simp_all
  have "vigour i (thWorld t') + k \<le> vigour i (thWorld t1)"
    by (rule Suc.IH [OF b(1) _ _ t1(2)]) (use b Suc.prems(2,3) in simp_all)
  then show ?case using b(2) by simp
qed

lemma match_loop_ends:
  assumes "between n m K i t" and "rmRound (room_of (thWorld t) i) + int (vigour i (thWorld t)) < 1000"
    and "int K + 4 * int (vigour i (thWorld t)) + 6 \<le> INT_MAX"
  shows "\<exists>t' L. match_loop i t = Some (Inr t') \<and> thread_ok n m L i t'"
  using assms
proof (induction "vigour i (thWorld t)" arbitrary: t K rule: less_induct)
  case less
  have t: "thread_ok n m K i t" and K: "int K + 6 \<le> INT_MAX" using less.prems by (simp_all add: between_def)
  obtain c t1 where r: "match_round i t = Inr (c, t1)" "thread_ok n m (K + 4) i t1"
    using runsD [OF runs_match_round [OF K] t] by fastforce
  show ?case
  proof (cases "c = Next")
    case False
    then show ?thesis using r by (auto simp: match_loop.simps [of i t])
  next
    case True
    have lim: "rmRound (room_of (thWorld t) i) < 1000" using less.prems(2) by simp
    have b: "between n m (K + 4) i t1" "vigour i (thWorld t1) < vigour i (thWorld t)"
      "rmRound (room_of (thWorld t1) i) \<le> rmRound (room_of (thWorld t) i) + 1"
      using between_round [OF less.prems(1) K lim] r(1) True by blast+
    have "\<exists>t' L. match_loop i t1 = Some (Inr t') \<and> thread_ok n m L i t'"
      by (rule less.hyps [OF b(2,1)]) (use b less.prems in simp_all)
    then show ?thesis using r True by (simp add: match_loop.simps [of i t])
  qed
qed

section \<open>The whole match\<close>

lemma opening_sane:
  assumes s: "sane i t" and r: "rmRound (room_of (thWorld t) i) = 0"
    and o: "steps [match_opening i oc, first_creeps i] t = Inr (Next, t')"
  shows "sane i t' \<and> rmRound (room_of (thWorld t') i) = 1 \<and> vigour i (thWorld t') \<le> vigour i (thWorld t)"
proof -
  let ?fs = "[stage (ReadyStage i False), Sleep, stage (CreepStage i), Sleep,
      stage (ReadyStage i False), Sleep, stage (CreepStage i), Sleep,
      stage (ReadyStage i False), Sleep, stage (CreepStage i), Sleep]"
  obtain t1 where t1: "match_opening i oc t = Inr (Next, t1)" "first_creeps i t1 = Inr (Next, t')"
    using o by (auto simp: rbind_Inr_iff split: if_splits)
  have "first_creeps i t1 = steps (?fs @ [next_round i]) t1" by (simp add: first_creeps_def del: steps.simps)
  then have "rbind (steps ?fs t1) (\<lambda>(c, t'). if c = Next then steps [next_round i] t' else Inr (c, t')) = Inr (Next, t')"
    using t1(2) steps_append [of ?fs "[next_round i]" t1] by simp
  then obtain t2 where t2: "steps ?fs t1 = Inr (Next, t2)" "steps [next_round i] t2 = Inr (Next, t')"
    unfolding rbind_Inr_iff by (fastforce simp del: steps.simps split: if_splits)
  then have nr: "next_round i t2 = Inr (Next, t')" by (auto simp: rbind_Inr_iff split: if_splits)
  have "within (losing i) (steps ?fs)"
    by (intro ls.ca.rules ls.ca_ReadyStage_creep ls.ca_CreepStage ls.fr_Sleep [THEN frames_carries])
  then have "losing i t t2" using ls.ca.further [OF withinD [OF ls.ca_match_opening t1(1)]] withinD t2(1) by blast
  then have f: "sane i t2" "fewer i (thWorld t) (thWorld t2)" using losing_sane [OF _ s] by simp_all
  have z: "rmRound (room_of (thWorld t2) i) = 0" using f r by (simp add: fewer_def sane_def ok_world_def)
  note n = next_round_step [OF nr f(1)]
  have "vigour i (thWorld t') = vigour i (thWorld t2)" using n(4,5) z by (simp add: vigour_def)
  then show ?thesis using n(2,3) z vigour_fewer [OF f(2)] by simp
qed

text \<open>At full strength eight members are good for less than a thousand rounds.\<close>

lemma vigour_start:
  assumes "match_ok n m K i w" and "\<forall>p \<in> set (rmClients (room_of w i)). clHp (client_of w p) \<le> MAX_CHARACTER_MAX_HP"
  shows "vigour i w \<le> 808"
proof -
  have "vigour i w \<le> (\<Sum>p \<in> set (rmClients (room_of w i)). 101)"
    unfolding vigour_def by (rule sum_mono) (use assms(2) in \<open>fastforce simp: nat_le_iff\<close>)
  also have "\<dots> \<le> 808" using match_okD(6) [OF assms(1)] card_length [of "rmClients (room_of w i)"] by simp
  finally show ?thesis .
qed

lemma thread_ends:
  assumes t: "thread_ok n m 0 i (begin_match i t)" and s: "sane i (begin_match i t)"
    and r: "rmRound (room_of (thWorld (begin_match i t)) i) = 0"
    and hp: "\<forall>p \<in> set (rmClients (room_of (thWorld (begin_match i t)) i)). clHp (client_of (thWorld (begin_match i t)) p) \<le> MAX_CHARACTER_MAX_HP"
  shows "\<exists>t'. ProgressThread i t = Some (Inr t') \<and> world_ok (thWorld t')"
    and "vigour i (thWorld (begin_match i t)) \<le> 808"
    and "steps ([match_opening i (rmOpenCount (room_of (thWorld (begin_match i t)) i)), first_creeps i] @
      replicate k (match_round i)) (begin_match i t) = Inr (Next, tk) \<Longrightarrow> vigour i (thWorld tk) + k \<le> vigour i (thWorld (begin_match i t))"
proof -
  let ?t = "begin_match i t"
  let ?oc = "rmOpenCount (room_of (thWorld ?t) i)"
  let ?open = "[match_opening i ?oc, first_creeps i]"
  have small: "int 0 + 6 \<le> INT_MAX" by (simp add: INT_MAX_def)
  have opened: "runs (thread_ok n m 1 i) (thread_ok n m 0 i) (steps ?open) (thread_ok n m 1 i)"
  proof (rule runs_Cons [OF runs_exits [OF runs_match_opening] runs_Cons [OF _ runs_Nil]])
    show "thread_ok n m 0 i u \<Longrightarrow> thread_ok n m 1 i u" for u by (erule thread_ok_mono) simp
    show "runs (thread_ok n m 1 i) (thread_ok n m 0 i) (first_creeps i) (thread_ok n m 1 i)"
      using runs_first_creeps [OF small] by simp
  qed
  obtain c t1 where c: "steps ?open ?t = Inr (c, t1)" "thread_ok n m 1 i t1" using runsD [OF opened t] by auto
  show v: "vigour i (thWorld ?t) \<le> 808" by (rule vigour_start [of n m 0 i, OF _ hp]) (use t in \<open>simp add: thread_ok_def\<close>)
  have o: "between n m 1 i t1 \<and> rmRound (room_of (thWorld t1) i) = 1 \<and> vigour i (thWorld t1) \<le> vigour i (thWorld ?t)" if "c = Next"
  proof -
    have "sane i t1 \<and> rmRound (room_of (thWorld t1) i) = 1 \<and> vigour i (thWorld t1) \<le> vigour i (thWorld ?t)"
      by (rule opening_sane [OF s r]) (use c(1) that in simp)
    then show ?thesis using c(2) by (simp add: between_def)
  qed
  show "\<exists>t'. ProgressThread i t = Some (Inr t') \<and> world_ok (thWorld t')"
  proof (cases "c = Next")
    case False
    then show ?thesis using c close_room_ok [OF c(2)] match_okD(1) [of n m 1 i "thWorld t1"]
      by (auto simp: ProgressThread_def Let_def thread_ok_def simp del: steps.simps)
  next
    case True
    have "\<exists>t' L. match_loop i t1 = Some (Inr t') \<and> thread_ok n m L i t'"
      using o [OF True] v by (intro match_loop_ends [where K = 1]) (simp_all add: INT_MAX_def)
    then obtain t' L where t': "match_loop i t1 = Some (Inr t')" "thread_ok n m L i t'" by blast
    have "ProgressThread i t = Some (Inr (close_room i t'))"
      using True c(1) t'(1) by (simp add: ProgressThread_def Let_def del: steps.simps)
    then show ?thesis using close_room_ok [OF t'(2)] by blast
  qed
  assume "steps (?open @ replicate k (match_round i)) ?t = Inr (Next, tk)"
  then have e: "rbind (steps ?open ?t) (\<lambda>(c, t'). if c = Next then steps (replicate k (match_round i)) t' else Inr (c, t')) = Inr (Next, tk)"
    using steps_append [of ?open "replicate k (match_round i)" ?t] by simp
  then have k: "c = Next" "steps (replicate k (match_round i)) t1 = Inr (Next, tk)"
    using c(1) by (auto simp del: steps.simps split: if_splits)
  have "vigour i (thWorld tk) + k \<le> vigour i (thWorld t1)"
    using o [OF k(1)] v by (intro rounds_cost [OF _ _ _ k(2), of n m 1]) (simp_all add: INT_MAX_def)
  then show "vigour i (thWorld tk) + k \<le> vigour i (thWorld ?t)" using o [OF k(1)] by simp
qed

text \<open>
  A room whose members are about to play: nobody has fought, and everybody has at most the initial
  hit points.
\<close>

definition startable :: "nat \<Rightarrow> world \<Rightarrow> bool" where
  "startable i w \<longleftrightarrow> world_ok w \<and> seated i w \<and> i < length (wRooms w) \<and>
     manager_ok (set (rmClients (room_of w i))) 0 (rmBattleManager (room_of w i)) \<and>
     opponents_ok (length (wClients w)) (rmBattleOpponents (room_of w i)) \<and> rmRound (room_of w i) = 0 \<and>
     (\<forall>p \<in> set (rmClients (room_of w i)). 0 \<le> clHp (client_of w p) \<and> clHp (client_of w p) \<le> MAX_CHARACTER_MAX_HP)"

lemma thread_of_startable:
  fixes i w ess a b
  defines "t \<equiv> thread_start w (map (meanwhile a b) ess)"
  assumes "startable i w" and "\<forall>es \<in> set ess. \<forall>e \<in> set es. beside i e"
  shows "\<exists>t'. ProgressThread i t = Some (Inr t') \<and> world_ok (thWorld t')"
    and "vigour i w \<le> 808"
    and "steps ([match_opening i (rmOpenCount (room_of w i)), first_creeps i] @
      replicate k (match_round i)) (begin_match i t) = Inr (Next, tk) \<Longrightarrow> vigour i (thWorld tk) + k \<le> vigour i w"
proof -
  let ?n = "length (wClients w)" and ?m = "length (wRooms w)"
  let ?r = "(room_of w i)\<lparr>rmIsFinishThread := False, rmCurRoomStatusType := St_ChoiceCharacter\<rparr>"
  note d = assms(2) [unfolded startable_def]
  have i: "i < ?m" and wo: "world_ok w" and se: "seated i w" using d by simp_all
  have w: "thWorld (begin_match i t) = set_room i ?r w" and av: "thAvatars (begin_match i t) = []"
    and ot: "thOthers (begin_match i t) = map (meanwhile a b) ess"
    by (simp_all add: begin_match_def thread_start_def t_def)
  have "room_ok ?n ?r" using world_ok_room [OF wo i] by (simp add: room_ok_def)
  then have wo': "world_ok (set_room i ?r w)" by (rule world_ok_set_room [OF wo i])
  have "distinct (rmClients (room_of w i))" using se by (simp add: seated_def)
  then have m: "match_ok ?n ?m 0 i (set_room i ?r w)"
    using d wo' by (simp add: match_ok_def room_of_set_room)
  have "seated i (set_room i ?r w)"
    by (rule seated_same [OF se]) (use i in \<open>simp_all add: room_of_set_room\<close>)
  then have "ok_world i (set_room i ?r w)"
    using wo' i d by (auto simp: ok_world_def room_of_set_room INT_MAX_def)
  then have s: "sane i (begin_match i t)"
    using assms(3) meanwhile_loses by (simp add: sane_def able_def w av ot list_all_iff)
  have t: "thread_ok ?n ?m 0 i (begin_match i t)"
    using m assms(3) meanwhile_other by (simp add: thread_ok_def w ot list_all_iff)
  have r: "rmRound (room_of (thWorld (begin_match i t)) i) = 0" and
    hp: "\<forall>p \<in> set (rmClients (room_of (thWorld (begin_match i t)) i)). clHp (client_of (thWorld (begin_match i t)) p) \<le> MAX_CHARACTER_MAX_HP"
    using i d by (simp_all add: w room_of_set_room)
  have v: "vigour i (thWorld (begin_match i t)) = vigour i w" "rmOpenCount (room_of (thWorld (begin_match i t)) i) = rmOpenCount (room_of w i)"
    using i by (simp_all add: w vigour_def room_of_set_room)
  note e = thread_ends [OF t s r hp]
  show "\<exists>t'. ProgressThread i t = Some (Inr t') \<and> world_ok (thWorld t')" by (rule e(1))
  show "vigour i w \<le> 808" using e(2) by (simp only: v)
  show "vigour i (thWorld tk) + k \<le> vigour i w"
    if "steps ([match_opening i (rmOpenCount (room_of w i)), first_creeps i] @
      replicate k (match_round i)) (begin_match i t) = Inr (Next, tk)"
    using e(3) [of k tk] that by (simp only: v)
qed

text \<open>
  C2 (match). Every match ends: when its thread begins in a room whose members are about to play, it comes
  back, and every index and pointer of the server is in range then.  The strength of the room, its members
  and the hit points of each, is at most 808 at the beginning, and after every \<open>k\<close> rounds it is less by
  \<open>k\<close> at least: each round costs a member or a hit point.  During each pause of the thread any number of
  events happen one after the other: packets in range of connected clients, connections that come and go,
  announcements, checks, the clock, and the beginnings and ends of other matches.
\<close>

theorem match_ends:
  assumes "startable i w" and "\<forall>es \<in> set ess. \<forall>e \<in> set es. beside i e"
  shows "(\<exists>t'. ProgressThread i (thread_start w (map (meanwhile a b) ess)) = Some (Inr t') \<and> world_ok (thWorld t')) \<and>
    vigour i w \<le> 808 \<and>
    (\<forall>k tk. steps ([match_opening i (rmOpenCount (room_of w i)), first_creeps i] @ replicate k (match_round i))
        (begin_match i (thread_start w (map (meanwhile a b) ess))) = Inr (Next, tk) \<longrightarrow>
      vigour i (thWorld tk) + k \<le> vigour i w)"
  using thread_of_startable [OF assms] by blast

text \<open>Two fighters before the first round; the second one leaves.\<close>

definition two_beginners :: world where
  "two_beginners = set_room 0 ((room_of two_fighters 0)\<lparr>rmRound := 0\<rparr>) two_fighters"

lemma two_beginners_start: "startable 0 two_beginners"
proof -
  have "room_ok 2 ((room_of two_fighters 0)\<lparr>rmRound := 0\<rparr>)"
    using match_okD(5) [OF two_fighters_ok] by (simp add: room_ok_def)
  then have m: "match_ok 2 1 0 0 two_beginners"
    unfolding two_beginners_def using two_fighters_ok
    by (intro match_ok_set_room [OF two_fighters_ok]) (simp_all add: match_ok_def)
  have "seated 0 two_beginners"
    using sq.empty_members by (auto simp: seated_def two_beginners_def two_fighters_def fighter_def room_of_set_room set_room_def less_Suc_eq)
  then show ?thesis using m
    by (auto simp: startable_def match_ok_def)
      (auto simp: two_beginners_def two_fighters_def fighter_def Client_new_def room_of_set_room set_room_def)
qed

theorem match_ends_witness:
  "(\<exists>t'. ProgressThread 0 (thread_start two_beginners (map (meanwhile 2 2) [[Clock 31000, Checks], [Gone 1 True]])) = Some (Inr t') \<and>
    world_ok (thWorld t')) \<and> vigour 0 two_beginners \<le> 808"
  using match_ends [OF two_beginners_start, of "[[Clock 31000, Checks], [Gone 1 True]]" 2 2] by (simp add: beside_def)

section \<open>From the queue to the end of the match\<close>

lemma created_startable:
  assumes ok: "world_ok w" and pl: "placed w" and len: "MAX_ROOM_PLAYER \<le> length (queue_list (wQueue w))"
    and free: "find_unused (wRooms w) = Some i" and r: "rmRound (room_of w i) = 0"
    and o: "opponents_ok (length (wClients w)) (rmBattleOpponents (room_of w i))"
    and hp: "\<forall>p \<in> set (take MAX_ROOM_PLAYER (queue_list (wQueue w))).
      0 \<le> clHp (client_of w p) \<and> clHp (client_of w p) \<le> MAX_CHARACTER_MAX_HP"
  shows "\<exists>w'. TryCreateRoomOrNullPtr w = Inr (Some i, w') \<and> startable i w' \<and>
    rmClients (room_of w' i) = take MAX_ROOM_PLAYER (queue_list (wQueue w)) \<and>
    queue_list (wQueue w') = drop MAX_ROOM_PLAYER (queue_list (wQueue w))"
proof -
  let ?ps = "take MAX_ROOM_PLAYER (queue_list (wQueue w))"
  obtain w' where w': "TryCreateRoomOrNullPtr w = Inr (Some i, w')" "keeps_ok w w'" "rmClients (room_of w' i) = ?ps"
    "queue_list (wQueue w') = drop MAX_ROOM_PLAYER (queue_list (wQueue w))"
    using TryCreate_full [OF ok len free] by blast
  note u = find_unused_Some [OF free]
  have e: "rmClients (room_of w i) = []" "rmSize (room_of w i) = 0"
    using world_ok_room [OF ok] u by (auto simp: room_ok_def)
  obtain q where q: "TakeRoomClients (wQueue w) = Inr (Some ?ps, q)"
    using sq.take_members [of "wQueue w"] ok len by (auto simp: world_ok_def)
  have nid: "clNetworkID (client_of w p) = int p" if "p \<in> set ?ps" for p
  proof -
    have "p \<in> set (queue_list (wQueue w))" using that by (rule in_set_takeD)
    then have "p < length (wClients w)" using ok by (simp add: world_ok_def)
    then show ?thesis by (rule world_ok_nid [OF ok])
  qed
  have ids: "ids_ok (client_of w) (set ?ps)" by (simp add: ids_ok_def inj_on_def nid)
  have "distinct ?ps" using pl by (simp add: placed_def)
  moreover have "length ?ps = 8" using len by simp
  ultimately obtain bm where bm: "BattleManager_SetClients (client_of w) ?ps = Inr bm" "manager_ok (set ?ps) 0 bm"
    using manager_ok_SetClients [of ?ps "client_of w"] ids by auto
  have rm: "rmBattleManager (room_of w' i) = bm \<and> rmRound (room_of w' i) = 0 \<and>
      rmBattleOpponents (room_of w' i) = rmBattleOpponents (room_of w i)"
    using w'(1) q free e u r bm(1)
    by (auto simp: TryCreateRoomOrNullPtr_def GetUnUsedRoom_def Let_def World_AddClients_def Room_AddClients_def
        AddOpenCount_def rbind_Inr_iff room_of_set_room)
  have "placed w'" by (rule placed_TryCreate [OF pl ok _ w'(1)]) (use free in simp)
  then have "seated i w'" using w'(2) u by (intro placed_seated) (simp_all add: keeps_ok_def)
  then have "startable i w'"
    using w' rm bm(2) u o hp TryCreate_hp [OF w'(1)] by (simp add: startable_def keeps_ok_def)
  then show ?thesis using w'(1,3,4) by blast
qed

text \<open>
  C24 (start). When eight clients wait, every client has one place at most, those eight have no more than the
  initial hit points and a cleared room is free, then the first eight become the members of this room in their
  order, the others wait on, and the match that its thread then plays ends, whatever events happen beside it
  one after the other during its pauses: packets in range of connected clients, connections that come and go,
  announcements, checks, the clock, and the beginnings and ends of other matches.
\<close>

theorem queue_to_end:
  assumes "world_ok w" and "placed w" and "MAX_ROOM_PLAYER \<le> length (queue_list (wQueue w))"
    and "find_unused (wRooms w) = Some i" and "rmRound (room_of w i) = 0"
    and "opponents_ok (length (wClients w)) (rmBattleOpponents (room_of w i))"
    and "\<forall>p \<in> set (take MAX_ROOM_PLAYER (queue_list (wQueue w))).
      0 \<le> clHp (client_of w p) \<and> clHp (client_of w p) \<le> MAX_CHARACTER_MAX_HP"
  shows "\<exists>w'. TryCreateRoomOrNullPtr w = Inr (Some i, w') \<and>
    rmClients (room_of w' i) = take MAX_ROOM_PLAYER (queue_list (wQueue w)) \<and>
    queue_list (wQueue w') = drop MAX_ROOM_PLAYER (queue_list (wQueue w)) \<and>
    (\<forall>ess. (\<forall>es \<in> set ess. \<forall>e \<in> set es. beside i e) \<longrightarrow>
      (\<exists>t'. ProgressThread i (thread_start w' (map (meanwhile a b) ess)) = Some (Inr t') \<and> world_ok (thWorld t')))"
proof -
  obtain w' where w': "TryCreateRoomOrNullPtr w = Inr (Some i, w')" "startable i w'"
    "rmClients (room_of w' i) = take MAX_ROOM_PLAYER (queue_list (wQueue w))"
    "queue_list (wQueue w') = drop MAX_ROOM_PLAYER (queue_list (wQueue w))"
    using created_startable [OF assms] by blast
  then show ?thesis using thread_of_startable(1) [OF w'(2)] by blast
qed

text \<open>Eight clients in the lobby.\<close>

definition lobby :: "ServerQueue \<Rightarrow> world" where
  "lobby q = \<lparr>wClients = map (\<lambda>p. (Client_new (int p))\<lparr>clStatus := ACTIVE, clSocket := Some p\<rparr>) [0..<8],
     wRooms = [Room_new], wQueue = q, wThreads = [], wSent = [], wRng = [], wNow = 0\<rparr>"

lemma enqueue_all: "\<exists>q. queue_good q \<and> queue_list q = xs"
proof (induction xs rule: rev_induct)
  case Nil
  then show ?case using sq.empty_members by blast
next
  case (snoc x xs)
  then obtain q where "queue_good q" "queue_list q = xs" by blast
  then show ?case using sq.enq_members [of q x] by auto
qed

lemma lobby_ok:
  assumes "queue_good q" and "queue_list q = [0..<8]"
  shows "world_ok (lobby q)" and "placed (lobby q)"
proof -
  have "client_ok 1 p ((Client_new (int p))\<lparr>clStatus := ACTIVE, clSocket := Some p\<rparr>)" for p
    using inventory_ok_new [of "int p"]
    by (simp add: client_ok_def inventory_ok_def inv_shape_def Slots_def) (simp add: Client_new_def)
  then show "world_ok (lobby q)" using assms by (simp add: world_ok_def lobby_def room_ok_def Room_new_def)
  show "placed (lobby q)" using assms by (simp add: placed_def lobby_def Room_new_def Client_new_def)
qed

theorem queue_to_end_witness:
  "\<exists>w w'. queue_list (wQueue w) = [0..<8] \<and> TryCreateRoomOrNullPtr w = Inr (Some 0, w') \<and>
    rmClients (room_of w' 0) = [0, 1, 2, 3, 4, 5, 6, 7] \<and>
    (\<exists>t'. ProgressThread 0 (thread_start w' (map (meanwhile 8 8) [[Checks], [Clock 5, Gone 3 True]])) = Some (Inr t') \<and> world_ok (thWorld t'))"
proof -
  obtain q where q: "queue_good q" "queue_list q = [0..<8]" using enqueue_all by blast
  have "\<exists>w'. TryCreateRoomOrNullPtr (lobby q) = Inr (Some 0, w') \<and>
    rmClients (room_of w' 0) = take MAX_ROOM_PLAYER (queue_list (wQueue (lobby q))) \<and>
    queue_list (wQueue w') = drop MAX_ROOM_PLAYER (queue_list (wQueue (lobby q))) \<and>
    (\<forall>ess. (\<forall>es \<in> set ess. \<forall>e \<in> set es. beside 0 e) \<longrightarrow>
      (\<exists>t'. ProgressThread 0 (thread_start w' (map (meanwhile 8 8) ess)) = Some (Inr t') \<and> world_ok (thWorld t')))"
    by (rule queue_to_end [OF lobby_ok [OF q]]) (simp_all add: lobby_def q Room_new_def Client_new_def opponents_ok_def)
  moreover have "\<forall>es \<in> set [[Checks], [Clock 5, Gone 3 True]]. \<forall>e \<in> set es. beside 0 e" by (simp add: beside_def)
  moreover have "queue_list (wQueue (lobby q)) = [0..<8]" using q by (simp add: lobby_def)
  moreover have "take MAX_ROOM_PLAYER [0..<8] = [0, 1, 2, 3, 4, 5, 6, 7]" by (simp add: upt_rec)
  ultimately show ?thesis by (metis (no_types, lifting))
qed

end
