(* ===== verification/Spec2Isabelle.thy ===== *)
theory Spec2Isabelle
  imports Component_Properties Server_Properties Library_Properties Sockets Match_End
begin

text \<open>
  The game server of ISEGYE IDOL GAME (\<open>src/Server/Server\<close>): clients connect, wait for a match, and
  eight of them play it in a room, round by round, until fewer than two are left.

  \<^bold>\<open>The program and its parts.\<close>  The server keeps one array of clients, one array of rooms and one
  queue.  Worker threads take completed network operations: they accept connections, put the bytes
  of a connection together to packets (\<open>Server::PacketConstruct\<close>) and handle each packet
  (\<open>Server::ProcessPacket\<close>).  A request for a match puts the client into the queue
  (\<open>ServerQueue\<close>); the eighth one takes a room (\<open>RoomManager\<close>) and starts its thread
  (\<open>Room::ProgressThread\<close>), which runs ready stages, battles and fights against monsters.  In a
  stage the clients are copied to avatars (\<open>BattleAvatar\<close>) whose items (\<open>Items.h\<close>) act on each
  other; opponents are drawn by the \<open>BattleManager\<close>; the outcome goes to the hit points of the
  clients and, as packets (\<open>PacketStruct.h\<close>), to everybody in the room.

  \<^bold>\<open>Where it is modelled.\<close>
  \<^item> \<open>Prelude\<close>: 32-bit arithmetic with its wrap-around, the error values, draws, single-precision
    products.  \<open>Server_Types\<close>: constants and enumerations (\<open>SettingData.h\<close>, \<open>ServerStruct.h\<close>,
    \<open>ItemBase.h\<close>), the slot item (\<open>Item.h\<close>).  \<open>Item_Table\<close>: the table of the 46 items and the tiers.
  \<^item> \<open>Client\<close>, \<open>Avatar\<close>, \<open>Battle_Manager\<close>, \<open>Room\<close>, \<open>Server_Queue\<close>: the classes of these names, each
    a record with the fields of the class and one definition for each operation.  The queue is the doubly
    linked list of the source on an explicit store of nodes.
  \<^item> \<open>Packets\<close>: the structures of \<open>PacketStruct.h\<close> as one datatype, their bytes and constructors.
  \<^item> \<open>World\<close>: the record \<open>world\<close> of clients, rooms, queue, started threads, sent messages, raw random
    numbers and the clock; sending, joining and leaving.  \<open>Items\<close>: what each item does (\<open>Items.h\<close>).
  \<^item> \<open>Packet_Construct\<close>, \<open>Process_Packet\<close>, \<open>Connections\<close>: the receive loop, the packet handlers, and the
    worker and main threads of \<open>Server.cpp\<close>.
  \<^item> \<open>Stage\<close>, \<open>Room_Battle\<close>, \<open>Room_Creep\<close>, \<open>Progress\<close>: the thread of a match (\<open>Room.cpp\<close>), a stage
    being a list of steps on the record \<open>thread\<close> of the locals and the server.
  \<^item> \<open>Client_Queue\<close>, \<open>Slot_Store\<close> and the locale \<open>packet_handler\<close> of \<open>Reassembly\<close>: the interfaces between
    the queue and matching, the inventory and its users, the receive loop and the handlers; each is
    interpreted on the definitions of the program (\<open>sq\<close>, \<open>inv\<close>, \<open>pp\<close>).
  \<^item> \<open>Byte_Streams\<close>, \<open>Bit_Streams\<close>, \<open>Byte_Swap\<close>, \<open>Sockets\<close>: the library \<open>src/Server-Library\<close>, the streams
    of bytes and of bits on explicit blocks of memory, the numbers of game objects, byte order and
    addresses, and the socket wrappers over the answers of the operating system.  \<open>Channel\<close> is the
    interface of a stream that is written and read back, interpreted on both kinds of streams.

  A pointer to a client or a room is its index.  Signed integers are \<^typ>\<open>int\<close> with \<open>i32\<close> at every
  operation, bytes are words.  Randomness is a list of raw generator values, so that a statement for
  all lists is one for all outcomes.  An operation that can leave the defined behaviour of C++
  (index out of bounds, null pointer, division by zero, failed assertion, conversion overflow, a
  message longer than its buffer) returns \<open>Inl\<close>.

  \<^bold>\<open>What the lemmas show.\<close>
  \<^item> \<open>Inventory\<close>, \<open>Draws\<close>, \<open>Trades\<close>, \<open>Item_Facts\<close>, \<open>Matching\<close>, \<open>Packet_Codec\<close>, \<open>Reassembly\<close>, summed up
    in \<open>Component_Properties\<close>: each component does what it promises, among others that the linked queue implements
    a list, the draw of opponents pairs every member once, the codec is injective and the receive
    loop hands over exactly the complete packets whatever the pieces they arrive in, as long as none ends
    within a size field (\<open>begun\<close>).
  \<^item> \<open>World_Facts\<close>, \<open>Handler_Facts\<close>, \<open>Handler_Invariant\<close>, \<open>Handler_Defined\<close>: the invariant \<open>world_ok\<close> (all
    indices in range, inventories well-formed, sizes right) is kept by every handler on every packet,
    and on packets \<open>in_range\<close> every handler returns.
  \<^item> \<open>Stage_Facts\<close>, \<open>Duel_Facts\<close>, \<open>Turn_Facts\<close>, \<open>Turn_Safe\<close>, \<open>Battle_Safe\<close>, \<open>Battle_Stage\<close>, \<open>Creep_Safe\<close>,
    \<open>Match_Safe\<close>, summed up in \<open>Match_Properties\<close>: the rules \<open>runs\<close> for steps, and with them that every stage
    returns and keeps the invariant \<open>match_ok\<close> of its match, and so does the thread.
  \<^item> \<open>Other_Threads\<close>, \<open>Connection_Facts\<close>, \<open>Handler_Footprint\<close>, \<open>Placement\<close>, \<open>Server_Run\<close>, \<open>Stage_Run\<close>, summed up in
    \<open>Server_Properties\<close>: the running server.  Its events are packets, new, lost and silent connections,
    announcements, the clock, and the beginnings and ends of matches; \<open>allowed\<close> says which can happen: packets are those
    of connected clients and \<open>in_range\<close>.  Between two pauses (\<open>Sleep\<close>) the thread of a match is taken to run
    alone; during a pause other threads do anything that keeps \<open>match_ok\<close> (\<open>other_ok\<close>), which is proved of any number of
    events (\<open>meanwhile\<close>; what is not possible when its turn comes is left out).  The relation \<open>server_run\<close> collects the
    events and the stages of the matches, with events and whole stages of other matches in the pauses of a stage.  The
    invariant \<open>world_ok\<close> holds in every state it reaches, and as long as no client asks for a match while it waits for
    one (\<open>orderly\<close>; the server does not refuse it), every client has one place (\<open>placed\<close>).  The locales \<open>event_law\<close> and
    \<open>deed_law\<close> state what an invariant needs for that; they are interpreted on \<open>sound\<close>, \<open>stands\<close> and \<open>match_ok\<close>.
  \<^item> \<open>Tame\<close>, \<open>Stepwise\<close>, \<open>Step_Laws\<close>, \<open>Stage_Laws\<close>, \<open>Match_Laws\<close>: the locale \<open>stepwise\<close> carries a relation from the
    steps to the stages, and \<open>stage_laws\<close> states the laws under which every stage of a match respects a relation
    between states of the server when the other threads do.
  \<^item> \<open>Seats\<close>, \<open>Losses\<close>, \<open>Partial\<close>, \<open>Battle_Loss\<close>, \<open>Battle_Cost\<close>, \<open>Battle_Start\<close>, \<open>Match_Rounds\<close>, summed up in
    \<open>Match_End\<close>: every match ends.  The members of a running match keep their seats (\<open>seated\<close>), whatever else the
    clients do; with the laws, no stage gives the room of the match a member or a member hit points (\<open>loses\<close>), nor
    does any event beside the match.  The triples \<open>sure\<close> and \<open>hoare\<close> follow a drawn pair of two members through a
    battle: one of them is wounded or gone when it is over (\<open>BattleStage_costs\<close>).  So the sum of members and hit
    points (\<open>vigour\<close>) falls with every round.
  \<^item> \<open>Bit_Channel\<close>, \<open>Library_Properties\<close>: the bits of a block, the laws of the two channels, and that what
    is written into a stream, packets included, is read back from it.

  \<^bold>\<open>Bounds.\<close>  A room has 8 members at most, so a battle has 8 avatars and a monster stage 16.  A
  pair of avatars writes at most 92 bytes per half turn, so the stream of 4 (or 8) pairs stays below the
  1300 bytes of the network buffer.  A stage has 10 cycles of 6 items and 2 halves, 120 half turns, so
  the remaining time counted down from it never goes below zero.  The counters of past fights have 64 bits (\<open>K < INT64_MAX\<close>); a
  round counter of 32 bits and 4 fights in a round give the bound \<open>4 * r + 7 \<le> INT_MAX\<close> on the
  rounds of a match.  Eight members of 100 hit points are good for 808 rounds at most, well below it.  The
  receive loop and the loop of the rounds are \<open>partial_function\<close>s; a size field of zero makes the first run
  for ever, the second one always ends.

  \<^bold>\<open>Not modelled.\<close>  The calls of the operating system (sockets, completion ports, creation of threads) and the
  locks; how long a pause lasts; two stages whose pauses overlap without one lying within a pause of the other; the logger and the configuration of the locale.  \<open>reoul/*\<close>, the
  headers of a library that is not in the repository: \<open>const_wrapper\<close> is taken to have the layout of
  its value, and \<open>OutputMemoryStream\<close> to be the class of that name in \<open>src/Server-Library\<close>, whose writes
  append (\<open>packets_in_stream\<close>).  \<open>std::shuffle\<close> is drawing the elements one by one.  The float conversions,
  the error texts and the printf functions of the library, and the clients of the game.
\<close>

section \<open>The server\<close>

text \<open>
  C4 (defined). A handler returns, without leaving the defined behaviour, on every packet in range, and it
  keeps the invariant.  In range means: the identifier it carries names a client, its slots exist, its name ends
  within its field, a size that is forwarded fits the buffer, the byte of a notification is one of those that the
  handler's switch has a case for, and a room is free when the request is that of the eighth waiting client.
\<close>

theorem handlers_return:
  assumes "world_ok w" and "conn < length (wClients w)" and "length buf = MAX_PACKET_SIZE" and "in_range conn buf w"
  shows "\<exists>w'. ProcessPacket conn buf w = Inr w' \<and> world_ok w'"
  using ProcessPacket_defined [OF assms] postD [OF ProcessPacket_keeps [OF assms(1,2)]]
  by (auto simp: defined_def keeps_ok_def)

theorem handlers_return_witness:
  "\<exists>w'. ProcessPacket 0 ([8, 0, 8, 0, 0, 0, 0, 3] @ replicate 1292 0) small = Inr w' \<and> world_ok w'"
  by (rule handlers_return [OF small_ok])
    (simp_all add: small_def in_range_def rd_type_def of_num_def packet_types_def rd_u16_def)

text \<open>
  C23 (room). When eight clients wait and a room is free, that room gets exactly these eight, in the
  order of their arrival, and the queue goes on with the others.
\<close>

theorem eight_fill_a_room:
  assumes "world_ok w" and "MAX_ROOM_PLAYER \<le> length (queue_list (wQueue w))" and "find_unused (wRooms w) = Some i"
  shows "\<exists>w'. TryCreateRoomOrNullPtr w = Inr (Some i, w') \<and> world_ok w' \<and>
    rmClients (room_of w' i) = take MAX_ROOM_PLAYER (queue_list (wQueue w)) \<and>
    queue_list (wQueue w') = drop MAX_ROOM_PLAYER (queue_list (wQueue w))"
  using TryCreate_full [OF assms] by (auto simp: keeps_ok_def)

text \<open>The same client eight times in the queue: the server does not prevent it.\<close>

definition crowded :: "world \<Rightarrow> bool" where
  "crowded w \<longleftrightarrow> world_ok w \<and> queue_list (wQueue w) = replicate 8 0 \<and> find_unused (wRooms w) = Some 0"

lemma enqueue_many:
  "queue_good q \<Longrightarrow> \<exists>q'. queue_good q' \<and> queue_list q' = queue_list q @ replicate n c"
proof (induction n)
  case 0
  then show ?case by auto
next
  case (Suc n)
  then obtain q1 where "queue_good q1" "queue_list q1 = queue_list q @ replicate n c" by auto
  then obtain q2 where "queue_good q2" "queue_list q2 = queue_list q1 @ [c]" using sq.enq_members by blast
  then show ?case using \<open>queue_list q1 = _\<close> by (intro exI [of _ q2]) (simp add: replicate_append_same)
qed

theorem eight_fill_a_room_witness:
  "\<exists>w w'. crowded w \<and> TryCreateRoomOrNullPtr w = Inr (Some 0, w') \<and> rmClients (room_of w' 0) = replicate 8 0"
proof -
  obtain q where q: "queue_good q" "queue_list q = replicate 8 0"
    using enqueue_many [of ServerQueue_new 8 0] sq.empty_members by auto
  have "world_ok (small\<lparr>wQueue := q\<rparr>)" using world_ok_queue [OF small_ok q(1)] q(2) by (simp add: small_def)
  then have c: "crowded (small\<lparr>wQueue := q\<rparr>)" using q by (simp add: crowded_def small_def Room_new_def)
  then show ?thesis
    using eight_fill_a_room [of "small\<lparr>wQueue := q\<rparr>" 0] q(2) by (auto simp: crowded_def)
qed

text \<open>A room in the ready stage with one member.\<close>

definition ready :: "client \<Rightarrow> world" where
  "ready c = small\<lparr>wClients := [c], wRooms := [Room_new\<lparr>rmClients := [0], rmSize := 1, rmIsRun := True,
     rmCurRoomStatusType := St_ReadyStage\<rparr>]\<rparr>"

lemma ready_ok: "client_ok 1 0 c \<Longrightarrow> world_ok (ready c)"
  using sq.empty_members by (simp add: world_ok_def ready_def small_def room_ok_def Room_new_def)

lemma ready_simps [simp]: "client_of (ready c) 0 = c" "length (wClients (ready c)) = 1"
  "rmCurRoomStatusType (room_of (ready c) 0) = St_ReadyStage"
  by (simp_all add: ready_def)

lemma sample_client_ok: "client_ok 1 0 sample"
  using sample_ok by (simp add: client_ok_def) (simp add: sample_def Client_new_def)



section \<open>Tickets\<close>

text \<open>
  C19 (ticket). In the ready stage a ticket gives an item of one of its tiers, which enters the first
  free slot, and its count goes down by one; all members of the room get the same bytes, and
  nothing else of the server changes.
\<close>

theorem ticket_used:
  assumes "world_ok w" and "p < length (wClients w)" and "clRoomPtr (client_of w p) = Some i"
    and "rmCurRoomStatusType (room_of w i) = St_ReadyStage" and "TicketCount t (client_of w p) \<noteq> 0"
  shows "\<exists>w' ty k bytes. use_ticket t p w = Inr w' \<and> world_ok w' \<and>
    k \<in> ticket_tiers t \<and> ty \<in> set (tier_types k) \<and>
    wClients w' = (wClients w)[p := SetTicketCount t (i32 (TicketCount t (client_of w p) - 1))
      (fst (AddItem (client_of w p) ty))] \<and>
    wRooms w' = wRooms w \<and> wQueue w' = wQueue w \<and>
    wSent w' = wSent w @ map (\<lambda>q. (q, bytes)) (rmClients (room_of w i))"
  using use_ticket_spec [OF assms] unfolding keeps_ok_def by blast

theorem ticket_used_witness:
  "\<exists>w' ty. use_ticket Normal 0 (ready sample) = Inr w' \<and>
    client_of w' 0 = SetTicketCount Normal (i32 (TicketCount Normal sample - 1)) (fst (AddItem sample ty))"
proof -
  obtain w' ty where "use_ticket Normal 0 (ready sample) = Inr w'"
    "wClients w' = (wClients (ready sample))[0 := SetTicketCount Normal (i32 (TicketCount Normal sample - 1))
      (fst (AddItem sample ty))]"
    using ticket_used [OF ready_ok [OF sample_client_ok], of 0 0 Normal] by (auto simp: sample_room)
  then show ?thesis by (intro exI [of _ w'] exI [of _ ty]) simp
qed

text \<open>
  C37 (full). The count goes down even when every slot is taken: the drawn item is lost.
\<close>

theorem ticket_lost_when_full:
  assumes "world_ok w" and "p < length (wClients w)" and "clRoomPtr (client_of w p) = Some i"
    and "rmCurRoomStatusType (room_of w i) = St_ReadyStage" and "TicketCount t (client_of w p) \<noteq> 0"
    and "\<forall>it \<in> set (Slots (client_of w p)). mType it \<noteq> 0"
  shows "\<exists>w'. use_ticket t p w = Inr w' \<and>
    client_of w' p = SetTicketCount t (i32 (TicketCount t (client_of w p) - 1)) (client_of w p)"
proof -
  note sh = inventory_ok_shape [OF world_ok_inventory [OF assms(1,2)]]
  have "AddItem (client_of w p) ty = (client_of w p, 16)" for ty
  proof -
    have "find_empty (clUnUsingItems (client_of w p)) = None" "find_empty (clUsingItems (client_of w p)) = None"
      using assms(6) by (auto simp: find_empty_None Slots_def)
    then show ?thesis by (simp add: AddItem_def)
  qed
  then show ?thesis using use_ticket_spec [OF assms(1-5)] assms(2) by fastforce
qed

definition full_sample :: client where
  "full_sample = sample\<lparr>clUsingItems := map (\<lambda>it. it\<lparr>mType := 2\<rparr>) (clUsingItems sample),
     clUnUsingItems := map (\<lambda>it. it\<lparr>mType := 3\<rparr>) (clUnUsingItems sample)\<rparr>"

lemma full_sample_inventory: "inventory_ok full_sample"
  by code_simp

theorem ticket_lost_when_full_witness:
  "\<exists>w'. use_ticket Normal 0 (ready full_sample) = Inr w' \<and>
    client_of w' 0 = SetTicketCount Normal (i32 (TicketCount Normal full_sample - 1)) full_sample"
proof -
  have "client_ok 1 0 full_sample"
    using full_sample_inventory by (simp add: client_ok_def) (simp add: full_sample_def sample_def Client_new_def)
  moreover have "\<forall>it \<in> set (Slots full_sample). mType it \<noteq> 0" by code_simp
  moreover have "clRoomPtr full_sample = Some 0" "clNormalItemTicketCount full_sample = 1"
    by (simp_all add: full_sample_def sample_room)
  ultimately show ?thesis using ticket_lost_when_full [OF ready_ok, of full_sample 0 0 Normal] by simp
qed

end
